(* ===== verification/Prelude.thy ===== *)
theory Prelude
  imports Main "HOL-Library.Word"
begin

text \<open>
  Shared vocabulary of the development: the machine integers of the sensor node, the ways a
  run of the C code can go wrong, the sequencing of operations that can go wrong, and the
  named collections the component theories add their facts to.
\<close>

unbundle bit_operations_syntax

type_synonym byte = "8 word"
type_synonym u16 = "16 word"
type_synonym u8x2 = "byte \<times> byte"

text \<open>
  What ends a run of the firmware: a dereference of the null pointer, an access outside the
  object pointed into, a failed \<open>ASSERT\<close> (\<open>exit(-1)\<close> in \<open>base/log.h\<close>, which the Makefile turns
  on with \<open>TEAMLK_DEBUG\<close>), and a pointer-chasing loop that never reaches \<open>NULL\<close>.
\<close>

datatype fault = Null_Deref | Out_Of_Bounds | Assert_Failed | Diverge

type_synonym 'a result = "fault + 'a"

fun bindR :: "'a result \<Rightarrow> ('a \<Rightarrow> 'b result) \<Rightarrow> 'b result" where
  "bindR (Inl e) f = Inl e"
| "bindR (Inr x) f = f x"

definition assertR :: "bool \<Rightarrow> unit result" where
  "assertR b = (if b then Inr () else Inl Assert_Failed)"

text \<open>The run returns, and its result satisfies \<open>P\<close>.\<close>

definition returns :: "'a result \<Rightarrow> ('a \<Rightarrow> bool) \<Rightarrow> bool" where
  "returns r P \<longleftrightarrow> (\<exists>x. r = Inr x \<and> P x)"

text \<open>If the run returns, its result satisfies \<open>P\<close>; what a run keeps is proved with it.\<close>

definition ensures :: "'a result \<Rightarrow> ('a \<Rightarrow> bool) \<Rightarrow> bool" where
  "ensures r P \<longleftrightarrow> (\<forall>x. r = Inr x \<longrightarrow> P x)"

named_theorems ensures_intros \<open>rules that follow the structure of a run\<close>

subsection \<open>Sequencing\<close>

lemma bindR_assoc: "bindR (bindR r f) g = bindR r (\<lambda>x. bindR (f x) g)"
  by (cases r) auto

lemma bindR_Inr_right [simp]: "bindR r Inr = r"
  by (cases r) auto

lemma bindR_eq_Inr: "bindR r f = Inr y \<longleftrightarrow> (\<exists>x. r = Inr x \<and> f x = Inr y)"
  by (cases r) auto

lemma bindR_eq_Inl: "bindR r f = Inl e \<longleftrightarrow> r = Inl e \<or> (\<exists>x. r = Inr x \<and> f x = Inl e)"
  by (cases r) auto

lemma assertR_True [simp]: "assertR True = Inr ()"
  by (simp add: assertR_def)

lemma assertR_False [simp]: "assertR False = Inl Assert_Failed"
  by (simp add: assertR_def)

lemma assertR_eq_Inr [simp]: "assertR b = Inr u \<longleftrightarrow> b"
  by (simp add: assertR_def)

lemma returns_Inr [simp]: "returns (Inr x) P \<longleftrightarrow> P x"
  by (simp add: returns_def)

lemma returns_Inl [simp]: "\<not> returns (Inl e) P"
  by (simp add: returns_def)

lemma returns_bindR: "returns r Q \<Longrightarrow> (\<And>x. Q x \<Longrightarrow> returns (f x) P) \<Longrightarrow> returns (bindR r f) P"
  by (auto simp: returns_def)

lemma ensures_Inr [simp]: "ensures (Inr x) P \<longleftrightarrow> P x"
  by (simp add: ensures_def)

lemma ensures_Inl [simp]: "ensures (Inl e) P"
  by (simp add: ensures_def)

lemma ensures_bindR [ensures_intros]:
  "ensures r Q \<Longrightarrow> (\<And>x. Q x \<Longrightarrow> ensures (f x) P) \<Longrightarrow> ensures (bindR r f) P"
  by (cases r) (simp_all add: ensures_def)

lemma ensures_read: "(\<And>x. r = Inr x \<Longrightarrow> ensures (f x) P) \<Longrightarrow> ensures (bindR r f) P"
  by (cases r) (simp_all add: ensures_def)

lemma ensures_if [ensures_intros]:
  "(b \<Longrightarrow> ensures r P) \<Longrightarrow> (\<not> b \<Longrightarrow> ensures s P) \<Longrightarrow> ensures (if b then r else s) P"
  by simp

lemma ensures_option [ensures_intros]:
  "(x = None \<Longrightarrow> ensures r P) \<Longrightarrow> (\<And>y. x = Some y \<Longrightarrow> ensures (f y) P) \<Longrightarrow>
   ensures (case x of None \<Rightarrow> r | Some y \<Rightarrow> f y) P"
  by (cases x) simp_all

lemma ensures_pair [ensures_intros]:
  "(\<And>a b. x = (a, b) \<Longrightarrow> ensures (f a b) P) \<Longrightarrow> ensures (case x of (a, b) \<Rightarrow> f a b) P"
  by (cases x) simp

lemma ensuresD: "ensures r P \<Longrightarrow> r = Inr x \<Longrightarrow> P x"
  by (simp add: ensures_def)

lemma ensures_mono: "ensures r Q \<Longrightarrow> (\<And>x. Q x \<Longrightarrow> P x) \<Longrightarrow> ensures r P"
  by (simp add: ensures_def)

lemma ensures_returns: "returns r P \<Longrightarrow> ensures r P"
  by (auto simp: returns_def)

lemma returns_mono: "returns r Q \<Longrightarrow> (\<And>x. Q x \<Longrightarrow> P x) \<Longrightarrow> returns r P"
  by (auto simp: returns_def)

lemma returnsE: "returns r P \<Longrightarrow> (\<And>x. r = Inr x \<Longrightarrow> P x \<Longrightarrow> thesis) \<Longrightarrow> thesis"
  by (auto simp: returns_def)

lemma returns_assertR [simp]: "returns (assertR b) P \<longleftrightarrow> b \<and> P ()"
  by (simp add: assertR_def)

subsection \<open>Words\<close>

lemma unat_Suc_less: "unat (x :: byte) < n \<Longrightarrow> n < 256 \<Longrightarrow> unat (x + 1) = Suc (unat x)"
  by (simp add: unat_word_ariths)

lemma unat_pred: "x \<noteq> (0 :: byte) \<Longrightarrow> unat (x - 1) = unat x - 1"
  by (metis unat_minus_one)

lemma unat_byte_less: "unat (x :: byte) < 256"
  using unsigned_less [of x] by simp

lemma unat_byte_less_bound [simp]: "256 \<le> n \<Longrightarrow> unat (x :: byte) < n"
  using unat_byte_less [of x] by linarith

lemma unat_u16_less: "unat (x :: u16) < 65536"
  using unsigned_less [of x] by simp

lemma unat_ucast_u16 [simp]: "unat (ucast (x :: byte) :: u16) = unat x"
  by (simp add: unsigned_ucast_eq take_bit_nat_eq_self_iff)

subsection \<open>Lists\<close>

lemma nth_list_update_if:
  "i < length xs \<Longrightarrow> (xs[j := x]) ! i = (if i = j then x else xs ! i)"
  by simp

lemma map_cong_update_notin:
  "j \<notin> set is \<Longrightarrow> map (\<lambda>i. f (m[j := c] ! i)) is = map (\<lambda>i. f (m ! i)) is"
  by (induction "is") auto

lemma distinct_length_le_bound:
  assumes "distinct xs" and "set xs \<subseteq> {..<n}"
  shows "length xs \<le> n"
  by (metis assms card_lessThan card_mono distinct_card finite_lessThan)

end
