(* ===== verification/Linked_Memory.thy ===== *)
theory Linked_Memory
  imports Prelude
begin

text \<open>
  Singly linked lists in a block of cells. A pointer is a cell number or \<open>NULL\<close> (\<open>None\<close>); the
  field that links the cells is given by a selector, since the same cells are linked twice
  (the queue's own \<open>next\<close> and the packet buffer's \<open>next\<close>). The traversal loops of the C code are
  the \<open>walk_*\<close> functions: each step is one dereference, a pointer outside the block is an
  out-of-bounds access, and running through more cells than there are means that the loop
  never ends. The relation \<open>chain\<close> says which cells a list consists of.
\<close>

fun walk_last :: "nat \<Rightarrow> ('c \<Rightarrow> nat option) \<Rightarrow> 'c list \<Rightarrow> nat \<Rightarrow> nat result" where
  "walk_last 0 nx m i = Inl Diverge"
| "walk_last (Suc fuel) nx m i =
     (if i < length m
      then (case nx (m ! i) of None \<Rightarrow> Inr i | Some j \<Rightarrow> walk_last fuel nx m j)
      else Inl Out_Of_Bounds)"

fun walk_last2 :: "nat \<Rightarrow> ('c \<Rightarrow> nat option) \<Rightarrow> 'c list \<Rightarrow> nat option \<Rightarrow> nat
    \<Rightarrow> (nat option \<times> nat) result" where
  "walk_last2 0 nx m prev i = Inl Diverge"
| "walk_last2 (Suc fuel) nx m prev i =
     (if i < length m
      then (case nx (m ! i) of None \<Rightarrow> Inr (prev, i) | Some j \<Rightarrow> walk_last2 fuel nx m (Some i) j)
      else Inl Out_Of_Bounds)"

fun walk_find :: "nat \<Rightarrow> ('c \<Rightarrow> nat option) \<Rightarrow> (nat \<Rightarrow> 'c \<Rightarrow> bool) \<Rightarrow> 'c list \<Rightarrow> nat option \<Rightarrow> nat option
    \<Rightarrow> (nat option \<times> nat) option result" where
  "walk_find fuel nx hit m prev None = Inr None"
| "walk_find 0 nx hit m prev (Some i) = Inl Diverge"
| "walk_find (Suc fuel) nx hit m prev (Some i) =
     (if i < length m
      then (if hit i (m ! i) then Inr (Some (prev, i))
            else walk_find fuel nx hit m (Some i) (nx (m ! i)))
      else Inl Out_Of_Bounds)"

fun walk_all :: "nat \<Rightarrow> ('c \<Rightarrow> nat option) \<Rightarrow> 'c list \<Rightarrow> nat option \<Rightarrow> nat list" where
  "walk_all fuel nx m None = []"
| "walk_all 0 nx m (Some i) = []"
| "walk_all (Suc fuel) nx m (Some i) =
     (if i < length m then i # walk_all fuel nx m (nx (m ! i)) else [])"

primrec path :: "('c \<Rightarrow> nat option) \<Rightarrow> 'c list \<Rightarrow> nat option \<Rightarrow> nat list \<Rightarrow> nat option \<Rightarrow> bool" where
  "path nx m p [] q \<longleftrightarrow> p = q"
| "path nx m p (a # as) q \<longleftrightarrow> p = Some a \<and> a < length m \<and> path nx m (nx (m ! a)) as q"

definition chain :: "('c \<Rightarrow> nat option) \<Rightarrow> 'c list \<Rightarrow> nat option \<Rightarrow> nat list \<Rightarrow> bool" where
  "chain nx m p as \<longleftrightarrow> path nx m p as None"

subsection \<open>Paths and chains\<close>

lemma chain_Nil [simp]: "chain nx m p [] \<longleftrightarrow> p = None"
  by (simp add: chain_def)

lemma chain_Cons [simp]:
  "chain nx m p (a # as) \<longleftrightarrow> p = Some a \<and> a < length m \<and> chain nx m (nx (m ! a)) as"
  by (simp add: chain_def)

lemma chain_None [simp]: "chain nx m None as \<longleftrightarrow> as = []"
  by (cases as) auto

lemma chain_Some: "chain nx m (Some a) as \<longleftrightarrow>
    (\<exists>bs. as = a # bs \<and> a < length m \<and> chain nx m (nx (m ! a)) bs)"
  by (cases as) auto

lemma path_append: "path nx m p (as @ bs) r \<longleftrightarrow> (\<exists>q. path nx m p as q \<and> path nx m q bs r)"
  by (induction as arbitrary: p) auto

lemma chain_append: "chain nx m p (as @ bs) \<longleftrightarrow> (\<exists>q. path nx m p as q \<and> chain nx m q bs)"
  by (auto simp: chain_def path_append)

lemma path_bound: "path nx m p as q \<Longrightarrow> set as \<subseteq> {..<length m}"
  by (induction as arbitrary: p) auto

lemma chain_bound: "chain nx m p as \<Longrightarrow> set as \<subseteq> {..<length m}"
  by (simp add: chain_def path_bound)

lemma chain_unique: "chain nx m p as \<Longrightarrow> chain nx m p bs \<Longrightarrow> as = bs"
  by (induction as arbitrary: p bs) (auto simp: chain_Some)

lemma chain_head_notin: "chain nx m (nx (m ! a)) as \<Longrightarrow> a \<notin> set as"
proof
  assume c: "chain nx m (nx (m ! a)) as" and "a \<in> set as"
  then obtain bs cs where as: "as = bs @ a # cs" by (auto simp: in_set_conv_decomp)
  with c have "chain nx m (nx (m ! a)) cs" by (auto simp: chain_append)
  with c have "as = cs" by (rule chain_unique)
  with as show False by simp
qed

lemma chain_distinct: "chain nx m p as \<Longrightarrow> distinct as"
  by (induction as arbitrary: p) (auto dest: chain_head_notin)

lemma chain_length: "chain nx m p as \<Longrightarrow> length as \<le> length m"
  by (metis chain_bound chain_distinct distinct_length_le_bound)

text \<open>Writing a cell outside a list, or its payload only, leaves the list as it is.\<close>

lemma path_update_notin [simp]:
  "a \<notin> set as \<Longrightarrow> path nx (m[a := c]) p as q = path nx m p as q"
  by (induction as arbitrary: p) auto

lemma chain_update_notin [simp]:
  "a \<notin> set as \<Longrightarrow> chain nx (m[a := c]) p as = chain nx m p as"
  by (simp add: chain_def)

lemma path_update_payload: "nx c = nx (m ! a) \<Longrightarrow> path nx (m[a := c]) p as q = path nx m p as q"
proof (induction as arbitrary: p)
  case (Cons b as)
  have same: "nx (m[a := c] ! b) = nx (m ! b)" if "b < length m"
    using Cons.prems that by (cases "b = a") simp_all
  show ?case
    by (simp only: path.simps length_list_update Cons.IH [OF Cons.prems] same cong: conj_cong)
qed simp

lemma chain_update_payload: "nx c = nx (m ! a) \<Longrightarrow> chain nx (m[a := c]) p as = chain nx m p as"
  by (simp add: chain_def path_update_payload)

lemma chain_link_last:
  assumes "chain nx m p (as @ [a])" and "a \<notin> set as" and "nx c = q" and "chain nx m q bs"
    and "a \<notin> set bs"
  shows "chain nx (m[a := c]) p (as @ a # bs)"
  using assms by (auto simp: chain_append)

text \<open>Taking a cell out of the middle of a list.\<close>

lemma chain_unlink:
  assumes "chain nx m p (as @ b # i # bs)" and "nx c = nx (m ! i)" and "distinct (as @ b # i # bs)"
  shows "chain nx (m[b := c]) p (as @ b # bs)"
proof -
  from assms(1) obtain q where q: "path nx m p as q" "chain nx m q (b # i # bs)"
    by (auto simp: chain_append)
  from q(2) have "b < length m" "chain nx m (nx (m ! i)) bs" by auto
  with q assms show ?thesis
    by (auto simp: chain_append intro!: exI [of _ "Some b"])
qed

text \<open>The two updates the list operations make: append a cell, and take one out.\<close>

lemma split_last: "as \<noteq> [] \<Longrightarrow> as @ bs = butlast as @ last as # bs"
  by (metis append_Cons append_Nil append_assoc append_butlast_last_id)

lemma last_notin_butlast: "distinct as \<Longrightarrow> as \<noteq> [] \<Longrightarrow> last as \<notin> set (butlast as)"
  by (metis append_butlast_last_id distinct_append not_distinct_conv_prefix)

lemma chain_extend:
  assumes ch: "chain nx m head as" "as \<noteq> []" and b: "b < length m" "b \<notin> set as"
    and c: "nx c = None" and d: "nx d = Some b"
  shows "chain nx (m[b := c, last as := d]) head (as @ [b])"
proof -
  from ch(2) have l: "last as \<in> set as" by simp
  then have l': "last as < length m" "last as \<noteq> b" using chain_bound [OF ch(1)] b by auto
  have "chain nx (m[b := c]) head (butlast as @ [last as])" using ch b by simp
  then have "chain nx (m[b := c, last as := d]) head (butlast as @ last as # [b])"
    by (rule chain_link_last)
      (use ch b c d l' last_notin_butlast [OF chain_distinct [OF ch(1)] ch(2)] in auto)
  then show ?thesis using split_last [OF ch(2)] by metis
qed

lemma chain_take_out:
  assumes ch: "chain nx m head (as @ i # bs)" "as \<noteq> []" and d: "nx d = nx (m ! i)"
  shows "chain nx (m[last as := d]) head (as @ bs)"
proof -
  have "chain nx m head (butlast as @ last as # i # bs)"
    using ch(1) split_last [OF ch(2)] by metis
  moreover have "distinct (butlast as @ last as # i # bs)"
    using chain_distinct [OF ch(1)] split_last [OF ch(2)] by metis
  ultimately have "chain nx (m[last as := d]) head (butlast as @ last as # bs)"
    using d by (intro chain_unlink) auto
  then show ?thesis using split_last [OF ch(2)] by metis
qed

lemma chain_map: "chain nx (map f m) p as = chain (\<lambda>c. nx (f c)) m p as"
  by (induction as arbitrary: p) (auto cong: conj_cong)

subsection \<open>What the loops compute\<close>

lemma walk_all_chain: "chain nx m p as \<Longrightarrow> length as \<le> fuel \<Longrightarrow> walk_all fuel nx m p = as"
proof (induction as arbitrary: p fuel)
  case (Cons a as)
  then show ?case by (cases fuel) auto
qed simp

lemma walk_all_eq: "chain nx m p as \<Longrightarrow> walk_all (length m) nx m p = as"
  by (simp add: walk_all_chain chain_length)

lemma walk_last_chain:
  "chain nx m (Some i) as \<Longrightarrow> length as \<le> fuel \<Longrightarrow> walk_last fuel nx m i = Inr (last as)"
proof (induction as arbitrary: i fuel)
  case (Cons a as)
  then show ?case by (cases fuel; cases as) auto
qed simp

lemma walk_last_eq: "chain nx m (Some i) as \<Longrightarrow> walk_last (length m) nx m i = Inr (last as)"
  by (simp add: walk_last_chain chain_length)

lemma walk_last2_chain:
  "chain nx m (Some i) (as @ [a]) \<Longrightarrow> length as < fuel \<Longrightarrow>
   walk_last2 fuel nx m prev i = Inr (if as = [] then prev else Some (last as), a)"
proof (induction as arbitrary: i fuel prev)
  case Nil
  then show ?case by (cases fuel) auto
next
  case (Cons b as)
  then obtain f where f: "fuel = Suc f" by (cases fuel) auto
  from Cons.prems(1) obtain j where "i = b" "b < length m" "nx (m ! b) = Some j"
    "chain nx m (Some j) (as @ [a])"
    by (cases as) auto
  with Cons.IH [of j f "Some b"] Cons.prems(2) f show ?case by auto
qed

lemma walk_last2_eq:
  "chain nx m (Some i) (as @ [a]) \<Longrightarrow>
   walk_last2 (length m) nx m None i = Inr (if as = [] then None else Some (last as), a)"
  using chain_length [of nx m "Some i" "as @ [a]"] by (simp add: walk_last2_chain)

text \<open>A search stops at the first cell that hits, with the cell before it.\<close>

fun find_prev :: "(nat \<Rightarrow> bool) \<Rightarrow> nat option \<Rightarrow> nat list \<Rightarrow> (nat option \<times> nat) option" where
  "find_prev hit prev [] = None"
| "find_prev hit prev (a # as) = (if hit a then Some (prev, a) else find_prev hit (Some a) as)"

lemma walk_find_chain:
  "chain nx m p as \<Longrightarrow> length as \<le> fuel \<Longrightarrow>
   walk_find fuel nx hit m prev p = Inr (find_prev (\<lambda>i. hit i (m ! i)) prev as)"
proof (induction as arbitrary: p fuel prev)
  case (Cons a as)
  then show ?case by (cases fuel) auto
qed simp

lemma walk_find_eq:
  "chain nx m p as \<Longrightarrow>
   walk_find (length m) nx hit m prev p = Inr (find_prev (\<lambda>i. hit i (m ! i)) prev as)"
  by (simp add: walk_find_chain chain_length)

lemma map_snd_find_prev: "map_option snd (find_prev hit prev as) = List.find hit as"
  by (induction as arbitrary: prev) auto

lemma find_prev_None_iff: "find_prev hit prev as = None \<longleftrightarrow> (\<forall>a \<in> set as. \<not> hit a)"
  by (induction as arbitrary: prev) auto

lemma find_prev_split:
  "find_prev hit prev as = Some (q, i) \<Longrightarrow>
   \<exists>bs cs. as = bs @ i # cs \<and> hit i \<and> (\<forall>b \<in> set bs. \<not> hit b) \<and>
           q = (if bs = [] then prev else Some (last bs))"
proof (induction as arbitrary: prev)
  case (Cons a as)
  show ?case
  proof (cases "hit a")
    case True
    with Cons.prems show ?thesis by (auto intro!: exI [of _ "[]"])
  next
    case False
    with Cons.prems have "find_prev hit (Some a) as = Some (q, i)" by simp
    then obtain bs cs where "as = bs @ i # cs" "hit i" "\<forall>b \<in> set bs. \<not> hit b"
      "q = (if bs = [] then Some a else Some (last bs))"
      using Cons.IH by blast
    with False show ?thesis by (intro exI [of _ "a # bs"] exI [of _ cs]) auto
  qed
qed simp

end
