(* ===== verification/Queue_Interface.thy ===== *)
theory Queue_Interface
  imports Prelude
begin

text \<open>
  What the clients of a queue buffer rely on. A queue holds a list of entries, each a slot and
  the item in it. Locale \<open>slot_queue\<close> has the operations the neighbor table, the packet buffer,
  the list of fires and the duplicate filter call, with what they promise; its lemmas are the
  idioms of these clients (find before inserting, find and remove, a bounded history that
  drops its oldest entry). Locale \<open>iterable_queue\<close> adds the iterator inside the queue.
\<close>

text \<open>
  The loops \<open>for (i = begin(q); i != NULL; i = next(q))\<close> of the clients. The body may change the
  payload of cells; the iterator lives in the queue. \<open>for_each\<close> is the loop after \<open>begin\<close>.
\<close>

fun for_each :: "('q \<Rightarrow> ('q \<times> nat option) result) \<Rightarrow> ('q \<Rightarrow> nat \<Rightarrow> 's \<Rightarrow> ('q \<times> 's) result)
    \<Rightarrow> nat \<Rightarrow> 'q \<Rightarrow> nat option \<Rightarrow> 's \<Rightarrow> ('q \<times> 's) result" where
  "for_each next body fuel q None s = Inr (q, s)"
| "for_each next body 0 q (Some i) s = Inl Diverge"
| "for_each next body (Suc fuel) q (Some i) s =
     bindR (body q i s) (\<lambda>(q, s).
     bindR (next q) (\<lambda>(q, p). for_each next body fuel q p s))"

definition head_slot :: "(nat \<times> 'a) list \<Rightarrow> nat option" where
  "head_slot es = (case es of [] \<Rightarrow> None | e # _ \<Rightarrow> Some (fst e))"

lemma head_slot_simps [simp]: "head_slot [] = None" "head_slot (e # es) = Some (fst e)"
  by (simp_all add: head_slot_def)

lemma find_Some_in: "List.find P xs = Some x \<Longrightarrow> x \<in> set xs \<and> P x"
  by (auto simp: find_Some_iff)

lemma find_None: "List.find P xs = None \<longleftrightarrow> (\<forall>x \<in> set xs. \<not> P x)"
  by (auto simp: List.find_None_iff)

locale slot_queue =
  fixes inv :: "'q \<Rightarrow> bool"
    and ents :: "'q \<Rightarrow> (nat \<times> 'a) list"
    and cap :: "'q \<Rightarrow> nat"
    and find :: "'q \<Rightarrow> ('a \<Rightarrow> bool) \<Rightarrow> nat option result"
    and free :: "'q \<Rightarrow> nat \<Rightarrow> 'q result"
    and push_front :: "'q \<Rightarrow> 'a \<Rightarrow> ('q \<times> nat option) result"
    and pop_back :: "'q \<Rightarrow> ('q \<times> 'a) result"
    and clear :: "'q \<Rightarrow> 'q result"
  assumes ents_distinct: "inv q \<Longrightarrow> distinct (map fst (ents q))"
    and ents_le_cap: "inv q \<Longrightarrow> length (ents q) \<le> cap q"
    and find_eq: "inv q \<Longrightarrow> find q P = Inr (map_option fst (List.find (\<lambda>e. P (snd e)) (ents q)))"
    and free_returns: "inv q \<Longrightarrow> i \<in> fst ` set (ents q) \<Longrightarrow>
      returns (free q i) (\<lambda>q'. inv q' \<and> ents q' = filter (\<lambda>e. fst e \<noteq> i) (ents q) \<and> cap q' = cap q)"
    and push_front_returns: "inv q \<Longrightarrow> length (ents q) < cap q \<Longrightarrow>
      returns (push_front q x) (\<lambda>(q', r). \<exists>i. r = Some i \<and> inv q' \<and> ents q' = (i, x) # ents q \<and>
        cap q' = cap q)"
    and push_front_full: "inv q \<Longrightarrow> length (ents q) = cap q \<Longrightarrow> push_front q x = Inr (q, None)"
    and pop_back_returns: "inv q \<Longrightarrow> ents q = es @ [(i, x)] \<Longrightarrow>
      returns (pop_back q) (\<lambda>(q', y). y = x \<and> inv q' \<and> ents q' = es \<and> cap q' = cap q)"
    and clear_returns: "inv q \<Longrightarrow> returns (clear q) (\<lambda>q'. inv q' \<and> ents q' = [] \<and> cap q' = cap q)"
begin

abbreviation contents :: "'q \<Rightarrow> 'a list" where
  "contents q \<equiv> map snd (ents q)"

lemma find_none: "inv q \<Longrightarrow> find q P = Inr None \<longleftrightarrow> (\<forall>x \<in> set (contents q). \<not> P x)"
  by (auto simp: find_eq find_None)

lemma find_Some: "inv q \<Longrightarrow> find q P = Inr (Some i) \<Longrightarrow> \<exists>x. (i, x) \<in> set (ents q) \<and> P x"
  by (auto simp: find_eq dest!: find_Some_in)

lemma find_returns: "inv q \<Longrightarrow> \<exists>r. find q P = Inr r"
  by (simp add: find_eq)

text \<open>Insert an item unless it is there: the item is there afterwards, if there was room.\<close>

lemma insert_if_absent:
  assumes "inv q" and "length (ents q) < cap q \<or> P_hit \<in> set (contents q)"
  shows "returns (bindR (find q (\<lambda>y. y = P_hit)) (\<lambda>r. case r of
             None \<Rightarrow> bindR (push_front q P_hit) (\<lambda>(q, _). Inr q) | Some _ \<Rightarrow> Inr q))
           (\<lambda>q'. inv q' \<and> contents q' = (if P_hit \<in> set (contents q) then contents q
                   else P_hit # contents q) \<and> cap q' = cap q)"
proof (cases "find q (\<lambda>y. y = P_hit)")
  case (Inl e)
  with find_returns [OF assms(1)] show ?thesis by (metis Inl_Inr_False)
next
  case (Inr r)
  show ?thesis
  proof (cases r)
    case None
    with Inr assms find_none [of q "\<lambda>y. y = P_hit"]
    have a: "P_hit \<notin> set (contents q)" by auto
    with assms have room: "length (ents q) < cap q" by simp
    show ?thesis using push_front_returns [OF assms(1) room, of P_hit] Inr None a
      by (auto simp: returns_def)
  next
    case (Some i)
    with Inr find_Some [OF assms(1), of "\<lambda>y. y = P_hit" i] have "P_hit \<in> set (contents q)"
      by force
    with Inr Some assms show ?thesis by simp
  qed
qed

text \<open>Find an item and remove it.\<close>

lemma remove_if_present:
  assumes "inv q"
  shows "returns (bindR (find q P) (\<lambda>r. case r of None \<Rightarrow> Inr q | Some i \<Rightarrow> free q i))
           (\<lambda>q'. inv q' \<and> cap q' = cap q \<and>
              ents q' = (case List.find (\<lambda>e. P (snd e)) (ents q) of None \<Rightarrow> ents q
                         | Some e \<Rightarrow> filter (\<lambda>e'. fst e' \<noteq> fst e) (ents q)))"
proof (cases "List.find (\<lambda>e. P (snd e)) (ents q)")
  case None
  with assms show ?thesis by (simp add: find_eq)
next
  case (Some e)
  then have "fst e \<in> fst ` set (ents q)" by (auto dest: find_Some_in)
  from free_returns [OF assms this] Some assms show ?thesis by (auto simp: find_eq returns_def)
qed

text \<open>A history of bounded length: when it is full, the oldest item makes room.\<close>

lemma push_dropping_oldest:
  assumes "inv q" and "0 < cap q"
  shows "returns (bindR (push_front q x) (\<lambda>(q, r). case r of
             Some _ \<Rightarrow> Inr q
           | None \<Rightarrow> bindR (pop_back q) (\<lambda>(q, _). bindR (push_front q x) (\<lambda>(q, r). if r = None then Inl Assert_Failed else Inr q))))
           (\<lambda>q'. inv q' \<and> cap q' = cap q \<and> contents q' = take (cap q) (x # contents q))"
proof (cases "length (ents q) = cap q")
  case True
  with assms(2) obtain es e where es: "ents q = es @ [e]" by (cases "ents q" rule: rev_exhaust) auto
  then have es': "ents q = es @ [(fst e, snd e)]" by simp
  from pop_back_returns [OF assms(1) es'] obtain q1 where
    q1: "pop_back q = Inr (q1, snd e)" "inv q1" "ents q1 = es" "cap q1 = cap q"
    by (auto simp: returns_def)
  have room: "length (ents q1) < cap q1" using q1 es True by simp
  from es True have "cap q = Suc (length es)" by simp
  then have take: "take (cap q) (x # contents q) = x # map snd es" using es by simp
  from push_front_returns [OF q1(2) room, of x] push_front_full [OF assms(1) True, of x] q1
  show ?thesis unfolding take by (auto simp: returns_def)
next
  case False
  with ents_le_cap [OF assms(1)] have room: "length (ents q) < cap q" by simp
  from push_front_returns [OF assms(1) room, of x] room show ?thesis
    by (auto simp: returns_def)
qed

end

locale iterable_queue = slot_queue +
  fixes first :: "'a \<Rightarrow> 'a \<times> nat option"
    and step :: "'a \<Rightarrow> ('a \<times> nat option) result"
    and iter :: "'a \<Rightarrow> nat option"
  assumes first_eq: "inv q \<Longrightarrow> \<exists>q'. first q = (q', head_slot (ents q)) \<and> inv q' \<and> ents q' = ents q \<and>
      cap q' = cap q \<and> iter q' = head_slot (ents q)"
    and step_returns: "inv q \<Longrightarrow> ents q = es @ (i, x) # fs \<Longrightarrow> iter q = Some i \<Longrightarrow>
      returns (step q) (\<lambda>(q', p). p = head_slot fs \<and> inv q' \<and> ents q' = ents q \<and>
        cap q' = cap q \<and> iter q' = head_slot fs)"
begin

text \<open>
  The loop rule: an invariant over the slots already visited, the entries and the loop's state,
  which the body keeps. The body may rewrite items, but not the slots or the iterator.
\<close>

lemma for_each_from:
  assumes body: "\<And>q' i x pre post s. inv q' \<Longrightarrow> ents q' = pre @ (i, x) # post \<Longrightarrow> iter q' = Some i \<Longrightarrow>
      map fst (ents q') = slots \<Longrightarrow> I (map fst pre) (ents q') s \<Longrightarrow>
      returns (body q' i s) (\<lambda>(q'', s'). inv q'' \<and> cap q'' = cap q' \<and> iter q'' = Some i \<and>
        map fst (ents q'') = slots \<and> I (map fst pre @ [i]) (ents q'') s')"
  shows "inv q \<Longrightarrow> ents q = es @ fs \<Longrightarrow> map fst (ents q) = slots \<Longrightarrow> iter q = head_slot fs \<Longrightarrow>
    length fs \<le> n \<Longrightarrow> I (map fst es) (ents q) s \<Longrightarrow>
    returns (for_each step body n q (head_slot fs) s)
      (\<lambda>(q', s'). inv q' \<and> cap q' = cap q \<and> iter q' = None \<and> map fst (ents q') = slots \<and>
                 I slots (ents q') s')"
proof (induction n arbitrary: q es fs s)
  case (Suc m)
  show ?case
  proof (cases fs)
    case Nil
    with Suc.prems show ?thesis by simp
  next
    case (Cons e fs')
    obtain i x where e: "fs = (i, x) # fs'" using Cons by (cases e) auto
    from body [OF Suc.prems(1) Suc.prems(2) [unfolded e] _ Suc.prems(3,6)] Suc.prems(4) e
    obtain q1 s1 where q1: "body q i s = Inr (q1, s1)" "inv q1" "cap q1 = cap q" "iter q1 = Some i"
      "map fst (ents q1) = slots" "I (map fst es @ [i]) (ents q1) s1"
      by (auto simp: returns_def)
    have "map fst (ents q1) = map fst es @ i # map fst fs'"
      using q1(5) Suc.prems(2,3) e by simp
    then obtain es1 y fs1 where sp: "ents q1 = es1 @ (i, y) # fs1" "map fst es1 = map fst es"
      "map fst fs1 = map fst fs'"
      by (auto simp: map_eq_append_conv map_eq_Cons_conv)
    have len: "length fs1 \<le> m" using map_eq_imp_length_eq [OF sp(3)] Suc.prems(5) e by simp
    from step_returns [OF q1(2) sp(1) q1(4)] obtain q2 where
      q2: "step q1 = Inr (q2, head_slot fs1)" "inv q2" "ents q2 = ents q1" "cap q2 = cap q1"
        "iter q2 = head_slot fs1"
      by (auto simp: returns_def)
    have "returns (for_each step body m q2 (head_slot fs1) s1)
        (\<lambda>(q', s'). inv q' \<and> cap q' = cap q2 \<and> iter q' = None \<and> map fst (ents q') = slots \<and>
                   I slots (ents q') s')"
      by (rule Suc.IH [of q2 "es1 @ [(i, y)]"]) (use q1 q2 sp len in simp_all)
    with q1 q2 e show ?thesis by simp
  qed
qed simp

lemma for_each_inv:
  assumes "inv q" and "I [] (ents q) s" and "length (ents q) \<le> n"
    and "\<And>q' i x pre post s. inv q' \<Longrightarrow> ents q' = pre @ (i, x) # post \<Longrightarrow> iter q' = Some i \<Longrightarrow>
      map fst (ents q') = map fst (ents q) \<Longrightarrow> I (map fst pre) (ents q') s \<Longrightarrow>
      returns (body q' i s) (\<lambda>(q'', s'). inv q'' \<and> cap q'' = cap q' \<and> iter q'' = Some i \<and>
        map fst (ents q'') = map fst (ents q) \<and> I (map fst pre @ [i]) (ents q'') s')"
  shows "returns (case first q of (q1, p) \<Rightarrow> for_each step body n q1 p s)
      (\<lambda>(q', s'). inv q' \<and> cap q' = cap q \<and> iter q' = None \<and>
                 map fst (ents q') = map fst (ents q) \<and> I (map fst (ents q)) (ents q') s')"
proof -
  from first_eq [OF assms(1)] obtain q1 where q1: "first q = (q1, head_slot (ents q))" "inv q1"
    "ents q1 = ents q" "cap q1 = cap q" "iter q1 = head_slot (ents q)" by blast
  have "returns (for_each step body n q1 (head_slot (ents q)) s)
      (\<lambda>(q', s'). inv q' \<and> cap q' = cap q1 \<and> iter q' = None \<and> map fst (ents q') = map fst (ents q) \<and>
                 I (map fst (ents q)) (ents q') s')"
    by (rule for_each_from [where es = "[]" and I = I]) (use assms q1 in simp_all)
  with q1 show ?thesis by simp
qed

text \<open>
  A loop whose body leaves the queue alone and computes \<open>g\<close> from the item folds \<open>g\<close> over the
  entries, front to back.
\<close>

lemma for_each_fold:
  assumes "inv q" and "length (ents q) \<le> n"
    and body: "\<And>q' i x s. inv q' \<Longrightarrow> ents q' = ents q \<Longrightarrow> (i, x) \<in> set (ents q) \<Longrightarrow>
      body q' i s = Inr (q', g i x s)"
  shows "returns (case first q of (q1, p) \<Rightarrow> for_each step body n q1 p s)
      (\<lambda>(q', s'). inv q' \<and> ents q' = ents q \<and> cap q' = cap q \<and> iter q' = None \<and>
                 s' = fold (\<lambda>(i, x). g i x) (ents q) s)"
proof -
  let ?I = "\<lambda>pre es s'. es = ents q \<and> s' = fold (\<lambda>(i, x). g i x) (take (length pre) (ents q)) s"
  have "returns (case first q of (q1, p) \<Rightarrow> for_each step body n q1 p s)
      (\<lambda>(q', s'). inv q' \<and> cap q' = cap q \<and> iter q' = None \<and>
                 map fst (ents q') = map fst (ents q) \<and> ?I (map fst (ents q)) (ents q') s')"
  proof (rule for_each_inv [where I = ?I])
    fix q' i x pre post s'
    assume q': "inv q'" "ents q' = pre @ (i, x) # post" "iter q' = Some i"
      and I: "?I (map fst pre) (ents q') s'"
    then have "(i, x) \<in> set (ents q)" by auto
    with q' I have "body q' i s' = Inr (q', g i x s')" by (intro body) simp_all
    with q' I show "returns (body q' i s') (\<lambda>(q'', s''). inv q'' \<and> cap q'' = cap q' \<and> iter q'' = Some i \<and>
        map fst (ents q'') = map fst (ents q) \<and> ?I (map fst pre @ [i]) (ents q'') s'')"
      by auto
  qed (use assms in simp_all)
  then show ?thesis by (rule returns_mono) auto
qed

end

end
