(* ===== verification/Queue_Buffer.thy ===== *)
theory Queue_Buffer
  imports Linked_Memory Queue_Interface
begin

text \<open>
  The fixed-size queue of \<open>base/queue_buffer.c\<close>: a block of cells, each with a \<open>next\<close> pointer and
  a payload, on two singly linked lists, the used cells in queue order and the unused cells.
  A cell is named by its position in the block (\<open>ITEM(qb, i)\<close>), and a pointer to a payload by the
  cell it lies in. The payload is a value of any type; the unused cells keep the payload of
  their last use, as the memory does.

  The theory has the operations of the file, the well-formedness of a queue (the two lists
  partition the cells and the counter is right), what every operation does to the list of
  used entries, and the interface its clients rest on (locale \<open>slot_queue\<close>), interpreted on the
  pointer implementation.
\<close>

record 'a queue_cell =
  qnext :: "nat option"
  qdata :: 'a

record 'a queue_buffer =
  queue_size :: byte
  queue_max_size :: byte
  pool :: "'a queue_cell list"
  unused_head :: "nat option"
  used_head :: "nat option"
  iterator :: "nat option"

subsection \<open>Dereferencing cells\<close>

definition get_next :: "'a queue_cell list \<Rightarrow> nat \<Rightarrow> nat option result" where
  "get_next m i = (if i < length m then Inr (qnext (m ! i)) else Inl Out_Of_Bounds)"

definition set_next :: "'a queue_cell list \<Rightarrow> nat \<Rightarrow> nat option \<Rightarrow> 'a queue_cell list result" where
  "set_next m i q = (if i < length m then Inr (m[i := (m ! i)\<lparr>qnext := q\<rparr>]) else Inl Out_Of_Bounds)"

definition get_data :: "'a queue_buffer \<Rightarrow> nat \<Rightarrow> 'a result" where
  "get_data qb i = (if i < length (pool qb) then Inr (qdata (pool qb ! i)) else Inl Out_Of_Bounds)"

definition set_data :: "'a queue_buffer \<Rightarrow> nat \<Rightarrow> 'a \<Rightarrow> 'a queue_buffer result" where
  "set_data qb i x =
     (if i < length (pool qb) then Inr (qb\<lparr>pool := (pool qb)[i := (pool qb ! i)\<lparr>qdata := x\<rparr>]\<rparr>)
      else Inl Out_Of_Bounds)"

subsection \<open>The operations of queue_buffer.c\<close>

definition add_tail :: "'a queue_cell list \<Rightarrow> nat option \<Rightarrow> nat
    \<Rightarrow> ('a queue_cell list \<times> nat option) result" where
  "add_tail m head b =
     bindR (set_next m b None) (\<lambda>m.
     case head of
       Some h \<Rightarrow> bindR (walk_last (length m) qnext m h) (\<lambda>iter.
                 bindR (set_next m iter (Some b)) (\<lambda>m. Inr (m, head)))
     | None \<Rightarrow> Inr (m, Some b))"

definition add_head :: "'a queue_cell list \<Rightarrow> nat option \<Rightarrow> nat
    \<Rightarrow> ('a queue_cell list \<times> nat option) result" where
  "add_head m head new_head =
     bindR (set_next m new_head head) (\<lambda>m. Inr (m, Some new_head))"

definition allocate_buffer_space_back :: "'a queue_buffer \<Rightarrow> ('a queue_buffer \<times> nat option) result" where
  "allocate_buffer_space_back qb =
     (case unused_head qb of
        Some buf \<Rightarrow>
          bindR (get_next (pool qb) buf) (\<lambda>nx.
          bindR (add_tail (pool qb) (used_head qb) buf) (\<lambda>(m, h).
          Inr (qb\<lparr>unused_head := nx, pool := m, used_head := h\<rparr>, Some buf)))
      | None \<Rightarrow> Inr (qb, None))"

definition allocate_buffer_space_front :: "'a queue_buffer \<Rightarrow> ('a queue_buffer \<times> nat option) result" where
  "allocate_buffer_space_front qb =
     (case unused_head qb of
        Some buf \<Rightarrow>
          bindR (get_next (pool qb) buf) (\<lambda>nx.
          bindR (add_head (pool qb) (used_head qb) buf) (\<lambda>(m, h).
          Inr (qb\<lparr>unused_head := nx, pool := m, used_head := h\<rparr>, Some buf)))
      | None \<Rightarrow> Inr (qb, None))"

fun init_loop :: "nat \<Rightarrow> nat \<Rightarrow> 'a queue_cell list \<Rightarrow> nat option
    \<Rightarrow> ('a queue_cell list \<times> nat option) result" where
  "init_loop 0 i m head = Inr (m, head)"
| "init_loop (Suc n) i m head = bindR (add_tail m head i) (\<lambda>(m, head). init_loop n (Suc i) m head)"

definition queue_buffer_init :: "'a queue_cell list \<Rightarrow> byte \<Rightarrow> 'a queue_buffer result" where
  "queue_buffer_init mem num_items =
     bindR (init_loop (unat num_items) 0 mem None) (\<lambda>(m, head).
     Inr \<lparr>queue_size = 0, queue_max_size = num_items, pool = m,
          unused_head = head, used_head = None, iterator = None\<rparr>)"

definition queue_buffer_alloc_back :: "'a queue_buffer \<Rightarrow> ('a queue_buffer \<times> nat option) result" where
  "queue_buffer_alloc_back qb =
     bindR (allocate_buffer_space_back qb) (\<lambda>(qb, b).
     case b of Some i \<Rightarrow> Inr (qb\<lparr>queue_size := queue_size qb + 1\<rparr>, Some i) | None \<Rightarrow> Inr (qb, None))"

definition queue_buffer_alloc_front :: "'a queue_buffer \<Rightarrow> ('a queue_buffer \<times> nat option) result" where
  "queue_buffer_alloc_front qb =
     bindR (allocate_buffer_space_front qb) (\<lambda>(qb, b).
     case b of Some i \<Rightarrow> Inr (qb\<lparr>queue_size := queue_size qb + 1\<rparr>, Some i) | None \<Rightarrow> Inr (qb, None))"

definition queue_buffer_push_front :: "'a queue_buffer \<Rightarrow> 'a \<Rightarrow> ('a queue_buffer \<times> nat option) result" where
  "queue_buffer_push_front qb item =
     bindR (allocate_buffer_space_front qb) (\<lambda>(qb, b).
     case b of
       Some i \<Rightarrow> bindR (set_data (qb\<lparr>queue_size := queue_size qb + 1\<rparr>) i item) (\<lambda>qb. Inr (qb, Some i))
     | None \<Rightarrow> Inr (qb, None))"

definition queue_buffer_push_back :: "'a queue_buffer \<Rightarrow> 'a \<Rightarrow> ('a queue_buffer \<times> nat option) result" where
  "queue_buffer_push_back qb item =
     bindR (allocate_buffer_space_back qb) (\<lambda>(qb, b).
     case b of
       Some i \<Rightarrow> bindR (set_data (qb\<lparr>queue_size := queue_size qb + 1\<rparr>) i item) (\<lambda>qb. Inr (qb, Some i))
     | None \<Rightarrow> Inr (qb, None))"

text \<open>\<open>item_out\<close> is the payload copied out; a caller that passes \<open>NULL\<close> drops it.\<close>

definition queue_buffer_pop_front :: "'a queue_buffer \<Rightarrow> ('a queue_buffer \<times> 'a) result" where
  "queue_buffer_pop_front qb =
     (case used_head qb of
        None \<Rightarrow> Inl Assert_Failed
      | Some i \<Rightarrow>
          bindR (get_data qb i) (\<lambda>item_out.
          bindR (get_next (pool qb) i) (\<lambda>nx.
          bindR (add_head (pool qb) (unused_head qb) i) (\<lambda>(m, h).
          Inr (qb\<lparr>used_head := nx, pool := m, unused_head := h,
                 queue_size := queue_size qb - 1\<rparr>, item_out)))))"

definition queue_buffer_pop_back :: "'a queue_buffer \<Rightarrow> ('a queue_buffer \<times> 'a) result" where
  "queue_buffer_pop_back qb =
     (case used_head qb of
        None \<Rightarrow> Inl Assert_Failed
      | Some h \<Rightarrow>
          bindR (walk_last2 (length (pool qb)) qnext (pool qb) None h) (\<lambda>(prev, i).
          bindR (get_data qb i) (\<lambda>item_out.
          bindR (add_head (pool qb) (unused_head qb) i) (\<lambda>(m, uh).
          case prev of
            Some q \<Rightarrow> bindR (set_next m q None) (\<lambda>m.
              Inr (qb\<lparr>pool := m, unused_head := uh, queue_size := queue_size qb - 1\<rparr>, item_out))
          | None \<Rightarrow>
              Inr (qb\<lparr>pool := m, unused_head := uh, used_head := None,
                     queue_size := queue_size qb - 1\<rparr>, item_out)))))"

definition queue_buffer_free :: "'a queue_buffer \<Rightarrow> nat \<Rightarrow> 'a queue_buffer result" where
  "queue_buffer_free qb item =
     bindR (walk_find (length (pool qb)) qnext (\<lambda>i _. i = item) (pool qb) None (used_head qb)) (\<lambda>r.
     case r of
       Some (prev, i) \<Rightarrow>
         bindR (get_next (pool qb) i) (\<lambda>nx.
         bindR (case prev of
                  None \<Rightarrow> Inr (pool qb, nx)
                | Some q \<Rightarrow> bindR (set_next (pool qb) q nx) (\<lambda>m. Inr (m, used_head qb))) (\<lambda>(m, uh).
         bindR (add_head m (unused_head qb) i) (\<lambda>(m, fh).
         Inr (qb\<lparr>pool := m, used_head := uh, unused_head := fh,
                queue_size := queue_size qb - 1\<rparr>))))
     | None \<Rightarrow> Inl Assert_Failed)"

definition queue_buffer_find :: "'a queue_buffer \<Rightarrow> ('a \<Rightarrow> bool) \<Rightarrow> nat option result" where
  "queue_buffer_find qb comparer =
     bindR (walk_find (length (pool qb)) qnext (\<lambda>_ c. comparer (qdata c)) (pool qb) None (used_head qb))
       (\<lambda>r. Inr (map_option snd r))"

definition queue_buffer_clear :: "'a queue_buffer \<Rightarrow> 'a queue_buffer result" where
  "queue_buffer_clear qb =
     bindR
       (case used_head qb of
          Some u \<Rightarrow>
            (case unused_head qb of
               Some s \<Rightarrow>
                 bindR (walk_last (length (pool qb)) qnext (pool qb) s) (\<lambda>s.
                 bindR (set_next (pool qb) s (used_head qb)) (\<lambda>m.
                 Inr (qb\<lparr>pool := m, used_head := None\<rparr>)))
             | None \<Rightarrow> Inr (qb\<lparr>unused_head := used_head qb, used_head := None\<rparr>))
        | None \<Rightarrow> Inr qb)
       (\<lambda>qb. Inr (qb\<lparr>queue_size := 0, iterator := None\<rparr>))"

subsection \<open>The inline operations of queue_buffer.h\<close>

definition queue_buffer_begin :: "'a queue_buffer \<Rightarrow> 'a queue_buffer \<times> nat option" where
  "queue_buffer_begin qb = (qb\<lparr>iterator := used_head qb\<rparr>, used_head qb)"

definition queue_buffer_next :: "'a queue_buffer \<Rightarrow> ('a queue_buffer \<times> nat option) result" where
  "queue_buffer_next qb =
     (case iterator qb of
        None \<Rightarrow> Inl Null_Deref
      | Some i \<Rightarrow> bindR (get_next (pool qb) i) (\<lambda>nx. Inr (qb\<lparr>iterator := nx\<rparr>, nx)))"

definition queue_buffer_size :: "'a queue_buffer \<Rightarrow> byte" where
  "queue_buffer_size qb = queue_size qb"

definition queue_buffer_max_size :: "'a queue_buffer \<Rightarrow> byte" where
  "queue_buffer_max_size qb = queue_max_size qb"

fun copy_loop :: "nat \<Rightarrow> 'a queue_buffer \<Rightarrow> 'a queue_cell list \<Rightarrow> nat option \<Rightarrow> 'a queue_buffer result" where
  "copy_loop fuel to m None = Inr to"
| "copy_loop 0 to m (Some i) = Inl Diverge"
| "copy_loop (Suc fuel) to m (Some i) =
     (if i < length m
      then bindR (queue_buffer_push_back to (qdata (m ! i))) (\<lambda>(to, _).
           copy_loop fuel to m (qnext (m ! i)))
      else Inl Out_Of_Bounds)"

definition queue_buffer_copy :: "'a queue_buffer \<Rightarrow> 'a queue_buffer \<Rightarrow> 'a queue_buffer result" where
  "queue_buffer_copy to from = copy_loop (length (pool from)) to (pool from) (used_head from)"

subsection \<open>Well-formed queues\<close>

definition payload :: "'a queue_buffer \<Rightarrow> 'a list" where
  "payload qb = map qdata (pool qb)"

definition used_slots :: "'a queue_buffer \<Rightarrow> nat list" where
  "used_slots qb = walk_all (length (pool qb)) qnext (pool qb) (used_head qb)"

definition free_slots :: "'a queue_buffer \<Rightarrow> nat list" where
  "free_slots qb = walk_all (length (pool qb)) qnext (pool qb) (unused_head qb)"

definition qb_lists :: "'a queue_buffer \<Rightarrow> nat list \<Rightarrow> nat list \<Rightarrow> bool" where
  "qb_lists qb us fs \<longleftrightarrow>
     chain qnext (pool qb) (used_head qb) us \<and> chain qnext (pool qb) (unused_head qb) fs \<and>
     distinct (us @ fs) \<and> set (us @ fs) = {..<unat (queue_max_size qb)} \<and>
     length us = unat (queue_size qb)"

definition qb_wf :: "'a queue_buffer \<Rightarrow> bool" where
  "qb_wf qb \<longleftrightarrow> qb_lists qb (used_slots qb) (free_slots qb)"

definition entries :: "'a queue_buffer \<Rightarrow> (nat \<times> 'a) list" where
  "entries qb = map (\<lambda>i. (i, payload qb ! i)) (used_slots qb)"

definition items :: "'a queue_buffer \<Rightarrow> 'a list" where
  "items qb = map snd (entries qb)"

definition capacity :: "'a queue_buffer \<Rightarrow> nat" where
  "capacity qb = unat (queue_max_size qb)"

lemma qb_lists_slots:
  "qb_lists qb us fs \<Longrightarrow> used_slots qb = us \<and> free_slots qb = fs"
  by (simp add: qb_lists_def used_slots_def free_slots_def walk_all_eq)

lemma qb_lists_wf: "qb_lists qb us fs \<Longrightarrow> qb_wf qb"
  using qb_lists_slots by (auto simp: qb_wf_def)

lemma qb_wf_iff: "qb_wf qb \<longleftrightarrow> (\<exists>us fs. qb_lists qb us fs)"
  using qb_lists_wf by (auto simp: qb_wf_def)

lemma qb_wfE:
  assumes "qb_wf qb"
  obtains us fs where "qb_lists qb us fs" "used_slots qb = us" "free_slots qb = fs"
  using assms by (auto simp: qb_wf_def)

lemma qb_lists_length:
  assumes "qb_lists qb us fs"
  shows "length us + length fs = capacity qb"
proof -
  from assms have d: "distinct (us @ fs)" and s: "set (us @ fs) = {..<unat (queue_max_size qb)}"
    unfolding qb_lists_def by blast+
  have "length us + length fs = card (set (us @ fs))"
    by (simp only: distinct_card [OF d] length_append)
  also have "\<dots> = unat (queue_max_size qb)"
    by (simp only: s card_lessThan)
  finally show ?thesis by (simp add: capacity_def)
qed

lemma qb_lists_bound: "qb_lists qb us fs \<Longrightarrow> i \<in> set us \<union> set fs \<Longrightarrow> i < length (pool qb)"
  by (auto simp: qb_lists_def dest!: chain_bound)

lemma entries_lists: "qb_lists qb us fs \<Longrightarrow> entries qb = map (\<lambda>i. (i, payload qb ! i)) us"
  by (simp add: entries_def qb_lists_slots)

lemma length_entries: "qb_wf qb \<Longrightarrow> length (entries qb) = unat (queue_size qb)"
  by (erule qb_wfE) (simp add: entries_def qb_lists_def)

lemma length_payload [simp]: "length (payload qb) = length (pool qb)"
  by (simp add: payload_def)

lemma nth_payload: "i < length (pool qb) \<Longrightarrow> payload qb ! i = qdata (pool qb ! i)"
  by (simp add: payload_def)

lemma map_fst_entries: "map fst (entries qb) = used_slots qb"
  by (simp add: entries_def comp_def)

lemma distinct_entries: "qb_wf qb \<Longrightarrow> distinct (map fst (entries qb))"
  by (erule qb_wfE) (simp add: map_fst_entries qb_lists_def)

lemma length_entries_le: "qb_wf qb \<Longrightarrow> length (entries qb) \<le> capacity qb"
  by (erule qb_wfE) (frule qb_lists_length, simp add: entries_def)

lemma entries_fst_bound: "qb_wf qb \<Longrightarrow> (i, x) \<in> set (entries qb) \<Longrightarrow> i < capacity qb"
  by (erule qb_wfE) (auto simp: entries_def qb_lists_def capacity_def)

subsection \<open>Linking and unlinking cells\<close>

lemma map_qdata_set_next:
  "i < length m \<Longrightarrow> map qdata (m[i := (m ! i)\<lparr>qnext := q\<rparr>]) = map qdata m"
  by (rule nth_equalityI) (auto simp: nth_list_update)

lemma add_head_law:
  assumes "chain qnext m head as" and "b < length m" and "b \<notin> set as"
  obtains m' where "add_head m head b = Inr (m', Some b)" and "m' = m[b := (m ! b)\<lparr>qnext := head\<rparr>]"
    and "chain qnext m' (Some b) (b # as)" and "map qdata m' = map qdata m"
  using assms by (simp add: add_head_def set_next_def map_qdata_set_next)

lemma add_tail_law:
  assumes as: "chain qnext m head as" and b: "b < length m" "b \<notin> set as"
  obtains m' h' where "add_tail m head b = Inr (m', h')" and "chain qnext m' h' (as @ [b])"
    and "map qdata m' = map qdata m"
    and "\<forall>bs p. set bs \<inter> set (as @ [b]) = {} \<longrightarrow> chain qnext m' p bs = chain qnext m p bs"
proof (cases head)
  case None
  with as b that [of "m[b := (m ! b)\<lparr>qnext := None\<rparr>]" "Some b"] show ?thesis
    by (auto simp: add_tail_def set_next_def map_qdata_set_next)
next
  case (Some h)
  let ?m = "m[b := (m ! b)\<lparr>qnext := None\<rparr>]"
  let ?l = "last as"
  let ?m' = "?m[?l := (?m ! ?l)\<lparr>qnext := Some b\<rparr>]"
  from as Some have ne: "as \<noteq> []" by auto
  then have split: "as = butlast as @ [?l]" by simp
  have l: "?l \<in> set as" "?l < length m" "?l \<noteq> b"
    using ne chain_bound [OF as] b(2) by (auto intro: last_in_set)
  have as1: "chain qnext ?m head as" using as b by simp
  have walk: "walk_last (length ?m) qnext ?m h = Inr ?l"
    using as1 Some by (intro walk_last_eq) simp
  have "distinct as" using as by (rule chain_distinct)
  then have nl: "?l \<notin> set (butlast as)"
    using split by (metis distinct_append not_distinct_conv_prefix)
  have "chain qnext ?m' head (butlast as @ ?l # [b])"
  proof (rule chain_link_last)
    show "chain qnext ?m head (butlast as @ [?l])" using as1 split by simp
  qed (use nl l b in auto)
  then have new: "chain qnext ?m' head (as @ [b])"
    using split by (metis append_Cons append_Nil append_assoc)
  show ?thesis
  proof (rule that [of ?m' head])
    show "add_tail m head b = Inr (?m', head)"
      using Some walk b l by (simp add: add_tail_def set_next_def)
    show "map qdata ?m' = map qdata m"
      by (rule trans [OF map_qdata_set_next map_qdata_set_next]) (use b l in auto)
    show "\<forall>bs p. set bs \<inter> set (as @ [b]) = {} \<longrightarrow> chain qnext ?m' p bs = chain qnext m p bs"
    proof (intro allI impI)
      fix bs p
      assume "set bs \<inter> set (as @ [b]) = {}"
      with l(1) have "?l \<notin> set bs" "b \<notin> set bs" by auto
      then show "chain qnext ?m' p bs = chain qnext m p bs" by simp
    qed
  qed (rule new)
qed

subsection \<open>What each operation does to the two lists\<close>

text \<open>
  \<open>frame qb qb'\<close>: the capacity and the iterator are those of before. The payloads are either
  untouched or updated in one cell, which the laws say separately.
\<close>

definition frame :: "'a queue_buffer \<Rightarrow> 'a queue_buffer \<Rightarrow> bool" where
  "frame qb qb' \<longleftrightarrow> queue_max_size qb' = queue_max_size qb \<and> iterator qb' = iterator qb"

lemma unat_size_Suc:
  assumes "qb_lists qb us (f # fs)"
  shows "unat (queue_size qb + 1) = Suc (unat (queue_size qb))"
proof -
  from qb_lists_length [OF assms] have "length us < capacity qb" by simp
  moreover have "capacity qb < 256" by (simp add: capacity_def)
  ultimately show ?thesis
    using assms by (intro unat_Suc_less [of _ "capacity qb"]) (auto simp: qb_lists_def)
qed

lemma unat_size_pred:
  "qb_lists qb us fs \<Longrightarrow> us \<noteq> [] \<Longrightarrow> unat (queue_size qb - 1) = length us - 1"
  by (subst unat_pred) (auto simp: qb_lists_def)

lemma allocate_front_law:
  assumes "qb_lists qb us (f # fs)"
  obtains qb' where "allocate_buffer_space_front qb = Inr (qb', Some f)"
    and "qb_lists (qb'\<lparr>queue_size := queue_size qb + 1\<rparr>) (f # us) fs"
    and "payload qb' = payload qb" and "frame qb qb'" and "queue_size qb' = queue_size qb"
proof -
  from assms have u: "unused_head qb = Some f" "f < length (pool qb)"
    and ch: "chain qnext (pool qb) (used_head qb) us" "chain qnext (pool qb) (qnext (pool qb ! f)) fs"
    and d: "f \<notin> set us" "f \<notin> set fs"
    by (auto simp: qb_lists_def)
  obtain m' where m': "add_head (pool qb) (used_head qb) f = Inr (m', Some f)"
    "m' = (pool qb)[f := (pool qb ! f)\<lparr>qnext := used_head qb\<rparr>]"
    "chain qnext m' (Some f) (f # us)" "map qdata m' = map qdata (pool qb)"
    using add_head_law [OF ch(1) u(2) d(1)] .
  let ?qb = "qb\<lparr>unused_head := qnext (pool qb ! f), pool := m', used_head := Some f\<rparr>"
  show ?thesis
  proof (rule that [of ?qb])
    show "allocate_buffer_space_front qb = Inr (?qb, Some f)"
      using u m' by (simp add: allocate_buffer_space_front_def get_next_def)
    show "qb_lists (?qb\<lparr>queue_size := queue_size qb + 1\<rparr>) (f # us) fs"
      using assms m' ch d unat_size_Suc [OF assms] by (auto simp: qb_lists_def)
  qed (use m' in \<open>simp_all add: payload_def frame_def\<close>)
qed

lemma allocate_back_law:
  assumes "qb_lists qb us (f # fs)"
  obtains qb' where "allocate_buffer_space_back qb = Inr (qb', Some f)"
    and "qb_lists (qb'\<lparr>queue_size := queue_size qb + 1\<rparr>) (us @ [f]) fs"
    and "payload qb' = payload qb" and "frame qb qb'" and "queue_size qb' = queue_size qb"
proof -
  from assms have u: "unused_head qb = Some f" "f < length (pool qb)"
    and ch: "chain qnext (pool qb) (used_head qb) us" "chain qnext (pool qb) (qnext (pool qb ! f)) fs"
    and d: "f \<notin> set us" "f \<notin> set fs" "set fs \<inter> set (us @ [f]) = {}"
    by (auto simp: qb_lists_def)
  obtain m' h' where m': "add_tail (pool qb) (used_head qb) f = Inr (m', h')"
    "chain qnext m' h' (us @ [f])" "map qdata m' = map qdata (pool qb)"
    "\<forall>bs p. set bs \<inter> set (us @ [f]) = {} \<longrightarrow> chain qnext m' p bs = chain qnext (pool qb) p bs"
    using add_tail_law [OF ch(1) u(2) d(1)] .
  let ?qb = "qb\<lparr>unused_head := qnext (pool qb ! f), pool := m', used_head := h'\<rparr>"
  show ?thesis
  proof (rule that [of ?qb])
    show "allocate_buffer_space_back qb = Inr (?qb, Some f)"
      using u m' by (simp add: allocate_buffer_space_back_def get_next_def)
    show "qb_lists (?qb\<lparr>queue_size := queue_size qb + 1\<rparr>) (us @ [f]) fs"
      using assms m' ch d unat_size_Suc [OF assms] by (auto simp: qb_lists_def)
  qed (use m' in \<open>simp_all add: payload_def frame_def\<close>)
qed

lemma allocate_full:
  assumes "qb_lists qb us []"
  shows "allocate_buffer_space_front qb = Inr (qb, None)"
    and "allocate_buffer_space_back qb = Inr (qb, None)"
  using assms by (simp_all add: qb_lists_def allocate_buffer_space_front_def allocate_buffer_space_back_def)

text \<open>Giving a cell back to the unused list.\<close>

lemma unlink_head_law:
  assumes "qb_lists qb (i # us) fs"
  obtains m where "add_head (pool qb) (unused_head qb) i = Inr (m, Some i)"
    and "qb_lists (qb\<lparr>used_head := qnext (pool qb ! i), pool := m, unused_head := Some i,
           queue_size := queue_size qb - 1\<rparr>) us (i # fs)"
    and "map qdata m = map qdata (pool qb)"
proof -
  from assms have i: "i < length (pool qb)" "i \<notin> set fs" "i \<notin> set us"
    and ch: "chain qnext (pool qb) (unused_head qb) fs" "chain qnext (pool qb) (qnext (pool qb ! i)) us"
    by (auto simp: qb_lists_def)
  obtain m where m: "add_head (pool qb) (unused_head qb) i = Inr (m, Some i)"
    "m = (pool qb)[i := (pool qb ! i)\<lparr>qnext := unused_head qb\<rparr>]"
    "chain qnext m (Some i) (i # fs)" "map qdata m = map qdata (pool qb)"
    using add_head_law [OF ch(1) i(1,2)] .
  with that [OF m(1)] assms i ch unat_size_pred [OF assms]
  show ?thesis by (auto simp: qb_lists_def)
qed

lemma pop_front_law:
  assumes "qb_lists qb (i # us) fs"
  obtains qb' where "queue_buffer_pop_front qb = Inr (qb', payload qb ! i)"
    and "qb_lists qb' us (i # fs)" and "payload qb' = payload qb" and "frame qb qb'"
proof -
  from unlink_head_law [OF assms] obtain m where
    m: "add_head (pool qb) (unused_head qb) i = Inr (m, Some i)"
      "qb_lists (qb\<lparr>used_head := qnext (pool qb ! i), pool := m, unused_head := Some i,
         queue_size := queue_size qb - 1\<rparr>) us (i # fs)" "map qdata m = map qdata (pool qb)" .
  from assms have "used_head qb = Some i" "i < length (pool qb)" by (auto simp: qb_lists_def)
  with that [OF _ m(2)] m show ?thesis
    by (auto simp: queue_buffer_pop_front_def get_data_def get_next_def nth_payload payload_def frame_def)
qed

lemma pop_back_law:
  assumes "qb_lists qb (us @ [i]) fs"
  obtains qb' where "queue_buffer_pop_back qb = Inr (qb', payload qb ! i)"
    and "qb_lists qb' us (i # fs)" and "payload qb' = payload qb" and "frame qb qb'"
proof -
  from assms have i: "i < length (pool qb)" "i \<notin> set fs" "i \<notin> set us"
    and ch: "chain qnext (pool qb) (unused_head qb) fs"
      "chain qnext (pool qb) (used_head qb) (us @ [i])"
    and d: "distinct us" "set us \<inter> set fs = {}"
    by (auto simp: qb_lists_def dest: chain_bound)
  from ch(2) obtain h where h: "used_head qb = Some h" by (cases us) auto
  have walk: "walk_last2 (length (pool qb)) qnext (pool qb) None h
      = Inr (if us = [] then None else Some (last us), i)"
    using ch(2) h by (intro walk_last2_eq) simp
  obtain m where m: "add_head (pool qb) (unused_head qb) i = Inr (m, Some i)"
    "m = (pool qb)[i := (pool qb ! i)\<lparr>qnext := unused_head qb\<rparr>]"
    "chain qnext m (Some i) (i # fs)" "map qdata m = map qdata (pool qb)"
    using add_head_law [OF ch(1) i(1,2)] .
  have size: "unat (queue_size qb - 1) = length us"
    using unat_size_pred [OF assms] by simp
  show ?thesis
  proof (cases "us = []")
    case True
    with that [of "qb\<lparr>pool := m, unused_head := Some i, used_head := None,
        queue_size := queue_size qb - 1\<rparr>"] h walk m i size assms
    show ?thesis
      by (auto simp: queue_buffer_pop_back_def get_data_def nth_payload payload_def frame_def qb_lists_def)
  next
    case False
    let ?l = "last us"
    let ?m = "m[?l := (m ! ?l)\<lparr>qnext := None\<rparr>]"
    from False have us: "us = butlast us @ [?l]" by simp
    from False have l: "?l \<in> set us" by simp
    then have l': "?l < length (pool qb)" "?l \<noteq> i" "?l \<notin> set fs"
      using chain_bound [OF ch(2)] i d by auto
    have nl: "?l \<notin> set (butlast us)"
      using d(1) us by (metis distinct_append not_distinct_conv_prefix)
    have "path qnext (pool qb) (used_head qb) us (Some i)"
      using ch(2) by (auto simp: chain_append)
    then have "path qnext m (used_head qb) us (Some i)"
      using i m(2) by simp
    then have "path qnext m (used_head qb) (butlast us) (Some ?l)"
      using us by (metis path_append path.simps(2))
    then have "chain qnext ?m (used_head qb) (butlast us @ [?l])"
      using nl l' m(2) by (auto simp: chain_append)
    then have "chain qnext ?m (used_head qb) us" using us by simp
    moreover have "chain qnext ?m (Some i) (i # fs)"
      using m(3) l' by (subst chain_update_notin) auto
    moreover have "map qdata ?m = map qdata (pool qb)"
      by (rule trans [OF map_qdata_set_next m(4)]) (use m l' in simp)
    ultimately show ?thesis
      using that [of "qb\<lparr>pool := ?m, unused_head := Some i, queue_size := queue_size qb - 1\<rparr>"]
        h walk m i l' size assms False
      by (auto simp: queue_buffer_pop_back_def get_data_def set_next_def nth_payload payload_def
          frame_def qb_lists_def)
  qed
qed

lemma free_law:
  assumes "qb_lists qb (us @ i # vs) fs"
  obtains qb' where "queue_buffer_free qb i = Inr qb'"
    and "qb_lists qb' (us @ vs) (i # fs)" and "payload qb' = payload qb" and "frame qb qb'"
proof -
  let ?m = "pool qb"
  from assms have i: "i < length ?m" "i \<notin> set fs" "i \<notin> set us" "i \<notin> set vs"
    and ch: "chain qnext ?m (unused_head qb) fs" "chain qnext ?m (used_head qb) (us @ i # vs)"
    and d: "distinct us" "distinct vs" "set us \<inter> set vs = {}" "set us \<inter> set fs = {}" "set vs \<inter> set fs = {}"
    by (auto simp: qb_lists_def dest!: chain_bound)
  have find: "find_prev (\<lambda>j. j = i) None (us @ i # vs) = Some (if us = [] then None else Some (last us), i)"
    (is "?f = _")
  proof -
    have "?f \<noteq> None" by (simp add: find_prev_None_iff)
    then obtain q j where "?f = Some (q, j)" by auto
    from find_prev_split [OF this] show ?thesis
      using \<open>?f = Some (q, j)\<close> i by (auto simp: append_eq_Cons_conv append_eq_append_conv2 Cons_eq_append_conv)
  qed
  have walk: "walk_find (length ?m) qnext (\<lambda>j _. j = i) ?m None (used_head qb)
      = Inr (Some (if us = [] then None else Some (last us), i))"
    using walk_find_eq [OF ch(2)] find by simp
  have size: "unat (queue_size qb - 1) = length (us @ vs)"
    using unat_size_pred [OF assms] by simp
  let ?put = "\<lambda>m. m[i := (m ! i)\<lparr>qnext := unused_head qb\<rparr>]"
  show ?thesis
  proof (cases "us = []")
    case True
    let ?qb = "qb\<lparr>pool := ?put ?m, used_head := qnext (?m ! i), unused_head := Some i,
      queue_size := queue_size qb - 1\<rparr>"
    from True show ?thesis
      using that [of ?qb] walk i ch d size assms
      by (auto simp: queue_buffer_free_def get_next_def set_next_def add_head_def payload_def
          map_qdata_set_next frame_def qb_lists_def)
  next
    case False
    let ?l = "last us"
    let ?m1 = "?m[?l := (?m ! ?l)\<lparr>qnext := qnext (?m ! i)\<rparr>]"
    let ?qb = "qb\<lparr>pool := ?put ?m1, unused_head := Some i, queue_size := queue_size qb - 1\<rparr>"
    from False have us: "us = butlast us @ [?l]" by simp
    from False have l: "?l \<in> set us" by simp
    then have l': "?l < length ?m" "?l \<noteq> i" "?l \<notin> set fs"
      using chain_bound [OF ch(2)] i d by auto
    have "chain qnext ?m1 (used_head qb) (butlast us @ ?l # vs)"
    proof (rule chain_unlink)
      show "chain qnext ?m (used_head qb) (butlast us @ ?l # i # vs)"
        using ch(2) us by (metis append_Cons append_Nil append_assoc)
      show "distinct (butlast us @ ?l # i # vs)"
        using chain_distinct [OF ch(2)] us by (metis append_Cons append_Nil append_assoc)
    qed simp
    then have "chain qnext ?m1 (used_head qb) (us @ vs)"
      using us by (metis append_Cons append_Nil append_assoc)
    then have used: "chain qnext (?put ?m1) (used_head qb) (us @ vs)" using i by simp
    have free: "chain qnext (?put ?m1) (Some i) (i # fs)" using ch(1) i l' by simp
    have data: "map qdata (?put ?m1) = map qdata ?m"
      by (rule trans [OF map_qdata_set_next map_qdata_set_next]) (use i l' in auto)
    have "queue_buffer_free qb i = Inr ?qb"
      using walk i l' False by (simp add: queue_buffer_free_def get_next_def set_next_def add_head_def)
    moreover have "qb_lists ?qb (us @ vs) (i # fs)"
      using used free size assms by (auto simp: qb_lists_def)
    ultimately show ?thesis using that data by (simp add: payload_def frame_def)
  qed
qed

lemma find_law:
  assumes "qb_lists qb us fs"
  shows "queue_buffer_find qb P = Inr (List.find (\<lambda>i. P (payload qb ! i)) us)"
proof -
  from assms have ch: "chain qnext (pool qb) (used_head qb) us" by (simp add: qb_lists_def)
  have "List.find (\<lambda>i. P (qdata (pool qb ! i))) us = List.find (\<lambda>i. P (payload qb ! i)) us"
    using chain_bound [OF ch] by (intro find_cong) (auto simp: nth_payload)
  then show ?thesis
    by (simp add: queue_buffer_find_def walk_find_eq [OF ch] map_snd_find_prev)
qed

lemma clear_law:
  assumes "qb_lists qb us fs"
  obtains qb' where "queue_buffer_clear qb = Inr qb'" and "qb_lists qb' [] (fs @ us)"
    and "payload qb' = payload qb" and "queue_max_size qb' = queue_max_size qb"
    and "iterator qb' = None"
proof -
  let ?m = "pool qb"
  from assms have ch: "chain qnext ?m (unused_head qb) fs" "chain qnext ?m (used_head qb) us"
    and d: "distinct fs" "set us \<inter> set fs = {}"
    by (auto simp: qb_lists_def)
  show ?thesis
  proof (cases "us = [] \<or> fs = []")
    case True
    with assms that show ?thesis
      by (cases us; cases fs) (auto simp: queue_buffer_clear_def qb_lists_def payload_def)
  next
    case False
    then obtain s where s: "unused_head qb = Some s" using ch(1) by (cases fs) auto
    obtain u where u: "used_head qb = Some u" using False ch(2) by (cases us) auto
    let ?l = "last fs"
    let ?m' = "?m[?l := (?m ! ?l)\<lparr>qnext := Some u\<rparr>]"
    from False have fs: "fs = butlast fs @ [?l]" by simp
    from False have "?l \<in> set fs" by simp
    then have l: "?l < length ?m" "?l \<notin> set us"
      using chain_bound [OF ch(1)] d by auto
    have nl: "?l \<notin> set (butlast fs)"
      using d(1) fs by (metis distinct_append not_distinct_conv_prefix)
    have "chain qnext ?m' (unused_head qb) (butlast fs @ ?l # us)"
    proof (rule chain_link_last)
      show "chain qnext ?m (unused_head qb) (butlast fs @ [?l])" using ch(1) fs by simp
      show "chain qnext ?m (Some u) us" using ch(2) u by simp
    qed (use nl l in simp_all)
    then have "chain qnext ?m' (unused_head qb) (fs @ us)"
      using fs by (metis append_Cons append_Nil append_assoc)
    with that [of "qb\<lparr>pool := ?m', used_head := None, queue_size := 0, iterator := None\<rparr>"]
      s u l assms ch(1) show ?thesis
      by (auto simp: queue_buffer_clear_def set_next_def walk_last_eq qb_lists_def payload_def
          map_qdata_set_next Un_commute Int_commute)
  qed
qed

subsection \<open>Initialisation links the cells in address order\<close>

lemma init_loop_law:
  "chain qnext m head [0..<i] \<Longrightarrow> i + n \<le> length m \<Longrightarrow>
   \<exists>m' h'. init_loop n i m head = Inr (m', h') \<and> chain qnext m' h' [0..<i + n] \<and>
           map qdata m' = map qdata m"
proof (induction n arbitrary: i m head)
  case (Suc n)
  have "i < length m" "i \<notin> set [0..<i]" using Suc.prems by auto
  with Suc.prems(1) obtain m1 h1 where 1: "add_tail m head i = Inr (m1, h1)"
    "chain qnext m1 h1 ([0..<i] @ [i])" "map qdata m1 = map qdata m"
    by (rule add_tail_law)
  from 1(3) have len: "length m1 = length m" by (metis length_map)
  have "chain qnext m1 h1 [0..<Suc i]" using 1(2) by simp
  from Suc.IH [OF this] Suc.prems(2) 1 len show ?case by auto
qed simp

lemma init_law:
  assumes "unat n \<le> length mem"
  obtains qb where "queue_buffer_init mem n = Inr qb" and "qb_lists qb [] [0..<unat n]"
    and "payload qb = map qdata mem" and "queue_max_size qb = n" and "iterator qb = None"
proof -
  from init_loop_law [of mem None 0 "unat n"] assms obtain m' h' where
    "init_loop (unat n) 0 mem None = Inr (m', h')" "chain qnext m' h' [0..<unat n]"
    "map qdata m' = map qdata mem" by auto
  with that [of "\<lparr>queue_size = 0, queue_max_size = n, pool = m', unused_head = h',
      used_head = None, iterator = None\<rparr>"]
  show ?thesis by (auto simp: queue_buffer_init_def qb_lists_def payload_def atLeast0LessThan)
qed

subsection \<open>What each operation does to the entries\<close>

lemma wf_room:
  assumes "qb_wf qb" and "length (entries qb) < capacity qb"
  obtains us f fs where "qb_lists qb us (f # fs)" and "used_slots qb = us"
proof -
  from assms(1) obtain us fs where l: "qb_lists qb us fs" "used_slots qb = us"
    by (rule qb_wfE)
  with assms(2) qb_lists_length [OF l(1)] have "fs \<noteq> []" by (auto simp: entries_def)
  with that l show ?thesis by (cases fs) auto
qed

lemma wf_full:
  assumes "qb_wf qb" and "length (entries qb) = capacity qb"
  shows "qb_lists qb (used_slots qb) []"
proof -
  from assms(1) obtain us fs where l: "qb_lists qb us fs" "used_slots qb = us"
    by (rule qb_wfE)
  with assms(2) qb_lists_length [OF l(1)] have "fs = []" by (auto simp: entries_def)
  with l show ?thesis by simp
qed

lemma set_data_law:
  assumes "qb_lists qb us fs" and "i < length (pool qb)"
  obtains qb' where "set_data qb i x = Inr qb'" and "qb_lists qb' us fs"
    and "payload qb' = (payload qb)[i := x]" and "frame qb qb'"
proof -
  have "map qdata ((pool qb)[i := (pool qb ! i)\<lparr>qdata := x\<rparr>]) = (payload qb)[i := x]"
    by (simp add: payload_def map_update)
  with that [of "qb\<lparr>pool := (pool qb)[i := (pool qb ! i)\<lparr>qdata := x\<rparr>]\<rparr>"] assms
  show ?thesis
    by (auto simp: set_data_def qb_lists_def chain_update_payload payload_def frame_def)
qed

lemma alloc_front_entries:
  assumes wf: "qb_wf qb" and room: "length (entries qb) < capacity qb"
  obtains qb' i where "queue_buffer_alloc_front qb = Inr (qb', Some i)" and "qb_wf qb'"
    and "entries qb' = (i, payload qb ! i) # entries qb" and "frame qb qb'"
    and "payload qb' = payload qb" and "i \<notin> fst ` set (entries qb)" and "i < length (pool qb)"
proof -
  from wf_room [OF wf room] obtain us f fs where l: "qb_lists qb us (f # fs)" .
  from allocate_front_law [OF l] obtain q where q: "allocate_buffer_space_front qb = Inr (q, Some f)"
    "qb_lists (q\<lparr>queue_size := queue_size qb + 1\<rparr>) (f # us) fs" "payload q = payload qb"
    "frame qb q" "queue_size q = queue_size qb" .
  have pl: "payload (q\<lparr>queue_size := queue_size qb + 1\<rparr>) = payload q" by (simp add: payload_def)
  show ?thesis
  proof (rule that [of "q\<lparr>queue_size := queue_size qb + 1\<rparr>" f])
    show "f < length (pool qb)" using qb_lists_bound [OF l] by simp
    show "f \<notin> fst ` set (entries qb)"
      using l by (auto simp: entries_lists [OF l] qb_lists_def)
  qed (use l q pl in \<open>auto simp: queue_buffer_alloc_front_def entries_lists qb_lists_wf frame_def\<close>)
qed

lemma alloc_front_full:
  "qb_wf qb \<Longrightarrow> length (entries qb) = capacity qb \<Longrightarrow> queue_buffer_alloc_front qb = Inr (qb, None)"
  by (simp add: queue_buffer_alloc_front_def allocate_full [OF wf_full])

lemma push_front_entries:
  assumes wf: "qb_wf qb" and room: "length (entries qb) < capacity qb"
  obtains qb' i where "queue_buffer_push_front qb x = Inr (qb', Some i)" and "qb_wf qb'"
    and "entries qb' = (i, x) # entries qb" and "frame qb qb'"
    and "length (pool qb') = length (pool qb)"
proof -
  from wf_room [OF wf room] obtain us f fs where l: "qb_lists qb us (f # fs)" .
  from allocate_front_law [OF l] obtain q where q: "allocate_buffer_space_front qb = Inr (q, Some f)"
    "qb_lists (q\<lparr>queue_size := queue_size qb + 1\<rparr>) (f # us) fs" "payload q = payload qb"
    "frame qb q" "queue_size q = queue_size qb" .
  let ?q = "q\<lparr>queue_size := queue_size qb + 1\<rparr>"
  have pl: "payload ?q = payload q" by (simp add: payload_def)
  have f: "f < length (pool ?q)" using qb_lists_bound [OF q(2)] by simp
  from set_data_law [OF q(2) f] obtain r where r: "set_data ?q f x = Inr r"
    "qb_lists r (f # us) fs" "payload r = (payload ?q)[f := x]" "frame ?q r" .
  have other: "(payload qb)[f := x] ! j = payload qb ! j" if "j \<in> set us" for j
    using l that by (intro nth_list_update_neq) (auto simp: qb_lists_def)
  have "entries r = (f, x) # entries qb"
    using r(3) q(3) pl qb_lists_bound [OF l, of f] other
    by (simp add: entries_lists [OF l] entries_lists [OF r(2)])
  moreover have "length (pool r) = length (pool qb)"
    using r(3) q(3) pl by (metis length_list_update length_payload)
  ultimately show ?thesis using that r q
    by (auto simp: queue_buffer_push_front_def qb_lists_wf frame_def)
qed

lemma push_front_full:
  "qb_wf qb \<Longrightarrow> length (entries qb) = capacity qb \<Longrightarrow> queue_buffer_push_front qb x = Inr (qb, None)"
  by (simp add: queue_buffer_push_front_def allocate_full [OF wf_full])

lemma push_back_entries:
  assumes wf: "qb_wf qb" and room: "length (entries qb) < capacity qb"
  obtains qb' i where "queue_buffer_push_back qb x = Inr (qb', Some i)" and "qb_wf qb'"
    and "entries qb' = entries qb @ [(i, x)]" and "frame qb qb'"
proof -
  from wf_room [OF wf room] obtain us f fs where l: "qb_lists qb us (f # fs)" .
  from allocate_back_law [OF l] obtain q where q: "allocate_buffer_space_back qb = Inr (q, Some f)"
    "qb_lists (q\<lparr>queue_size := queue_size qb + 1\<rparr>) (us @ [f]) fs" "payload q = payload qb"
    "frame qb q" "queue_size q = queue_size qb" .
  let ?q = "q\<lparr>queue_size := queue_size qb + 1\<rparr>"
  have pl: "payload ?q = payload q" by (simp add: payload_def)
  have f: "f < length (pool ?q)" using qb_lists_bound [OF q(2)] by simp
  from set_data_law [OF q(2) f] obtain r where r: "set_data ?q f x = Inr r"
    "qb_lists r (us @ [f]) fs" "payload r = (payload ?q)[f := x]" "frame ?q r" .
  have other: "(payload qb)[f := x] ! j = payload qb ! j" if "j \<in> set us" for j
    using l that by (intro nth_list_update_neq) (auto simp: qb_lists_def)
  have "entries r = entries qb @ [(f, x)]"
    using r(3) q(3) pl qb_lists_bound [OF l, of f] other
    by (simp add: entries_lists [OF l] entries_lists [OF r(2)])
  with that r q show ?thesis
    by (auto simp: queue_buffer_push_back_def qb_lists_wf frame_def)
qed

lemma push_back_full:
  "qb_wf qb \<Longrightarrow> length (entries qb) = capacity qb \<Longrightarrow> queue_buffer_push_back qb x = Inr (qb, None)"
  by (simp add: queue_buffer_push_back_def allocate_full [OF wf_full])

lemma pop_front_entries:
  assumes wf: "qb_wf qb" and e: "entries qb = (i, x) # es"
  obtains qb' where "queue_buffer_pop_front qb = Inr (qb', x)" and "qb_wf qb'"
    and "entries qb' = es" and "frame qb qb'"
proof -
  from wf obtain us fs where l: "qb_lists qb us fs" by (rule qb_wfE)
  from e obtain vs where us: "us = i # vs" "payload qb ! i = x" "es = map (\<lambda>i. (i, payload qb ! i)) vs"
    by (auto simp: entries_lists [OF l])
  from pop_front_law [OF l [unfolded us(1)]] obtain qb' where
    "queue_buffer_pop_front qb = Inr (qb', payload qb ! i)" "qb_lists qb' vs (i # fs)"
    "payload qb' = payload qb" "frame qb qb'" .
  with that us show ?thesis by (auto simp: entries_lists qb_lists_wf)
qed

lemma pop_back_entries:
  assumes wf: "qb_wf qb" and e: "entries qb = es @ [(i, x)]"
  obtains qb' where "queue_buffer_pop_back qb = Inr (qb', x)" and "qb_wf qb'"
    and "entries qb' = es" and "frame qb qb'"
proof -
  from wf obtain us fs where l: "qb_lists qb us fs" by (rule qb_wfE)
  from e obtain vs where us: "us = vs @ [i]" "payload qb ! i = x" "es = map (\<lambda>i. (i, payload qb ! i)) vs"
    by (auto simp: entries_lists [OF l] map_eq_append_conv)
  from pop_back_law [OF l [unfolded us(1)]] obtain qb' where
    "queue_buffer_pop_back qb = Inr (qb', payload qb ! i)" "qb_lists qb' vs (i # fs)"
    "payload qb' = payload qb" "frame qb qb'" .
  with that us show ?thesis by (auto simp: entries_lists qb_lists_wf)
qed

lemma pop_empty:
  assumes wf: "qb_wf qb" and e: "entries qb = []"
  shows "queue_buffer_pop_front qb = Inl Assert_Failed" and "queue_buffer_pop_back qb = Inl Assert_Failed"
proof -
  from wf obtain us fs where l: "qb_lists qb us fs" by (rule qb_wfE)
  with e have "used_head qb = None" by (simp add: entries_lists qb_lists_def)
  then show "queue_buffer_pop_front qb = Inl Assert_Failed" and "queue_buffer_pop_back qb = Inl Assert_Failed"
    by (simp_all add: queue_buffer_pop_front_def queue_buffer_pop_back_def)
qed

lemma free_entries:
  assumes wf: "qb_wf qb" and i: "i \<in> fst ` set (entries qb)"
  obtains qb' where "queue_buffer_free qb i = Inr qb'" and "qb_wf qb'"
    and "entries qb' = filter (\<lambda>e. fst e \<noteq> i) (entries qb)" and "frame qb qb'"
    and "payload qb' = payload qb"
proof -
  from wf obtain us fs where l: "qb_lists qb us fs" by (rule qb_wfE)
  with i have "i \<in> set us" by (auto simp: entries_lists)
  then obtain vs ws where us: "us = vs @ i # ws" by (auto simp: in_set_conv_decomp)
  from l us have d: "i \<notin> set vs" "i \<notin> set ws" by (auto simp: qb_lists_def)
  from free_law [OF l [unfolded us]] obtain qb' where q: "queue_buffer_free qb i = Inr qb'"
    "qb_lists qb' (vs @ ws) (i # fs)" "payload qb' = payload qb" "frame qb qb'" .
  have "filter (\<lambda>j. j \<noteq> i) vs = vs" "filter (\<lambda>j. j \<noteq> i) ws = ws"
    using d by (auto intro!: filter_True)
  then have "entries qb' = filter (\<lambda>e. fst e \<noteq> i) (entries qb)"
    by (simp add: entries_lists [OF l] entries_lists [OF q(2)] us q(3) filter_map comp_def)
  with that q show ?thesis by (auto simp: qb_lists_wf)
qed

lemma free_unused:
  assumes wf: "qb_wf qb" and i: "i \<notin> fst ` set (entries qb)"
  shows "queue_buffer_free qb i = Inl Assert_Failed"
proof -
  from wf obtain us fs where l: "qb_lists qb us fs" by (rule qb_wfE)
  with i have "i \<notin> set us" by (auto simp: entries_lists image_iff)
  then have "find_prev (\<lambda>j. j = i) None us = None" by (auto simp: find_prev_None_iff)
  moreover from l have "chain qnext (pool qb) (used_head qb) us" by (simp add: qb_lists_def)
  ultimately show ?thesis by (simp add: queue_buffer_free_def walk_find_eq)
qed

lemma find_entries:
  assumes wf: "qb_wf qb"
  shows "queue_buffer_find qb P = Inr (map_option fst (List.find (\<lambda>e. P (snd e)) (entries qb)))"
proof -
  from wf obtain us fs where l: "qb_lists qb us fs" by (rule qb_wfE)
  have "map_option fst (List.find (\<lambda>e. P (snd e)) (map (\<lambda>i. (i, f i)) us)) = List.find (\<lambda>i. P (f i)) us"
    for f by (induction us) auto
  then show ?thesis by (simp add: find_law [OF l] entries_lists [OF l])
qed

lemma clear_entries:
  assumes wf: "qb_wf qb"
  obtains qb' where "queue_buffer_clear qb = Inr qb'" and "qb_wf qb'" and "entries qb' = []"
    and "capacity qb' = capacity qb"
proof -
  from wf obtain us fs where l: "qb_lists qb us fs" by (rule qb_wfE)
  from clear_law [OF l] obtain qb' where "queue_buffer_clear qb = Inr qb'" "qb_lists qb' [] (fs @ us)"
    "payload qb' = payload qb" "queue_max_size qb' = queue_max_size qb" .
  with that show ?thesis by (auto simp: entries_lists qb_lists_wf capacity_def)
qed

lemma init_entries:
  assumes "unat n \<le> length mem"
  obtains qb where "queue_buffer_init mem n = Inr qb" and "qb_wf qb" and "entries qb = []"
    and "capacity qb = unat n" and "payload qb = map qdata mem"
  using init_law [OF assms] by (metis capacity_def entries_lists list.map(1) qb_lists_wf)

subsection \<open>Iterating\<close>

lemma payload_iterator [simp]: "payload (qb\<lparr>iterator := p\<rparr>) = payload qb"
  by (simp add: payload_def)

lemma qb_lists_iterator [simp]: "qb_lists (qb\<lparr>iterator := p\<rparr>) us fs = qb_lists qb us fs"
  by (simp add: qb_lists_def)

lemma entries_iterator [simp]: "entries (qb\<lparr>iterator := p\<rparr>) = entries qb"
  by (simp add: entries_def used_slots_def)

lemma qb_wf_iterator [simp]: "qb_wf (qb\<lparr>iterator := p\<rparr>) = qb_wf qb"
  by (simp add: qb_wf_iff)

lemma begin_entries:
  assumes wf: "qb_wf qb"
  shows "queue_buffer_begin qb = (qb\<lparr>iterator := head_slot (entries qb)\<rparr>, head_slot (entries qb))"
proof -
  from wf obtain us fs where l: "qb_lists qb us fs" by (rule qb_wfE)
  then have "chain qnext (pool qb) (used_head qb) us" by (simp add: qb_lists_def)
  then have "used_head qb = head_slot (entries qb)"
    by (cases us) (simp_all add: entries_lists [OF l] head_slot_def)
  then show ?thesis by (simp add: queue_buffer_begin_def)
qed

lemma next_entries:
  assumes wf: "qb_wf qb" and e: "entries qb = es @ (i, x) # fs" and it: "iterator qb = Some i"
  shows "queue_buffer_next qb = Inr (qb\<lparr>iterator := head_slot fs\<rparr>, head_slot fs)"
proof -
  from wf obtain us gs where l: "qb_lists qb us gs" by (rule qb_wfE)
  from e obtain vs ws where us: "us = vs @ i # ws" and fs: "fs = map (\<lambda>i. (i, payload qb ! i)) ws"
    by (auto simp: entries_lists [OF l] map_eq_append_conv map_eq_Cons_conv)
  from l us have "i < length (pool qb)" "chain qnext (pool qb) (qnext (pool qb ! i)) ws"
    by (auto simp: qb_lists_def chain_append)
  then have "qnext (pool qb ! i) = head_slot fs"
    by (cases ws) (auto simp: fs head_slot_def)
  with it \<open>i < length (pool qb)\<close> show ?thesis
    by (simp add: queue_buffer_next_def get_next_def)
qed

lemma next_null: "iterator qb = None \<Longrightarrow> queue_buffer_next qb = Inl Null_Deref"
  by (simp add: queue_buffer_next_def)

subsection \<open>The interface is met\<close>

lemma frame_capacity: "frame qb qb' \<Longrightarrow> capacity qb' = capacity qb"
  by (simp add: frame_def capacity_def)

interpretation sq: slot_queue qb_wf entries capacity queue_buffer_find queue_buffer_free
  queue_buffer_push_front queue_buffer_pop_back queue_buffer_clear
proof unfold_locales
  fix q :: "'a queue_buffer" and x :: 'a and i :: nat and es
  assume wf: "qb_wf q"
  show "distinct (map fst (entries q))" using wf by (rule distinct_entries)
  show "length (entries q) \<le> capacity q" using wf by (rule length_entries_le)
  show "queue_buffer_find q P = Inr (map_option fst (List.find (\<lambda>e. P (snd e)) (entries q)))" for P
    using wf by (rule find_entries)
  show "returns (queue_buffer_free q i) (\<lambda>q'. qb_wf q' \<and> entries q' = filter (\<lambda>e. fst e \<noteq> i) (entries q) \<and>
      capacity q' = capacity q)" if "i \<in> fst ` set (entries q)"
    by (rule free_entries [OF wf that]) (simp add: frame_capacity)
  show "returns (queue_buffer_push_front q x) (\<lambda>(q', r). \<exists>i. r = Some i \<and> qb_wf q' \<and>
      entries q' = (i, x) # entries q \<and> capacity q' = capacity q)" if "length (entries q) < capacity q"
    by (rule push_front_entries [OF wf that, of x]) (simp add: frame_capacity)
  show "queue_buffer_push_front q x = Inr (q, None)" if "length (entries q) = capacity q"
    using wf that by (rule push_front_full)
  show "returns (queue_buffer_pop_back q) (\<lambda>(q', y). y = x \<and> qb_wf q' \<and> entries q' = es \<and>
      capacity q' = capacity q)" if "entries q = es @ [(i, x)]"
    by (rule pop_back_entries [OF wf that]) (simp add: frame_capacity)
  show "returns (queue_buffer_clear q) (\<lambda>q'. qb_wf q' \<and> entries q' = [] \<and> capacity q' = capacity q)"
    by (rule clear_entries [OF wf]) simp
qed

interpretation iq: iterable_queue qb_wf entries capacity queue_buffer_find queue_buffer_free
  queue_buffer_push_front queue_buffer_pop_back queue_buffer_clear
  queue_buffer_begin queue_buffer_next iterator
proof unfold_locales
  fix q :: "'a queue_buffer" and x :: 'a and i :: nat and es fs
  assume wf: "qb_wf q"
  show "\<exists>q'. queue_buffer_begin q = (q', head_slot (entries q)) \<and> qb_wf q' \<and> entries q' = entries q \<and>
      capacity q' = capacity q \<and> iterator q' = head_slot (entries q)"
    using wf by (simp add: begin_entries capacity_def)
  show "returns (queue_buffer_next q) (\<lambda>(q', p). p = head_slot fs \<and> qb_wf q' \<and>
      entries q' = entries q \<and> capacity q' = capacity q \<and> iterator q' = head_slot fs)"
    if "entries q = es @ (i, x) # fs" "iterator q = Some i"
    using wf that by (simp add: next_entries capacity_def)
qed

end
