(* ===== verification/Queue_Refinement.thy ===== *)
theory Queue_Refinement
  imports Queue_Buffer
begin

text \<open>
  The contract of the queue buffer, seen from outside: a double-ended queue of bounded size.
  An abstract step computes on the list of items; \<open>qb_step\<close> performs the same operation by the
  calls the clients make. The theory shows that whole runs agree, faults included, and what
  copying one queue onto another does.
\<close>

datatype 'a deque_op = Push_Front 'a | Push_Back 'a | Pop_Front | Pop_Back
  | Remove_First "'a \<Rightarrow> bool" | Clear

datatype 'a deque_out = Done | Full | Popped 'a | Removed bool

subsection \<open>The abstract queue\<close>

fun remove_first :: "('a \<Rightarrow> bool) \<Rightarrow> 'a list \<Rightarrow> 'a list" where
  "remove_first P [] = []"
| "remove_first P (x # xs) = (if P x then xs else x # remove_first P xs)"

fun deque_step :: "nat \<Rightarrow> 'a list \<Rightarrow> 'a deque_op \<Rightarrow> ('a list \<times> 'a deque_out) result" where
  "deque_step n xs (Push_Front x) = Inr (if length xs < n then (x # xs, Done) else (xs, Full))"
| "deque_step n xs (Push_Back x) = Inr (if length xs < n then (xs @ [x], Done) else (xs, Full))"
| "deque_step n [] Pop_Front = Inl Assert_Failed"
| "deque_step n (x # xs) Pop_Front = Inr (xs, Popped x)"
| "deque_step n [] Pop_Back = Inl Assert_Failed"
| "deque_step n (x # xs) Pop_Back = Inr (butlast (x # xs), Popped (last (x # xs)))"
| "deque_step n xs (Remove_First P) = Inr (remove_first P xs, Removed (\<exists>x \<in> set xs. P x))"
| "deque_step n xs Clear = Inr ([], Done)"

fun deque_run :: "nat \<Rightarrow> 'a list \<Rightarrow> 'a deque_op list \<Rightarrow> ('a list \<times> 'a deque_out list) result" where
  "deque_run n xs [] = Inr (xs, [])"
| "deque_run n xs (p # ps) =
     bindR (deque_step n xs p) (\<lambda>(xs, r).
     bindR (deque_run n xs ps) (\<lambda>(xs, rs). Inr (xs, r # rs)))"

subsection \<open>The same calls on the implementation\<close>

definition pushed :: "'a queue_buffer \<times> nat option \<Rightarrow> 'a queue_buffer \<times> 'a deque_out" where
  "pushed r = (fst r, if snd r = None then Full else Done)"

fun qb_step :: "'a queue_buffer \<Rightarrow> 'a deque_op \<Rightarrow> ('a queue_buffer \<times> 'a deque_out) result" where
  "qb_step q (Push_Front x) = bindR (queue_buffer_push_front q x) (\<lambda>r. Inr (pushed r))"
| "qb_step q (Push_Back x) = bindR (queue_buffer_push_back q x) (\<lambda>r. Inr (pushed r))"
| "qb_step q Pop_Front = bindR (queue_buffer_pop_front q) (\<lambda>(q, x). Inr (q, Popped x))"
| "qb_step q Pop_Back = bindR (queue_buffer_pop_back q) (\<lambda>(q, x). Inr (q, Popped x))"
| "qb_step q (Remove_First P) =
     bindR (queue_buffer_find q P) (\<lambda>r. case r of
       None \<Rightarrow> Inr (q, Removed False)
     | Some i \<Rightarrow> bindR (queue_buffer_free q i) (\<lambda>q. Inr (q, Removed True)))"
| "qb_step q Clear = bindR (queue_buffer_clear q) (\<lambda>q. Inr (q, Done))"

fun qb_run :: "'a queue_buffer \<Rightarrow> 'a deque_op list \<Rightarrow> ('a queue_buffer \<times> 'a deque_out list) result" where
  "qb_run q [] = Inr (q, [])"
| "qb_run q (p # ps) =
     bindR (qb_step q p) (\<lambda>(q, r).
     bindR (qb_run q ps) (\<lambda>(q, rs). Inr (q, r # rs)))"

text \<open>The abstraction of a result: the items of the queue, or the fault.\<close>

definition abs_result :: "('a queue_buffer \<times> 'b) result \<Rightarrow> ('a list \<times> 'b) result" where
  "abs_result r = map_sum id (\<lambda>(q, y). (items q, y)) r"

lemma abs_result_simps [simp]:
  "abs_result (Inr (q, y)) = Inr (items q, y)" "abs_result (Inl e) = Inl e"
  by (simp_all add: abs_result_def)

lemma remove_first_entries:
  assumes "distinct (map fst es)"
  shows "map snd (case List.find (\<lambda>e. P (snd e)) es of None \<Rightarrow> es
           | Some e \<Rightarrow> filter (\<lambda>e'. fst e' \<noteq> fst e) es) = remove_first P (map snd es)"
  using assms
proof (induction es)
  case (Cons e es)
  show ?case
  proof (cases "P (snd e)")
    case True
    have "fst e \<notin> fst ` set es" using Cons.prems by simp
    then have "\<forall>e' \<in> set es. fst e' \<noteq> fst e" by (metis imageI)
    then have "filter (\<lambda>e'. fst e' \<noteq> fst e) es = es" by simp
    with True show ?thesis by simp
  next
    case False
    have "fst e \<noteq> fst e'" if "List.find (\<lambda>e. P (snd e)) es = Some e'" for e'
      using find_Some_in [OF that] Cons.prems by auto
    with False Cons show ?thesis by (auto split: option.splits)
  qed
qed simp

lemma deque_pop_back: "deque_step n (xs @ [x]) Pop_Back = Inr (xs, Popped x)"
  by (cases xs) simp_all

lemma qb_step_refines:
  assumes wf: "qb_wf q"
  shows "abs_result (qb_step q p) = deque_step (capacity q) (items q) p \<and>
    (\<forall>q' r. qb_step q p = Inr (q', r) \<longrightarrow> qb_wf q' \<and> capacity q' = capacity q)"
proof (cases p)
  case (Push_Front x)
  show ?thesis
  proof (cases "length (entries q) < capacity q")
    case True
    from push_front_entries [OF wf True, of x] obtain q' i where
      "queue_buffer_push_front q x = Inr (q', Some i)" "qb_wf q'"
      "entries q' = (i, x) # entries q" "frame q q'" by blast
    with True Push_Front show ?thesis by (simp add: pushed_def items_def frame_capacity)
  next
    case False
    with length_entries_le [OF wf] have "length (entries q) = capacity q" by simp
    with Push_Front wf show ?thesis
      by (simp add: push_front_full pushed_def items_def)
  qed
next
  case (Push_Back x)
  show ?thesis
  proof (cases "length (entries q) < capacity q")
    case True
    from push_back_entries [OF wf True, of x] obtain q' i where
      "queue_buffer_push_back q x = Inr (q', Some i)" "qb_wf q'"
      "entries q' = entries q @ [(i, x)]" "frame q q'" .
    with True Push_Back show ?thesis by (simp add: pushed_def items_def frame_capacity)
  next
    case False
    with length_entries_le [OF wf] have "length (entries q) = capacity q" by simp
    with Push_Back wf show ?thesis
      by (simp add: push_back_full pushed_def items_def)
  qed
next
  case Pop_Front
  show ?thesis
  proof (cases "entries q")
    case Nil
    with pop_empty [OF wf] Pop_Front show ?thesis by (simp add: items_def)
  next
    case (Cons e es)
    then have "entries q = (fst e, snd e) # es" by simp
    from pop_front_entries [OF wf this] obtain q' where
      "queue_buffer_pop_front q = Inr (q', snd e)" "qb_wf q'" "entries q' = es" "frame q q'" .
    with Cons Pop_Front show ?thesis by (simp add: items_def frame_capacity)
  qed
next
  case Pop_Back
  show ?thesis
  proof (cases "entries q" rule: rev_exhaust)
    case Nil
    with pop_empty [OF wf] Pop_Back show ?thesis by (simp add: items_def)
  next
    case (snoc es e)
    then have "entries q = es @ [(fst e, snd e)]" by simp
    from pop_back_entries [OF wf this] obtain q' where
      q': "queue_buffer_pop_back q = Inr (q', snd e)" "qb_wf q'" "entries q' = es" "frame q q'" .
    have "deque_step (capacity q) (items q) Pop_Back = Inr (map snd es, Popped (snd e))"
      unfolding items_def snoc by (simp only: list.simps map_append append.simps deque_pop_back)
    with q' Pop_Back show ?thesis by (simp add: items_def frame_capacity)
  qed
next
  case (Remove_First P)
  have d: "distinct (map fst (entries q))" using wf by (rule distinct_entries)
  show ?thesis
  proof (cases "List.find (\<lambda>e. P (snd e)) (entries q)")
    case None
    then have n: "\<not> (\<exists>x \<in> set (items q). P x)" by (auto simp: find_None items_def)
    from None remove_first_entries [OF d, of P] Remove_First n wf show ?thesis
      by (simp add: find_entries items_def)
  next
    case (Some e)
    then have e: "e \<in> set (entries q)" "P (snd e)" by (auto dest: find_Some_in)
    then have "fst e \<in> fst ` set (entries q)" by simp
    from free_entries [OF wf this] obtain q' where q': "queue_buffer_free q (fst e) = Inr q'" "qb_wf q'"
      "entries q' = filter (\<lambda>e'. fst e' \<noteq> fst e) (entries q)" "frame q q'" "payload q' = payload q" .
    have "P (snd e) \<and> snd e \<in> set (items q)" using e by (simp add: items_def)
    then have ex: "\<exists>x \<in> set (items q). P x" by blast
    have "items q' = remove_first P (items q)"
      using q'(3) remove_first_entries [OF d, of P] Some by (simp add: items_def)
    with q' Remove_First Some ex wf show ?thesis
      by (simp add: find_entries frame_capacity)
  qed
next
  case Clear
  from clear_entries [OF wf] obtain q' where "queue_buffer_clear q = Inr q'" "qb_wf q'" "entries q' = []"
    "capacity q' = capacity q" .
  with Clear show ?thesis by (simp add: items_def)
qed

lemma qb_run_refines:
  "qb_wf q \<Longrightarrow> abs_result (qb_run q ps) = deque_run (capacity q) (items q) ps \<and>
    (\<forall>q' rs. qb_run q ps = Inr (q', rs) \<longrightarrow> qb_wf q' \<and> capacity q' = capacity q)"
proof (induction ps arbitrary: q)
  case (Cons p ps)
  note step = qb_step_refines [OF Cons.prems, of p]
  show ?case
  proof (cases "qb_step q p")
    case (Inl e)
    with step have "deque_step (capacity q) (items q) p = Inl e" by simp
    with Inl show ?thesis by simp
  next
    case (Inr r)
    then obtain q1 y where 1: "qb_step q p = Inr (q1, y)" by (cases r) auto
    with step have s: "deque_step (capacity q) (items q) p = Inr (items q1, y)" "qb_wf q1"
      "capacity q1 = capacity q" by auto
    note IH = Cons.IH [OF s(2)]
    show ?thesis
    proof (cases "qb_run q1 ps")
      case (Inl e)
      with IH have "deque_run (capacity q1) (items q1) ps = Inl e" by simp
      with Inl s 1 show ?thesis by simp
    next
      case (Inr r')
      then obtain q2 rs where 2: "qb_run q1 ps = Inr (q2, rs)" by (cases r') auto
      with IH have "deque_run (capacity q) (items q1) ps = Inr (items q2, rs)" "qb_wf q2"
        "capacity q2 = capacity q" using s(3) by auto
      with s 1 2 show ?thesis by simp
    qed
  qed
qed simp

subsection \<open>Copying\<close>

lemma push_back_items:
  assumes wf: "qb_wf q"
  obtains q' r where "queue_buffer_push_back q x = Inr (q', r)" and "qb_wf q'"
    and "capacity q' = capacity q" and "items q' = take (capacity q) (items q @ [x])"
proof (cases "length (entries q) < capacity q")
  case True
  from push_back_entries [OF wf True, of x] obtain q' i where
    "queue_buffer_push_back q x = Inr (q', Some i)" "qb_wf q'" "entries q' = entries q @ [(i, x)]"
    "frame q q'" .
  with that True show ?thesis by (simp add: items_def frame_capacity)
next
  case False
  with length_entries_le [OF wf] have "length (entries q) = capacity q" by simp
  with that wf push_back_full [OF wf this, of x] show ?thesis by (simp add: items_def)
qed

lemma copy_loop_returns:
  "chain qnext m p us \<Longrightarrow> length us \<le> n \<Longrightarrow> qb_wf q \<Longrightarrow>
   returns (copy_loop n q m p) (\<lambda>q'. qb_wf q' \<and> capacity q' = capacity q \<and>
     items q' = take (capacity q) (items q @ map (\<lambda>i. qdata (m ! i)) us))"
proof (induction us arbitrary: n p q)
  case Nil
  then show ?case using length_entries_le [of q] by (simp add: items_def)
next
  case (Cons i us)
  from Cons.prems(1,2) obtain k where k: "p = Some i" "i < length m" "chain qnext m (qnext (m ! i)) us"
    "n = Suc k" "length us \<le> k" by (cases n) auto
  obtain q1 r where q1: "queue_buffer_push_back q (qdata (m ! i)) = Inr (q1, r)" "qb_wf q1"
    "capacity q1 = capacity q" "items q1 = take (capacity q) (items q @ [qdata (m ! i)])"
    using push_back_items [OF Cons.prems(3)] .
  have "take n (take n (xs @ [y]) @ zs) = take n (xs @ y # zs)" for n :: nat and xs zs :: "'a list" and y
    by (cases "length xs < n") (simp_all add: take_Cons')
  with Cons.IH [OF k(3,5) q1(2)] k q1 show ?case by simp
qed

lemma items_lists: "qb_lists q us fs \<Longrightarrow> items q = map (\<lambda>i. qdata (pool q ! i)) us"
  using qb_lists_bound [of q us fs] by (auto simp: items_def entries_lists nth_payload)

text \<open>A queue of three cells on which the theorems are run.\<close>

definition queue_of :: "nat \<Rightarrow> nat list \<Rightarrow> nat queue_buffer result" where
  "queue_of n xs =
     bindR (queue_buffer_init (replicate n \<lparr>qnext = None, qdata = 0\<rparr>) (of_nat n)) (\<lambda>q.
     bindR (qb_run q (map Push_Back xs)) (\<lambda>(q, _). Inr q))"

definition three_queue :: "nat queue_buffer" where
  "three_queue = projr (queue_of 3 [7, 8])"

definition two_queue :: "nat queue_buffer" where
  "two_queue = projr (queue_of 2 [4, 5])"

lemma three_queue_wf: "qb_wf three_queue" "items three_queue = [7, 8]" "capacity three_queue = 3"
  by code_simp+

lemma two_queue_wf: "qb_wf two_queue" "items two_queue = [4, 5]" "capacity two_queue = 2"
  by code_simp+

text \<open>
  \<open>queue_buffer_copy\<close> always ends; it appends the items of the source queue, in their order, to
  the target, and drops those for which the target has no room.
\<close>

theorem queue_buffer_copy_appends:
  assumes "qb_wf to" and "qb_wf from"
  shows "returns (queue_buffer_copy to from) (\<lambda>to'. qb_wf to' \<and> capacity to' = capacity to \<and>
    items to' = take (capacity to) (items to @ items from))"
proof -
  from assms(2) obtain us fs where l: "qb_lists from us fs" by (rule qb_wfE)
  then have ch: "chain qnext (pool from) (used_head from) us" by (simp add: qb_lists_def)
  from copy_loop_returns [OF ch chain_length [OF ch] assms(1)] show ?thesis
    by (simp add: queue_buffer_copy_def items_lists [OF l])
qed

lemma queue_buffer_copy_witness:
  "returns (queue_buffer_copy three_queue two_queue) (\<lambda>to'. qb_wf to' \<and> capacity to' = capacity three_queue \<and>
     items to' = take (capacity three_queue) (items three_queue @ items two_queue))"
  by (rule queue_buffer_copy_appends [OF three_queue_wf(1) two_queue_wf(1)])

text \<open>
  C2: the linked-list implementation of the queue refines a bounded double-ended queue: a run of
  any sequence of pushes, pops, removals by predicate and clears, started in a well-formed queue,
  gives the items and the outputs of the abstract run, and fails (a pop from the empty queue)
  exactly where the abstract run does; it ends in a well-formed queue.
\<close>

theorem queue_buffer_refines_deque:
  assumes "qb_wf q"
  shows "abs_result (qb_run q ps) = deque_run (capacity q) (items q) ps \<and>
    (\<forall>q' rs. qb_run q ps = Inr (q', rs) \<longrightarrow> qb_wf q' \<and> capacity q' = capacity q)"
  using assms by (rule qb_run_refines)

lemma queue_buffer_refines_witness:
  "abs_result (qb_run three_queue [Push_Front 1, Push_Back 2, Pop_Back, Remove_First (\<lambda>x. x = 7)]) =
     Inr ([1], [Done, Full, Popped 8, Removed True])"
  using queue_buffer_refines_deque [OF three_queue_wf(1),
      of "[Push_Front 1, Push_Back 2, Pop_Back, Remove_First (\<lambda>x. x = 7)]"]
  by (simp add: three_queue_wf)

end
