(* ===== verification/Queue_Unittest.thy ===== *)
theory Queue_Unittest
  imports Queue_Buffer
begin

text \<open>
  The repository's own test of the queue buffer (\<open>queue_buffer_unittest.c\<close>), run on the model: the
  same operations and assertions, in the same order. An assertion that fails is \<open>Assert_Failed\<close>.
  The guard bytes around the queue need no model, since no operation reaches outside the pool.
\<close>

record test_item =
  ti_a :: byte
  ti_b :: byte
  ti_c :: byte

definition cmparer :: "test_item \<Rightarrow> test_item \<Rightarrow> bool" where
  "cmparer l r \<longleftrightarrow> ti_a l = ti_a r \<and> ti_b l = ti_b r \<and> ti_c l = ti_c r"

definition assert_then :: "bool \<Rightarrow> 'a result \<Rightarrow> 'a result" where
  "assert_then b r = bindR (assertR b) (\<lambda>_. r)"

definition assert_find :: "test_item queue_buffer \<Rightarrow> test_item \<Rightarrow> nat option \<Rightarrow> unit result" where
  "assert_find q x p = bindR (queue_buffer_find q (\<lambda>y. cmparer y x)) (\<lambda>r. assertR (r = p))"

text \<open>The walk over the queue meets exactly these cells, and the sizes are as expected.\<close>

fun assert_next :: "test_item queue_buffer \<Rightarrow> nat option list \<Rightarrow> test_item queue_buffer result" where
  "assert_next q [] = Inr q"
| "assert_next q (p # ps) = bindR (queue_buffer_next q) (\<lambda>(q, r). assert_then (r = p) (assert_next q ps))"

definition assert_walk :: "test_item queue_buffer \<Rightarrow> nat option \<Rightarrow> nat option list \<Rightarrow> byte
    \<Rightarrow> test_item queue_buffer result" where
  "assert_walk q p ps n =
     (case queue_buffer_begin q of (q, r) \<Rightarrow>
        assert_then (r = p) (bindR (assert_next q ps) (\<lambda>q.
        assert_then (queue_buffer_size q = n) (assert_then (queue_buffer_max_size q = 8) (Inr q)))))"

definition tt1 :: test_item where "tt1 = \<lparr>ti_a = 97, ti_b = 98, ti_c = 99\<rparr>"
definition tt2 :: test_item where "tt2 = \<lparr>ti_a = 100, ti_b = 101, ti_c = 102\<rparr>"

definition test_pool :: "test_item queue_cell list" where
  "test_pool = replicate 8 \<lparr>qnext = None, qdata = \<lparr>ti_a = 0, ti_b = 0, ti_c = 0\<rparr>\<rparr>"

definition queue_buffer_unittest :: "unit result" where
  "queue_buffer_unittest =
     bindR (queue_buffer_init test_pool 8) (\<lambda>qb.
     assert_then (queue_buffer_size qb = 0) (assert_then (queue_buffer_max_size qb = 8)
     (case queue_buffer_begin qb of (qb, p) \<Rightarrow> assert_then (p = None)
     (bindR (queue_buffer_push_front qb tt1) (\<lambda>(qb, qt1).
     bindR (case qt1 of None \<Rightarrow> Inl Null_Deref | Some i \<Rightarrow> get_data qb i) (\<lambda>d. assert_then (d = tt1)
     (bindR (assert_walk qb qt1 [None] 1) (\<lambda>qb.
     bindR (assert_find qb tt1 qt1) (\<lambda>_.
     bindR (queue_buffer_push_front qb tt2) (\<lambda>(qb, qt2).
     bindR (case qt2 of None \<Rightarrow> Inl Null_Deref | Some i \<Rightarrow> get_data qb i) (\<lambda>d. assert_then (d = tt2)
     (bindR (assert_walk qb qt2 [qt1, None] 2) (\<lambda>qb.
     bindR (assert_find qb tt1 qt1) (\<lambda>_.
     bindR (assert_find qb tt2 qt2) (\<lambda>_.
     bindR (case qt1 of None \<Rightarrow> Inl Null_Deref | Some i \<Rightarrow> queue_buffer_free qb i) (\<lambda>qb.
     bindR (assert_walk qb qt2 [None] 1) (\<lambda>qb.
     bindR (assert_find qb tt1 None) (\<lambda>_.
     assert_find qb tt2 qt2))))))))))))))))))"

lemma queue_buffer_unittest_passes: "queue_buffer_unittest = Inr ()"
  by code_simp

end
