(* ===== verification/Coordinate.thy ===== *)
theory Coordinate
  imports Prelude
begin

text \<open>
  The byte-pair encodings of \<open>base/util.h\<close>, the two-byte node addresses of Rime
  (\<open>rimeaddr_t\<close>, \<open>core/net/rime/rimeaddr.c\<close>), and the coordinates of \<open>emergency_net/coordinate.c\<close>
  with their Manhattan distance on 16-bit words.
\<close>

subsection \<open>base/util.h\<close>

definition uint16_to_uint8 :: "u16 \<Rightarrow> u8x2" where
  "uint16_to_uint8 v = (ucast (drop_bit 8 (v AND 0xFF00)), ucast (v AND 0xFF))"

definition uint8_to_uint16 :: "u8x2 \<Rightarrow> u16" where
  "uint8_to_uint16 v = push_bit 8 (ucast (fst v)) OR ucast (snd v)"

subsection \<open>Rime addresses\<close>

type_synonym rimeaddr = u8x2

definition rimeaddr_null :: rimeaddr where
  "rimeaddr_null = (0, 0)"

definition rimeaddr_cmp :: "rimeaddr \<Rightarrow> rimeaddr \<Rightarrow> bool" where
  "rimeaddr_cmp a b = (if fst a \<noteq> fst b then False else if snd a \<noteq> snd b then False else True)"

subsection \<open>emergency_net/coordinate.c\<close>

record coordinate =
  cx :: u8x2
  cy :: u8x2

definition coordinate_null :: coordinate where
  "coordinate_null = \<lparr>cx = (0, 0), cy = (0, 0)\<rparr>"

definition coord_abs :: "32 word \<Rightarrow> u16" where
  "coord_abs a = (if a <s 0 then ucast (- a) else ucast a)"

definition coordinate_distance :: "coordinate \<Rightarrow> coordinate \<Rightarrow> u16" where
  "coordinate_distance from to =
     (let diffx = coord_abs (ucast (uint8_to_uint16 (cx to)) - ucast (uint8_to_uint16 (cx from)));
          diffy = coord_abs (ucast (uint8_to_uint16 (cy to)) - ucast (uint8_to_uint16 (cy from)))
      in diffx + diffy)"

definition coordinate_cmp :: "coordinate \<Rightarrow> coordinate \<Rightarrow> bool" where
  "coordinate_cmp l r \<longleftrightarrow>
     fst (cx l) = fst (cx r) \<and> snd (cx l) = snd (cx r) \<and>
     fst (cy l) = fst (cy r) \<and> snd (cy l) = snd (cy r)"

subsection \<open>The encodings are bijections\<close>

lemma low_mask: "(0xFF :: u16) = mask 8"
  by (simp add: mask_eq_exp_minus_1)

lemma high_mask: "(0xFF00 :: u16) = push_bit 8 (mask 8)"
  by (simp add: mask_eq_exp_minus_1 push_bit_eq_mult)

lemma uint8_to_uint16_add: "uint8_to_uint16 v = push_bit 8 (ucast (fst v)) + ucast (snd v)"
proof -
  have "push_bit 8 (ucast (fst v) :: u16) AND ucast (snd v) = 0"
    by (rule bit_eqI) (auto simp: bit_simps dest: bit_imp_le_length)
  then show ?thesis unfolding uint8_to_uint16_def by (simp add: disjunctive_add_eq_or)
qed

lemma unat_uint8_to_uint16: "unat (uint8_to_uint16 v) = 256 * unat (fst v) + unat (snd v)"
proof -
  have "256 * unat (fst v) + unat (snd v) < 65536"
    using unat_byte_less [of "fst v"] unat_byte_less [of "snd v"] by linarith
  then show ?thesis
    by (simp add: uint8_to_uint16_add unat_word_ariths push_bit_eq_mult mod_simps mult.commute)
qed

lemma uint16_uint8_uint16 [simp]: "uint8_to_uint16 (uint16_to_uint8 v) = v"
  unfolding uint8_to_uint16_def uint16_to_uint8_def low_mask high_mask
  by (rule bit_eqI) (auto simp: bit_simps)

lemma uint8_uint16_uint8 [simp]: "uint16_to_uint8 (uint8_to_uint16 v) = v"
proof -
  have high: "\<not> bit (snd v) (8 + n)" for n
    by (auto dest: bit_imp_le_length)
  show ?thesis
    unfolding uint8_to_uint16_def uint16_to_uint8_def low_mask high_mask
    by (cases v) (use high in \<open>auto intro!: bit_eqI simp: bit_simps dest: bit_imp_le_length\<close>)
qed

lemma uint16_to_uint8_0 [simp]: "uint16_to_uint8 0 = (0, 0)"
  by (simp add: uint16_to_uint8_def)

lemma rimeaddr_cmp_iff [simp]: "rimeaddr_cmp a b \<longleftrightarrow> a = b"
  by (auto simp: rimeaddr_cmp_def prod_eq_iff)

lemma coordinate_cmp_iff [simp]: "coordinate_cmp l r \<longleftrightarrow> l = r"
  by (auto simp: coordinate_cmp_def prod_eq_iff)

subsection \<open>The distance\<close>

definition coord_val :: "u8x2 \<Rightarrow> int" where
  "coord_val v = uint (uint8_to_uint16 v)"

lemma sint_diff:
  "sint (ucast (a :: u16) - ucast (b :: u16) :: 32 word) = uint a - uint b"
proof -
  have ua: "0 \<le> uint a" "uint a < 65536" and ub: "0 \<le> uint b" "uint b < 65536"
    using unsigned_less [of a, where 'a = int] unsigned_less [of b, where 'a = int] by simp_all
  have d: "(ucast a - ucast b :: 32 word) = word_of_int (uint a - uint b)"
    by (simp add: unsigned_ucast_eq)
  show ?thesis
    unfolding d sint_sbintrunc'
  proof (rule signed_take_bit_int_eq_self)
    have "- 65536 < uint a - uint b" "uint a - uint b < 65536" using ua ub by linarith+
    then show "- (2 ^ (LENGTH(32) - 1)) \<le> uint a - uint b" "uint a - uint b < 2 ^ (LENGTH(32) - 1)"
      by simp_all
  qed
qed

lemma coord_abs_sint:
  assumes "\<bar>sint a\<bar> < 65536" shows "uint (coord_abs a) = \<bar>sint a\<bar>"
proof -
  have "uint (ucast w :: u16) = i" if "w = word_of_int i" "0 \<le> i" "i < 65536" for w :: "32 word" and i
    using that by (simp add: unsigned_ucast_eq uint_word_of_int take_bit_int_eq_self)
  from this [of a "sint a"] this [of "- a" "- sint a"] assms
  show ?thesis by (auto simp: coord_abs_def word_sless_alt)
qed

lemma coord_abs_diff:
  "uint (coord_abs (ucast (a :: u16) - ucast (b :: u16))) = \<bar>uint a - uint b\<bar>"
proof -
  have "\<bar>uint a - uint b\<bar> < 65536" 
  proof -
    have "0 \<le> uint a" "uint a < 65536" "0 \<le> uint b" "uint b < 65536"
      using unsigned_less [of a, where 'a = int] unsigned_less [of b, where 'a = int] by simp_all
    then show ?thesis by linarith
  qed
  then show ?thesis by (simp add: coord_abs_sint sint_diff)
qed

lemma uint_coordinate_distance:
  "uint (coordinate_distance p q) =
     (\<bar>coord_val (cx p) - coord_val (cx q)\<bar> + \<bar>coord_val (cy p) - coord_val (cy q)\<bar>) mod 65536"
  by (simp add: coordinate_distance_def Let_def uint_word_ariths coord_abs_diff coord_val_def
      abs_minus_commute)

lemma coordinate_distance_commute: "coordinate_distance p q = coordinate_distance q p"
  by (simp add: word_uint_eq_iff uint_coordinate_distance abs_minus_commute)

lemma coordinate_distance_self [simp]: "coordinate_distance p p = 0"
  by (simp add: coordinate_distance_def coord_abs_def)

end
