(* ===== verification/Packet.thy ===== *)
theory Packet
  imports Coordinate
begin

text \<open>
  The packets of \<open>emergency_net/packet.h\<close> and \<open>packet.c\<close>. All fields are bytes, so the structs
  have no padding: a header is seven bytes, and the three kinds of packet put their own fields
  and the data behind it. A packet in memory is its list of bytes; the records name the fields.
\<close>

type_synonym bytes = "byte list"

definition MAX_PACKET_SIZE :: nat where "MAX_PACKET_SIZE = 32"

definition ACK :: byte where "ACK = 0x80"
definition TIMESYNCH :: byte where "TIMESYNCH = 0x40"
definition BROADCAST :: byte where "BROADCAST = 0x30"
definition UNICAST :: byte where "UNICAST = 0x20"
definition MULTICAST :: byte where "MULTICAST = 0x10"

lemmas packet_flag_defs = ACK_def TIMESYNCH_def BROADCAST_def UNICAST_def MULTICAST_def

record header =
  hdr_flags :: byte
  hdr_seqno :: byte
  hdr_sender :: rimeaddr
  hdr_originator :: rimeaddr
  hdr_hops :: byte

type_synonym broadcast_packet = header

record multicast_packet =
  mp_hdr :: header
  mp_num_ids :: byte

record unicast_packet =
  up_hdr :: header
  up_destination :: rimeaddr

record slim_packet =
  sp_originator :: rimeaddr
  sp_seqno :: byte

definition IS_PACKET_FLAG_SET :: "header \<Rightarrow> byte \<Rightarrow> bool" where
  "IS_PACKET_FLAG_SET packet flag \<longleftrightarrow> hdr_flags packet AND flag = flag"

definition PACKET_TYPE :: "header \<Rightarrow> byte" where
  "PACKET_TYPE packet = hdr_flags packet AND 0x30"

definition PACKET_HDR_SIZE :: nat where "PACKET_HDR_SIZE = 7"
definition BROADCAST_PACKET_HDR_SIZE :: nat where "BROADCAST_PACKET_HDR_SIZE = 7"
definition MULTICAST_PACKET_HDR_SIZE :: nat where "MULTICAST_PACKET_HDR_SIZE = 8"
definition UNICAST_PACKET_HDR_SIZE :: nat where "UNICAST_PACKET_HDR_SIZE = 9"
definition MESH_PACKET_HDR_SIZE :: nat where "MESH_PACKET_HDR_SIZE = 1"

lemmas packet_size_defs = PACKET_HDR_SIZE_def BROADCAST_PACKET_HDR_SIZE_def
  MULTICAST_PACKET_HDR_SIZE_def UNICAST_PACKET_HDR_SIZE_def MESH_PACKET_HDR_SIZE_def
  MAX_PACKET_SIZE_def

subsection \<open>The layout in memory\<close>

definition addr_bytes :: "rimeaddr \<Rightarrow> bytes" where
  "addr_bytes a = [fst a, snd a]"

definition header_bytes :: "header \<Rightarrow> bytes" where
  "header_bytes h = [hdr_flags h, hdr_seqno h] @ addr_bytes (hdr_sender h) @
     addr_bytes (hdr_originator h) @ [hdr_hops h]"

definition unicast_bytes :: "unicast_packet \<Rightarrow> bytes" where
  "unicast_bytes up = header_bytes (up_hdr up) @ addr_bytes (up_destination up)"

definition multicast_bytes :: "multicast_packet \<Rightarrow> bytes" where
  "multicast_bytes mp = header_bytes (mp_hdr mp) @ [mp_num_ids mp]"

definition addr_at :: "bytes \<Rightarrow> nat \<Rightarrow> rimeaddr" where
  "addr_at m i = (m ! i, m ! (i + 1))"

definition header_of :: "bytes \<Rightarrow> header" where
  "header_of m = \<lparr>hdr_flags = m ! 0, hdr_seqno = m ! 1, hdr_sender = addr_at m 2,
     hdr_originator = addr_at m 4, hdr_hops = m ! 6\<rparr>"

text \<open>Reading and writing memory through a pointer, with the bound of the object pointed into.\<close>

definition read_mem :: "bytes \<Rightarrow> nat \<Rightarrow> nat \<Rightarrow> bytes result" where
  "read_mem m off n = (if off + n \<le> length m then Inr (take n (drop off m)) else Inl Out_Of_Bounds)"

definition write_mem :: "bytes \<Rightarrow> nat \<Rightarrow> bytes \<Rightarrow> bytes result" where
  "write_mem m off src =
     (if off + length src \<le> length m then Inr (take off m @ src @ drop (off + length src) m)
      else Inl Out_Of_Bounds)"

definition read_addr :: "bytes \<Rightarrow> nat \<Rightarrow> rimeaddr result" where
  "read_addr m i = (if i + 1 < length m then Inr (addr_at m i) else Inl Out_Of_Bounds)"

definition read_header :: "bytes \<Rightarrow> header result" where
  "read_header m = (if PACKET_HDR_SIZE \<le> length m then Inr (header_of m) else Inl Out_Of_Bounds)"

subsection \<open>packet.c\<close>

definition originator_seqno_cmp :: "bytes \<Rightarrow> header \<Rightarrow> bool" where
  "originator_seqno_cmp queued r \<longleftrightarrow>
     rimeaddr_cmp (hdr_originator (header_of queued)) (hdr_originator r) \<and>
     hdr_seqno (header_of queued) = hdr_seqno r"

definition unicast_packet_cmp :: "bytes \<Rightarrow> unicast_packet \<Rightarrow> bool" where
  "unicast_packet_cmp queued up \<longleftrightarrow> take UNICAST_PACKET_HDR_SIZE queued = unicast_bytes up"

definition slim_packet_to_packet_cmp :: "slim_packet \<Rightarrow> header \<Rightarrow> bool" where
  "slim_packet_to_packet_cmp l r \<longleftrightarrow>
     rimeaddr_cmp (sp_originator l) (hdr_originator r) \<and> sp_seqno l = hdr_seqno r"

definition init_packet :: "byte \<Rightarrow> byte \<Rightarrow> rimeaddr \<Rightarrow> rimeaddr \<Rightarrow> byte \<Rightarrow> header" where
  "init_packet flags hops originator sender seqno =
     \<lparr>hdr_flags = flags, hdr_seqno = seqno, hdr_sender = sender, hdr_originator = originator,
      hdr_hops = hops\<rparr>"

definition init_broadcast_packet :: "byte \<Rightarrow> byte \<Rightarrow> rimeaddr \<Rightarrow> rimeaddr \<Rightarrow> byte \<Rightarrow> broadcast_packet" where
  "init_broadcast_packet flags hops originator sender seqno =
     init_packet (BROADCAST OR flags) hops originator sender seqno"

definition init_multicast_packet :: "byte \<Rightarrow> byte \<Rightarrow> rimeaddr \<Rightarrow> rimeaddr \<Rightarrow> byte \<Rightarrow> byte \<Rightarrow> multicast_packet" where
  "init_multicast_packet flags hops originator sender seqno num_ids =
     \<lparr>mp_hdr = init_packet (MULTICAST OR flags) hops originator sender seqno, mp_num_ids = num_ids\<rparr>"

definition init_unicast_packet :: "byte \<Rightarrow> byte \<Rightarrow> rimeaddr \<Rightarrow> rimeaddr \<Rightarrow> byte \<Rightarrow> rimeaddr \<Rightarrow> unicast_packet" where
  "init_unicast_packet flags hops originator sender seqno destination =
     \<lparr>up_hdr = init_packet (UNICAST OR flags) hops originator sender seqno,
      up_destination = destination\<rparr>"

subsection \<open>Encodings\<close>

lemma length_layouts [simp]:
  "length (addr_bytes a) = 2" "length (header_bytes h) = 7" "length (unicast_bytes up) = 9"
  "length (multicast_bytes mp) = 8"
  by (simp_all add: addr_bytes_def header_bytes_def unicast_bytes_def multicast_bytes_def)

lemma header_of_bytes [simp]: "header_of (header_bytes h @ rest) = h"
  by (cases h) (simp add: header_of_def header_bytes_def addr_bytes_def addr_at_def nth_append)

lemma header_of_unicast [simp]: "header_of (unicast_bytes up @ rest) = up_hdr up"
  by (simp add: unicast_bytes_def)

lemma header_of_multicast [simp]: "header_of (multicast_bytes mp @ rest) = mp_hdr mp"
  by (simp add: multicast_bytes_def)

lemma header_bytes_of: "length m = 7 \<Longrightarrow> header_bytes (header_of m) = m"
  by (auto simp: header_bytes_def header_of_def addr_bytes_def addr_at_def numeral_eq_Suc
      length_Suc_conv)

lemma header_bytes_inject [simp]: "header_bytes h = header_bytes k \<longleftrightarrow> h = k"
  by (metis header_of_bytes)

lemma addr_bytes_inject [simp]: "addr_bytes a = addr_bytes b \<longleftrightarrow> a = b"
  by (auto simp: addr_bytes_def prod_eq_iff)

lemma unicast_bytes_inject: "unicast_bytes a = unicast_bytes b \<longleftrightarrow> a = b"
  by (cases a; cases b) (simp add: unicast_bytes_def)

lemma unicast_destination [simp]: "addr_at (unicast_bytes up @ rest) 7 = up_destination up"
  by (simp add: unicast_bytes_def addr_at_def nth_append addr_bytes_def)

lemma multicast_num_ids [simp]: "(multicast_bytes mp @ rest) ! 7 = mp_num_ids mp"
  by (simp add: multicast_bytes_def nth_append)

lemma packet_types_distinct [simp]:
  "BROADCAST \<noteq> UNICAST" "BROADCAST \<noteq> MULTICAST" "UNICAST \<noteq> MULTICAST"
  "UNICAST \<noteq> BROADCAST" "MULTICAST \<noteq> BROADCAST" "MULTICAST \<noteq> UNICAST"
  by (simp_all add: packet_flag_defs)

lemma init_packet_type [simp]:
  "f \<in> {0, ACK, TIMESYNCH} \<Longrightarrow> PACKET_TYPE (init_broadcast_packet f h o' s n) = BROADCAST"
  "f \<in> {0, ACK, TIMESYNCH} \<Longrightarrow> PACKET_TYPE (mp_hdr (init_multicast_packet f h o' s n k)) = MULTICAST"
  "f \<in> {0, ACK, TIMESYNCH} \<Longrightarrow> PACKET_TYPE (up_hdr (init_unicast_packet f h o' s n d)) = UNICAST"
  by (auto simp: PACKET_TYPE_def init_broadcast_packet_def init_multicast_packet_def
      init_unicast_packet_def init_packet_def packet_flag_defs)

lemma read_mem_append [simp]: "read_mem (a @ b) (length a) n = read_mem b 0 n"
  by (simp add: read_mem_def)

lemma length_write_mem: "write_mem m off src = Inr m' \<Longrightarrow> length m' = length m"
  by (auto simp: write_mem_def split: if_splits)

end
