(* ===== verification/Emergency_Mac.thy ===== *)
theory Emergency_Mac
  imports Packet
begin

text \<open>
  The MAC layer of \<open>emergency_net/emergency_mac.c\<close>, which passes frames between the packet buffer of
  Rime and a radio. The radio is not part of the repository's own code: its driver is a record of
  functions on a state of its own (\<open>struct radio_driver\<close>), and every result holds for any of them.
  The receiver is the identity of the registered callback; calls to it are recorded.
\<close>

text \<open>The function that the layer hands to the radio for its interrupts.\<close>

datatype radio_receiver = Input_Packet

record 'r radio_driver =
  rd_send :: "bytes \<Rightarrow> 'r \<Rightarrow> 'r \<times> int"
  rd_read :: "nat \<Rightarrow> 'r \<Rightarrow> 'r \<times> bytes \<times> int"
  rd_set_receive_function :: "radio_receiver \<Rightarrow> 'r \<Rightarrow> 'r"
  rd_on :: "'r \<Rightarrow> 'r \<times> int"
  rd_off :: "'r \<Rightarrow> 'r \<times> int"

record 'r emergency_mac =
  em_radio :: "'r radio_driver option"
  em_hardware :: 'r
  em_receiver_callback :: "nat option"
  em_header :: bytes
  em_data :: bytes
  em_datalen :: nat
  em_received :: "nat list"

definition RADIO_TX_OK :: int where "RADIO_TX_OK = 0"
definition MAC_TX_OK :: int where "MAC_TX_OK = 0"
definition MAC_TX_ERR :: int where "MAC_TX_ERR = 3"
definition MAC_PACKETBUF_SIZE :: nat where "MAC_PACKETBUF_SIZE = 128"

text \<open>A call through the driver's pointer.\<close>

definition radio_call :: "('r radio_driver \<Rightarrow> 'r \<Rightarrow> 'r \<times> 'b) \<Rightarrow> 'r emergency_mac
    \<Rightarrow> ('r emergency_mac \<times> 'b) result" where
  "radio_call f m =
     (case em_radio m of
        None \<Rightarrow> Inl Null_Deref
      | Some rd \<Rightarrow> (case f rd (em_hardware m) of (r, x) \<Rightarrow> Inr (m\<lparr>em_hardware := r\<rparr>, x)))"

definition send_packet :: "'r emergency_mac \<Rightarrow> ('r emergency_mac \<times> int) result" where
  "send_packet m =
     bindR (radio_call (\<lambda>rd. rd_send rd (em_header m @ take (em_datalen m) (em_data m))) m) (\<lambda>(m, x).
     Inr (m, if x = RADIO_TX_OK then MAC_TX_OK else MAC_TX_ERR))"

definition input_packet :: "'r emergency_mac \<Rightarrow> 'r emergency_mac" where
  "input_packet m =
     (case em_receiver_callback m of
        None \<Rightarrow> m
      | Some recv \<Rightarrow> m\<lparr>em_received := em_received m @ [recv]\<rparr>)"

text \<open>The length the radio returns becomes an unsigned 16-bit number.\<close>

definition read_packet :: "'r emergency_mac \<Rightarrow> ('r emergency_mac \<times> int) result" where
  "read_packet m =
     bindR (radio_call (\<lambda>rd r. rd_read rd MAC_PACKETBUF_SIZE r) (m\<lparr>em_header := [], em_datalen := 0\<rparr>))
       (\<lambda>(m, b, len).
     bindR (write_mem (em_data m) 0 b) (\<lambda>d.
     Inr (m\<lparr>em_data := d, em_datalen := nat (len mod 65536)\<rparr>, len)))"

definition set_receive_function :: "nat \<Rightarrow> 'r emergency_mac \<Rightarrow> 'r emergency_mac" where
  "set_receive_function recv m = m\<lparr>em_receiver_callback := Some recv\<rparr>"

definition mac_on :: "'r emergency_mac \<Rightarrow> ('r emergency_mac \<times> int) result" where
  "mac_on m = radio_call rd_on m"

definition mac_off :: "bool \<Rightarrow> 'r emergency_mac \<Rightarrow> ('r emergency_mac \<times> int) result" where
  "mac_off keep_radio_on m = (if keep_radio_on then radio_call rd_on m else radio_call rd_off m)"

definition channel_check_interval :: u16 where
  "channel_check_interval = 0"

definition emergency_mac_init :: "'r radio_driver \<Rightarrow> 'r emergency_mac \<Rightarrow> 'r emergency_mac result" where
  "emergency_mac_init d m =
     bindR (radio_call (\<lambda>rd r. (rd_set_receive_function rd Input_Packet r, ())) (m\<lparr>em_radio := Some d\<rparr>)) (\<lambda>(m, _).
     bindR (mac_on m) (\<lambda>(m, _).
     Inr m))"

text \<open>The driver structure through which the network stack calls the layer.\<close>

record 'r mac_driver =
  md_name :: string
  md_init :: "'r radio_driver \<Rightarrow> 'r emergency_mac \<Rightarrow> 'r emergency_mac result"
  md_send :: "'r emergency_mac \<Rightarrow> ('r emergency_mac \<times> int) result"
  md_read :: "'r emergency_mac \<Rightarrow> ('r emergency_mac \<times> int) result"
  md_set_receive_function :: "nat \<Rightarrow> 'r emergency_mac \<Rightarrow> 'r emergency_mac"
  md_on :: "'r emergency_mac \<Rightarrow> ('r emergency_mac \<times> int) result"
  md_off :: "bool \<Rightarrow> 'r emergency_mac \<Rightarrow> ('r emergency_mac \<times> int) result"
  md_channel_check_interval :: u16

definition nullmac_driver :: "'r mac_driver" where
  "nullmac_driver =
     \<lparr>md_name = ''emergency_mac'', md_init = emergency_mac_init, md_send = send_packet, md_read = read_packet,
      md_set_receive_function = set_receive_function, md_on = mac_on, md_off = mac_off,
      md_channel_check_interval = channel_check_interval\<rparr>"

subsection \<open>Laws\<close>

text \<open>An initialised layer never follows the null pointer, and stays initialised.\<close>

lemma radio_call_returns:
  "em_radio m = Some rd \<Longrightarrow> radio_call f m = Inr (m\<lparr>em_hardware := fst (f rd (em_hardware m))\<rparr>, snd (f rd (em_hardware m)))"
  by (simp add: radio_call_def case_prod_beta)

lemma mac_init_returns:
  "emergency_mac_init d m = Inr (m\<lparr>em_radio := Some d,
     em_hardware := fst (rd_on d (rd_set_receive_function d Input_Packet (em_hardware m)))\<rparr>)"
  by (simp add: emergency_mac_init_def mac_on_def radio_call_def case_prod_beta)

lemma read_packet_returns:
  assumes rd: "em_radio m = Some rd" and m: "length (em_data m) = MAC_PACKETBUF_SIZE"
    and r: "rd_read rd MAC_PACKETBUF_SIZE (em_hardware m) = (h, b, int (length b))"
    and b: "length b \<le> MAC_PACKETBUF_SIZE"
  shows "read_packet m = Inr (m\<lparr>em_header := [], em_datalen := length b, em_hardware := h,
    em_data := b @ drop (length b) (em_data m)\<rparr>, int (length b))"
proof -
  have "int (length b) mod 65536 = int (length b)" using b by (simp add: MAC_PACKETBUF_SIZE_def)
  with assms show ?thesis
    by (simp add: read_packet_def radio_call_def write_mem_def)
qed

text \<open>What was read is what a send then passes to the radio.\<close>

lemma read_then_send:
  assumes "em_radio m = Some rd" and "length (em_data m) = MAC_PACKETBUF_SIZE"
    and "rd_read rd MAC_PACKETBUF_SIZE (em_hardware m) = (h, b, int (length b))" and "length b \<le> MAC_PACKETBUF_SIZE"
  shows "\<exists>m'. read_packet m = Inr (m', int (length b)) \<and>
    send_packet m' = Inr (m'\<lparr>em_hardware := fst (rd_send rd b h)\<rparr>,
      if snd (rd_send rd b h) = RADIO_TX_OK then MAC_TX_OK else MAC_TX_ERR)"
  using assms(1) by (simp add: read_packet_returns [OF assms] send_packet_def radio_call_returns)

end
