(* ===== verification/Timesynch.thy ===== *)
theory Timesynch
  imports Packet "HOL-Library.Multiset"
begin

text \<open>
  Time synchronisation: the clock offset of \<open>emergency_net/timesynch.c\<close>, the bubble sort it keeps
  its samples with, the sniffer that takes a sample from an incoming packet of the timesynch
  channel, and the authority globals of \<open>timesynch_gluer.c\<close>. Clock values are 16-bit words.
  What the radio driver measured (authority of the sender, time of departure, time of arrival)
  is an argument of the sniffer.
\<close>

type_synonym rtimer_clock_t = u16
type_synonym authority_t = byte

definition MAX_OFFSETS :: nat where
  "MAX_OFFSETS = 12"

definition AUTHORITY_LEVEL_MAX :: authority_t where
  "AUTHORITY_LEVEL_MAX = 0xFF"

record timesynch =
  ts_offset :: rtimer_clock_t
  ts_offsets :: "rtimer_clock_t list"
  ts_offset_index :: nat
  authority_level :: authority_t
  authority_seqno :: byte
  timesynch_channel :: byte

subsection \<open>The bubble sort\<close>

definition bs_swap :: "rtimer_clock_t list \<Rightarrow> nat \<Rightarrow> rtimer_clock_t list result" where
  "bs_swap a j =
     (if j + 1 < length a
      then (if a ! j > a ! (j + 1) then Inr (a[j + 1 := a ! j, j := a ! (j + 1)]) else Inr a)
      else Inl Out_Of_Bounds)"

fun bs_inner :: "nat list \<Rightarrow> rtimer_clock_t list \<Rightarrow> rtimer_clock_t list result" where
  "bs_inner [] a = Inr a"
| "bs_inner (j # js) a = bindR (bs_swap a j) (\<lambda>a. bs_inner js a)"

fun bs_outer :: "nat \<Rightarrow> nat list \<Rightarrow> rtimer_clock_t list \<Rightarrow> rtimer_clock_t list result" where
  "bs_outer array_size [] a = Inr a"
| "bs_outer array_size (i # is) a =
     bindR (bs_inner [0..<array_size - 1 - i] a) (\<lambda>a. bs_outer array_size is a)"

definition bs :: "rtimer_clock_t list \<Rightarrow> nat \<Rightarrow> rtimer_clock_t list result" where
  "bs a array_size = bs_outer array_size [0..<array_size - 1] a"

subsection \<open>The clock\<close>

definition timesynch_authority_level :: "timesynch \<Rightarrow> authority_t" where
  "timesynch_authority_level ts = authority_level ts"

definition timesynch_time :: "timesynch \<Rightarrow> rtimer_clock_t \<Rightarrow> rtimer_clock_t" where
  "timesynch_time ts rtimer_now = rtimer_now + ts_offset ts"

definition timesynch_time_to_rtimer :: "timesynch \<Rightarrow> rtimer_clock_t \<Rightarrow> rtimer_clock_t" where
  "timesynch_time_to_rtimer ts synched_time = synched_time - ts_offset ts"

definition timesynch_rtimer_to_time :: "timesynch \<Rightarrow> rtimer_clock_t \<Rightarrow> rtimer_clock_t" where
  "timesynch_rtimer_to_time ts rtimer_time = rtimer_time + ts_offset ts"

definition timesynch_offset :: "timesynch \<Rightarrow> rtimer_clock_t" where
  "timesynch_offset ts = ts_offset ts"

definition adjust_offset :: "timesynch \<Rightarrow> rtimer_clock_t \<Rightarrow> rtimer_clock_t \<Rightarrow> timesynch result" where
  "adjust_offset ts authoritative_time local_time =
     bindR
       (if ts_offset_index ts < MAX_OFFSETS
        then bindR (bs ((ts_offsets ts)[ts_offset_index ts :=
                          ts_offset ts + authoritative_time - local_time]) (ts_offset_index ts + 1)) (\<lambda>a.
             Inr (ts\<lparr>ts_offsets := a, ts_offset_index := ts_offset_index ts + 1\<rparr>))
        else Inr ts)
       (\<lambda>ts. if ts_offset_index ts div 2 < length (ts_offsets ts)
             then Inr (ts\<lparr>ts_offset := ts_offsets ts ! (ts_offset_index ts div 2)\<rparr>)
             else Inl Out_Of_Bounds)"

text \<open>
  The comparison of sequence numbers, shared with the leader election: newer, or so much smaller
  that the counter has overflown.
\<close>

definition seqno_newer :: "byte \<Rightarrow> byte \<Rightarrow> bool" where
  "seqno_newer seqno aseqno \<longleftrightarrow> seqno > aseqno \<or> unat seqno < unat aseqno div 8"

text \<open>
  \<open>frame\<close> is the packet buffer from the data pointer on, \<open>totlen\<close> its length. The first byte is the
  channel; the packet starts behind the two-byte channel header.
\<close>

definition incoming_packet :: "timesynch \<Rightarrow> bytes \<Rightarrow> nat \<Rightarrow> authority_t \<Rightarrow> rtimer_clock_t \<Rightarrow> rtimer_clock_t
    \<Rightarrow> timesynch result" where
  "incoming_packet ts frame totlen sender_level time_of_departure time_of_arrival =
     (if totlen \<noteq> 0
      then bindR (read_mem frame 0 1) (\<lambda>channel.
        if hd channel = timesynch_channel ts
        then bindR (read_header (drop 2 frame)) (\<lambda>p.
          if IS_PACKET_FLAG_SET p TIMESYNCH
          then
            (if sender_level < authority_level ts
             then adjust_offset (ts\<lparr>ts_offset_index := 0\<rparr>) time_of_departure time_of_arrival
             else if sender_level = authority_level ts
             then
               (if seqno_newer (hdr_seqno p) (authority_seqno ts)
                then adjust_offset (ts\<lparr>ts_offset_index := 0\<rparr>) time_of_departure time_of_arrival
                else if hdr_seqno p = authority_seqno ts
                then adjust_offset ts time_of_departure time_of_arrival
                else Inr ts)
             else Inr ts)
          else Inr ts)
        else Inr ts)
      else Inr ts)"

definition timesynch_init :: "timesynch \<Rightarrow> timesynch" where
  "timesynch_init ts = ts\<lparr>ts_offset_index := 0\<rparr>"

subsection \<open>timesynch_gluer.c\<close>

definition set_authority_level :: "timesynch \<Rightarrow> authority_t \<Rightarrow> timesynch" where
  "set_authority_level ts al = ts\<lparr>authority_level := al\<rparr>"

definition set_authority_seqno :: "timesynch \<Rightarrow> byte \<Rightarrow> timesynch" where
  "set_authority_seqno ts as = ts\<lparr>authority_seqno := as\<rparr>"

definition set_timesynch_channel :: "timesynch \<Rightarrow> byte \<Rightarrow> timesynch" where
  "set_timesynch_channel ts ch = ts\<lparr>timesynch_channel := ch\<rparr>"

definition timesynch_rimeaddr_to_authority :: "rimeaddr \<Rightarrow> authority_t" where
  "timesynch_rimeaddr_to_authority addr = fst addr"

subsection \<open>A pass of the sort\<close>

text \<open>What the inner loop does to the unsorted part: the largest element travels to its end.\<close>

fun bubble :: "'a :: linorder list \<Rightarrow> 'a list" where
  "bubble (x # y # xs) = (if x > y then y # bubble (x # xs) else x # bubble (y # xs))"
| "bubble xs = xs"

lemma length_bubble [simp]: "length (bubble xs) = length xs"
  by (induction xs rule: bubble.induct) simp_all

lemma mset_bubble [simp]: "mset (bubble xs) = mset xs"
  by (induction xs rule: bubble.induct) (simp_all add: add_mset_commute)

lemma bubble_swap: "bubble (x # y # xs) = min x y # bubble (max x y # xs)"
  by (cases x y rule: le_cases) (auto simp: max_def min_def)

lemma bubble_last: "xs \<noteq> [] \<Longrightarrow> \<exists>ys z. bubble xs = ys @ [z] \<and> (\<forall>y \<in> set ys. y \<le> z)"
proof (induction xs rule: bubble.induct)
  case (1 x y xs)
  let ?m = "max x y" and ?l = "min x y"
  have b: "bubble (x # y # xs) = ?l # bubble (?m # xs)" by (rule bubble_swap)
  have "\<exists>ys z. bubble (?m # xs) = ys @ [z] \<and> (\<forall>y \<in> set ys. y \<le> z)"
  proof (cases "x > y")
    case True
    then have "?m = x" by (simp add: max_absorb1)
    with 1(1) [OF True] show ?thesis by simp
  next
    case False
    then have "?m = y" by (simp add: max_absorb2 not_less)
    with 1(2) [OF False] show ?thesis by simp
  qed
  then obtain ys z where IH: "bubble (?m # xs) = ys @ [z]" "\<forall>y \<in> set ys. y \<le> z" by blast
  have "?m \<in> set (bubble (?m # xs))" by (metis list.set_intros(1) mset_bubble set_mset_mset)
  with IH have "?m \<le> z" by auto
  then have "?l \<le> z" by (simp add: min_le_iff_disj)
  with b IH show ?case
    by (intro exI [of _ "?l # ys"] exI [of _ z]) (simp del: bubble.simps)
qed simp_all

lemma bs_swap_append:
  assumes "length as = j"
  shows "bs_swap (as @ x # y # xs) j = Inr (as @ min x y # max x y # xs)"
proof -
  have "(as @ x # y # xs)[j + 1 := x, j := y] = as @ y # x # xs"
    using assms by (simp add: list_update_append)
  with assms show ?thesis
    by (auto simp: bs_swap_def nth_append min_def max_def)
qed

lemma bs_inner_bubble:
  "length as = j \<Longrightarrow> xs \<noteq> [] \<Longrightarrow>
   bs_inner [j..<j + (length xs - 1)] (as @ xs @ zs) = Inr (as @ bubble xs @ zs)"
proof (induction "length xs" arbitrary: as j xs)
  case (Suc n)
  from Suc.prems(2) consider x where "xs = [x]" | x y ys where "xs = x # y # ys"
    by (metis list.exhaust)
  then show ?case
  proof cases
    case (2 x y ys)
    have up: "[j..<j + (length xs - 1)] = j # [Suc j..<Suc j + (length (max x y # ys) - 1)]"
      using 2 upt_conv_Cons [of j "j + length (y # ys)"] by simp
    have sw: "bs_swap (as @ x # y # ys @ zs) j = Inr (as @ min x y # max x y # ys @ zs)"
      using bs_swap_append [OF Suc.prems(1), of x y "ys @ zs"] by simp
    have IH: "bs_inner [Suc j..<Suc j + (length (max x y # ys) - 1)] ((as @ [min x y]) @ (max x y # ys) @ zs)
        = Inr ((as @ [min x y]) @ bubble (max x y # ys) @ zs)"
      by (rule Suc.hyps(1)) (use Suc.hyps(2) Suc.prems(1) 2 in simp_all)
    have "bs_inner [j..<j + (length xs - 1)] (as @ xs @ zs)
        = bs_inner [Suc j..<Suc j + (length (max x y # ys) - 1)] ((as @ [min x y]) @ (max x y # ys) @ zs)"
      unfolding up using sw 2 by simp
    also have "\<dots> = Inr (as @ bubble xs @ zs)"
      unfolding IH 2 bubble_swap by simp
    finally show ?thesis .
  qed simp
qed simp

lemma sort_snoc_max:
  assumes "mset xs = mset (ys @ [z])" and "\<forall>y \<in> set ys. y \<le> z"
  shows "sort xs = sort ys @ [z]"
  using assms by (intro properties_for_sort) (simp_all add: sorted_append)

lemma bs_outer_sorts:
  "i \<le> n - 1 \<Longrightarrow> length xs = n - i \<Longrightarrow>
   bs_outer n [i..<n - 1] (xs @ zs) = Inr (sort xs @ zs)"
proof (induction "n - 1 - i" arbitrary: i xs zs)
  case 0
  then have "i = n - 1" by simp
  with 0 have "length xs \<le> 1" by simp
  then have "sort xs = xs" by (cases xs) auto
  with \<open>i = n - 1\<close> show ?case by simp
next
  case (Suc k)
  then have i: "i < n - 1" and ne: "xs \<noteq> []" by auto
  obtain ys z where b: "bubble xs = ys @ [z]" "\<forall>y \<in> set ys. y \<le> z"
    using bubble_last [OF ne] by blast
  have len: "length ys = n - Suc i"
    using Suc.prems b(1) length_bubble [of xs] by simp
  have inner: "bs_inner [0..<n - 1 - i] (xs @ zs) = Inr (ys @ z # zs)"
    using bs_inner_bubble [of "[]" 0 xs zs] ne Suc.prems b(1) by simp
  have "bs_outer n [Suc i..<n - 1] (ys @ z # zs) = Inr (sort ys @ z # zs)"
    by (rule Suc.hyps(1)) (use Suc.hyps(2) i len in simp_all)
  moreover have "sort xs = sort ys @ [z]"
    using b mset_bubble [of xs] by (intro sort_snoc_max) simp_all
  ultimately show ?case
    using i inner by (simp add: upt_conv_Cons)
qed

lemma bs_eq: "n \<le> length a \<Longrightarrow> bs a n = Inr (sort (take n a) @ drop n a)"
  using bs_outer_sorts [of 0 n "take n a" "drop n a"] by (simp add: bs_def)

subsection \<open>Sampling the offset\<close>

definition samples :: "timesynch \<Rightarrow> rtimer_clock_t list" where
  "samples ts = take (ts_offset_index ts) (ts_offsets ts)"

definition sync_wf :: "timesynch \<Rightarrow> bool" where
  "sync_wf ts \<longleftrightarrow> length (ts_offsets ts) = MAX_OFFSETS \<and> ts_offset_index ts \<le> MAX_OFFSETS \<and>
     sorted (samples ts)"

text \<open>The samples after one more, and the (upper) median of a list of samples.\<close>

definition add_sample :: "rtimer_clock_t \<Rightarrow> rtimer_clock_t list \<Rightarrow> rtimer_clock_t list" where
  "add_sample x xs = (if length xs < MAX_OFFSETS then sort (xs @ [x]) else xs)"

definition median :: "rtimer_clock_t list \<Rightarrow> rtimer_clock_t" where
  "median xs = xs ! (length xs div 2)"

lemma length_samples: "sync_wf ts \<Longrightarrow> length (samples ts) = ts_offset_index ts"
  by (simp add: samples_def sync_wf_def)

lemma sync_wf_restart: "sync_wf ts \<Longrightarrow> sync_wf (ts\<lparr>ts_offset_index := 0\<rparr>)"
  by (simp add: sync_wf_def samples_def)

lemma sync_wf_frame [simp]:
  "sync_wf (ts\<lparr>authority_level := a\<rparr>) = sync_wf ts" "sync_wf (ts\<lparr>authority_seqno := b\<rparr>) = sync_wf ts"
  "sync_wf (ts\<lparr>timesynch_channel := c\<rparr>) = sync_wf ts"
  by (simp_all add: sync_wf_def samples_def)

lemma adjust_offset_returns:
  assumes wf: "sync_wf ts" and x: "x = ts_offset ts + authoritative_time - local_time"
  shows "returns (adjust_offset ts authoritative_time local_time) (\<lambda>ts'. sync_wf ts' \<and>
     samples ts' = add_sample x (samples ts) \<and> ts_offset ts' = median (samples ts') \<and>
     authority_level ts' = authority_level ts \<and> authority_seqno ts' = authority_seqno ts \<and>
     timesynch_channel ts' = timesynch_channel ts)"
proof (cases "ts_offset_index ts < MAX_OFFSETS")
  case True
  let ?i = "ts_offset_index ts" and ?a = "(ts_offsets ts)[ts_offset_index ts := x]"
  have len: "length (ts_offsets ts) = MAX_OFFSETS" using wf by (simp add: sync_wf_def)
  have tk: "take (?i + 1) ?a = samples ts @ [x]"
    using True len by (simp add: samples_def take_Suc_conv_app_nth)
  have srt: "bs ?a (?i + 1) = Inr (sort (samples ts @ [x]) @ drop (?i + 1) ?a)"
    using bs_eq [of "?i + 1" ?a] True len tk by simp
  have ls: "length (samples ts) = ?i" using wf by (rule length_samples)
  then have lt: "(?i + 1) div 2 < length (sort (samples ts @ [x]))" by simp
  show ?thesis
    using True len srt lt ls
    by (simp add: adjust_offset_def x [symmetric] sync_wf_def samples_def [of "_\<lparr>ts_offset := _\<rparr>"]
        add_sample_def median_def nth_append)
next
  case False
  with wf have i: "ts_offset_index ts = MAX_OFFSETS" by (simp add: sync_wf_def)
  with wf have all: "samples ts = ts_offsets ts" by (simp add: sync_wf_def samples_def)
  with wf i show ?thesis
    by (auto simp: adjust_offset_def sync_wf_def samples_def add_sample_def median_def MAX_OFFSETS_def)
qed

text \<open>Whether the sniffer takes a sample from a packet, and from which samples it starts.\<close>

definition sample_base :: "timesynch \<Rightarrow> header \<Rightarrow> authority_t \<Rightarrow> rtimer_clock_t list option" where
  "sample_base ts p sender_level =
     (if \<not> IS_PACKET_FLAG_SET p TIMESYNCH then None
      else if sender_level < authority_level ts then Some []
      else if sender_level > authority_level ts then None
      else if seqno_newer (hdr_seqno p) (authority_seqno ts) then Some []
      else if hdr_seqno p = authority_seqno ts then Some (samples ts) else None)"

lemma samples_restart [simp]: "samples (ts\<lparr>ts_offset_index := 0\<rparr>) = []"
  by (simp add: samples_def)

lemma incoming_packet_returns:
  assumes wf: "sync_wf ts" and len: "9 \<le> length frame" "totlen \<noteq> 0" and ch: "hd frame = timesynch_channel ts"
  shows "returns (incoming_packet ts frame totlen level departure arrival) (\<lambda>ts'. sync_wf ts' \<and>
     (case sample_base ts (header_of (drop 2 frame)) level of
        None \<Rightarrow> ts' = ts
      | Some base \<Rightarrow> samples ts' = add_sample (ts_offset ts + departure - arrival) base \<and>
                     ts_offset ts' = median (samples ts')))"
proof -
  have rd: "read_mem frame 0 1 = Inr [hd frame]"
    using len by (cases frame) (auto simp: read_mem_def)
  have rh: "read_header (drop 2 frame) = Inr (header_of (drop 2 frame))"
    using len by (simp add: read_header_def PACKET_HDR_SIZE_def)
  note a = adjust_offset_returns [OF wf refl, of departure arrival]
    adjust_offset_returns [OF sync_wf_restart [OF wf] refl, of departure arrival]
  show ?thesis
    using wf len ch rd rh a
    by (auto simp: incoming_packet_def sample_base_def elim!: returns_mono)
qed

subsection \<open>Properties\<close>

text \<open>A clock with three samples, the state in which the theorems are run.\<close>

definition sync3 :: timesynch where
  "sync3 = \<lparr>ts_offset = 30, ts_offsets = [10, 30, 50] @ replicate 9 0, ts_offset_index = 3,
     authority_level = 5, authority_seqno = 7, timesynch_channel = 129\<rparr>"

definition sync3_frame :: bytes where
  "sync3_frame = [129, 0] @ header_bytes (init_broadcast_packet TIMESYNCH 0 (5, 0) (9, 0) 7)"

lemma sync3_wf: "sync_wf sync3"
  by (simp add: sync_wf_def samples_def sync3_def MAX_OFFSETS_def)

text \<open>
  the bubble sort of the offset samples stays inside the array, sorts its first \<open>n\<close> elements
  and leaves the rest alone.
\<close>

theorem bs_sorts_prefix:
  "n \<le> length a \<Longrightarrow> bs a n = Inr (sort (take n a) @ drop n a)"
  by (rule bs_eq)

lemma bs_sorts_prefix_witness: "bs [5, 3, 9, 1, 0] 4 = Inr [1, 3, 5, 9, 0]"
  using bs_sorts_prefix [of 4 "[5, 3, 9, 1, 0]"] by (simp add: word_le_nat_alt)

text \<open>
  C40: \<open>adjust_offset\<close> never leaves the array of samples: it adds the measured offset to the
  sorted samples (none any more after the twelfth) and sets the clock's offset to their median.
\<close>

theorem adjust_offset_median:
  assumes "sync_wf ts"
  shows "returns (adjust_offset ts authoritative_time local_time) (\<lambda>ts'. sync_wf ts' \<and>
     samples ts' = add_sample (ts_offset ts + authoritative_time - local_time) (samples ts) \<and>
     ts_offset ts' = median (samples ts'))"
  using adjust_offset_returns [OF assms refl] by (rule returns_mono) simp

lemma adjust_offset_witness:
  "returns (adjust_offset sync3 100 80) (\<lambda>ts'. samples ts' = [10, 30, 50, 50] \<and> ts_offset ts' = 50)"
proof -
  have "samples sync3 = [10, 30, 50]" by (simp add: samples_def sync3_def)
  then have "add_sample (ts_offset sync3 + 100 - 80) (samples sync3) = [10, 30, 50, 50]"
    by (simp add: add_sample_def MAX_OFFSETS_def sync3_def)
  with adjust_offset_median [OF sync3_wf, of 100 80] show ?thesis
    by (auto simp: median_def elim!: returns_mono)
qed

text \<open>
  the sniffer takes a sample only from a timesynch packet of a sender whose authority is not
  below its own; it starts from an empty set of samples when the sender has a higher authority or
  the packet a newer sequence number, and every other packet leaves the clock as it was.
\<close>

theorem incoming_packet_samples:
  assumes "sync_wf ts" and "9 \<le> length frame" and "totlen \<noteq> 0" and "hd frame = timesynch_channel ts"
  shows "returns (incoming_packet ts frame totlen level departure arrival) (\<lambda>ts'. sync_wf ts' \<and>
     (case sample_base ts (header_of (drop 2 frame)) level of
        None \<Rightarrow> ts' = ts
      | Some base \<Rightarrow> samples ts' = add_sample (ts_offset ts + departure - arrival) base \<and>
                     ts_offset ts' = median (samples ts')))"
  using assms by (rule incoming_packet_returns)

lemma incoming_packet_witness:
  "returns (incoming_packet sync3 sync3_frame 9 4 100 80) (\<lambda>ts'. sync_wf ts' \<and> samples ts' = [50])"
proof -
  have "9 \<le> length sync3_frame" "hd sync3_frame = timesynch_channel sync3"
    by (simp_all add: sync3_frame_def sync3_def)
  from incoming_packet_samples [OF sync3_wf this(1) _ this(2), of 9 4 100 80]
  have "returns (incoming_packet sync3 sync3_frame 9 4 100 80) (\<lambda>ts'. sync_wf ts' \<and>
     (case sample_base sync3 (header_of (drop 2 sync3_frame)) 4 of
        None \<Rightarrow> ts' = sync3
      | Some base \<Rightarrow> samples ts' = add_sample (ts_offset sync3 + 100 - 80) base \<and>
                     ts_offset ts' = median (samples ts')))" by simp
  moreover have "sample_base sync3 (header_of (drop 2 sync3_frame)) 4 = Some []" by code_simp
  moreover have "add_sample (ts_offset sync3 + 100 - 80) [] = [50]" by code_simp
  ultimately show ?thesis by (auto elim!: returns_mono)
qed

text \<open>Reading a clock value as synchronised time and converting it back gives the clock value.\<close>

lemma timesynch_time_roundtrip:
  "timesynch_time_to_rtimer ts (timesynch_rtimer_to_time ts t) = t \<and>
   timesynch_rtimer_to_time ts (timesynch_time_to_rtimer ts t) = t \<and>
   timesynch_time ts t = timesynch_rtimer_to_time ts t"
  by (simp add: timesynch_time_to_rtimer_def timesynch_rtimer_to_time_def timesynch_time_def)

end
