(* ===== verification/Sync_Test.thy ===== *)
theory Sync_Test
  imports Timesynch
begin

text \<open>
  The test program of the clock, \<open>sync_test.c\<close>: a node that broadcasts a greeting when its button is
  pressed, and prints its timer and the common time when it hears one. The state is the channel of
  its anonymous broadcast connection, if it is open, the frames handed to it, and what was printed.
\<close>

record sync_test =
  abc_channel :: "u16 option"
  abc_sent :: "bytes list"
  st_button_active :: bool
  st_printed :: "(rtimer_clock_t \<times> rtimer_clock_t) list"

datatype sync_event = Started | Exited | Button_Pressed | Other_Event

definition greeting :: bytes where
  "greeting = [0x48, 0x65, 0x6C, 0x6C, 0x6F, 0]"

definition abc_recv :: "timesynch \<Rightarrow> rtimer_clock_t \<Rightarrow> sync_test \<Rightarrow> sync_test" where
  "abc_recv ts rtimer_now st = st\<lparr>st_printed := st_printed st @ [(rtimer_now, timesynch_time ts rtimer_now)]\<rparr>"

fun sync_test_process :: "sync_event \<Rightarrow> sync_test \<Rightarrow> sync_test" where
  "sync_test_process Started st = st\<lparr>abc_channel := Some 128, st_button_active := True\<rparr>"
| "sync_test_process Exited st = st\<lparr>abc_channel := None\<rparr>"
| "sync_test_process Button_Pressed st = st\<lparr>abc_sent := abc_sent st @ [greeting]\<rparr>"
| "sync_test_process Other_Event st = st"

subsection \<open>Laws\<close>

text \<open>One greeting leaves the node for every press of the button, whatever else happens.\<close>

lemma greetings_counted:
  "abc_sent (fold sync_test_process evs st) =
     abc_sent st @ replicate (length (filter (\<lambda>ev. ev = Button_Pressed) evs)) greeting"
proof (induction evs arbitrary: st)
  case (Cons ev evs)
  have "abc_sent (sync_test_process ev st) = abc_sent st @ (if ev = Button_Pressed then [greeting] else [])"
    by (cases ev) auto
  then show ?case by (simp add: Cons.IH)
qed simp

text \<open>Nodes whose clocks agree print the same time for a frame that they hear at the same moment.\<close>

lemma printed_times_agree:
  assumes "timesynch_time ts1 t1 = timesynch_time ts2 t2"
  shows "snd (last (st_printed (abc_recv ts1 t1 st1))) = snd (last (st_printed (abc_recv ts2 t2 st2)))"
  using assms by (simp add: abc_recv_def)

end
