(* ===== verification/Tellstick.thy ===== *)
theory Tellstick
  imports Prelude
begin

text \<open>
  The native half of the graphical interface's switch control (\<open>GUI/Tellstick.c\<close>): every JNI function
  hands its arguments to one function of the library telldus-core, which is not in the repository.
  That library is a record of functions on a state of its own. A \<open>jint\<close> and a C \<open>int\<close> are 32-bit
  words, a \<open>jboolean\<close> is a byte; a string is an opaque reference, which the code casts between Java's
  \<open>jstring\<close> and \<open>char *\<close> without converting it.
\<close>

type_synonym jint = "32 word"
type_synonym jboolean = "8 word"

record ('d, 'p) telldus_core =
  td_init :: "'d \<Rightarrow> 'd"
  td_close :: "'d \<Rightarrow> 'd"
  td_turn_on :: "jint \<Rightarrow> 'd \<Rightarrow> 'd \<times> jint"
  td_turn_off :: "jint \<Rightarrow> 'd \<Rightarrow> 'd \<times> jint"
  td_learn :: "jint \<Rightarrow> 'd \<Rightarrow> 'd \<times> jint"
  td_bell :: "jint \<Rightarrow> 'd \<Rightarrow> 'd \<times> jint"
  td_dim :: "jint \<Rightarrow> byte \<Rightarrow> 'd \<Rightarrow> 'd \<times> jint"
  td_methods :: "jint \<Rightarrow> jint \<Rightarrow> 'd \<Rightarrow> 'd \<times> jint"
  td_get_number_of_devices :: "'d \<Rightarrow> 'd \<times> jint"
  td_get_device_id :: "jint \<Rightarrow> 'd \<Rightarrow> 'd \<times> jint"
  td_get_name :: "jint \<Rightarrow> 'd \<Rightarrow> 'd \<times> 'p"
  td_set_name :: "jint \<Rightarrow> 'p \<Rightarrow> 'd \<Rightarrow> 'd \<times> jint"
  td_add_device :: "'d \<Rightarrow> 'd \<times> jint"
  td_remove_device :: "jint \<Rightarrow> 'd \<Rightarrow> 'd \<times> jint"

text \<open>The cast of a result to \<open>jboolean\<close> keeps its low byte.\<close>

definition to_jboolean :: "'d \<times> jint \<Rightarrow> 'd \<times> jboolean" where
  "to_jboolean r = (fst r, ucast (snd r))"

definition Java_Tellstick_tdOpen :: "('d, 'p) telldus_core \<Rightarrow> 'd \<Rightarrow> 'd" where
  "Java_Tellstick_tdOpen td d = td_init td d"

definition Java_Tellstick_tdClose :: "('d, 'p) telldus_core \<Rightarrow> 'd \<Rightarrow> 'd" where
  "Java_Tellstick_tdClose td d = td_close td d"

definition Java_Tellstick_tdTurnOn :: "('d, 'p) telldus_core \<Rightarrow> jint \<Rightarrow> 'd \<Rightarrow> 'd \<times> jboolean" where
  "Java_Tellstick_tdTurnOn td intDeviceId d = to_jboolean (td_turn_on td intDeviceId d)"

definition Java_Tellstick_tdTurnOff :: "('d, 'p) telldus_core \<Rightarrow> jint \<Rightarrow> 'd \<Rightarrow> 'd \<times> jboolean" where
  "Java_Tellstick_tdTurnOff td intDeviceId d = to_jboolean (td_turn_off td intDeviceId d)"

definition Java_Tellstick_tdLearn :: "('d, 'p) telldus_core \<Rightarrow> jint \<Rightarrow> 'd \<Rightarrow> 'd \<times> jint" where
  "Java_Tellstick_tdLearn td intDeviceId d = td_learn td intDeviceId d"

definition Java_Tellstick_tdBell :: "('d, 'p) telldus_core \<Rightarrow> jint \<Rightarrow> 'd \<Rightarrow> 'd \<times> jboolean" where
  "Java_Tellstick_tdBell td intDeviceId d = to_jboolean (td_bell td intDeviceId d)"

definition Java_Tellstick_tdDim :: "('d, 'p) telldus_core \<Rightarrow> jint \<Rightarrow> jint \<Rightarrow> 'd \<Rightarrow> 'd \<times> jboolean" where
  "Java_Tellstick_tdDim td intDeviceId level d = to_jboolean (td_dim td intDeviceId (ucast level) d)"

definition Java_Tellstick_tdMethods :: "('d, 'p) telldus_core \<Rightarrow> jint \<Rightarrow> jint \<Rightarrow> 'd \<Rightarrow> 'd \<times> jint" where
  "Java_Tellstick_tdMethods td id' methodsSupported d = td_methods td id' methodsSupported d"

definition Java_Tellstick_tdGetNumberOfDevices :: "('d, 'p) telldus_core \<Rightarrow> 'd \<Rightarrow> 'd \<times> jint" where
  "Java_Tellstick_tdGetNumberOfDevices td d = td_get_number_of_devices td d"

definition Java_Tellstick_tdGetDeviceId :: "('d, 'p) telldus_core \<Rightarrow> jint \<Rightarrow> 'd \<Rightarrow> 'd \<times> jint" where
  "Java_Tellstick_tdGetDeviceId td intDeviceIndex d = td_get_device_id td intDeviceIndex d"

definition Java_Tellstick_tdGetName :: "('d, 'p) telldus_core \<Rightarrow> jint \<Rightarrow> 'd \<Rightarrow> 'd \<times> 'p" where
  "Java_Tellstick_tdGetName td intDeviceId d = td_get_name td intDeviceId d"

definition Java_Tellstick_tdSetName :: "('d, 'p) telldus_core \<Rightarrow> jint \<Rightarrow> 'p \<Rightarrow> 'd \<Rightarrow> 'd \<times> jboolean" where
  "Java_Tellstick_tdSetName td intDeviceId chNewName d = to_jboolean (td_set_name td intDeviceId chNewName d)"

definition Java_Tellstick_tdAddDevice :: "('d, 'p) telldus_core \<Rightarrow> 'd \<Rightarrow> 'd \<times> jint" where
  "Java_Tellstick_tdAddDevice td d = td_add_device td d"

definition Java_Tellstick_tdRemoveDevice :: "('d, 'p) telldus_core \<Rightarrow> jint \<Rightarrow> 'd \<Rightarrow> 'd \<times> jboolean" where
  "Java_Tellstick_tdRemoveDevice td intDeviceId d = to_jboolean (td_remove_device td intDeviceId d)"

text \<open>
  Levels are taken modulo 256: a level of 256 dims like 0. And a result whose low byte is zero
  reads as false.
\<close>

lemma dim_level_wraps: "Java_Tellstick_tdDim td i (l + 256) d = Java_Tellstick_tdDim td i l d"
proof -
  have "(ucast (l + 256) :: byte) = ucast l"
    by (simp add: word_uint_eq_iff unsigned_ucast_eq uint_word_ariths take_bit_eq_mod mod_simps flip: take_bit_eq_mod)
       (simp add: take_bit_eq_mod mod_mod_cancel)
  then show ?thesis by (simp add: Java_Tellstick_tdDim_def)
qed

end
