(* ===== verification/Neighbors.thy ===== *)
theory Neighbors
  imports Queue_Buffer Coordinate
begin

text \<open>
  The neighbor table: \<open>struct neighbor_node\<close> with its accessors (\<open>neighbor_node.h\<close>) and the table of
  at most eight neighbors kept in a queue buffer (\<open>neighbors.c\<close>). A pointer to a node of the
  table is its slot. The setters return the new node; the caller writes it back to its slot.
\<close>

type_synonym metric_t = u16
type_synonym distance_t = u16

definition METRIC_T_MAX :: metric_t where
  "METRIC_T_MAX = 0xFFFF"

record neighbor_node_best_path =
  bp_metric :: u8x2
  bp_points_to :: rimeaddr
  bp_hops :: byte

record neighbor_node =
  nn_addr :: rimeaddr
  nn_coord :: coordinate
  nn_distance :: u8x2
  nn_bp :: neighbor_node_best_path
  nn_has_sent_keep_alive :: byte

definition neighbor_node_best_path_max :: neighbor_node_best_path where
  "neighbor_node_best_path_max = \<lparr>bp_metric = (0xFF, 0xFF), bp_points_to = (0, 0), bp_hops = 0\<rparr>"

subsection \<open>neighbor_node.h\<close>

definition neighbor_node_set_has_sent_keep_alive :: "neighbor_node \<Rightarrow> byte \<Rightarrow> neighbor_node" where
  "neighbor_node_set_has_sent_keep_alive nn i = nn\<lparr>nn_has_sent_keep_alive := i\<rparr>"

definition neighbor_node_has_sent_keep_alive :: "neighbor_node \<Rightarrow> bool" where
  "neighbor_node_has_sent_keep_alive nn \<longleftrightarrow> nn_has_sent_keep_alive nn \<noteq> 0"

definition neighbor_node_addr :: "neighbor_node \<Rightarrow> rimeaddr" where
  "neighbor_node_addr nn = nn_addr nn"

definition neighbor_node_set_addr :: "neighbor_node \<Rightarrow> rimeaddr \<Rightarrow> neighbor_node" where
  "neighbor_node_set_addr nn addr = nn\<lparr>nn_addr := addr\<rparr>"

definition neighbor_node_set_coordinate :: "coordinate \<Rightarrow> neighbor_node \<Rightarrow> coordinate \<Rightarrow> neighbor_node" where
  "neighbor_node_set_coordinate coordinate_node nn coord =
     nn\<lparr>nn_coord := coord, nn_distance := uint16_to_uint8 (coordinate_distance coord coordinate_node)\<rparr>"

definition neighbor_node_set_best_path :: "neighbor_node \<Rightarrow> neighbor_node_best_path \<Rightarrow> neighbor_node" where
  "neighbor_node_set_best_path nn bp = nn\<lparr>nn_bp := bp\<rparr>"

definition neighbor_node_coord :: "neighbor_node \<Rightarrow> coordinate" where
  "neighbor_node_coord nn = nn_coord nn"

definition neighbor_node_metric :: "neighbor_node \<Rightarrow> metric_t" where
  "neighbor_node_metric nn = uint8_to_uint16 (bp_metric (nn_bp nn))"

definition neighbor_node_points_to_us :: "rimeaddr \<Rightarrow> neighbor_node \<Rightarrow> bool" where
  "neighbor_node_points_to_us node_addr nn = rimeaddr_cmp (bp_points_to (nn_bp nn)) node_addr"

definition neighbor_node_hops :: "neighbor_node \<Rightarrow> byte" where
  "neighbor_node_hops nn = bp_hops (nn_bp nn)"

definition neighbor_node_distance :: "neighbor_node \<Rightarrow> distance_t" where
  "neighbor_node_distance nn = uint8_to_uint16 (nn_distance nn)"

subsection \<open>neighbors.c\<close>

type_synonym neighbors = "neighbor_node queue_buffer"

definition MAX_NEIGHBORS :: byte where
  "MAX_NEIGHBORS = 8"

text \<open>A node after \<open>memset(&nn, 0, sizeof(struct neighbor_node))\<close>.\<close>

definition neighbor_node_zero :: neighbor_node where
  "neighbor_node_zero = \<lparr>nn_addr = (0, 0), nn_coord = coordinate_null, nn_distance = (0, 0),
     nn_bp = \<lparr>bp_metric = (0, 0), bp_points_to = (0, 0), bp_hops = 0\<rparr>, nn_has_sent_keep_alive = 0\<rparr>"

definition neighbors_init :: "neighbors \<Rightarrow> neighbors result" where
  "neighbors_init ns = queue_buffer_init (pool ns) MAX_NEIGHBORS"

definition neighbor_to_addr_cmp :: "neighbor_node \<Rightarrow> rimeaddr \<Rightarrow> bool" where
  "neighbor_to_addr_cmp l r = rimeaddr_cmp (nn_addr l) r"

definition new_neighbor :: "rimeaddr \<Rightarrow> neighbor_node" where
  "new_neighbor addr =
     neighbor_node_set_has_sent_keep_alive
       (neighbor_node_set_best_path (neighbor_node_set_addr neighbor_node_zero addr)
          neighbor_node_best_path_max) 1"

definition neighbors_add :: "neighbors \<Rightarrow> rimeaddr \<Rightarrow> neighbors result" where
  "neighbors_add ns addr =
     bindR (queue_buffer_push_front ns (new_neighbor addr)) (\<lambda>(ns, ret).
     bindR (assertR (ret \<noteq> None)) (\<lambda>_. Inr ns))"

definition neighbors_find_neighbor_node :: "neighbors \<Rightarrow> rimeaddr \<Rightarrow> nat option result" where
  "neighbors_find_neighbor_node ns addr = queue_buffer_find ns (\<lambda>nn. neighbor_to_addr_cmp nn addr)"

definition neighbors_remove :: "neighbors \<Rightarrow> rimeaddr \<Rightarrow> neighbors result" where
  "neighbors_remove ns addr =
     bindR (queue_buffer_find ns (\<lambda>nn. neighbor_to_addr_cmp nn addr)) (\<lambda>nn.
     case nn of None \<Rightarrow> Inr ns | Some nn \<Rightarrow> queue_buffer_free ns nn)"

definition neighbors_is_neighbor :: "neighbors \<Rightarrow> rimeaddr \<Rightarrow> bool result" where
  "neighbors_is_neighbor ns addr =
     bindR (queue_buffer_find ns (\<lambda>nn. neighbor_to_addr_cmp nn addr)) (\<lambda>r. Inr (r \<noteq> None))"

definition neighbors_clear :: "neighbors \<Rightarrow> neighbors result" where
  "neighbors_clear ns =
     bindR (queue_buffer_clear ns) (\<lambda>ns.
     case queue_buffer_begin ns of (ns, p) \<Rightarrow> bindR (assertR (p = None)) (\<lambda>_. Inr ns))"

definition neighbors_size :: "neighbors \<Rightarrow> byte" where
  "neighbors_size ns = queue_buffer_size ns"

definition neighbors_begin :: "neighbors \<Rightarrow> neighbors \<times> nat option" where
  "neighbors_begin ns = queue_buffer_begin ns"

definition neighbors_next :: "neighbors \<Rightarrow> (neighbors \<times> nat option) result" where
  "neighbors_next ns = queue_buffer_next ns"

lemma neighbors_ops: "neighbors_begin = queue_buffer_begin" "neighbors_next = queue_buffer_next"
  by (simp_all add: fun_eq_iff neighbors_begin_def neighbors_next_def)

subsection \<open>The table as a list\<close>

definition ns_wf :: "neighbors \<Rightarrow> bool" where
  "ns_wf ns \<longleftrightarrow> qb_wf ns \<and> capacity ns = 8"

definition neighbor_addrs :: "neighbors \<Rightarrow> rimeaddr list" where
  "neighbor_addrs ns = map nn_addr (items ns)"

lemma ns_wfD: "ns_wf ns \<Longrightarrow> qb_wf ns" "ns_wf ns \<Longrightarrow> capacity ns = 8"
  by (simp_all add: ns_wf_def)

lemma new_neighbor_simps [simp]:
  "nn_addr (new_neighbor a) = a" "neighbor_node_metric (new_neighbor a) = METRIC_T_MAX"
  "neighbor_node_has_sent_keep_alive (new_neighbor a)" "neighbor_node_distance (new_neighbor a) = 0"
  by (simp_all add: new_neighbor_def neighbor_node_zero_def neighbor_node_set_addr_def
      neighbor_node_set_best_path_def neighbor_node_set_has_sent_keep_alive_def
      neighbor_node_metric_def neighbor_node_best_path_max_def uint8_to_uint16_def METRIC_T_MAX_def
      neighbor_node_has_sent_keep_alive_def neighbor_node_distance_def)

lemma length_items: "qb_wf qb \<Longrightarrow> length (items qb) = unat (queue_size qb)"
  by (simp add: items_def length_entries)

lemma neighbors_size_eq: "ns_wf ns \<Longrightarrow> unat (neighbors_size ns) = length (items ns)"
  by (simp add: neighbors_size_def queue_buffer_size_def length_items ns_wf_def)

lemma neighbors_size_le: "ns_wf ns \<Longrightarrow> length (items ns) \<le> 8"
  using length_entries_le [of ns] by (simp add: ns_wf_def items_def)

lemma neighbors_add_room:
  assumes "ns_wf ns" and "length (items ns) < 8"
  shows "returns (neighbors_add ns addr) (\<lambda>ns'. ns_wf ns' \<and> items ns' = new_neighbor addr # items ns)"
  using sq.push_front_returns [of ns "new_neighbor addr"] assms
  by (auto simp: neighbors_add_def ns_wf_def items_def returns_def)

lemma neighbors_add_full:
  "ns_wf ns \<Longrightarrow> length (items ns) = 8 \<Longrightarrow> neighbors_add ns addr = Inl Assert_Failed"
  by (simp add: neighbors_add_def push_front_full ns_wf_def items_def)

lemma neighbors_is_neighbor_eq:
  "ns_wf ns \<Longrightarrow> neighbors_is_neighbor ns addr = Inr (addr \<in> set (neighbor_addrs ns))"
  by (auto simp: neighbors_is_neighbor_def find_entries ns_wf_def neighbor_to_addr_cmp_def
      neighbor_addrs_def items_def find_None image_iff simp del: not_None_eq)

lemma neighbors_find_eq:
  "ns_wf ns \<Longrightarrow> neighbors_find_neighbor_node ns addr =
     Inr (map_option fst (List.find (\<lambda>e. nn_addr (snd e) = addr) (entries ns)))"
  by (simp add: neighbors_find_neighbor_node_def find_entries ns_wf_def neighbor_to_addr_cmp_def)

lemma neighbors_remove_returns:
  assumes "ns_wf ns"
  shows "returns (neighbors_remove ns addr) (\<lambda>ns'. ns_wf ns' \<and>
      entries ns' = (case List.find (\<lambda>e. nn_addr (snd e) = addr) (entries ns) of
         None \<Rightarrow> entries ns | Some e \<Rightarrow> filter (\<lambda>e'. fst e' \<noteq> fst e) (entries ns)))"
  using sq.remove_if_present [of ns "\<lambda>nn. neighbor_to_addr_cmp nn addr"] assms
  by (auto simp: neighbors_remove_def ns_wf_def neighbor_to_addr_cmp_def returns_def)

lemma neighbors_clear_returns:
  assumes "ns_wf ns"
  shows "returns (neighbors_clear ns) (\<lambda>ns'. ns_wf ns' \<and> items ns' = [])"
  using sq.clear_returns [of ns] assms
  by (auto simp: neighbors_clear_def begin_entries ns_wf_def items_def capacity_def returns_def)

lemma neighbors_init_returns:
  "length (pool ns) = 8 \<Longrightarrow> returns (neighbors_init ns) (\<lambda>ns'. ns_wf ns' \<and> items ns' = [])"
  unfolding neighbors_init_def
  by (rule init_entries [of MAX_NEIGHBORS "pool ns"]) (auto simp: MAX_NEIGHBORS_def ns_wf_def items_def)

end
