(* ===== verification/Packet_Buffer.thy ===== *)
theory Packet_Buffer
  imports Neighbors Packet
begin

text \<open>
  The sending queue of \<open>emergency_net/packet_buffer.c\<close>: buffered packets live in the cells of a
  queue buffer and are linked a second time, by their own \<open>next\<close> pointer, into one list per
  message type. Each packet carries the neighbors that still have to acknowledge it, how often
  it was sent, and the bytes of its header and data.

  The lists of the seven types are \<open>lanes\<close>. The theory has the operations, the invariant that the
  lanes partition the used cells, and what every operation does to the lanes.
\<close>

definition PACKET_BUFFER_MAX_TYPES :: nat where
  "PACKET_BUFFER_MAX_TYPES = 7"

text \<open>
  The bytes of a cell from \<open>p\<close> on: \<open>BUFFERED_PACKET_HDR_SIZE + MAX_PACKET_SIZE\<close> is one byte less
  than the struct, which ends with the eight bytes of \<open>p\<close>, plus 32.
\<close>

definition PACKET_MEM :: nat where
  "PACKET_MEM = 39"

record buffered_packet =
  bnext :: "nat option"
  unacked_ns :: "rimeaddr queue_buffer"
  times_sent :: byte
  bp_data_len :: byte
  bp_p :: bytes

record packet_buffer =
  prio_heads :: "nat option list"
  pbuffer :: "buffered_packet queue_buffer"

subsection \<open>Access to the cells\<close>

definition set_bnext :: "buffered_packet queue_buffer \<Rightarrow> nat \<Rightarrow> nat option
    \<Rightarrow> buffered_packet queue_buffer result" where
  "set_bnext qb i q = bindR (get_data qb i) (\<lambda>d. set_data qb i (d\<lparr>bnext := q\<rparr>))"

definition get_packet :: "packet_buffer \<Rightarrow> nat \<Rightarrow> buffered_packet result" where
  "get_packet pb i = get_data (pbuffer pb) i"

definition set_packet :: "packet_buffer \<Rightarrow> nat \<Rightarrow> buffered_packet \<Rightarrow> packet_buffer result" where
  "set_packet pb i bp = bindR (set_data (pbuffer pb) i bp) (\<lambda>b. Inr (pb\<lparr>pbuffer := b\<rparr>))"

subsection \<open>packet_buffer.c\<close>

definition add_buffered_packet_tail :: "buffered_packet queue_buffer \<Rightarrow> nat option \<Rightarrow> nat option
    \<Rightarrow> (buffered_packet queue_buffer \<times> nat option) result" where
  "add_buffered_packet_tail qb head p =
     (case p of
        None \<Rightarrow> Inl Null_Deref
      | Some i \<Rightarrow>
          bindR (set_bnext qb i None) (\<lambda>qb.
          case head of
            Some h \<Rightarrow>
              bindR (walk_last (length (pool qb)) bnext (payload qb) h) (\<lambda>iter.
              bindR (set_bnext qb iter (Some i)) (\<lambda>qb. Inr (qb, head)))
          | None \<Rightarrow> Inr (qb, Some i)))"

definition allocate_buffered_packet :: "packet_buffer \<Rightarrow> nat \<Rightarrow> (packet_buffer \<times> nat option) result" where
  "allocate_buffered_packet pb prio =
     bindR (queue_buffer_alloc_front (pbuffer pb)) (\<lambda>(qb, s).
     bindR (add_buffered_packet_tail qb (prio_heads pb ! prio) s) (\<lambda>(qb, h).
     Inr (\<lparr>prio_heads = (prio_heads pb)[prio := h], pbuffer = qb\<rparr>, s)))"

definition packet_buffer_init :: "packet_buffer \<Rightarrow> packet_buffer" where
  "packet_buffer_init pb = pb\<lparr>prio_heads := replicate PACKET_BUFFER_MAX_TYPES None\<rparr>"

definition copy_neighbors :: "rimeaddr queue_buffer \<Rightarrow> neighbors \<Rightarrow> (rimeaddr queue_buffer \<times> neighbors) result" where
  "copy_neighbors u ns =
     bindR
       (case neighbors_begin ns of (ns, nn) \<Rightarrow>
          for_each neighbors_next
            (\<lambda>ns nn u. bindR (get_data ns nn) (\<lambda>n.
                       bindR (queue_buffer_push_front u (neighbor_node_addr n)) (\<lambda>(u, _). Inr (ns, u))))
            (length (pool ns)) ns nn u)
       (\<lambda>(ns, u). Inr (u, ns))"

text \<open>
  The body that \<open>packet_buffer_packet\<close>, \<open>packet_buffer_broadcast_packet\<close> and
  \<open>packet_buffer_unicast_packet\<close> share: they differ in the header they copy. \<open>ns = None\<close> is the
  null pointer, for which the unacknowledged neighbors are left as they are in the cell.
\<close>

definition buffer_packet :: "packet_buffer \<Rightarrow> bytes \<Rightarrow> bytes \<Rightarrow> byte \<Rightarrow> neighbors option \<Rightarrow> nat
    \<Rightarrow> (packet_buffer \<times> neighbors option \<times> nat option) result" where
  "buffer_packet pb hdr data data_len ns type =
     bindR (allocate_buffered_packet pb type) (\<lambda>(pb, s).
     case s of
       None \<Rightarrow> Inr (pb, ns, None)
     | Some i \<Rightarrow>
         bindR (get_packet pb i) (\<lambda>bp.
         bindR (case ns of
                  None \<Rightarrow> Inr (bp, None)
                | Some n \<Rightarrow>
                    bindR (queue_buffer_init (pool (unacked_ns bp)) (neighbors_size n)) (\<lambda>u.
                    bindR (copy_neighbors u n) (\<lambda>(u, n). Inr (bp\<lparr>unacked_ns := u\<rparr>, Some n))))
           (\<lambda>(bp, ns).
         bindR (assertR (length hdr + unat data_len < MAX_PACKET_SIZE)) (\<lambda>_.
         bindR (write_mem (bp_p bp) 0 hdr) (\<lambda>m.
         bindR (read_mem data 0 (unat data_len)) (\<lambda>d.
         bindR (write_mem m (length hdr) d) (\<lambda>m.
         bindR (set_packet pb i (bp\<lparr>times_sent := 0, bp_data_len := data_len, bp_p := m\<rparr>)) (\<lambda>pb.
         Inr (pb, ns, Some i)))))))))"

definition packet_buffer_packet :: "packet_buffer \<Rightarrow> header \<Rightarrow> bytes \<Rightarrow> byte \<Rightarrow> neighbors option \<Rightarrow> nat
    \<Rightarrow> (packet_buffer \<times> neighbors option \<times> nat option) result" where
  "packet_buffer_packet pb p data data_len ns prio =
     buffer_packet pb (header_bytes p) data data_len ns prio"

definition packet_buffer_broadcast_packet :: "packet_buffer \<Rightarrow> broadcast_packet \<Rightarrow> bytes \<Rightarrow> byte
    \<Rightarrow> neighbors option \<Rightarrow> nat \<Rightarrow> (packet_buffer \<times> neighbors option \<times> nat option) result" where
  "packet_buffer_broadcast_packet pb bp data data_len ns prio =
     buffer_packet pb (header_bytes bp) data data_len ns prio"

definition packet_buffer_unicast_packet :: "packet_buffer \<Rightarrow> unicast_packet \<Rightarrow> bytes \<Rightarrow> byte
    \<Rightarrow> neighbors option \<Rightarrow> nat \<Rightarrow> (packet_buffer \<times> neighbors option \<times> nat option) result" where
  "packet_buffer_unicast_packet pb up data data_len ns prio =
     buffer_packet pb (unicast_bytes up) data data_len ns prio"

definition packet_buffer_get_first_packet_from_type :: "packet_buffer \<Rightarrow> nat \<Rightarrow> nat option" where
  "packet_buffer_get_first_packet_from_type pb type = prio_heads pb ! type"

fun find_packet_loop :: "nat list \<Rightarrow> packet_buffer \<Rightarrow> (bytes \<Rightarrow> bool) \<Rightarrow> nat option result" where
  "find_packet_loop [] pb hit = Inr None"
| "find_packet_loop (i # is) pb hit =
     bindR (walk_find (length (pool (pbuffer pb))) bnext (\<lambda>_ bp. hit (bp_p bp)) (payload (pbuffer pb))
              None (prio_heads pb ! i)) (\<lambda>r.
     case r of Some (_, bp) \<Rightarrow> Inr (Some bp) | None \<Rightarrow> find_packet_loop is pb hit)"

definition packet_buffer_find_buffered_packet :: "packet_buffer \<Rightarrow> (bytes \<Rightarrow> bool) \<Rightarrow> nat option result" where
  "packet_buffer_find_buffered_packet pb comparer =
     find_packet_loop [0..<PACKET_BUFFER_MAX_TYPES] pb comparer"

fun clear_loop :: "nat \<Rightarrow> buffered_packet queue_buffer \<Rightarrow> nat option \<Rightarrow> buffered_packet queue_buffer result" where
  "clear_loop fuel qb None = Inr qb"
| "clear_loop 0 qb (Some i) = Inl Diverge"
| "clear_loop (Suc fuel) qb (Some i) =
     bindR (get_data qb i) (\<lambda>d.
     bindR (queue_buffer_free qb i) (\<lambda>qb. clear_loop fuel qb (bnext d)))"

definition packet_buffer_clear_priority :: "packet_buffer \<Rightarrow> nat \<Rightarrow> packet_buffer result" where
  "packet_buffer_clear_priority pb prio =
     bindR (clear_loop (length (pool (pbuffer pb))) (pbuffer pb) (prio_heads pb ! prio)) (\<lambda>qb.
     Inr (\<lparr>prio_heads = (prio_heads pb)[prio := None], pbuffer = qb\<rparr>))"

fun free_packet_loop :: "nat list \<Rightarrow> packet_buffer \<Rightarrow> nat \<Rightarrow> packet_buffer result" where
  "free_packet_loop [] pb bp = Inl Assert_Failed"
| "free_packet_loop (i # is) pb bp =
     bindR (walk_find (length (pool (pbuffer pb))) bnext (\<lambda>s _. s = bp) (payload (pbuffer pb))
              None (prio_heads pb ! i)) (\<lambda>r.
     case r of
       None \<Rightarrow> free_packet_loop is pb bp
     | Some (s_prev, s) \<Rightarrow>
         bindR (get_packet pb s) (\<lambda>d.
         bindR (case s_prev of
                  None \<Rightarrow> Inr (pb\<lparr>prio_heads := (prio_heads pb)[i := bnext d]\<rparr>)
                | Some q \<Rightarrow> bindR (set_bnext (pbuffer pb) q (bnext d)) (\<lambda>qb. Inr (pb\<lparr>pbuffer := qb\<rparr>)))
           (\<lambda>pb.
         bindR (queue_buffer_free (pbuffer pb) s) (\<lambda>qb. Inr (pb\<lparr>pbuffer := qb\<rparr>)))))"

definition packet_buffer_free :: "packet_buffer \<Rightarrow> nat \<Rightarrow> packet_buffer result" where
  "packet_buffer_free pb bp = free_packet_loop [0..<PACKET_BUFFER_MAX_TYPES] pb bp"

subsection \<open>The inline operations of packet_buffer.h\<close>

definition packet_buffer_times_sent :: "buffered_packet \<Rightarrow> byte" where
  [simp]: "packet_buffer_times_sent bp = times_sent bp"

definition packet_buffer_data_len :: "buffered_packet \<Rightarrow> byte" where
  [simp]: "packet_buffer_data_len bp = bp_data_len bp"

definition packet_buffer_get_packet :: "buffered_packet \<Rightarrow> bytes" where
  [simp]: "packet_buffer_get_packet bp = bp_p bp"

definition packet_buffer_increment_times_sent :: "buffered_packet \<Rightarrow> buffered_packet" where
  "packet_buffer_increment_times_sent bp = bp\<lparr>times_sent := times_sent bp + 1\<rparr>"

definition packet_buffer_has_room_for_packets :: "packet_buffer \<Rightarrow> byte \<Rightarrow> bool" where
  "packet_buffer_has_room_for_packets pb num_packets \<longleftrightarrow>
     unat (queue_buffer_size (pbuffer pb)) + unat num_packets \<le> unat (queue_buffer_max_size (pbuffer pb))"

fun acked_loop :: "nat \<Rightarrow> rimeaddr queue_buffer \<Rightarrow> rimeaddr \<Rightarrow> nat option \<Rightarrow> rimeaddr queue_buffer result" where
  "acked_loop fuel u addr None = Inr u"
| "acked_loop 0 u addr (Some baddr) = Inl Diverge"
| "acked_loop (Suc fuel) u addr (Some baddr) =
     bindR (get_data u baddr) (\<lambda>a.
     if rimeaddr_cmp a addr then queue_buffer_free u baddr
     else bindR (queue_buffer_next u) (\<lambda>(u, baddr). acked_loop fuel u addr baddr))"

definition packet_buffer_neighbor_acked :: "buffered_packet \<Rightarrow> rimeaddr \<Rightarrow> buffered_packet result" where
  "packet_buffer_neighbor_acked bp addr =
     (case queue_buffer_begin (unacked_ns bp) of (u, baddr) \<Rightarrow>
        bindR (acked_loop (length (pool u)) u addr baddr) (\<lambda>u. Inr (bp\<lparr>unacked_ns := u\<rparr>)))"

definition packet_buffer_all_neighbors_acked :: "buffered_packet \<Rightarrow> bool" where
  "packet_buffer_all_neighbors_acked bp \<longleftrightarrow> queue_buffer_size (unacked_ns bp) = 0"

definition packet_buffer_num_unacked_neighbors :: "buffered_packet \<Rightarrow> byte" where
  "packet_buffer_num_unacked_neighbors bp = queue_buffer_size (unacked_ns bp)"

definition packet_buffer_unacked_neighbors_begin :: "buffered_packet \<Rightarrow> buffered_packet \<times> nat option" where
  "packet_buffer_unacked_neighbors_begin bp =
     (case queue_buffer_begin (unacked_ns bp) of (u, p) \<Rightarrow> (bp\<lparr>unacked_ns := u\<rparr>, p))"

definition packet_buffer_unacked_neighbors_next :: "buffered_packet \<Rightarrow> (buffered_packet \<times> nat option) result" where
  "packet_buffer_unacked_neighbors_next bp =
     bindR (queue_buffer_next (unacked_ns bp)) (\<lambda>(u, p). Inr (bp\<lparr>unacked_ns := u\<rparr>, p))"

subsection \<open>The lanes partition the used cells\<close>

definition cell_ok :: "buffered_packet \<Rightarrow> bool" where
  "cell_ok bp \<longleftrightarrow> length (bp_p bp) = PACKET_MEM \<and> qb_wf (unacked_ns bp) \<and>
     length (pool (unacked_ns bp)) = 8"

definition pb_lane :: "packet_buffer \<Rightarrow> nat \<Rightarrow> nat list" where
  "pb_lane pb t = walk_all (length (pool (pbuffer pb))) bnext (payload (pbuffer pb)) (prio_heads pb ! t)"

definition pb_lanes :: "packet_buffer \<Rightarrow> (nat \<Rightarrow> nat list) \<Rightarrow> bool" where
  "pb_lanes pb L \<longleftrightarrow> length (prio_heads pb) = 7 \<and>
     (\<forall>t < 7. chain bnext (payload (pbuffer pb)) (prio_heads pb ! t) (L t)) \<and>
     (\<forall>t < 7. \<forall>t' < 7. t \<noteq> t' \<longrightarrow> set (L t) \<inter> set (L t') = {}) \<and>
     (\<Union>t < 7. set (L t)) = set (used_slots (pbuffer pb))"

definition pb_wf :: "packet_buffer \<Rightarrow> bool" where
  "pb_wf pb \<longleftrightarrow> qb_wf (pbuffer pb) \<and> (\<forall>bp \<in> set (payload (pbuffer pb)). cell_ok bp) \<and>
     pb_lanes pb (pb_lane pb)"

definition pb_free_cells :: "packet_buffer \<Rightarrow> nat" where
  "pb_free_cells pb = capacity (pbuffer pb) - length (entries (pbuffer pb))"

text \<open>A packet without its link, and the packets of a lane in sending order.\<close>

definition unlinked :: "buffered_packet \<Rightarrow> buffered_packet" where
  "unlinked bp = bp\<lparr>bnext := None\<rparr>"

definition packet_at :: "packet_buffer \<Rightarrow> nat \<Rightarrow> buffered_packet" where
  "packet_at pb i = unlinked (payload (pbuffer pb) ! i)"

definition lane_packets :: "packet_buffer \<Rightarrow> nat \<Rightarrow> buffered_packet list" where
  "lane_packets pb t = map (packet_at pb) (pb_lane pb t)"

lemma unlinked_simps [simp]:
  "unlinked (bp\<lparr>bnext := q\<rparr>) = unlinked bp" "unlinked (unlinked bp) = unlinked bp"
  "unacked_ns (unlinked bp) = unacked_ns bp" "times_sent (unlinked bp) = times_sent bp"
  "bp_data_len (unlinked bp) = bp_data_len bp" "bp_p (unlinked bp) = bp_p bp"
  "bnext (unlinked bp) = None"
  by (simp_all add: unlinked_def)

lemma cell_ok_unlinked [simp]:
  "cell_ok (unlinked bp) = cell_ok bp" "cell_ok (bp\<lparr>bnext := q\<rparr>) = cell_ok bp"
  by (simp_all add: cell_ok_def)

lemma pb_lanes_lane: "pb_lanes pb L \<Longrightarrow> t < 7 \<Longrightarrow> pb_lane pb t = L t"
  unfolding pb_lane_def pb_lanes_def by (metis length_payload walk_all_eq)

lemma pb_lanes_cong:
  assumes "pb_lanes pb L" and "\<And>t. t < 7 \<Longrightarrow> L t = L' t"
  shows "pb_lanes pb L'"
proof -
  have "(\<Union>t < 7. set (L t)) = (\<Union>t < 7. set (L' t))" using assms(2) by auto
  with assms show ?thesis by (auto simp: pb_lanes_def)
qed

lemma pb_wfI:
  assumes "qb_wf (pbuffer pb)" and "\<forall>bp \<in> set (payload (pbuffer pb)). cell_ok bp" and "pb_lanes pb L"
  shows "pb_wf pb"
proof -
  have "pb_lanes pb (pb_lane pb)"
    by (rule pb_lanes_cong [OF assms(3)]) (rule pb_lanes_lane [OF assms(3), symmetric])
  with assms show ?thesis by (simp add: pb_wf_def)
qed

lemma pb_wfD:
  assumes "pb_wf pb"
  shows "qb_wf (pbuffer pb)" "pb_lanes pb (pb_lane pb)" "length (prio_heads pb) = 7"
    "bp \<in> set (payload (pbuffer pb)) \<Longrightarrow> cell_ok bp"
    "t < 7 \<Longrightarrow> chain bnext (payload (pbuffer pb)) (prio_heads pb ! t) (pb_lane pb t)"
  using assms by (auto simp: pb_wf_def pb_lanes_def)

lemma lane_slot_used:
  "pb_wf pb \<Longrightarrow> t < 7 \<Longrightarrow> i \<in> set (pb_lane pb t) \<Longrightarrow> i \<in> set (used_slots (pbuffer pb))"
  by (auto simp: pb_wf_def pb_lanes_def)

lemma lane_slot_bound:
  "pb_wf pb \<Longrightarrow> t < 7 \<Longrightarrow> i \<in> set (pb_lane pb t) \<Longrightarrow> i < length (pool (pbuffer pb))"
  using chain_bound [OF pb_wfD(5)] by fastforce

lemma lane_disjoint:
  "pb_wf pb \<Longrightarrow> t < 7 \<Longrightarrow> t' < 7 \<Longrightarrow> i \<in> set (pb_lane pb t) \<Longrightarrow> i \<in> set (pb_lane pb t') \<Longrightarrow> t = t'"
  unfolding pb_wf_def pb_lanes_def by blast

lemma get_packet_used:
  "pb_wf pb \<Longrightarrow> i < length (pool (pbuffer pb)) \<Longrightarrow> get_packet pb i = Inr (payload (pbuffer pb) ! i) \<and>
     cell_ok (payload (pbuffer pb) ! i)"
  by (auto simp: get_packet_def get_data_def nth_payload intro!: pb_wfD(4) simp flip: nth_payload)

subsection \<open>Writing cells\<close>

lemma set_data_wf:
  assumes "qb_wf qb" and "i < length (pool qb)"
  obtains qb' where "set_data qb i x = Inr qb'" and "qb_wf qb'" and "used_slots qb' = used_slots qb"
    and "payload qb' = (payload qb)[i := x]" and "frame qb qb'" and "length (pool qb') = length (pool qb)"
proof -
  from assms(1) obtain us fs where l: "qb_lists qb us fs" by (rule qb_wfE)
  from set_data_law [OF l assms(2)] obtain qb' where q: "set_data qb i x = Inr qb'"
    "qb_lists qb' us fs" "payload qb' = (payload qb)[i := x]" "frame qb qb'" .
  have "length (pool qb') = length (pool qb)"
    using q(3) by (metis length_list_update length_payload)
  with that q qb_lists_slots [OF l] qb_lists_slots [OF q(2)] show ?thesis
    by (auto intro: qb_lists_wf)
qed

lemma set_bnext_wf:
  assumes "qb_wf qb" and "i < length (pool qb)"
  obtains qb' where "set_bnext qb i q = Inr qb'" and "qb_wf qb'" and "used_slots qb' = used_slots qb"
    and "payload qb' = (payload qb)[i := (payload qb ! i)\<lparr>bnext := q\<rparr>]" and "frame qb qb'"
    and "length (pool qb') = length (pool qb)"
  by (rule set_data_wf [OF assms, of "(payload qb ! i)\<lparr>bnext := q\<rparr>"])
     (use assms that in \<open>simp add: set_bnext_def get_data_def nth_payload\<close>)

lemma map_unlinked_update:
  "i < length m \<Longrightarrow> map unlinked (m[i := (m ! i)\<lparr>bnext := q\<rparr>]) = map unlinked m"
  by (simp add: map_update) (metis list_update_id nth_map)

subsection \<open>Appending to a lane\<close>

lemma alloc_front_slots:
  assumes "qb_wf qb" and "length (entries qb) < capacity qb"
  obtains qb' s where "queue_buffer_alloc_front qb = Inr (qb', Some s)" and "qb_wf qb'"
    and "used_slots qb' = s # used_slots qb" and "payload qb' = payload qb" and "frame qb qb'"
    and "s \<notin> set (used_slots qb)" and "s < length (pool qb)"
proof (rule alloc_front_entries [OF assms])
  fix qb' s
  assume a: "queue_buffer_alloc_front qb = Inr (qb', Some s)" "qb_wf qb'"
    "entries qb' = (s, payload qb ! s) # entries qb" "frame qb qb'" "payload qb' = payload qb"
    "s \<notin> fst ` set (entries qb)" "s < length (pool qb)"
  from a(3) have "used_slots qb' = s # used_slots qb" by (metis fst_conv list.map(2) map_fst_entries)
  moreover from a(6) have "s \<notin> set (used_slots qb)" by (metis map_fst_entries list.set_map)
  ultimately show thesis using that a by blast
qed

lemma add_tail_wf:
  assumes wf: "qb_wf qb" and ch: "chain bnext (payload qb) head as" and s: "s < length (pool qb)" "s \<notin> set as"
  obtains qb' h where "add_buffered_packet_tail qb head (Some s) = Inr (qb', h)" and "qb_wf qb'"
    and "used_slots qb' = used_slots qb" and "chain bnext (payload qb') h (as @ [s])"
    and "map unlinked (payload qb') = map unlinked (payload qb)" and "frame qb qb'"
    and "\<forall>bs p. s \<notin> set bs \<longrightarrow> set as \<inter> set bs = {} \<longrightarrow>
           chain bnext (payload qb') p bs = chain bnext (payload qb) p bs"
proof -
  obtain q1 where q1: "set_bnext qb s None = Inr q1" "qb_wf q1" "used_slots q1 = used_slots qb"
    "payload q1 = (payload qb)[s := (payload qb ! s)\<lparr>bnext := None\<rparr>]" "frame qb q1"
    "length (pool q1) = length (pool qb)"
    using set_bnext_wf [OF wf s(1)] .
  have u1: "map unlinked (payload q1) = map unlinked (payload qb)"
    using q1(4) s by (simp add: map_unlinked_update)
  show ?thesis
  proof (cases head)
    case None
    with that [of q1 "Some s"] q1 ch s u1 show ?thesis by (simp add: add_buffered_packet_tail_def)
  next
    case (Some h)
    with ch have ne: "as \<noteq> []" by auto
    then have "last as \<in> set as" by simp
    then have la: "last as < length (pool q1)" "last as \<noteq> s"
      using chain_bound [OF ch] s q1(6) by auto
    have ch1: "chain bnext (payload q1) (Some h) as" using ch s(2) q1(4) Some by simp
    have w: "walk_last (length (pool q1)) bnext (payload q1) h = Inr (last as)"
      using walk_last_eq [OF ch1] by simp
    obtain q2 where q2: "set_bnext q1 (last as) (Some s) = Inr q2" "qb_wf q2"
      "used_slots q2 = used_slots q1"
      "payload q2 = (payload q1)[last as := (payload q1 ! last as)\<lparr>bnext := Some s\<rparr>]" "frame q1 q2"
      using set_bnext_wf [OF q1(2) la(1)] .
    have "chain bnext (payload q2) head (as @ [s])"
      unfolding q2(4) q1(4) by (rule chain_extend [OF ch ne]) (use s in simp_all)
    moreover have "map unlinked (payload q2) = map unlinked (payload qb)"
      using q2(4) u1 la by (simp add: map_unlinked_update)
    moreover have "chain bnext (payload q2) p bs = chain bnext (payload qb) p bs"
      if "s \<notin> set bs" "set as \<inter> set bs = {}" for bs p
    proof -
      from that(2) \<open>last as \<in> set as\<close> have "last as \<notin> set bs" by auto
      with that(1) show ?thesis by (simp add: q2(4) q1(4))
    qed
    ultimately show ?thesis
      using that [of q2 head] q1 q2 Some w by (simp add: add_buffered_packet_tail_def frame_def)
  qed
qed

lemma cells_ok_unlinked:
  "map unlinked m' = map unlinked m \<Longrightarrow> \<forall>bp \<in> set m. cell_ok bp \<Longrightarrow> \<forall>bp \<in> set m'. cell_ok bp"
  by (metis (no_types, lifting) cell_ok_unlinked(1) in_set_conv_nth length_map nth_map)

lemma allocate_law:
  assumes wf: "pb_wf pb" and room: "length (entries (pbuffer pb)) < capacity (pbuffer pb)" and t: "t < 7"
  obtains pb' s where "allocate_buffered_packet pb t = Inr (pb', Some s)" and "pb_wf pb'"
    and "pb_lane pb' t = pb_lane pb t @ [s]"
    and "\<forall>t' < 7. t' \<noteq> t \<longrightarrow> pb_lane pb' t' = pb_lane pb t'"
    and "map unlinked (payload (pbuffer pb')) = map unlinked (payload (pbuffer pb))"
    and "s \<notin> set (used_slots (pbuffer pb))" and "used_slots (pbuffer pb') = s # used_slots (pbuffer pb)"
    and "capacity (pbuffer pb') = capacity (pbuffer pb)" and "s < length (pool (pbuffer pb'))"
proof -
  note wfD = pb_wfD [OF wf]
  obtain q1 s where q1: "queue_buffer_alloc_front (pbuffer pb) = Inr (q1, Some s)" "qb_wf q1"
    "used_slots q1 = s # used_slots (pbuffer pb)" "payload q1 = payload (pbuffer pb)"
    "frame (pbuffer pb) q1" "s \<notin> set (used_slots (pbuffer pb))" "s < length (pool (pbuffer pb))"
    using alloc_front_slots [OF wfD(1) room] .
  have notin: "s \<notin> set (pb_lane pb t')" if "t' < 7" for t'
    using lane_slot_used [OF wf that] q1(6) by blast
  have ch: "chain bnext (payload q1) (prio_heads pb ! t) (pb_lane pb t)" using wfD(5) [OF t] q1(4) by simp
  have len: "length (pool q1) = length (pool (pbuffer pb))" using q1(4) by (metis length_payload)
  obtain q2 h where q2: "add_buffered_packet_tail q1 (prio_heads pb ! t) (Some s) = Inr (q2, h)"
    "qb_wf q2" "used_slots q2 = used_slots q1" "chain bnext (payload q2) h (pb_lane pb t @ [s])"
    "map unlinked (payload q2) = map unlinked (payload q1)" "frame q1 q2"
    "\<forall>bs p. s \<notin> set bs \<longrightarrow> set (pb_lane pb t) \<inter> set bs = {} \<longrightarrow>
       chain bnext (payload q2) p bs = chain bnext (payload q1) p bs"
    using add_tail_wf [OF q1(2) ch _ notin [OF t]] q1(7) len by metis
  let ?pb = "\<lparr>prio_heads = (prio_heads pb)[t := h], pbuffer = q2\<rparr>"
  let ?L = "(pb_lane pb)(t := pb_lane pb t @ [s])"
  have disj: "set (pb_lane pb t) \<inter> set (pb_lane pb t') = {}" if "t' < 7" "t' \<noteq> t" for t'
    using lane_disjoint [OF wf t that(1)] that(2) by blast
  have un: "(\<Union>u < 7. set (?L u)) = set (used_slots q2)"
  proof -
    have "(\<Union>u < 7. set (?L u)) = insert s (\<Union>u < 7. set (pb_lane pb u))"
      using t by (auto split: if_splits)
    then show ?thesis using wfD(2) q1(3) q2(3) by (simp add: pb_lanes_def)
  qed
  have lanes: "pb_lanes ?pb ?L"
    unfolding pb_lanes_def
  proof (intro conjI allI impI)
    show "chain bnext (payload (pbuffer ?pb)) (prio_heads ?pb ! u) (?L u)" if "u < 7" for u
    proof (cases "u = t")
      case True
      with q2(4) wfD(3) that show ?thesis by simp
    next
      case False
      with q2(7) disj [OF that False] notin [OF that] wfD(5) [OF that] q1(4)
      show ?thesis by simp
    qed
    show "set (?L u) \<inter> set (?L u') = {}" if "u < 7" "u' < 7" "u \<noteq> u'" for u u'
      using that notin [OF that(1)] notin [OF that(2)] lane_disjoint [OF wf that(1,2)] by auto
  qed (use wfD(3) un in simp_all)
  have "pb_wf ?pb"
  proof (rule pb_wfI [OF _ _ lanes])
    show "\<forall>bp \<in> set (payload (pbuffer ?pb)). cell_ok bp"
      by (rule cells_ok_unlinked [of _ "payload (pbuffer pb)"]) (use q2(5) q1(4) wfD(4) in simp_all)
  qed (use q2 in simp)
  moreover have "length (pool q2) = length (pool q1)"
    using q2(5) by (metis length_map length_payload)
  ultimately show ?thesis
    using that [of ?pb s] q1 q2 len pb_lanes_lane [OF lanes] t
    by (simp add: allocate_buffered_packet_def frame_def capacity_def)
qed

lemma allocate_buffered_full:
  assumes "pb_wf pb" and "length (entries (pbuffer pb)) = capacity (pbuffer pb)"
  shows "allocate_buffered_packet pb t = Inl Null_Deref"
  using assms by (simp add: allocate_buffered_packet_def alloc_front_full pb_wfD add_buffered_packet_tail_def)

subsection \<open>Filling the new cell\<close>

lemma get_data_entry: "qb_wf q \<Longrightarrow> (i, x) \<in> set (entries q) \<Longrightarrow> get_data q i = Inr x"
  by (erule qb_wfE) (auto simp: get_data_def entries_lists nth_payload dest: qb_lists_bound)

lemma copy_neighbors_returns:
  assumes ns: "ns_wf ns" and u: "qb_wf u" "entries u = []" "length (items ns) \<le> capacity u"
  shows "returns (copy_neighbors u ns) (\<lambda>(u', ns'). ns_wf ns' \<and> entries ns' = entries ns \<and> qb_wf u' \<and>
           items u' = rev (neighbor_addrs ns) \<and> capacity u' = capacity u \<and>
           length (pool u') = length (pool u))"
proof -
  let ?I = "\<lambda>pre es u'. es = entries ns \<and> qb_wf u' \<and> capacity u' = capacity u \<and>
    length (pool u') = length (pool u) \<and>
    items u' = rev (map nn_addr (take (length pre) (items ns)))"
  let ?body = "\<lambda>ns nn u. bindR (get_data ns nn) (\<lambda>n.
     bindR (queue_buffer_push_front u (neighbor_node_addr n)) (\<lambda>(u, _). Inr (ns, u)))"
  have len: "length (entries ns) \<le> length (pool ns)"
    using ns by (metis entries_def length_map ns_wf_def qb_wfE qb_lists_def chain_length)
  have "returns (case queue_buffer_begin ns of (q1, p) \<Rightarrow>
        for_each queue_buffer_next ?body (length (pool ns)) q1 p u)
      (\<lambda>(q', s'). qb_wf q' \<and> capacity q' = capacity ns \<and> iterator q' = None \<and>
         map fst (entries q') = map fst (entries ns) \<and> ?I (map fst (entries ns)) (entries q') s')"
  proof (rule iq.for_each_inv [where I = ?I])
    fix q' i x pre post and s :: "rimeaddr queue_buffer"
    assume q': "qb_wf q'" "entries q' = pre @ (i, x) # post" "iterator q' = Some i"
      and I: "?I (map fst pre) (entries q') s"
    have data: "get_data q' i = Inr x" using get_data_entry [OF q'(1)] q'(2) by simp
    have e: "entries ns = pre @ (i, x) # post" using I q'(2) by simp
    then have it: "items ns = map snd pre @ x # map snd post" by (simp add: items_def)
    have "length (items s) = length pre" using I it by simp
    then have room: "length (entries s) < capacity s" using I u(3) e by (simp add: items_def)
    obtain s' j where s': "queue_buffer_push_front s (nn_addr x) = Inr (s', Some j)" "qb_wf s'"
      "entries s' = (j, nn_addr x) # entries s" "frame s s'" "length (pool s') = length (pool s)"
      using push_front_entries [of s] I room by blast
    show "returns (?body q' i s) (\<lambda>(q'', s'). qb_wf q'' \<and> capacity q'' = capacity q' \<and>
        iterator q'' = Some i \<and> map fst (entries q'') = map fst (entries ns) \<and>
        ?I (map fst pre @ [i]) (entries q'') s')"
      using data s' I q' it by (simp add: neighbor_node_addr_def items_def frame_capacity)
  qed (use ns u len in \<open>auto simp: ns_wf_def items_def\<close>)
  then show ?thesis
    using ns by (auto simp: copy_neighbors_def neighbors_ops queue_buffer_begin_def returns_def
        ns_wf_def neighbor_addrs_def items_def)
qed

lemma set_packet_law:
  assumes wf: "pb_wf pb" and i: "i < length (pool (pbuffer pb))" and x: "cell_ok x"
    and link: "bnext x = bnext (payload (pbuffer pb) ! i)"
  obtains pb' where "set_packet pb i x = Inr pb'" and "pb_wf pb'"
    and "\<forall>t < 7. pb_lane pb' t = pb_lane pb t"
    and "payload (pbuffer pb') = (payload (pbuffer pb))[i := x]"
    and "used_slots (pbuffer pb') = used_slots (pbuffer pb)"
    and "capacity (pbuffer pb') = capacity (pbuffer pb)"
proof -
  note wfD = pb_wfD [OF wf]
  obtain qb where q: "set_data (pbuffer pb) i x = Inr qb" "qb_wf qb"
    "used_slots qb = used_slots (pbuffer pb)" "payload qb = (payload (pbuffer pb))[i := x]"
    "frame (pbuffer pb) qb"
    using set_data_wf [OF wfD(1) i] .
  let ?pb = "pb\<lparr>pbuffer := qb\<rparr>"
  have lanes: "pb_lanes ?pb (pb_lane pb)"
    using wfD(2) q link by (simp add: pb_lanes_def chain_update_payload)
  have "pb_wf ?pb"
    by (rule pb_wfI [OF _ _ lanes]) (use q x wfD(4) in \<open>auto dest: set_update_subset_insert [THEN subsetD]\<close>)
  with that [of ?pb] q pb_lanes_lane [OF lanes] frame_capacity [OF q(5)] show ?thesis
    by (simp add: set_packet_def)
qed

text \<open>
  The packet a call of \<open>buffer_packet\<close> leaves in the new cell: header and data in its memory, not
  sent yet, and waiting for the neighbors of the list given (none given: the list found in the
  cell).
\<close>

definition filled :: "bytes \<Rightarrow> bytes \<Rightarrow> byte \<Rightarrow> neighbors option \<Rightarrow> buffered_packet \<Rightarrow> bool" where
  "filled hdr data data_len ns bp \<longleftrightarrow>
     take (length hdr + unat data_len) (bp_p bp) = hdr @ take (unat data_len) data \<and>
     bp_data_len bp = data_len \<and> times_sent bp = 0 \<and>
     (case ns of None \<Rightarrow> True | Some n \<Rightarrow> items (unacked_ns bp) = rev (neighbor_addrs n))"

lemma take_write_mem:
  assumes "write_mem m 0 hdr = Inr m1" and "write_mem m1 (length hdr) d = Inr m2"
  shows "take (length hdr + length d) m2 = hdr @ d"
  using assms by (auto simp: write_mem_def split: if_splits)

lemma write_two:
  assumes "length hdr + length d \<le> length m"
  obtains m1 m2 where "write_mem m 0 hdr = Inr m1" and "write_mem m1 (length hdr) d = Inr m2"
    and "length m2 = length m" and "take (length hdr + length d) m2 = hdr @ d"
proof -
  have 1: "write_mem m 0 hdr = Inr (hdr @ drop (length hdr) m)"
    using assms by (simp add: write_mem_def)
  then obtain m2 where 2: "write_mem (hdr @ drop (length hdr) m) (length hdr) d = Inr m2"
    using assms by (simp add: write_mem_def)
  from that [OF 1 2 _ take_write_mem [OF 1 2]] length_write_mem [OF 1] length_write_mem [OF 2]
  show ?thesis by simp
qed

lemma unacked_list_returns:
  assumes "cell_ok bp" and "\<forall>n. ns = Some n \<longrightarrow> ns_wf n"
  shows "returns (case ns of
                  None \<Rightarrow> Inr (bp, None)
                | Some n \<Rightarrow>
                    bindR (queue_buffer_init (pool (unacked_ns bp)) (neighbors_size n)) (\<lambda>u.
                    bindR (copy_neighbors u n) (\<lambda>(u, n). Inr (bp\<lparr>unacked_ns := u\<rparr>, Some n))))
    (\<lambda>(bp', ns'). cell_ok bp' \<and> bnext bp' = bnext bp \<and> bp_p bp' = bp_p bp \<and>
       rel_option (\<lambda>n n'. ns_wf n' \<and> entries n' = entries n) ns ns' \<and>
       (case ns of None \<Rightarrow> unacked_ns bp' = unacked_ns bp
        | Some n \<Rightarrow> items (unacked_ns bp') = rev (neighbor_addrs n)))"
proof (cases ns)
  case (Some n)
  with assms(2) have n: "ns_wf n" by simp
  have small: "unat (neighbors_size n) \<le> 8"
    using neighbors_size_eq [OF n] neighbors_size_le [OF n] by simp
  then obtain u where u: "queue_buffer_init (pool (unacked_ns bp)) (neighbors_size n) = Inr u"
    "qb_wf u" "entries u = []" "capacity u = unat (neighbors_size n)"
    "payload u = map qdata (pool (unacked_ns bp))"
    using init_entries [of "neighbors_size n" "pool (unacked_ns bp)"] assms(1)
    by (auto simp: cell_ok_def)
  from u(5) have "length (pool u) = length (pool (unacked_ns bp))" by (metis length_map length_payload)
  with copy_neighbors_returns [OF n u(2,3)] u Some assms(1) neighbors_size_eq [OF n]
  show ?thesis by (auto simp: returns_def cell_ok_def)
qed (use assms in simp)

lemma packet_at_unlinked:
  assumes "map unlinked (payload (pbuffer pb')) = map unlinked (payload (pbuffer pb))"
    and "j < length (pool (pbuffer pb))"
  shows "packet_at pb' j = packet_at pb j"
proof -
  from assms have "j < length (payload (pbuffer pb))" "j < length (payload (pbuffer pb'))"
    using map_eq_imp_length_eq [OF assms(1)] by simp_all
  with assms(1) show ?thesis unfolding packet_at_def by (metis nth_map)
qed

lemma lane_packets_update:
  assumes "pb_wf pb" and "t < 7" and "pb_lane pb' t = pb_lane pb t" and "i \<notin> set (pb_lane pb t)"
    and "payload (pbuffer pb') = (payload (pbuffer pb))[i := x]"
  shows "lane_packets pb' t = lane_packets pb t"
  using assms by (auto simp: lane_packets_def packet_at_def) (metis nth_list_update_neq)

lemma buffer_packet_returns:
  assumes wf: "pb_wf pb" and room: "length (entries (pbuffer pb)) < capacity (pbuffer pb)" and t: "t < 7"
    and ns: "\<forall>n. ns = Some n \<longrightarrow> ns_wf n"
    and fits: "length hdr + unat data_len < 32" and data: "unat data_len \<le> length data"
  shows "returns (buffer_packet pb hdr data data_len ns t) (\<lambda>(pb', ns', s). \<exists>i bp. s = Some i \<and> pb_wf pb' \<and>
      rel_option (\<lambda>n n'. ns_wf n' \<and> entries n' = entries n) ns ns' \<and>
      pb_lane pb' t = pb_lane pb t @ [i] \<and> lane_packets pb' t = lane_packets pb t @ [bp] \<and>
      (\<forall>u < 7. u \<noteq> t \<longrightarrow> pb_lane pb' u = pb_lane pb u \<and> lane_packets pb' u = lane_packets pb u) \<and>
      filled hdr data data_len ns bp \<and> (ns = None \<longrightarrow> unacked_ns bp = unacked_ns (packet_at pb i)) \<and>
      used_slots (pbuffer pb') = i # used_slots (pbuffer pb) \<and>
      capacity (pbuffer pb') = capacity (pbuffer pb))"
proof -
  obtain pb1 i where a: "allocate_buffered_packet pb t = Inr (pb1, Some i)" "pb_wf pb1"
    "pb_lane pb1 t = pb_lane pb t @ [i]" "\<forall>t' < 7. t' \<noteq> t \<longrightarrow> pb_lane pb1 t' = pb_lane pb t'"
    "map unlinked (payload (pbuffer pb1)) = map unlinked (payload (pbuffer pb))"
    "i \<notin> set (used_slots (pbuffer pb))" "used_slots (pbuffer pb1) = i # used_slots (pbuffer pb)"
    "capacity (pbuffer pb1) = capacity (pbuffer pb)" "i < length (pool (pbuffer pb1))"
    using allocate_law [OF wf room t] .
  let ?c = "payload (pbuffer pb1) ! i"
  have len: "length (pool (pbuffer pb1)) = length (pool (pbuffer pb))"
    using a(5) by (metis length_map length_payload)
  have c: "get_packet pb1 i = Inr ?c" "cell_ok ?c" using get_packet_used [OF a(2,9)] by simp_all
  obtain bp1 ns1 where u: "(case ns of
                  None \<Rightarrow> Inr (?c, None)
                | Some n \<Rightarrow>
                    bindR (queue_buffer_init (pool (unacked_ns ?c)) (neighbors_size n)) (\<lambda>u.
                    bindR (copy_neighbors u n) (\<lambda>(u, n). Inr (?c\<lparr>unacked_ns := u\<rparr>, Some n))))
      = Inr (bp1, ns1)" "cell_ok bp1" "bnext bp1 = bnext ?c" "bp_p bp1 = bp_p ?c"
    "rel_option (\<lambda>n n'. ns_wf n' \<and> entries n' = entries n) ns ns1"
    "case ns of None \<Rightarrow> unacked_ns bp1 = unacked_ns ?c
        | Some n \<Rightarrow> items (unacked_ns bp1) = rev (neighbor_addrs n)"
    using unacked_list_returns [OF c(2) ns] by (auto simp: returns_def)
  let ?d = "take (unat data_len) data"
  have "length hdr + length ?d \<le> length (bp_p bp1)"
    using fits data u(2) by (simp add: cell_ok_def PACKET_MEM_def)
  then obtain m1 m2 where m: "write_mem (bp_p bp1) 0 hdr = Inr m1"
    "write_mem m1 (length hdr) ?d = Inr m2" "length m2 = length (bp_p bp1)"
    "take (length hdr + length ?d) m2 = hdr @ ?d"
    using write_two by blast
  let ?x = "bp1\<lparr>times_sent := 0, bp_data_len := data_len, bp_p := m2\<rparr>"
  have x: "cell_ok ?x" "bnext ?x = bnext ?c" using u m by (simp_all add: cell_ok_def)
  obtain pb2 where s: "set_packet pb1 i ?x = Inr pb2" "pb_wf pb2" "\<forall>t < 7. pb_lane pb2 t = pb_lane pb1 t"
    "payload (pbuffer pb2) = (payload (pbuffer pb1))[i := ?x]"
    "used_slots (pbuffer pb2) = used_slots (pbuffer pb1)"
    "capacity (pbuffer pb2) = capacity (pbuffer pb1)"
    using set_packet_law [OF a(2,9) x] .
  have run: "buffer_packet pb hdr data data_len ns t = Inr (pb2, ns1, Some i)"
    using a(1) c(1) u(1) m(1,2) s(1) fits data
    by (simp add: buffer_packet_def read_mem_def MAX_PACKET_SIZE_def)
  have other: "packet_at pb2 j = packet_at pb j" if "j \<in> set (pb_lane pb v)" "v < 7" for j v
  proof -
    have "j \<noteq> i" using lane_slot_used [OF wf that(2,1)] a(6) by blast
    then have "packet_at pb2 j = packet_at pb1 j" by (simp add: packet_at_def s(4))
    also have "\<dots> = packet_at pb j"
      using a(5) lane_slot_bound [OF wf that(2,1)] by (rule packet_at_unlinked)
    finally show ?thesis .
  qed
  have new: "packet_at pb2 i = unlinked ?x" using a(9) by (simp add: packet_at_def s(4))
  have "lane_packets pb2 v = lane_packets pb v" if "v < 7" "v \<noteq> t" for v
    using s(3) a(4) that other by (simp add: lane_packets_def)
  moreover have "lane_packets pb2 t = lane_packets pb t @ [unlinked ?x]"
    using s(3) a(3) t other new by (simp add: lane_packets_def)
  moreover have "filled hdr data data_len ns (unlinked ?x)"
    using m(4) u(6) data by (auto simp: filled_def split: option.splits)
  moreover have "unacked_ns (unlinked ?x) = unacked_ns (packet_at pb i)" if "ns = None"
    using u(6) that a(9) len packet_at_unlinked [OF a(5), of i] by (simp add: packet_at_def)
      (metis unlinked_simps(3))
  ultimately show ?thesis using run s a u(5) t by auto
qed

lemma buffer_packet_full:
  "pb_wf pb \<Longrightarrow> length (entries (pbuffer pb)) = capacity (pbuffer pb) \<Longrightarrow>
   buffer_packet pb hdr data data_len ns t = Inl Null_Deref"
  by (simp add: buffer_packet_def allocate_buffered_full)

subsection \<open>Searching and freeing\<close>

definition all_slots :: "packet_buffer \<Rightarrow> nat list" where
  "all_slots pb = concat (map (pb_lane pb) [0..<7])"

lemma find_append: "List.find P (xs @ ys) = (case List.find P xs of None \<Rightarrow> List.find P ys | Some x \<Rightarrow> Some x)"
  by (induction xs) auto

lemma find_packet_loop_eq:
  assumes "pb_wf pb" and "\<forall>t \<in> set ts. t < 7"
  shows "find_packet_loop ts pb hit =
    Inr (List.find (\<lambda>i. hit (bp_p (packet_at pb i))) (concat (map (pb_lane pb) ts)))"
  using assms(2)
proof (induction ts)
  case (Cons t ts)
  then have w: "walk_find (length (pool (pbuffer pb))) bnext (\<lambda>_ bp. hit (bp_p bp)) (payload (pbuffer pb))
      None (prio_heads pb ! t)
    = Inr (find_prev (\<lambda>i. hit (bp_p (packet_at pb i))) None (pb_lane pb t))"
    using walk_find_eq [OF pb_wfD(5) [OF assms(1)], of t] by (simp add: packet_at_def)
  have "List.find (\<lambda>i. hit (bp_p (packet_at pb i))) (pb_lane pb t)
      = map_option snd (find_prev (\<lambda>i. hit (bp_p (packet_at pb i))) None (pb_lane pb t))"
    by (simp add: map_snd_find_prev)
  with w Cons show ?case by (simp add: find_append split: option.split prod.split)
qed simp

lemma find_buffered_packet_eq:
  "pb_wf pb \<Longrightarrow> packet_buffer_find_buffered_packet pb hit =
     Inr (List.find (\<lambda>i. hit (bp_p (packet_at pb i))) (all_slots pb))"
  by (simp add: packet_buffer_find_buffered_packet_def find_packet_loop_eq PACKET_BUFFER_MAX_TYPES_def
      all_slots_def)

lemma all_slots_iff: "i \<in> set (all_slots pb) \<longleftrightarrow> (\<exists>t < 7. i \<in> set (pb_lane pb t))"
  by (auto simp: all_slots_def)

lemma used_all_slots: "pb_wf pb \<Longrightarrow> set (used_slots (pbuffer pb)) = set (all_slots pb)"
  by (simp add: pb_wf_def pb_lanes_def all_slots_def atLeast0LessThan)

lemma find_prev_unique:
  "i \<notin> set as \<Longrightarrow> find_prev (\<lambda>j. j = i) q (as @ i # bs) = Some (if as = [] then q else Some (last as), i)"
  by (induction as arbitrary: q) auto

lemma free_slots_law:
  assumes "qb_wf qb" and "i \<in> set (used_slots qb)"
  obtains qb' where "queue_buffer_free qb i = Inr qb'" and "qb_wf qb'"
    and "used_slots qb' = filter (\<lambda>j. j \<noteq> i) (used_slots qb)" and "payload qb' = payload qb"
    and "frame qb qb'"
proof -
  from assms(2) have "i \<in> fst ` set (entries qb)" by (metis list.set_map map_fst_entries)
  from free_entries [OF assms(1) this] obtain qb' where q: "queue_buffer_free qb i = Inr qb'" "qb_wf qb'"
    "entries qb' = filter (\<lambda>e. fst e \<noteq> i) (entries qb)" "frame qb qb'" "payload qb' = payload qb" .
  have "used_slots qb' = map fst (filter (\<lambda>e. fst e \<noteq> i) (entries qb))"
    using q(3) by (metis map_fst_entries)
  also have "\<dots> = filter (\<lambda>j. j \<noteq> i) (used_slots qb)"
    by (simp add: map_fst_entries [symmetric] filter_map comp_def)
  finally show ?thesis using that q by blast
qed

text \<open>Unlinking a packet from its lane, before its cell is given back.\<close>

lemma unlink_lane:
  assumes wf: "pb_wf pb" and t: "t < 7" and lane: "pb_lane pb t = as @ i # bs"
  obtains pb' where
    "(case (if as = [] then None else Some (last as)) of
        None \<Rightarrow> Inr (pb\<lparr>prio_heads := (prio_heads pb)[t := bnext (payload (pbuffer pb) ! i)]\<rparr>)
      | Some q \<Rightarrow> bindR (set_bnext (pbuffer pb) q (bnext (payload (pbuffer pb) ! i)))
                   (\<lambda>qb. Inr (pb\<lparr>pbuffer := qb\<rparr>))) = Inr pb'"
    and "qb_wf (pbuffer pb')" and "used_slots (pbuffer pb') = used_slots (pbuffer pb)"
    and "map unlinked (payload (pbuffer pb')) = map unlinked (payload (pbuffer pb))"
    and "length (prio_heads pb') = 7" and "frame (pbuffer pb) (pbuffer pb')"
    and "\<forall>u < 7. chain bnext (payload (pbuffer pb')) (prio_heads pb' ! u)
           (if u = t then as @ bs else pb_lane pb u)"
proof -
  note wfD = pb_wfD [OF wf]
  have ch: "chain bnext (payload (pbuffer pb)) (prio_heads pb ! t) (as @ i # bs)"
    using wfD(5) [OF t] lane by simp
  let ?d = "payload (pbuffer pb) ! i"
  show ?thesis
  proof (cases "as = []")
    case True
    with that [of "pb\<lparr>prio_heads := (prio_heads pb)[t := bnext ?d]\<rparr>"] ch wfD t
    show ?thesis by (auto simp: frame_def)
  next
    case False
    then have last: "last as \<in> set as" by simp
    then have "last as \<in> set (pb_lane pb t)" using lane by simp
    then have b: "last as < length (pool (pbuffer pb))" using lane_slot_bound [OF wf t] by blast
    obtain qb where q: "set_bnext (pbuffer pb) (last as) (bnext ?d) = Inr qb" "qb_wf qb"
      "used_slots qb = used_slots (pbuffer pb)"
      "payload qb = (payload (pbuffer pb))[last as := (payload (pbuffer pb) ! last as)\<lparr>bnext := bnext ?d\<rparr>]"
      "frame (pbuffer pb) qb"
      using set_bnext_wf [OF wfD(1) b] .
    have "chain bnext (payload qb) (prio_heads pb ! t) (as @ bs)"
      unfolding q(4) by (rule chain_take_out [OF ch False]) simp
    moreover have "chain bnext (payload qb) (prio_heads pb ! u) (pb_lane pb u)" if "u < 7" "u \<noteq> t" for u
    proof -
      have "last as \<notin> set (pb_lane pb u)"
        using lane_disjoint [OF wf t that(1) \<open>last as \<in> set (pb_lane pb t)\<close>] that(2) by blast
      with wfD(5) [OF that(1)] show ?thesis by (simp add: q(4))
    qed
    ultimately show ?thesis
      using that [of "pb\<lparr>pbuffer := qb\<rparr>"] q wfD(3) False b by (simp add: map_unlinked_update)
  qed
qed

text \<open>The loop over the types passes the lanes the packet is not in.\<close>

lemma free_packet_loop_skip:
  assumes "pb_wf pb" and "\<forall>u \<in> set us. u < 7 \<and> i \<notin> set (pb_lane pb u)"
  shows "free_packet_loop (us @ ts) pb i = free_packet_loop ts pb i"
  using assms(2)
proof (induction us)
  case (Cons u us)
  then have "walk_find (length (pool (pbuffer pb))) bnext (\<lambda>s _. s = i) (payload (pbuffer pb)) None
      (prio_heads pb ! u) = Inr None"
    using walk_find_eq [OF pb_wfD(5) [OF assms(1)], of u "\<lambda>s _. s = i" None]
    by (auto simp: find_prev_None_iff)
  with Cons show ?case by simp
qed simp

lemma packet_buffer_free_returns:
  assumes wf: "pb_wf pb" and t: "t < 7" and i: "i \<in> set (pb_lane pb t)"
  shows "returns (packet_buffer_free pb i) (\<lambda>pb'. pb_wf pb' \<and>
      pb_lane pb' t = filter (\<lambda>j. j \<noteq> i) (pb_lane pb t) \<and>
      (\<forall>u < 7. u \<noteq> t \<longrightarrow> pb_lane pb' u = pb_lane pb u) \<and>
      (\<forall>j < length (pool (pbuffer pb)). packet_at pb' j = packet_at pb j) \<and>
      used_slots (pbuffer pb') = filter (\<lambda>j. j \<noteq> i) (used_slots (pbuffer pb)) \<and>
      capacity (pbuffer pb') = capacity (pbuffer pb) \<and>
      length (pool (pbuffer pb')) = length (pool (pbuffer pb)))"
proof -
  note wfD = pb_wfD [OF wf]
  from i obtain as bs where lane: "pb_lane pb t = as @ i # bs" by (auto simp: in_set_conv_decomp)
  have "distinct (as @ i # bs)" using chain_distinct [OF wfD(5) [OF t]] lane by simp
  then have ni: "i \<notin> set as" "i \<notin> set bs" by auto
  have "i < length (pool (pbuffer pb))" using lane_slot_bound [OF wf t i] .
  then have get: "get_packet pb i = Inr (payload (pbuffer pb) ! i)" using get_packet_used [OF wf] by simp
  have w: "walk_find (length (pool (pbuffer pb))) bnext (\<lambda>s _. s = i) (payload (pbuffer pb)) None
      (prio_heads pb ! t) = Inr (Some (if as = [] then None else Some (last as), i))"
    using walk_find_eq [OF wfD(5) [OF t], of "\<lambda>s _. s = i" None] find_prev_unique [OF ni(1)]
    by (simp add: lane)
  obtain pb1 where 1: "(case (if as = [] then None else Some (last as)) of
        None \<Rightarrow> Inr (pb\<lparr>prio_heads := (prio_heads pb)[t := bnext (payload (pbuffer pb) ! i)]\<rparr>)
      | Some q \<Rightarrow> bindR (set_bnext (pbuffer pb) q (bnext (payload (pbuffer pb) ! i)))
                   (\<lambda>qb. Inr (pb\<lparr>pbuffer := qb\<rparr>))) = Inr pb1"
    "qb_wf (pbuffer pb1)" "used_slots (pbuffer pb1) = used_slots (pbuffer pb)"
    "map unlinked (payload (pbuffer pb1)) = map unlinked (payload (pbuffer pb))"
    "length (prio_heads pb1) = 7" "frame (pbuffer pb) (pbuffer pb1)"
    "\<forall>u < 7. chain bnext (payload (pbuffer pb1)) (prio_heads pb1 ! u)
       (if u = t then as @ bs else pb_lane pb u)"
    using unlink_lane [OF wf t lane] .
  have "i \<in> set (used_slots (pbuffer pb1))" using lane_slot_used [OF wf t i] 1(3) by simp
  then obtain qb where q: "queue_buffer_free (pbuffer pb1) i = Inr qb" "qb_wf qb"
    "used_slots qb = filter (\<lambda>j. j \<noteq> i) (used_slots (pbuffer pb1))" "payload qb = payload (pbuffer pb1)"
    "frame (pbuffer pb1) qb"
    using free_slots_law [OF 1(2)] by blast
  let ?pb = "pb1\<lparr>pbuffer := qb\<rparr>" and ?L = "(pb_lane pb)(t := as @ bs)"
  have run: "packet_buffer_free pb i = Inr ?pb"
  proof -
    have "[0..<7] = [0..<t] @ t # [Suc t..<7]"
      using t upt_add_eq_append [of 0 t "7 - t"] upt_conv_Cons [of t 7] by simp
    then have "packet_buffer_free pb i = free_packet_loop ([0..<t] @ t # [Suc t..<7]) pb i"
      by (simp add: packet_buffer_free_def PACKET_BUFFER_MAX_TYPES_def)
    also have "\<dots> = free_packet_loop (t # [Suc t..<7]) pb i"
    proof (rule free_packet_loop_skip [OF wf])
      show "\<forall>u \<in> set [0..<t]. u < 7 \<and> i \<notin> set (pb_lane pb u)"
        using lane_disjoint [OF wf _ t _ i] t
        by (metis atLeastLessThan_iff less_irrefl order.strict_trans set_upt)
    qed
    also have "\<dots> = Inr ?pb" using w get 1(1) q(1) by (simp cong: option.case_cong)
    finally show ?thesis .
  qed
  have set_L: "set (?L u) = set (pb_lane pb u) - {i}" if "u < 7" for u
  proof (cases "u = t")
    case True
    with lane ni show ?thesis by auto
  next
    case False
    with lane_disjoint [OF wf that t _ i] show ?thesis by auto
  qed
  then have "(\<Union>u < 7. set (?L u)) = (\<Union>u < 7. set (pb_lane pb u)) - {i}" by auto
  then have un: "(\<Union>u < 7. set (?L u)) = set (used_slots qb)"
    using wfD(2) q(3) 1(3) by (auto simp: pb_lanes_def)
  have lanes: "pb_lanes ?pb ?L"
    unfolding pb_lanes_def
  proof (intro conjI allI impI)
    show "set (?L u) \<inter> set (?L u') = {}" if "u < 7" "u' < 7" "u \<noteq> u'" for u u'
      unfolding set_L [OF that(1)] set_L [OF that(2)]
      using that(3) lane_disjoint [OF wf that(1,2)] by blast
  qed (use 1(5,7) q(4) un in \<open>auto split: if_splits\<close>)
  have "\<forall>bp \<in> set (payload qb). cell_ok bp"
    by (rule cells_ok_unlinked [of _ "payload (pbuffer pb)"]) (use q(4) 1(4) wfD(4) in simp_all)
  then have "pb_wf ?pb" using pb_wfI [OF _ _ lanes] q(2) by simp
  moreover have "packet_at ?pb j = packet_at pb j" if "j < length (pool (pbuffer pb))" for j
    by (rule packet_at_unlinked) (use q(4) 1(4) that in simp_all)
  moreover have "filter (\<lambda>j. j \<noteq> i) (pb_lane pb t) = as @ bs"
    using ni by (simp add: lane) (metis (mono_tags, lifting) filter_True)
  moreover have "length (pool qb) = length (pool (pbuffer pb))"
    using q(4) 1(4) by (metis length_map length_payload)
  ultimately show ?thesis
    using run pb_lanes_lane [OF lanes] t q(3) 1(3) frame_capacity [OF q(5)] frame_capacity [OF 1(6)]
    by simp
qed

subsection \<open>Acknowledgements\<close>

lemma filter_slot_split:
  assumes "distinct (map fst (es @ (i, x) # fs))"
  shows "filter (\<lambda>e. fst e \<noteq> i) (es @ (i, x) # fs) = es @ fs"
proof -
  from assms have "i \<notin> fst ` set es" "i \<notin> fst ` set fs" by auto
  then have "\<forall>e \<in> set es. fst e \<noteq> i" "\<forall>e \<in> set fs. fst e \<noteq> i" by force+
  then show ?thesis by simp
qed

lemma acked_loop_returns:
  "qb_wf u \<Longrightarrow> entries u = es @ fs \<Longrightarrow> iterator u = head_slot fs \<Longrightarrow> addr \<notin> snd ` set es \<Longrightarrow> length fs \<le> n \<Longrightarrow>
   returns (acked_loop n u addr (head_slot fs)) (\<lambda>u'. qb_wf u' \<and> items u' = remove1 addr (items u) \<and>
     capacity u' = capacity u \<and> length (pool u') = length (pool u))"
proof (induction fs arbitrary: u es n)
  case Nil
  then have "addr \<notin> set (items u)" by (simp add: items_def)
  with Nil show ?case by (simp add: remove1_idem)
next
  case (Cons e fs)
  obtain i a where e: "e = (i, a)" by (cases e)
  from Cons.prems(5) obtain m where n: "n = Suc m" "length fs \<le> m" by (cases n) auto
  have data: "get_data u i = Inr a" using get_data_entry [OF Cons.prems(1)] Cons.prems(2) e by simp
  show ?case
  proof (cases "a = addr")
    case True
    have "i \<in> fst ` set (entries u)" using Cons.prems(2) e by force
    from free_entries [OF Cons.prems(1) this] obtain u' where u': "queue_buffer_free u i = Inr u'" "qb_wf u'"
      "entries u' = filter (\<lambda>e. fst e \<noteq> i) (entries u)" "frame u u'" "payload u' = payload u" .
    have "entries u' = es @ fs"
      using u'(3) filter_slot_split [of es i a fs] distinct_entries [OF Cons.prems(1)] Cons.prems(2) e by simp
    moreover have "addr \<notin> set (map snd es)" using Cons.prems(4) by simp
    moreover have "length (pool u') = length (pool u)" using u'(5) by (metis length_payload)
    ultimately show ?thesis
      using u' data n e True Cons.prems(2) by (simp add: items_def frame_capacity remove1_append)
  next
    case False
    have sp: "entries u = es @ (i, a) # fs" using Cons.prems(2) e by simp
    have nx: "queue_buffer_next u = Inr (u\<lparr>iterator := head_slot fs\<rparr>, head_slot fs)"
      by (rule next_entries [OF Cons.prems(1) sp]) (use Cons.prems(3) e in simp)
    have "returns (acked_loop m (u\<lparr>iterator := head_slot fs\<rparr>) addr (head_slot fs))
        (\<lambda>u'. qb_wf u' \<and> items u' = remove1 addr (items (u\<lparr>iterator := head_slot fs\<rparr>)) \<and>
           capacity u' = capacity (u\<lparr>iterator := head_slot fs\<rparr>) \<and>
           length (pool u') = length (pool (u\<lparr>iterator := head_slot fs\<rparr>)))"
      by (rule Cons.IH [of _ "es @ [(i, a)]"]) (use Cons.prems sp False n in auto)
    with nx data n e False show ?thesis by (simp add: items_def capacity_def)
  qed
qed

lemma neighbor_acked_returns:
  assumes "cell_ok bp"
  shows "returns (packet_buffer_neighbor_acked bp addr) (\<lambda>bp'. cell_ok bp' \<and>
      items (unacked_ns bp') = remove1 addr (items (unacked_ns bp)) \<and>
      bnext bp' = bnext bp \<and> times_sent bp' = times_sent bp \<and> bp_data_len bp' = bp_data_len bp \<and>
      bp_p bp' = bp_p bp)"
proof -
  let ?u = "unacked_ns bp"
  have wf: "qb_wf ?u" using assms by (simp add: cell_ok_def)
  have len: "length (entries ?u) \<le> length (pool ?u)"
    using wf by (metis entries_def length_map qb_wfE qb_lists_def chain_length)
  have "returns (acked_loop (length (pool ?u)) (?u\<lparr>iterator := head_slot (entries ?u)\<rparr>) addr
      (head_slot (entries ?u)))
    (\<lambda>u'. qb_wf u' \<and> items u' = remove1 addr (items (?u\<lparr>iterator := head_slot (entries ?u)\<rparr>)) \<and>
       capacity u' = capacity (?u\<lparr>iterator := head_slot (entries ?u)\<rparr>) \<and>
       length (pool u') = length (pool (?u\<lparr>iterator := head_slot (entries ?u)\<rparr>)))"
    by (rule acked_loop_returns [of _ "[]"]) (use wf len in simp_all)
  then show ?thesis
    using assms by (auto simp: packet_buffer_neighbor_acked_def begin_entries [OF wf] returns_def
        cell_ok_def items_def)
qed

lemma all_acked_iff: "cell_ok bp \<Longrightarrow> packet_buffer_all_neighbors_acked bp \<longleftrightarrow> items (unacked_ns bp) = []"
  using length_items [of "unacked_ns bp"]
  by (auto simp: packet_buffer_all_neighbors_acked_def queue_buffer_size_def cell_ok_def unat_eq_zero)

lemma num_unacked_eq:
  "cell_ok bp \<Longrightarrow> unat (packet_buffer_num_unacked_neighbors bp) = length (items (unacked_ns bp))"
  by (simp add: packet_buffer_num_unacked_neighbors_def queue_buffer_size_def cell_ok_def length_items)

lemma has_room_iff:
  "pb_wf pb \<Longrightarrow> packet_buffer_has_room_for_packets pb n \<longleftrightarrow> unat n \<le> pb_free_cells pb"
  using length_entries_le [of "pbuffer pb"]
  by (auto simp: packet_buffer_has_room_for_packets_def queue_buffer_size_def queue_buffer_max_size_def
      pb_free_cells_def pb_wfD length_entries capacity_def)

end
