(* ===== verification/Connection.thy ===== *)
theory Connection
  imports Packet_Buffer Timesynch
begin

text \<open>
  The state of the emergency connection (\<open>struct ec\<close> of \<open>emergency_net/emergency_conn.h\<close>) with what
  its functions use around it: the node's address, the neighbor table that the connection points
  to, the timesynch globals, the packet buffer of Rime that frames are built in, the callback
  timers, and the random numbers. The record is extensible: the sensor node's own globals extend
  it, so that a callback of the client is a function on the same state.

  Outside the repository's own code are the radio, the mesh layer and the random numbers. What
  \<open>abc_send\<close> and \<open>mesh_send\<close> answer is an argument of the sending functions; frames handed over are
  recorded in \<open>ec_sent\<close>; the random numbers are a stream that is part of the state.
\<close>

datatype ec_conn = Neighbor_Conn | Timesynch_Conn | Broadcast_Conn | Meshdata_Conn

datatype ec_timer = Neighbor_Ack_Timer | Neighbor_Data_Timer | Broadcast_Data_Timer
  | Multicast_Unicast_Data_Timer | Multicast_Unicast_Ack_Timer | Timesynch_Data_Timer
  | Mesh_Data_Timer | Ts_Timer

definition SENDING_QUEUE_LENGTH :: nat where "SENDING_QUEUE_LENGTH = 12"
definition DUPE_QUEUE_LENGTH :: nat where "DUPE_QUEUE_LENGTH = 24"
definition PACKETBUF_SIZE :: nat where "PACKETBUF_SIZE = 128"

record ec =
  ec_node_addr :: rimeaddr
  ec_sync :: timesynch
  ec_channels :: "ec_conn \<Rightarrow> u16 option"
  ec_timers :: "ec_timer \<Rightarrow> u16 option"
  ec_sq :: packet_buffer
  ec_dq :: "slim_packet queue_buffer"
  ec_ns :: neighbors
  ec_ns_set :: bool
  ec_ts_seqno :: byte
  ec_ts_is_on :: bool
  ec_rands :: "nat \<Rightarrow> u16"
  ec_rand_pos :: nat
  ec_packetbuf :: bytes
  ec_datalen :: nat
  ec_sent :: "(ec_conn \<times> rimeaddr option \<times> bytes) list"

text \<open>The message types, which are the lanes of the sending queue.\<close>

definition MSG_TYPE_NEIGHBOR_ACK :: nat where "MSG_TYPE_NEIGHBOR_ACK = 0"
definition MSG_TYPE_NEIGHBOR_DATA :: nat where "MSG_TYPE_NEIGHBOR_DATA = 1"
definition MSG_TYPE_BROADCAST_DATA :: nat where "MSG_TYPE_BROADCAST_DATA = 2"
definition MSG_TYPE_MULTICAST_UNICAST_ACK :: nat where "MSG_TYPE_MULTICAST_UNICAST_ACK = 3"
definition MSG_TYPE_MULTICAST_UNICAST_DATA :: nat where "MSG_TYPE_MULTICAST_UNICAST_DATA = 4"
definition MSG_TYPE_TIMESYNCH_DATA :: nat where "MSG_TYPE_TIMESYNCH_DATA = 5"
definition MSG_TYPE_MESH_DATA :: nat where "MSG_TYPE_MESH_DATA = 6"

lemmas msg_type_defs = MSG_TYPE_NEIGHBOR_ACK_def MSG_TYPE_NEIGHBOR_DATA_def MSG_TYPE_BROADCAST_DATA_def
  MSG_TYPE_MULTICAST_UNICAST_ACK_def MSG_TYPE_MULTICAST_UNICAST_DATA_def MSG_TYPE_TIMESYNCH_DATA_def
  MSG_TYPE_MESH_DATA_def

text \<open>The timing constants, in clock ticks (\<open>CLOCK_SECOND\<close> is 128 on the node's platform).\<close>

definition CLOCK_SECOND :: u16 where "CLOCK_SECOND = 128"
definition MAX_TIMES_SENT :: byte where "MAX_TIMES_SENT = 5"
definition MAX_TIMES_SENT_MESH :: byte where "MAX_TIMES_SENT_MESH = 10"
definition RETRANSMIT_NEIGHBOR_DATA :: u16 where "RETRANSMIT_NEIGHBOR_DATA = 6 * CLOCK_SECOND"
definition RETRANSMIT_MULTICAST_UNICAST_DATA :: u16 where
  "RETRANSMIT_MULTICAST_UNICAST_DATA = 6 * CLOCK_SECOND"
definition TIMESYNCH_LEADER_UPDATE :: u16 where "TIMESYNCH_LEADER_UPDATE = 30 * CLOCK_SECOND"
definition TIMESYNCH_LEADER_TIMEOUT :: u16 where "TIMESYNCH_LEADER_TIMEOUT = 60 * CLOCK_SECOND"

subsection \<open>Timers and random numbers\<close>

definition random_rand :: "'a ec_scheme \<Rightarrow> 'a ec_scheme \<times> u16" where
  "random_rand c = (c\<lparr>ec_rand_pos := ec_rand_pos c + 1\<rparr>, ec_rands c (ec_rand_pos c))"

definition FAST_TRANSMIT :: "'a ec_scheme \<Rightarrow> 'a ec_scheme \<times> u16" where
  "FAST_TRANSMIT c = (case random_rand c of (c, r) \<Rightarrow> (c, CLOCK_SECOND + r mod (2 * CLOCK_SECOND)))"

definition FAST_TRANSMIT_ACK :: "'a ec_scheme \<Rightarrow> 'a ec_scheme \<times> u16" where
  "FAST_TRANSMIT_ACK c = (case random_rand c of (c, r) \<Rightarrow> (c, r mod CLOCK_SECOND))"

definition MESH_TRANSMIT :: "'a ec_scheme \<Rightarrow> 'a ec_scheme \<times> u16" where
  "MESH_TRANSMIT c = (case random_rand c of (c, r) \<Rightarrow> (c, CLOCK_SECOND + r mod (5 * CLOCK_SECOND)))"

definition ctimer_set :: "ec_timer \<Rightarrow> u16 \<Rightarrow> 'a ec_scheme \<Rightarrow> 'a ec_scheme" where
  "ctimer_set t d c = c\<lparr>ec_timers := (ec_timers c)(t := Some d)\<rparr>"

definition ctimer_stop :: "ec_timer \<Rightarrow> 'a ec_scheme \<Rightarrow> 'a ec_scheme" where
  "ctimer_stop t c = c\<lparr>ec_timers := (ec_timers c)(t := None)\<rparr>"

definition ctimer_expired :: "ec_timer \<Rightarrow> 'a ec_scheme \<Rightarrow> bool" where
  "ctimer_expired t c \<longleftrightarrow> ec_timers c t = None"

definition set_timer_rand :: "('a ec_scheme \<Rightarrow> 'a ec_scheme \<times> u16) \<Rightarrow> ec_timer \<Rightarrow> 'a ec_scheme \<Rightarrow> 'a ec_scheme" where
  "set_timer_rand delay t c = (case delay c of (c, d) \<Rightarrow> ctimer_set t d c)"

subsection \<open>Building a frame\<close>

definition packetbuf_clear :: "'a ec_scheme \<Rightarrow> 'a ec_scheme" where
  "packetbuf_clear c = c\<lparr>ec_datalen := 0\<rparr>"

definition packetbuf_set_datalen :: "nat \<Rightarrow> 'a ec_scheme \<Rightarrow> 'a ec_scheme" where
  "packetbuf_set_datalen n c = c\<lparr>ec_datalen := n mod 65536\<rparr>"

definition packetbuf_write :: "nat \<Rightarrow> bytes \<Rightarrow> 'a ec_scheme \<Rightarrow> 'a ec_scheme result" where
  "packetbuf_write off src c =
     bindR (write_mem (ec_packetbuf c) off src) (\<lambda>m. Inr (c\<lparr>ec_packetbuf := m\<rparr>))"

definition abc_send :: "ec_conn \<Rightarrow> 'a ec_scheme \<Rightarrow> 'a ec_scheme" where
  "abc_send conn c = c\<lparr>ec_sent := ec_sent c @ [(conn, None, take (ec_datalen c) (ec_packetbuf c))]\<rparr>"

definition mesh_send :: "rimeaddr \<Rightarrow> 'a ec_scheme \<Rightarrow> 'a ec_scheme" where
  "mesh_send to c =
     c\<lparr>ec_sent := ec_sent c @ [(Meshdata_Conn, Some to, take (ec_datalen c) (ec_packetbuf c))]\<rparr>"

subsection \<open>The sending queue\<close>

definition first_of :: "nat \<Rightarrow> 'a ec_scheme \<Rightarrow> nat option" where
  "first_of type c = packet_buffer_get_first_packet_from_type (ec_sq c) type"

definition sq_free :: "nat \<Rightarrow> 'a ec_scheme \<Rightarrow> 'a ec_scheme result" where
  "sq_free i c = bindR (packet_buffer_free (ec_sq c) i) (\<lambda>pb. Inr (c\<lparr>ec_sq := pb\<rparr>))"

definition sq_set :: "nat \<Rightarrow> buffered_packet \<Rightarrow> 'a ec_scheme \<Rightarrow> 'a ec_scheme result" where
  "sq_set i bp c = bindR (set_packet (ec_sq c) i bp) (\<lambda>pb. Inr (c\<lparr>ec_sq := pb\<rparr>))"

definition sq_broadcast :: "broadcast_packet \<Rightarrow> bytes \<Rightarrow> byte \<Rightarrow> neighbors option \<Rightarrow> nat
    \<Rightarrow> 'a ec_scheme \<Rightarrow> ('a ec_scheme \<times> neighbors option) result" where
  "sq_broadcast bp data data_len receivers type c =
     bindR (packet_buffer_broadcast_packet (ec_sq c) bp data data_len receivers type)
       (\<lambda>(pb, ns, _). Inr (c\<lparr>ec_sq := pb\<rparr>, ns))"

definition sq_unicast :: "unicast_packet \<Rightarrow> bytes \<Rightarrow> byte \<Rightarrow> nat \<Rightarrow> 'a ec_scheme \<Rightarrow> 'a ec_scheme result" where
  "sq_unicast up data data_len type c =
     bindR (packet_buffer_unicast_packet (ec_sq c) up data data_len None type)
       (\<lambda>(pb, _, _). Inr (c\<lparr>ec_sq := pb\<rparr>))"

text \<open>The pointer \<open>c->ns\<close>, and a call that passes it on to the sending queue.\<close>

definition conn_ns :: "'a ec_scheme \<Rightarrow> neighbors option" where
  "conn_ns c = (if ec_ns_set c then Some (ec_ns c) else None)"

definition sq_broadcast_ns :: "broadcast_packet \<Rightarrow> bytes \<Rightarrow> byte \<Rightarrow> nat \<Rightarrow> 'a ec_scheme \<Rightarrow> 'a ec_scheme result" where
  "sq_broadcast_ns bp data data_len type c =
     bindR (sq_broadcast bp data data_len (conn_ns c) type c) (\<lambda>(c, ns).
     Inr (case ns of None \<Rightarrow> c | Some n \<Rightarrow> c\<lparr>ec_ns := n\<rparr>))"

text \<open>The neighbors the packet of a cell still waits for, visited as the code visits them.\<close>

fun walk_unacked :: "nat \<Rightarrow> buffered_packet \<Rightarrow> nat option \<Rightarrow> buffered_packet result" where
  "walk_unacked fuel bp None = Inr bp"
| "walk_unacked 0 bp (Some i) = Inl Diverge"
| "walk_unacked (Suc fuel) bp (Some i) =
     bindR (get_data (unacked_ns bp) i) (\<lambda>_.
     bindR (packet_buffer_unacked_neighbors_next bp) (\<lambda>(bp, i). walk_unacked fuel bp i))"

fun copy_unacked :: "nat \<Rightarrow> buffered_packet \<Rightarrow> nat option \<Rightarrow> nat \<Rightarrow> 'a ec_scheme
    \<Rightarrow> (buffered_packet \<times> nat \<times> 'a ec_scheme) result" where
  "copy_unacked fuel bp None off c = Inr (bp, off, c)"
| "copy_unacked 0 bp (Some i) off c = Inl Diverge"
| "copy_unacked (Suc fuel) bp (Some i) off c =
     bindR (get_data (unacked_ns bp) i) (\<lambda>a.
     bindR (packetbuf_write off (addr_bytes a) c) (\<lambda>c.
     bindR (packet_buffer_unacked_neighbors_next bp) (\<lambda>(bp, i).
     copy_unacked fuel bp i (off + 2) c)))"

definition unacked_fuel :: "buffered_packet \<Rightarrow> nat" where
  "unacked_fuel bp = length (pool (unacked_ns bp))"

end
