(* ===== verification/Connection_Laws.thy ===== *)
theory Connection_Laws
  imports Connection
begin

text \<open>
  Well-formed connections: the sending queue and what its lanes hold, the duplicate history, the
  neighbor table, the clock and the frame buffer; and which timer serves which lane.
\<close>

subsection \<open>Well-formed connections\<close>

text \<open>The kind of packet that a lane carries: the flags in its header.\<close>

definition lane_flags :: "nat \<Rightarrow> byte" where
  "lane_flags t = [UNICAST OR ACK, BROADCAST, BROADCAST, UNICAST OR ACK, BROADCAST, BROADCAST OR TIMESYNCH,
     UNICAST] ! t"

lemma lane_flags_eq:
  "lane_flags MSG_TYPE_NEIGHBOR_ACK = UNICAST OR ACK" "lane_flags MSG_TYPE_NEIGHBOR_DATA = BROADCAST"
  "lane_flags MSG_TYPE_BROADCAST_DATA = BROADCAST" "lane_flags MSG_TYPE_MULTICAST_UNICAST_ACK = UNICAST OR ACK"
  "lane_flags MSG_TYPE_MULTICAST_UNICAST_DATA = BROADCAST"
  "lane_flags MSG_TYPE_TIMESYNCH_DATA = BROADCAST OR TIMESYNCH" "lane_flags MSG_TYPE_MESH_DATA = UNICAST"
  by (simp_all add: lane_flags_def msg_type_defs)

text \<open>What every packet of a lane satisfies.\<close>

definition lane_ok :: "nat \<Rightarrow> buffered_packet \<Rightarrow> bool" where
  "lane_ok t bp \<longleftrightarrow> unat (bp_data_len bp) \<le> 24 \<and>
     hdr_flags (header_of (bp_p bp)) = lane_flags t \<and>
     (t \<in> {MSG_TYPE_NEIGHBOR_DATA, MSG_TYPE_MULTICAST_UNICAST_DATA} \<longrightarrow> items (unacked_ns bp) \<noteq> [])"

definition sq_wf :: "packet_buffer \<Rightarrow> bool" where
  "sq_wf pb \<longleftrightarrow> pb_wf pb \<and> capacity (pbuffer pb) = SENDING_QUEUE_LENGTH \<and>
     (\<forall>t < 7. \<forall>i \<in> set (pb_lane pb t). lane_ok t (packet_at pb i))"

definition ec_wf :: "'a ec_scheme \<Rightarrow> bool" where
  "ec_wf c \<longleftrightarrow> sq_wf (ec_sq c) \<and> qb_wf (ec_dq c) \<and> capacity (ec_dq c) = DUPE_QUEUE_LENGTH \<and>
     ns_wf (ec_ns c) \<and> sync_wf (ec_sync c) \<and> length (ec_packetbuf c) = PACKETBUF_SIZE"

text \<open>The timer that serves a lane; mesh data waits for the mesh layer instead.\<close>

definition lane_timer :: "nat \<Rightarrow> ec_timer option" where
  "lane_timer t = [Some Neighbor_Ack_Timer, Some Neighbor_Data_Timer, Some Broadcast_Data_Timer,
     Some Multicast_Unicast_Ack_Timer, Some Multicast_Unicast_Data_Timer, Some Timesynch_Data_Timer,
     None] ! t"

definition lane_armed :: "'a ec_scheme \<Rightarrow> nat \<Rightarrow> bool" where
  "lane_armed c t \<longleftrightarrow> (pb_lane (ec_sq c) t \<noteq> [] \<longrightarrow>
     (case lane_timer t of None \<Rightarrow> True | Some tm \<Rightarrow> ec_timers c tm \<noteq> None))"

definition all_armed :: "'a ec_scheme \<Rightarrow> bool" where
  "all_armed c \<longleftrightarrow> (\<forall>t < 7. lane_armed c t)"

lemma ec_wfD:
  assumes "ec_wf c"
  shows "sq_wf (ec_sq c)" "qb_wf (ec_dq c)" "capacity (ec_dq c) = 24" "ns_wf (ec_ns c)"
    "sync_wf (ec_sync c)" "length (ec_packetbuf c) = 128"
  using assms by (simp_all add: ec_wf_def DUPE_QUEUE_LENGTH_def PACKETBUF_SIZE_def)

lemma ec_wf_frame [simp]:
  "ec_wf (c\<lparr>ec_datalen := n\<rparr>) = ec_wf c" "ec_wf (c\<lparr>ec_timers := tm\<rparr>) = ec_wf c"
  "ec_wf (c\<lparr>ec_rand_pos := k\<rparr>) = ec_wf c" "ec_wf (c\<lparr>ec_sent := fs\<rparr>) = ec_wf c"
  "ec_wf (c\<lparr>ec_ts_seqno := s\<rparr>) = ec_wf c" "ec_wf (c\<lparr>ec_ts_is_on := b\<rparr>) = ec_wf c"
  "ec_wf (c\<lparr>ec_ns_set := b\<rparr>) = ec_wf c" "ec_wf (c\<lparr>ec_channels := ch\<rparr>) = ec_wf c"
  "ec_wf (c\<lparr>ec_node_addr := a\<rparr>) = ec_wf c"
  by (simp_all add: ec_wf_def)

lemma sq_wfD: "sq_wf pb \<Longrightarrow> pb_wf pb" "sq_wf pb \<Longrightarrow> capacity (pbuffer pb) = 12"
  "sq_wf pb \<Longrightarrow> t < 7 \<Longrightarrow> i \<in> set (pb_lane pb t) \<Longrightarrow> lane_ok t (packet_at pb i)"
  by (simp_all add: sq_wf_def SENDING_QUEUE_LENGTH_def)

lemma sq_cell:
  assumes "sq_wf pb" and "t < 7" and "i \<in> set (pb_lane pb t)"
  obtains bp where "get_packet pb i = Inr bp" and "cell_ok bp" and "unlinked bp = packet_at pb i"
    and "lane_ok t bp" and "bp = payload (pbuffer pb) ! i"
proof -
  have "i < length (pool (pbuffer pb))" using lane_slot_bound [OF sq_wfD(1) [OF assms(1)] assms(2,3)] .
  from get_packet_used [OF sq_wfD(1) [OF assms(1)] this] sq_wfD(3) [OF assms] that show ?thesis
    by (simp add: packet_at_def lane_ok_def)
qed

lemma first_head:
  assumes "sq_wf (ec_sq c)" and "t < 7"
  shows "first_of t c = (case pb_lane (ec_sq c) t of [] \<Rightarrow> None | i # _ \<Rightarrow> Some i)"
  using pb_wfD(5) [OF sq_wfD(1) [OF assms(1)] assms(2)]
  by (cases "pb_lane (ec_sq c) t")
    (auto simp: first_of_def packet_buffer_get_first_packet_from_type_def)

lemma first_in: "sq_wf (ec_sq c) \<Longrightarrow> t < 7 \<Longrightarrow> first_of t c = Some i \<Longrightarrow> i \<in> set (pb_lane (ec_sq c) t)"
  by (auto simp: first_head split: list.splits)

lemma first_none: "sq_wf (ec_sq c) \<Longrightarrow> t < 7 \<Longrightarrow> first_of t c = None \<longleftrightarrow> pb_lane (ec_sq c) t = []"
  by (auto simp: first_head split: list.splits)

text \<open>Writing a queued packet back, and freeing one.\<close>

lemma set_packet_wf:
  assumes wf: "sq_wf pb" and t: "t < 7" and i: "i \<in> set (pb_lane pb t)"
    and bp: "cell_ok bp" "lane_ok t bp" "bnext bp = bnext (payload (pbuffer pb) ! i)"
  obtains pb' where "set_packet pb i bp = Inr pb'" and "sq_wf pb'"
    and "\<forall>u < 7. pb_lane pb' u = pb_lane pb u" and "packet_at pb' i = unlinked bp"
    and "\<forall>j. j \<noteq> i \<longrightarrow> packet_at pb' j = packet_at pb j"
    and "bnext (payload (pbuffer pb') ! i) = bnext bp"
    and "length (entries (pbuffer pb')) = length (entries (pbuffer pb))"
    and "length (pool (pbuffer pb')) = length (pool (pbuffer pb))"
proof -
  note pw = sq_wfD(1) [OF wf]
  have il: "i < length (pool (pbuffer pb))" using lane_slot_bound [OF pw t i] .
  obtain pb' where p: "set_packet pb i bp = Inr pb'" "pb_wf pb'" "\<forall>t < 7. pb_lane pb' t = pb_lane pb t"
    "payload (pbuffer pb') = (payload (pbuffer pb))[i := bp]"
    "used_slots (pbuffer pb') = used_slots (pbuffer pb)"
    "capacity (pbuffer pb') = capacity (pbuffer pb)"
    using set_packet_law [OF pw il bp(1,3)] .
  have at: "packet_at pb' i = unlinked bp" "\<forall>j. j \<noteq> i \<longrightarrow> packet_at pb' j = packet_at pb j"
    using p(4) il by (auto simp: packet_at_def)
  have "lane_ok u (packet_at pb' j)" if u: "u < 7" and j: "j \<in> set (pb_lane pb' u)" for u j
  proof (cases "j = i")
    case True
    with p(3) u j have "i \<in> set (pb_lane pb u)" by simp
    with lane_disjoint [OF pw t u i] have "u = t" by simp
    with bp(2) at True show ?thesis by (simp add: lane_ok_def)
  next
    case False
    with at sq_wfD(3) [OF wf u] p(3) u j show ?thesis by simp
  qed
  then have "sq_wf pb'" using p wf by (simp add: sq_wf_def)
  moreover have "length (entries (pbuffer pb')) = length (entries (pbuffer pb))"
    using p(5) by (metis length_map map_fst_entries)
  moreover have "length (pool (pbuffer pb')) = length (pool (pbuffer pb))"
    using p(4) by (metis length_list_update length_payload)
  ultimately show ?thesis using that p at il by simp
qed

lemma free_packet_wf:
  assumes wf: "sq_wf pb" and t: "t < 7" and i: "i \<in> set (pb_lane pb t)"
  obtains pb' where "packet_buffer_free pb i = Inr pb'" and "sq_wf pb'"
    and "pb_lane pb' t = filter (\<lambda>j. j \<noteq> i) (pb_lane pb t)"
    and "\<forall>u < 7. u \<noteq> t \<longrightarrow> pb_lane pb' u = pb_lane pb u"
    and "\<forall>j < length (pool (pbuffer pb)). packet_at pb' j = packet_at pb j"
    and "length (entries (pbuffer pb')) < length (entries (pbuffer pb))"
    and "length (pool (pbuffer pb')) = length (pool (pbuffer pb))"
proof -
  note pw = sq_wfD(1) [OF wf]
  from packet_buffer_free_returns [OF pw t i] obtain pb' where
    p: "packet_buffer_free pb i = Inr pb'" "pb_wf pb'"
      "pb_lane pb' t = filter (\<lambda>j. j \<noteq> i) (pb_lane pb t)"
      "\<forall>u < 7. u \<noteq> t \<longrightarrow> pb_lane pb' u = pb_lane pb u"
      "\<forall>j < length (pool (pbuffer pb)). packet_at pb' j = packet_at pb j"
      "used_slots (pbuffer pb') = filter (\<lambda>j. j \<noteq> i) (used_slots (pbuffer pb))"
      "capacity (pbuffer pb') = capacity (pbuffer pb)"
      "length (pool (pbuffer pb')) = length (pool (pbuffer pb))"
    by (auto simp: returns_def)
  have "lane_ok u (packet_at pb' j)" if u: "u < 7" and j: "j \<in> set (pb_lane pb' u)" for u j
  proof -
    from j p(3,4) u have "j \<in> set (pb_lane pb u)" by (cases "u = t") auto
    with p(5) sq_wfD(3) [OF wf u] lane_slot_bound [OF pw u] show ?thesis by simp
  qed
  then have "sq_wf pb'" using p wf by (simp add: sq_wf_def)
  moreover have "length (entries (pbuffer pb')) < length (entries (pbuffer pb))"
  proof -
    have "i \<in> set (used_slots (pbuffer pb))" using lane_slot_used [OF pw t i] .
    then have "length (filter (\<lambda>j. j \<noteq> i) (used_slots (pbuffer pb))) < length (used_slots (pbuffer pb))"
      by (intro length_filter_less) auto
    with p(6) show ?thesis by (metis length_map map_fst_entries)
  qed
  ultimately show ?thesis using that p by blast
qed

end
