(* ===== verification/Emergency_Send.thy ===== *)
theory Emergency_Send
  imports Connection_Laws
begin

text \<open>
  The timer callbacks of \<open>emergency_net/emergency_conn.c\<close> that send the first packet of a lane, and
  what they keep: they never fault on a connection whose queued packets are well formed, they
  leave it well formed, and they re-arm the lane's timer as long as the lane is not empty.
  The argument \<open>ok\<close> is what \<open>abc_send\<close> (or \<open>mesh_send\<close>) returns.
\<close>

subsection \<open>The frames for the neighbors that have not acknowledged\<close>

text \<open>
  The blocks ``make multicast'' and ``make unicast'' of \<open>send_neighbor_data\<close> and of
  \<open>send_multicast_unicast_data\<close>. \<open>pm\<close> is the memory \<open>p\<close> points to, \<open>i\<close> the cell of \<open>bp\<close>.
\<close>

definition make_multicast :: "bytes \<Rightarrow> nat \<Rightarrow> buffered_packet \<Rightarrow> byte \<Rightarrow> 'a ec_scheme \<Rightarrow> 'a ec_scheme result" where
  "make_multicast pm i bp nsize c =
     (case packet_buffer_unacked_neighbors_begin bp of (bp, addr) \<Rightarrow>
      let h = header_of pm;
          c = packetbuf_set_datalen
                (MULTICAST_PACKET_HDR_SIZE + unat nsize * 2 + unat (packet_buffer_data_len bp)) c;
          mp = init_multicast_packet 0 (hdr_hops h) (hdr_originator h) (hdr_sender h) (hdr_seqno h) nsize
      in bindR (packetbuf_write 0 (multicast_bytes mp) c) (\<lambda>c.
         bindR (copy_unacked (unacked_fuel bp) bp addr MULTICAST_PACKET_HDR_SIZE c) (\<lambda>(bp, off, c).
         bindR (read_mem pm PACKET_HDR_SIZE (unat (packet_buffer_data_len bp))) (\<lambda>d.
         bindR (packetbuf_write off d c) (\<lambda>c. sq_set i bp c)))))"

definition make_unicast :: "bytes \<Rightarrow> nat \<Rightarrow> buffered_packet \<Rightarrow> 'a ec_scheme \<Rightarrow> 'a ec_scheme result" where
  "make_unicast pm i bp c =
     (case packet_buffer_unacked_neighbors_begin bp of (bp, addr) \<Rightarrow>
      (case addr of None \<Rightarrow> Inl Assert_Failed
      | Some a \<Rightarrow>
         let h = header_of pm;
             c = packetbuf_set_datalen (UNICAST_PACKET_HDR_SIZE + unat (packet_buffer_data_len bp)) c
         in bindR (get_data (unacked_ns bp) a) (\<lambda>dest.
            let up = init_unicast_packet 0 (hdr_hops h) (hdr_originator h) (hdr_sender h) (hdr_seqno h) dest
            in bindR (packetbuf_write 0 (unicast_bytes up) c) (\<lambda>c.
               bindR (read_mem pm PACKET_HDR_SIZE (unat (packet_buffer_data_len bp))) (\<lambda>d.
               bindR (packetbuf_write UNICAST_PACKET_HDR_SIZE d c) (\<lambda>c. sq_set i bp c))))))"

definition make_targeted :: "bytes \<Rightarrow> nat \<Rightarrow> buffered_packet \<Rightarrow> 'a ec_scheme \<Rightarrow> 'a ec_scheme result" where
  "make_targeted pm i bp c =
     (let nsize = packet_buffer_num_unacked_neighbors bp in
      bindR (assertR (nsize \<noteq> 0)) (\<lambda>_.
      if nsize > 1 then make_multicast pm i bp nsize c else make_unicast pm i bp c))"

subsection \<open>send_neighbor_data\<close>

text \<open>
  The loop that drops packets that were sent too often. It visits the neighbors that did not
  answer, for the log. \<open>None\<close>: no packet is left.
\<close>

fun drop_neighbor_loop :: "nat \<Rightarrow> 'a ec_scheme \<Rightarrow> nat \<Rightarrow> ('a ec_scheme \<times> nat option) result" where
  "drop_neighbor_loop 0 c i = Inl Diverge"
| "drop_neighbor_loop (Suc fuel) c i =
     bindR (get_packet (ec_sq c) i) (\<lambda>bp.
     if packet_buffer_times_sent bp \<ge> MAX_TIMES_SENT_MESH
     then
       (case packet_buffer_unacked_neighbors_begin bp of (bp, neighbor) \<Rightarrow>
        bindR (walk_unacked (unacked_fuel bp) bp neighbor) (\<lambda>bp.
        bindR (sq_set i bp c) (\<lambda>c.
        bindR (sq_free i c) (\<lambda>c.
        case first_of MSG_TYPE_NEIGHBOR_DATA c of
          None \<Rightarrow> Inr (c, None)
        | Some i \<Rightarrow> drop_neighbor_loop fuel c i))))
     else Inr (c, Some i))"

definition sq_fuel :: "'a ec_scheme \<Rightarrow> nat" where
  "sq_fuel c = Suc (length (pool (pbuffer (ec_sq c))))"

text \<open>The block of \<open>send_neighbor_data\<close> that fills the frame buffer.\<close>

definition make_neighbor_frame :: "bytes \<Rightarrow> nat \<Rightarrow> buffered_packet \<Rightarrow> 'a ec_scheme \<Rightarrow> 'a ec_scheme result" where
  "make_neighbor_frame pm i bp c =
     (if IS_PACKET_FLAG_SET (header_of pm) BROADCAST
      then
        if packet_buffer_times_sent bp > 0 then make_targeted pm i bp c
        else
          (let len = of_nat BROADCAST_PACKET_HDR_SIZE + packet_buffer_data_len bp;
               c = packetbuf_set_datalen (unat len) c
           in bindR (read_mem pm 0 (unat len)) (\<lambda>d. packetbuf_write 0 d c))
      else Inl Assert_Failed)"

text \<open>
  \<open>p\<close> is taken from the first packet before the loop, and stays what it was when the loop drops
  that packet: it then points into the freed cell.
\<close>

definition send_neighbor_data :: "bool \<Rightarrow> 'a ec_scheme \<Rightarrow> 'a ec_scheme result" where
  "send_neighbor_data ok c =
     (case first_of MSG_TYPE_NEIGHBOR_DATA c of
        None \<Rightarrow> Inr c
      | Some p \<Rightarrow>
          bindR (drop_neighbor_loop (sq_fuel c) c p) (\<lambda>(c, r).
          case r of
            None \<Rightarrow> Inr c
          | Some i \<Rightarrow>
              bindR (get_packet (ec_sq c) p) (\<lambda>pcell.
              bindR (get_packet (ec_sq c) i) (\<lambda>bp.
              bindR (make_neighbor_frame (bp_p pcell) i bp (packetbuf_clear c)) (\<lambda>c.
              let c = abc_send Neighbor_Conn c in
              if \<not> ok then Inr (set_timer_rand FAST_TRANSMIT Neighbor_Data_Timer c)
              else bindR (get_packet (ec_sq c) i) (\<lambda>bp.
                   bindR (sq_set i (packet_buffer_increment_times_sent bp) c) (\<lambda>c.
                   Inr (ctimer_set Neighbor_Data_Timer RETRANSMIT_NEIGHBOR_DATA c))))))))"

subsection \<open>Packets that are sent once\<close>

text \<open>
  What follows \<open>abc_send\<close> in the four functions that send a packet and forget it: on a collision
  the timer is set again; otherwise the packet is freed, and the timer set if another one waits.
\<close>

definition finish_once :: "bool \<Rightarrow> nat \<Rightarrow> ec_timer \<Rightarrow> ('a ec_scheme \<Rightarrow> 'a ec_scheme \<times> u16) \<Rightarrow> nat
    \<Rightarrow> 'a ec_scheme \<Rightarrow> 'a ec_scheme result" where
  "finish_once ok type timer delay i c =
     (if \<not> ok then Inr (set_timer_rand delay timer c)
      else bindR (sq_free i c) (\<lambda>c.
           case first_of type c of
             None \<Rightarrow> Inr c
           | Some _ \<Rightarrow> Inr (set_timer_rand delay timer c)))"

definition send_neighbor_ack :: "bool \<Rightarrow> 'a ec_scheme \<Rightarrow> 'a ec_scheme result" where
  "send_neighbor_ack ok c =
     (case first_of MSG_TYPE_NEIGHBOR_ACK c of
        None \<Rightarrow> Inr c
      | Some i \<Rightarrow>
          bindR (get_packet (ec_sq c) i) (\<lambda>bp.
          let c = packetbuf_set_datalen UNICAST_PACKET_HDR_SIZE (packetbuf_clear c) in
          bindR (read_mem (packet_buffer_get_packet bp) 0 UNICAST_PACKET_HDR_SIZE) (\<lambda>d.
          bindR (packetbuf_write 0 d c) (\<lambda>c.
          finish_once ok MSG_TYPE_NEIGHBOR_ACK Neighbor_Ack_Timer FAST_TRANSMIT_ACK i
            (abc_send Neighbor_Conn c)))))"

definition send_multicast_unicast_ack :: "bool \<Rightarrow> 'a ec_scheme \<Rightarrow> 'a ec_scheme result" where
  "send_multicast_unicast_ack ok c =
     (case first_of MSG_TYPE_MULTICAST_UNICAST_ACK c of
        None \<Rightarrow> Inr c
      | Some i \<Rightarrow>
          bindR (get_packet (ec_sq c) i) (\<lambda>bp.
          let c = packetbuf_set_datalen UNICAST_PACKET_HDR_SIZE (packetbuf_clear c) in
          bindR (read_mem (packet_buffer_get_packet bp) 0 UNICAST_PACKET_HDR_SIZE) (\<lambda>d.
          bindR (packetbuf_write 0 d c) (\<lambda>c.
          finish_once ok MSG_TYPE_MULTICAST_UNICAST_ACK Multicast_Unicast_Ack_Timer FAST_TRANSMIT_ACK i
            (abc_send Broadcast_Conn c)))))"

definition send_broadcast_data :: "bool \<Rightarrow> 'a ec_scheme \<Rightarrow> 'a ec_scheme result" where
  "send_broadcast_data ok c =
     (case first_of MSG_TYPE_BROADCAST_DATA c of
        None \<Rightarrow> Inr c
      | Some i \<Rightarrow>
          bindR (get_packet (ec_sq c) i) (\<lambda>bp.
          let len = unat (packet_buffer_data_len bp);
              c = packetbuf_set_datalen (BROADCAST_PACKET_HDR_SIZE + len) (packetbuf_clear c)
          in bindR (read_mem (packet_buffer_get_packet bp) 0 BROADCAST_PACKET_HDR_SIZE) (\<lambda>h.
             bindR (packetbuf_write 0 h c) (\<lambda>c.
             bindR (read_mem (packet_buffer_get_packet bp) BROADCAST_PACKET_HDR_SIZE len) (\<lambda>d.
             bindR (packetbuf_write BROADCAST_PACKET_HDR_SIZE d c) (\<lambda>c.
             finish_once ok MSG_TYPE_BROADCAST_DATA Broadcast_Data_Timer FAST_TRANSMIT i
               (abc_send Broadcast_Conn c)))))))"

definition send_timesynch_data :: "bool \<Rightarrow> 'a ec_scheme \<Rightarrow> 'a ec_scheme result" where
  "send_timesynch_data ok c =
     (case first_of MSG_TYPE_TIMESYNCH_DATA c of
        None \<Rightarrow> Inr c
      | Some i \<Rightarrow>
          bindR (get_packet (ec_sq c) i) (\<lambda>bp.
          let c = packetbuf_set_datalen BROADCAST_PACKET_HDR_SIZE (packetbuf_clear c) in
          bindR (read_mem (packet_buffer_get_packet bp) 0 BROADCAST_PACKET_HDR_SIZE) (\<lambda>d.
          bindR (packetbuf_write 0 d c) (\<lambda>c.
          finish_once ok MSG_TYPE_TIMESYNCH_DATA Timesynch_Data_Timer FAST_TRANSMIT i
            (abc_send Timesynch_Conn c)))))"

subsection \<open>send_multicast_unicast_data\<close>

definition send_multicast_unicast_data :: "bool \<Rightarrow> 'a ec_scheme \<Rightarrow> 'a ec_scheme result" where
  "send_multicast_unicast_data ok c =
     (case first_of MSG_TYPE_MULTICAST_UNICAST_DATA c of
        None \<Rightarrow> Inr c
      | Some i \<Rightarrow>
          bindR (get_packet (ec_sq c) i) (\<lambda>bp.
          bindR (make_targeted (packet_buffer_get_packet bp) i bp (packetbuf_clear c)) (\<lambda>c.
          let c = abc_send Broadcast_Conn c in
          if \<not> ok then Inr (set_timer_rand FAST_TRANSMIT Multicast_Unicast_Data_Timer c)
          else bindR (get_packet (ec_sq c) i) (\<lambda>bp.
               bindR (sq_set i (packet_buffer_increment_times_sent bp) c) (\<lambda>c.
               Inr (ctimer_set Multicast_Unicast_Data_Timer RETRANSMIT_MULTICAST_UNICAST_DATA c))))))"

subsection \<open>Mesh data\<close>

text \<open>
  The mesh layer's callbacks. \<open>meshdata_sent\<close> frees the first mesh packet; called with none
  queued, it passes the null pointer, which no lane holds.
\<close>

definition meshdata_sent :: "'a ec_scheme \<Rightarrow> 'a ec_scheme result" where
  "meshdata_sent c =
     bindR (case first_of MSG_TYPE_MESH_DATA c of
              Some i \<Rightarrow> sq_free i c
            | None \<Rightarrow> Inl Assert_Failed)
       (\<lambda>c. Inr (set_timer_rand FAST_TRANSMIT Mesh_Data_Timer c))"

definition meshdata_timeout :: "'a ec_scheme \<Rightarrow> 'a ec_scheme" where
  "meshdata_timeout c = set_timer_rand FAST_TRANSMIT Mesh_Data_Timer c"

fun drop_mesh_loop :: "nat \<Rightarrow> 'a ec_scheme \<Rightarrow> nat \<Rightarrow> ('a ec_scheme \<times> nat option) result" where
  "drop_mesh_loop 0 c i = Inl Diverge"
| "drop_mesh_loop (Suc fuel) c i =
     bindR (get_packet (ec_sq c) i) (\<lambda>bp.
     if packet_buffer_times_sent bp \<ge> MAX_TIMES_SENT
     then bindR (sq_free i c) (\<lambda>c.
          case first_of MSG_TYPE_MESH_DATA c of
            None \<Rightarrow> Inr (c, None)
          | Some i \<Rightarrow> drop_mesh_loop fuel c i)
     else Inr (c, Some i))"

text \<open>When the mesh layer has a route, \<open>mesh_send\<close> calls \<open>meshdata_sent\<close> before it returns.\<close>

definition send_mesh_data :: "bool \<Rightarrow> 'a ec_scheme \<Rightarrow> 'a ec_scheme result" where
  "send_mesh_data ok c =
     (case first_of MSG_TYPE_MESH_DATA c of
        None \<Rightarrow> Inr c
      | Some i \<Rightarrow>
          bindR (drop_mesh_loop (sq_fuel c) c i) (\<lambda>(c, r).
          case r of
            None \<Rightarrow> Inr c
          | Some i \<Rightarrow>
              bindR (get_packet (ec_sq c) i) (\<lambda>bp.
              let len = unat (packet_buffer_data_len bp);
                  c = packetbuf_set_datalen (MESH_PACKET_HDR_SIZE + len) (packetbuf_clear c);
                  pm = packet_buffer_get_packet bp
              in bindR (packetbuf_write 0 [hdr_seqno (header_of pm)] c) (\<lambda>c.
                 bindR (read_mem pm UNICAST_PACKET_HDR_SIZE len) (\<lambda>d.
                 bindR (packetbuf_write MESH_PACKET_HDR_SIZE d c) (\<lambda>c.
                 bindR (sq_set i (packet_buffer_increment_times_sent bp) c) (\<lambda>c.
                 let c = mesh_send (addr_at pm 7) c in
                 if ok then meshdata_sent c else Inr c)))))))"

subsection \<open>Frames\<close>

text \<open>A queued packet without its links and iterator, and the contents of a lane.\<close>

type_synonym packet_contents = "bytes \<times> byte \<times> byte \<times> rimeaddr list"

definition packet_view :: "buffered_packet \<Rightarrow> packet_contents" where
  "packet_view bp = (bp_p bp, bp_data_len bp, times_sent bp, items (unacked_ns bp))"

definition lane_view :: "'a ec_scheme \<Rightarrow> nat \<Rightarrow> packet_contents list" where
  "lane_view c t = map (\<lambda>i. packet_view (packet_at (ec_sq c) i)) (pb_lane (ec_sq c) t)"

definition same_views :: "packet_buffer \<Rightarrow> packet_buffer \<Rightarrow> bool" where
  "same_views pb pb' \<longleftrightarrow> (\<forall>u < 7. pb_lane pb' u = pb_lane pb u) \<and>
     (\<forall>j. packet_view (packet_at pb' j) = packet_view (packet_at pb j))"

text \<open>The frame for the neighbors \<open>addrs\<close>: a multicast, or a unicast when there is only one.\<close>

definition targeted_frame :: "header \<Rightarrow> bytes \<Rightarrow> rimeaddr list \<Rightarrow> bytes" where
  "targeted_frame h d addrs =
     (if length addrs > 1
      then multicast_bytes (init_multicast_packet 0 (hdr_hops h) (hdr_originator h) (hdr_sender h)
             (hdr_seqno h) (of_nat (length addrs))) @ concat (map addr_bytes addrs) @ d
      else unicast_bytes (init_unicast_packet 0 (hdr_hops h) (hdr_originator h) (hdr_sender h)
             (hdr_seqno h) (hd addrs)) @ d)"

lemma packet_view_unlinked [simp]: "packet_view (unlinked bp) = packet_view bp"
  by (simp add: packet_view_def)

lemma packet_view_iterator [simp]:
  "packet_view (bp\<lparr>unacked_ns := (unacked_ns bp)\<lparr>iterator := p\<rparr>\<rparr>) = packet_view bp"
  by (simp add: packet_view_def items_def)

lemma cell_ok_iterator [simp]:
  "cell_ok (bp\<lparr>unacked_ns := (unacked_ns bp)\<lparr>iterator := p\<rparr>\<rparr>) = cell_ok bp"
  by (simp add: cell_ok_def)

lemma lane_ok_iterator [simp]:
  "lane_ok t (bp\<lparr>unacked_ns := (unacked_ns bp)\<lparr>iterator := p\<rparr>\<rparr>) = lane_ok t bp"
  by (simp add: lane_ok_def items_def)

lemma same_views_refl [simp]: "same_views pb pb"
  by (simp add: same_views_def)

lemma packetbuf_write_ok:
  "off + length src \<le> length (ec_packetbuf c) \<Longrightarrow> packetbuf_write off src c =
     Inr (c\<lparr>ec_packetbuf := take off (ec_packetbuf c) @ src @ drop (off + length src) (ec_packetbuf c)\<rparr>)"
  by (simp add: packetbuf_write_def write_mem_def)

lemma unacked_next:
  assumes "qb_wf (unacked_ns bp)" and "entries (unacked_ns bp) = es @ (i, a) # fs"
    and "iterator (unacked_ns bp) = Some i"
  shows "packet_buffer_unacked_neighbors_next bp =
    Inr (bp\<lparr>unacked_ns := (unacked_ns bp)\<lparr>iterator := head_slot fs\<rparr>\<rparr>, head_slot fs)"
  by (simp add: packet_buffer_unacked_neighbors_next_def next_entries [OF assms])

lemma unacked_begin:
  "cell_ok bp \<Longrightarrow> packet_buffer_unacked_neighbors_begin bp =
     (bp\<lparr>unacked_ns := (unacked_ns bp)\<lparr>iterator := head_slot (entries (unacked_ns bp))\<rparr>\<rparr>,
      head_slot (entries (unacked_ns bp)))"
  by (simp add: packet_buffer_unacked_neighbors_begin_def begin_entries cell_ok_def)

lemma iterator_None_id: "iterator (unacked_ns bp) = None \<Longrightarrow> bp\<lparr>unacked_ns := (unacked_ns bp)\<lparr>iterator := None\<rparr>\<rparr> = bp"
  by (cases bp; cases "unacked_ns bp") simp

lemma walk_unacked_returns:
  "qb_wf (unacked_ns bp) \<Longrightarrow> entries (unacked_ns bp) = es @ fs \<Longrightarrow>
   iterator (unacked_ns bp) = head_slot fs \<Longrightarrow> length fs \<le> n \<Longrightarrow>
   walk_unacked n bp (head_slot fs) = Inr (bp\<lparr>unacked_ns := (unacked_ns bp)\<lparr>iterator := None\<rparr>\<rparr>)"
proof (induction fs arbitrary: bp es n)
  case (Cons e fs)
  obtain i a where e: "e = (i, a)" by (cases e)
  from Cons.prems(4) obtain m where n: "n = Suc m" "length fs \<le> m" by (cases n) auto
  have sp: "entries (unacked_ns bp) = es @ (i, a) # fs" using Cons.prems(2) e by simp
  have data: "get_data (unacked_ns bp) i = Inr a" using get_data_entry [OF Cons.prems(1)] sp by simp
  have nx: "packet_buffer_unacked_neighbors_next bp =
      Inr (bp\<lparr>unacked_ns := (unacked_ns bp)\<lparr>iterator := head_slot fs\<rparr>\<rparr>, head_slot fs)"
    by (rule unacked_next [OF Cons.prems(1) sp]) (use Cons.prems(3) e in simp)
  have "walk_unacked m (bp\<lparr>unacked_ns := (unacked_ns bp)\<lparr>iterator := head_slot fs\<rparr>\<rparr>) (head_slot fs) =
      Inr (bp\<lparr>unacked_ns := (unacked_ns bp)\<lparr>iterator := head_slot fs\<rparr>,
        unacked_ns := (unacked_ns (bp\<lparr>unacked_ns := (unacked_ns bp)\<lparr>iterator := head_slot fs\<rparr>\<rparr>))\<lparr>iterator := None\<rparr>\<rparr>)"
    by (rule Cons.IH [of _ "es @ [(i, a)]"]) (use Cons.prems sp n in simp_all)
  with data nx n e show ?case by simp
qed (simp add: iterator_None_id)

lemma copy_unacked_returns:
  "qb_wf (unacked_ns bp) \<Longrightarrow> entries (unacked_ns bp) = es @ fs \<Longrightarrow>
   iterator (unacked_ns bp) = head_slot fs \<Longrightarrow> length fs \<le> n \<Longrightarrow>
   off + 2 * length fs \<le> length (ec_packetbuf c) \<Longrightarrow>
   \<exists>m. copy_unacked n bp (head_slot fs) off c =
       Inr (bp\<lparr>unacked_ns := (unacked_ns bp)\<lparr>iterator := None\<rparr>\<rparr>, off + 2 * length fs, c\<lparr>ec_packetbuf := m\<rparr>) \<and>
     length m = length (ec_packetbuf c) \<and>
     take (off + 2 * length fs) m = take off (ec_packetbuf c) @ concat (map (\<lambda>e. addr_bytes (snd e)) fs)"
proof (induction fs arbitrary: bp es n off c)
  case Nil
  then show ?case by (intro exI [of _ "ec_packetbuf c"]) (simp add: iterator_None_id)
next
  case (Cons e fs)
  obtain i a where e: "e = (i, a)" by (cases e)
  from Cons.prems(4) obtain k where n: "n = Suc k" "length fs \<le> k" by (cases n) auto
  have sp: "entries (unacked_ns bp) = es @ (i, a) # fs" using Cons.prems(2) e by simp
  have data: "get_data (unacked_ns bp) i = Inr a" using get_data_entry [OF Cons.prems(1)] sp by simp
  have nx: "packet_buffer_unacked_neighbors_next bp =
      Inr (bp\<lparr>unacked_ns := (unacked_ns bp)\<lparr>iterator := head_slot fs\<rparr>\<rparr>, head_slot fs)"
    by (rule unacked_next [OF Cons.prems(1) sp]) (use Cons.prems(3) e in simp)
  let ?m = "take off (ec_packetbuf c) @ addr_bytes a @ drop (off + 2) (ec_packetbuf c)"
  let ?bp = "bp\<lparr>unacked_ns := (unacked_ns bp)\<lparr>iterator := head_slot fs\<rparr>\<rparr>" and ?c = "c\<lparr>ec_packetbuf := ?m\<rparr>"
  have w: "packetbuf_write off (addr_bytes a) c = Inr ?c"
    using Cons.prems(5) by (simp add: packetbuf_write_ok)
  have lm: "length ?m = length (ec_packetbuf c)" using Cons.prems(5) by simp
  have "\<exists>m. copy_unacked k ?bp (head_slot fs) (off + 2) ?c =
       Inr (?bp\<lparr>unacked_ns := (unacked_ns ?bp)\<lparr>iterator := None\<rparr>\<rparr>, off + 2 + 2 * length fs, ?c\<lparr>ec_packetbuf := m\<rparr>) \<and>
     length m = length (ec_packetbuf ?c) \<and>
     take (off + 2 + 2 * length fs) m = take (off + 2) (ec_packetbuf ?c) @ concat (map (\<lambda>e. addr_bytes (snd e)) fs)"
    by (rule Cons.IH [of _ "es @ [(i, a)]"]) (use Cons.prems sp n lm in simp_all)
  then obtain m where m: "copy_unacked k ?bp (head_slot fs) (off + 2) ?c =
       Inr (?bp\<lparr>unacked_ns := (unacked_ns ?bp)\<lparr>iterator := None\<rparr>\<rparr>, off + 2 + 2 * length fs, ?c\<lparr>ec_packetbuf := m\<rparr>)"
     "length m = length (ec_packetbuf ?c)"
     "take (off + 2 + 2 * length fs) m = take (off + 2) (ec_packetbuf ?c) @ concat (map (\<lambda>e. addr_bytes (snd e)) fs)"
    by blast
  have "take (off + 2) ?m = take off (ec_packetbuf c) @ addr_bytes a"
    using Cons.prems(5) by simp
  with m lm data nx n e w show ?case by (intro exI [of _ m]) (simp add: add.assoc add.commute)
qed

text \<open>Writing a cell back with only its iterator moved.\<close>

lemma sq_set_iterator:
  assumes wf: "sq_wf (ec_sq c)" and t: "t < 7" and i: "i \<in> set (pb_lane (ec_sq c) t)"
    and bp: "bp = payload (pbuffer (ec_sq c)) ! i"
  obtains pb where "sq_set i (bp\<lparr>unacked_ns := (unacked_ns bp)\<lparr>iterator := p\<rparr>\<rparr>) c = Inr (c\<lparr>ec_sq := pb\<rparr>)"
    and "sq_wf pb" and "same_views (ec_sq c) pb"
    and "length (pool (pbuffer pb)) = length (pool (pbuffer (ec_sq c)))"
proof -
  obtain b where b: "get_packet (ec_sq c) i = Inr b" "cell_ok b" "unlinked b = packet_at (ec_sq c) i"
    "lane_ok t b" "b = payload (pbuffer (ec_sq c)) ! i" using sq_cell [OF wf t i] .
  let ?b = "bp\<lparr>unacked_ns := (unacked_ns bp)\<lparr>iterator := p\<rparr>\<rparr>"
  have bb: "b = bp" using b bp by simp
  obtain pb where pb: "set_packet (ec_sq c) i ?b = Inr pb" "sq_wf pb"
    "\<forall>u < 7. pb_lane pb u = pb_lane (ec_sq c) u" "packet_at pb i = unlinked ?b"
    "\<forall>j. j \<noteq> i \<longrightarrow> packet_at pb j = packet_at (ec_sq c) j"
    "length (pool (pbuffer pb)) = length (pool (pbuffer (ec_sq c)))"
    by (rule set_packet_wf [OF wf t i, of ?b]) (use b bb in simp_all)
  have at_i: "packet_view (packet_at pb i) = packet_view (packet_at (ec_sq c) i)"
    using pb(4) b(3) bb by (metis packet_view_iterator packet_view_unlinked)
  have "packet_view (packet_at pb j) = packet_view (packet_at (ec_sq c) j)" for j
    by (cases "j = i") (use at_i pb(5) in simp_all)
  with that [of pb] pb show ?thesis by (simp add: sq_set_def same_views_def)
qed

lemma make_multicast_returns:
  assumes wf: "sq_wf (ec_sq c)" and buf: "length (ec_packetbuf c) = 128" and t: "t < 7"
    and i: "i \<in> set (pb_lane (ec_sq c) t)" and bp: "bp = payload (pbuffer (ec_sq c)) ! i"
    and pm: "length pm = PACKET_MEM" and n: "unat nsize = length (items (unacked_ns bp))"
  shows "\<exists>pb m n. make_multicast pm i bp nsize c = Inr (c\<lparr>ec_sq := pb, ec_packetbuf := m, ec_datalen := n\<rparr>) \<and>
     sq_wf pb \<and> same_views (ec_sq c) pb \<and> length m = 128 \<and>
     take n m = multicast_bytes (init_multicast_packet 0 (hdr_hops (header_of pm))
         (hdr_originator (header_of pm)) (hdr_sender (header_of pm)) (hdr_seqno (header_of pm)) nsize) @
       concat (map addr_bytes (items (unacked_ns bp))) @ take (unat (bp_data_len bp)) (drop 7 pm)"
proof -
  obtain b where b: "cell_ok b" "lane_ok t b" "b = payload (pbuffer (ec_sq c)) ! i"
    using sq_cell [OF wf t i] by metis
  then have cell: "cell_ok bp" and lane: "lane_ok t bp" using bp by simp_all
  let ?u = "unacked_ns bp" and ?L = "unat (bp_data_len bp)" and ?h = "header_of pm"
  let ?es = "entries ?u" and ?N = "length (items ?u)"
  have u: "qb_wf ?u" and pool: "length (pool ?u) = 8" using cell by (simp_all add: cell_ok_def)
  have L: "?L \<le> 24" using lane by (simp add: lane_ok_def)
  have lenE: "length ?es = ?N" by (simp add: items_def)
  have "length ?es \<le> length (pool ?u)"
    using u by (metis entries_def length_map qb_wfE qb_lists_def chain_length)
  then have N: "?N \<le> 8" using pool lenE by simp
  let ?mp = "init_multicast_packet 0 (hdr_hops ?h) (hdr_originator ?h) (hdr_sender ?h) (hdr_seqno ?h) nsize"
  let ?b1 = "bp\<lparr>unacked_ns := ?u\<lparr>iterator := head_slot ?es\<rparr>\<rparr>"
  let ?n = "8 + ?N * 2 + ?L"
  let ?m1 = "multicast_bytes ?mp @ drop 8 (ec_packetbuf c)"
  let ?c1 = "c\<lparr>ec_datalen := ?n\<rparr>" and ?c2 = "c\<lparr>ec_datalen := ?n, ec_packetbuf := ?m1\<rparr>"
  have dl: "packetbuf_set_datalen (8 + unat nsize * 2 + ?L) c = ?c1"
    using n N L by (simp add: packetbuf_set_datalen_def)
  have w1: "packetbuf_write 0 (multicast_bytes ?mp) ?c1 = Inr ?c2"
    using buf by (simp add: packetbuf_write_ok)
  have "\<exists>m. copy_unacked 8 ?b1 (head_slot ?es) 8 ?c2 =
       Inr (?b1\<lparr>unacked_ns := (unacked_ns ?b1)\<lparr>iterator := None\<rparr>\<rparr>, 8 + 2 * length ?es, ?c2\<lparr>ec_packetbuf := m\<rparr>) \<and>
     length m = length (ec_packetbuf ?c2) \<and>
     take (8 + 2 * length ?es) m = take 8 (ec_packetbuf ?c2) @ concat (map (\<lambda>e. addr_bytes (snd e)) ?es)"
    by (rule copy_unacked_returns [of _ "[]"]) (use u N lenE buf in simp_all)
  moreover have "concat (map (\<lambda>e. addr_bytes (snd e)) ?es) = concat (map addr_bytes (items ?u))"
    by (simp add: items_def comp_def)
  ultimately obtain m where m: "copy_unacked 8 ?b1 (head_slot ?es) 8 ?c2 =
       Inr (bp\<lparr>unacked_ns := ?u\<lparr>iterator := None\<rparr>\<rparr>, 8 + 2 * ?N, ?c2\<lparr>ec_packetbuf := m\<rparr>)"
     "length m = 128"
     "take (8 + 2 * ?N) m = multicast_bytes ?mp @ concat (map addr_bytes (items ?u))"
    using buf by (auto simp: lenE)
  have rd: "read_mem pm 7 ?L = Inr (take ?L (drop 7 pm))"
    using pm L by (simp add: read_mem_def PACKET_MEM_def)
  let ?d = "take ?L (drop 7 pm)"
  have ld: "length ?d = ?L" using pm L by (simp add: PACKET_MEM_def)
  let ?m3 = "take (8 + 2 * ?N) m @ ?d @ drop (8 + 2 * ?N + ?L) m"
  have w3: "packetbuf_write (8 + 2 * ?N) ?d (?c2\<lparr>ec_packetbuf := m\<rparr>) =
      Inr (c\<lparr>ec_datalen := ?n, ec_packetbuf := ?m3\<rparr>)"
    using packetbuf_write_ok [of "8 + 2 * ?N" ?d "?c2\<lparr>ec_packetbuf := m\<rparr>"] m(2) ld N L by simp
  let ?c3 = "c\<lparr>ec_datalen := ?n, ec_packetbuf := ?m3\<rparr>"
  obtain pb where pb: "sq_set i (bp\<lparr>unacked_ns := ?u\<lparr>iterator := None\<rparr>\<rparr>) ?c3 = Inr (?c3\<lparr>ec_sq := pb\<rparr>)"
    "sq_wf pb" "same_views (ec_sq ?c3) pb"
    by (rule sq_set_iterator [of ?c3 t i bp None]) (use wf t i bp in simp_all)
  have run: "make_multicast pm i bp nsize c = Inr (?c3\<lparr>ec_sq := pb\<rparr>)"
    using w1 m(1) rd w3 pb(1)
    by (simp add: make_multicast_def unacked_begin [OF cell] dl Let_def unacked_fuel_def pool
        packet_size_defs)
  have l8: "length (take (8 + 2 * ?N) m) = 8 + 2 * ?N" using m(2) N by simp
  have "take ?n ?m3 = take (8 + 2 * ?N) m @ ?d"
    using l8 ld by (simp add: mult.commute)
  moreover have "length ?m3 = 128" using l8 ld m(2) N L by simp
  ultimately show ?thesis
    using run pb m(3) by (intro exI [of _ pb] exI [of _ ?m3] exI [of _ ?n]) simp
qed

lemma make_unicast_returns:
  assumes wf: "sq_wf (ec_sq c)" and buf: "length (ec_packetbuf c) = 128" and t: "t < 7"
    and i: "i \<in> set (pb_lane (ec_sq c) t)" and bp: "bp = payload (pbuffer (ec_sq c)) ! i"
    and pm: "length pm = PACKET_MEM" and n: "items (unacked_ns bp) \<noteq> []"
  shows "\<exists>pb m n. make_unicast pm i bp c = Inr (c\<lparr>ec_sq := pb, ec_packetbuf := m, ec_datalen := n\<rparr>) \<and>
     sq_wf pb \<and> same_views (ec_sq c) pb \<and> length m = 128 \<and>
     take n m = unicast_bytes (init_unicast_packet 0 (hdr_hops (header_of pm))
         (hdr_originator (header_of pm)) (hdr_sender (header_of pm)) (hdr_seqno (header_of pm))
         (hd (items (unacked_ns bp)))) @ take (unat (bp_data_len bp)) (drop 7 pm)"
proof -
  obtain b where b: "cell_ok b" "lane_ok t b" "b = payload (pbuffer (ec_sq c)) ! i"
    using sq_cell [OF wf t i] by metis
  then have cell: "cell_ok bp" and lane: "lane_ok t bp" using bp by simp_all
  let ?u = "unacked_ns bp" and ?L = "unat (bp_data_len bp)" and ?h = "header_of pm"
  have u: "qb_wf ?u" using cell by (simp add: cell_ok_def)
  have L: "?L \<le> 24" using lane by (simp add: lane_ok_def)
  obtain a x es where es: "entries ?u = (a, x) # es" using n by (cases "entries ?u") (auto simp: items_def)
  then have x: "hd (items ?u) = x" by (simp add: items_def)
  have data: "get_data ?u a = Inr x" using get_data_entry [OF u] es by simp
  let ?up = "init_unicast_packet 0 (hdr_hops ?h) (hdr_originator ?h) (hdr_sender ?h) (hdr_seqno ?h) x"
  let ?d = "take ?L (drop 7 pm)"
  have ld: "length ?d = ?L" using pm L by (simp add: PACKET_MEM_def)
  let ?n = "9 + ?L"
  let ?m1 = "unicast_bytes ?up @ drop 9 (ec_packetbuf c)"
  let ?m2 = "unicast_bytes ?up @ ?d @ drop (9 + ?L) (ec_packetbuf c)"
  let ?c1 = "c\<lparr>ec_datalen := ?n\<rparr>" and ?c2 = "c\<lparr>ec_datalen := ?n, ec_packetbuf := ?m1\<rparr>"
    and ?c3 = "c\<lparr>ec_datalen := ?n, ec_packetbuf := ?m2\<rparr>"
  have dl: "packetbuf_set_datalen (9 + ?L) c = ?c1"
    using L by (simp add: packetbuf_set_datalen_def)
  have w1: "packetbuf_write 0 (unicast_bytes ?up) ?c1 = Inr ?c2"
    using buf by (simp add: packetbuf_write_ok)
  have rd: "read_mem pm 7 ?L = Inr ?d"
    using pm L by (simp add: read_mem_def PACKET_MEM_def)
  have w2: "packetbuf_write 9 ?d ?c2 = Inr ?c3"
    using packetbuf_write_ok [of 9 ?d ?c2] buf ld L by (simp add: add.commute)
  let ?b1 = "bp\<lparr>unacked_ns := ?u\<lparr>iterator := Some a\<rparr>\<rparr>"
  obtain pb where pb: "sq_set i ?b1 ?c3 = Inr (?c3\<lparr>ec_sq := pb\<rparr>)" "sq_wf pb" "same_views (ec_sq ?c3) pb"
    by (rule sq_set_iterator [of ?c3 t i bp "Some a"]) (use wf t i bp in simp_all)
  have data1: "get_data (?u\<lparr>iterator := Some a\<rparr>) a = Inr x" using data by (simp add: get_data_def split: if_splits)
  have run: "make_unicast pm i bp c = Inr (?c3\<lparr>ec_sq := pb\<rparr>)"
    using w1 rd w2 pb(1) data1
    by (simp add: make_unicast_def unacked_begin [OF cell] dl Let_def packet_size_defs es)
  show ?thesis
    using run pb ld buf L x by (intro exI [of _ pb] exI [of _ ?m2] exI [of _ ?n]) simp
qed

lemma make_targeted_returns:
  assumes wf: "sq_wf (ec_sq c)" and buf: "length (ec_packetbuf c) = 128" and t: "t < 7"
    and i: "i \<in> set (pb_lane (ec_sq c) t)" and bp: "bp = payload (pbuffer (ec_sq c)) ! i"
    and pm: "length pm = PACKET_MEM" and n: "items (unacked_ns bp) \<noteq> []"
  shows "\<exists>pb m n. make_targeted pm i bp c = Inr (c\<lparr>ec_sq := pb, ec_packetbuf := m, ec_datalen := n\<rparr>) \<and>
     sq_wf pb \<and> same_views (ec_sq c) pb \<and> length m = 128 \<and>
     take n m = targeted_frame (header_of pm) (take (unat (bp_data_len bp)) (drop 7 pm))
       (items (unacked_ns bp))"
proof -
  obtain b where b: "cell_ok b" "b = payload (pbuffer (ec_sq c)) ! i"
    using sq_cell [OF wf t i] by metis
  let ?s = "packet_buffer_num_unacked_neighbors bp"
  have s: "unat ?s = length (items (unacked_ns bp))" using num_unacked_eq b bp by simp
  then have nz: "?s \<noteq> 0" using n by auto
  have s': "?s = of_nat (length (items (unacked_ns bp)))" using s by (metis of_nat_unat ucast_id)
  show ?thesis
  proof (cases "?s > 1")
    case True
    then have "length (items (unacked_ns bp)) > 1" using s by (simp add: word_less_nat_alt)
    with make_multicast_returns [OF wf buf t i bp pm s] True nz s' show ?thesis
      by (simp add: make_targeted_def targeted_frame_def Let_def)
  next
    case False
    then have "\<not> length (items (unacked_ns bp)) > 1" using s by (simp add: word_less_nat_alt)
    with make_unicast_returns [OF wf buf t i bp pm n] False nz show ?thesis
      by (simp add: make_targeted_def targeted_frame_def Let_def)
  qed
qed

subsection \<open>The loops that drop packets\<close>

text \<open>
  The lane's first packets that were sent \<open>limit\<close> times or more go; the others stay.
\<close>

definition live :: "byte \<Rightarrow> packet_contents list \<Rightarrow> packet_contents list" where
  "live limit ps = dropWhile (\<lambda>(_, _, n, _). n \<ge> limit) ps"

text \<open>The effect of a step on the sending queue: lane \<open>t\<close> as given, the others untouched.\<close>

definition sq_effect :: "nat \<Rightarrow> packet_contents list \<Rightarrow> 'a ec_scheme \<Rightarrow> 'a ec_scheme \<Rightarrow> bool" where
  "sq_effect t ps c c' \<longleftrightarrow> lane_view c' t = ps \<and> (\<forall>u < 7. u \<noteq> t \<longrightarrow> lane_view c' u = lane_view c u)"

lemma lane_view_Nil: "lane_view c t = [] \<longleftrightarrow> pb_lane (ec_sq c) t = []"
  by (simp add: lane_view_def)

lemma lane_view_frame [simp]:
  "lane_view (c\<lparr>ec_datalen := n\<rparr>) t = lane_view c t" "lane_view (c\<lparr>ec_timers := tm\<rparr>) t = lane_view c t"
  "lane_view (c\<lparr>ec_rand_pos := k\<rparr>) t = lane_view c t" "lane_view (c\<lparr>ec_sent := fs\<rparr>) t = lane_view c t"
  "lane_view (c\<lparr>ec_packetbuf := m\<rparr>) t = lane_view c t"
  by (simp_all add: lane_view_def)

lemma same_views_lane: "same_views (ec_sq c) pb \<Longrightarrow> t < 7 \<Longrightarrow> lane_view (c\<lparr>ec_sq := pb\<rparr>) t = lane_view c t"
  by (simp add: same_views_def lane_view_def)

lemma sq_free_returns:
  assumes wf: "sq_wf (ec_sq c)" and t: "t < 7" and lane: "pb_lane (ec_sq c) t = i # is"
  obtains pb where "sq_free i c = Inr (c\<lparr>ec_sq := pb\<rparr>)" and "sq_wf pb" and "pb_lane pb t = is"
    and "sq_effect t (tl (lane_view c t)) c (c\<lparr>ec_sq := pb\<rparr>)"
    and "length (pool (pbuffer pb)) = length (pool (pbuffer (ec_sq c)))"
    and "\<forall>j < length (pool (pbuffer (ec_sq c))). packet_at pb j = packet_at (ec_sq c) j"
proof -
  have i: "i \<in> set (pb_lane (ec_sq c) t)" using lane by simp
  note pw = sq_wfD(1) [OF wf]
  have "distinct (i # is)" using chain_distinct [OF pb_wfD(5) [OF pw t]] lane by simp
  then have fl: "filter (\<lambda>j. j \<noteq> i) (i # is) = is" by (simp add: filter_id_conv) (metis (no_types))
  obtain pb where pb: "packet_buffer_free (ec_sq c) i = Inr pb" "sq_wf pb"
    "pb_lane pb t = filter (\<lambda>j. j \<noteq> i) (pb_lane (ec_sq c) t)"
    "\<forall>u < 7. u \<noteq> t \<longrightarrow> pb_lane pb u = pb_lane (ec_sq c) u"
    "\<forall>j < length (pool (pbuffer (ec_sq c))). packet_at pb j = packet_at (ec_sq c) j"
    "length (pool (pbuffer pb)) = length (pool (pbuffer (ec_sq c)))"
    using free_packet_wf [OF wf t i] by metis
  have same: "map (\<lambda>i. packet_view (packet_at pb i)) (pb_lane (ec_sq c) u) = lane_view c u" if "u < 7" for u
    using pb(5) lane_slot_bound [OF pw that] by (simp add: lane_view_def)
  have "map (\<lambda>i. packet_view (packet_at pb i)) is = tl (lane_view c t)"
    using same [OF t] lane by (metis list.map(2) list.sel(3))
  then have "sq_effect t (tl (lane_view c t)) c (c\<lparr>ec_sq := pb\<rparr>)"
    using same pb(3,4) lane fl t by (simp add: sq_effect_def lane_view_def [of "c\<lparr>ec_sq := pb\<rparr>"])
  with that [of pb] pb lane fl show ?thesis by (simp add: sq_free_def)
qed

lemma effect_trans:
  "sq_effect t ps c c1 \<Longrightarrow> sq_effect t qs c1 c2 \<Longrightarrow> sq_effect t qs c c2"
  by (simp add: sq_effect_def)

lemma effect_refl: "lane_view c t = ps \<Longrightarrow> sq_effect t ps c c"
  by (simp add: sq_effect_def)

lemma lane_view_Cons:
  "pb_lane (ec_sq c) t = i # is \<Longrightarrow> lane_view c t =
     packet_view (packet_at (ec_sq c) i) # map (\<lambda>i. packet_view (packet_at (ec_sq c) i)) is"
  by (simp add: lane_view_def)

lemma live_Cons: "live n (packet_view bp # ps) = (if times_sent bp \<ge> n then live n ps else packet_view bp # ps)"
  by (simp add: live_def packet_view_def)

lemma same_views_effect:
  "same_views (ec_sq c) pb \<Longrightarrow> t < 7 \<Longrightarrow> sq_effect t (lane_view c t) c (c\<lparr>ec_sq := pb\<rparr>)"
  by (simp add: sq_effect_def same_views_lane)

definition dropped :: "nat \<Rightarrow> byte \<Rightarrow> 'a ec_scheme \<Rightarrow> packet_buffer \<Rightarrow> nat option \<Rightarrow> bool" where
  "dropped t limit c pb r \<longleftrightarrow> sq_wf pb \<and> sq_effect t (live limit (lane_view c t)) c (c\<lparr>ec_sq := pb\<rparr>) \<and>
     r = (case pb_lane pb t of [] \<Rightarrow> None | j # _ \<Rightarrow> Some j) \<and>
     length (pool (pbuffer pb)) = length (pool (pbuffer (ec_sq c))) \<and>
     (\<forall>j < length (pool (pbuffer pb)). packet_view (packet_at pb j) = packet_view (packet_at (ec_sq c) j))"

lemma free_step:
  assumes wf: "sq_wf (ec_sq c)" and t: "t < 7" and lane: "pb_lane (ec_sq c) t = i # is"
  obtains pb where "sq_free i c = Inr (c\<lparr>ec_sq := pb\<rparr>)" and "sq_wf pb" and "pb_lane pb t = is"
    and "sq_effect t (tl (lane_view c t)) c (c\<lparr>ec_sq := pb\<rparr>)"
    and "length (pool (pbuffer pb)) = length (pool (pbuffer (ec_sq c)))"
    and "\<forall>j < length (pool (pbuffer pb)). packet_view (packet_at pb j) = packet_view (packet_at (ec_sq c) j)"
proof -
  obtain pb where pb: "sq_free i c = Inr (c\<lparr>ec_sq := pb\<rparr>)" "sq_wf pb" "pb_lane pb t = is"
    "sq_effect t (tl (lane_view c t)) c (c\<lparr>ec_sq := pb\<rparr>)"
    "length (pool (pbuffer pb)) = length (pool (pbuffer (ec_sq c)))"
    "\<forall>j < length (pool (pbuffer (ec_sq c))). packet_at pb j = packet_at (ec_sq c) j"
    using sq_free_returns [OF assms] .
  with that [of pb] show ?thesis by simp
qed

lemma drop_neighbor_step:
  fixes c :: "'a ec_scheme"
  assumes wf: "sq_wf (ec_sq c)" and lane: "pb_lane (ec_sq c) MSG_TYPE_NEIGHBOR_DATA = i # is"
    and times: "times_sent (packet_at (ec_sq c) i) \<ge> MAX_TIMES_SENT_MESH"
  shows "\<exists>pb. drop_neighbor_loop (Suc n) c i =
      (case is of [] \<Rightarrow> Inr (c\<lparr>ec_sq := pb\<rparr>, None) | j # _ \<Rightarrow> drop_neighbor_loop n (c\<lparr>ec_sq := pb\<rparr>) j) \<and>
     sq_wf pb \<and> pb_lane pb MSG_TYPE_NEIGHBOR_DATA = is \<and>
     sq_effect MSG_TYPE_NEIGHBOR_DATA (tl (lane_view c MSG_TYPE_NEIGHBOR_DATA)) c (c\<lparr>ec_sq := pb\<rparr>) \<and>
     length (pool (pbuffer pb)) = length (pool (pbuffer (ec_sq c))) \<and>
     (\<forall>j < length (pool (pbuffer pb)). packet_view (packet_at pb j) = packet_view (packet_at (ec_sq c) j))"
proof -
  have t: "MSG_TYPE_NEIGHBOR_DATA < 7" by (simp add: msg_type_defs)
  have i: "i \<in> set (pb_lane (ec_sq c) MSG_TYPE_NEIGHBOR_DATA)" using lane by simp
  obtain bp where bp: "get_packet (ec_sq c) i = Inr bp" "cell_ok bp" "unlinked bp = packet_at (ec_sq c) i"
    "bp = payload (pbuffer (ec_sq c)) ! i" using sq_cell [OF wf t i] by metis
  let ?u = "unacked_ns bp"
  have u: "qb_wf ?u" using bp(2) by (simp add: cell_ok_def)
  have "length (entries ?u) \<le> length (pool ?u)"
    using u by (metis entries_def length_map qb_wfE qb_lists_def chain_length)
  then have w: "walk_unacked (length (pool ?u)) (bp\<lparr>unacked_ns := ?u\<lparr>iterator := head_slot (entries ?u)\<rparr>\<rparr>)
      (head_slot (entries ?u)) = Inr (bp\<lparr>unacked_ns := ?u\<lparr>iterator := None\<rparr>\<rparr>)"
    using walk_unacked_returns [of "bp\<lparr>unacked_ns := ?u\<lparr>iterator := head_slot (entries ?u)\<rparr>\<rparr>" "[]"] u by simp
  obtain pb1 where pb1: "sq_set i (bp\<lparr>unacked_ns := ?u\<lparr>iterator := None\<rparr>\<rparr>) c = Inr (c\<lparr>ec_sq := pb1\<rparr>)" "sq_wf pb1"
    "same_views (ec_sq c) pb1" "length (pool (pbuffer pb1)) = length (pool (pbuffer (ec_sq c)))"
    using sq_set_iterator [OF wf t i bp(4), of None] .
  have lane1: "pb_lane (ec_sq (c\<lparr>ec_sq := pb1\<rparr>)) MSG_TYPE_NEIGHBOR_DATA = i # is"
    using pb1(3) lane t by (simp add: same_views_def)
  have wf1: "sq_wf (ec_sq (c\<lparr>ec_sq := pb1\<rparr>))" using pb1(2) by simp
  obtain pb where pb: "sq_free i (c\<lparr>ec_sq := pb1\<rparr>) = Inr ((c\<lparr>ec_sq := pb1\<rparr>)\<lparr>ec_sq := pb\<rparr>)" "sq_wf pb"
    "pb_lane pb MSG_TYPE_NEIGHBOR_DATA = is"
    "sq_effect MSG_TYPE_NEIGHBOR_DATA (tl (lane_view (c\<lparr>ec_sq := pb1\<rparr>) MSG_TYPE_NEIGHBOR_DATA))
       (c\<lparr>ec_sq := pb1\<rparr>) ((c\<lparr>ec_sq := pb1\<rparr>)\<lparr>ec_sq := pb\<rparr>)"
    "length (pool (pbuffer pb)) = length (pool (pbuffer (ec_sq (c\<lparr>ec_sq := pb1\<rparr>))))"
    "\<forall>j < length (pool (pbuffer pb)). packet_view (packet_at pb j) =
       packet_view (packet_at (ec_sq (c\<lparr>ec_sq := pb1\<rparr>)) j)"
    using free_step [OF wf1 t lane1] .
  have fst: "first_of MSG_TYPE_NEIGHBOR_DATA (c\<lparr>ec_sq := pb\<rparr>) = (case is of [] \<Rightarrow> None | j # _ \<Rightarrow> Some j)"
    using first_head [of "c\<lparr>ec_sq := pb\<rparr>", OF _ t] pb(2,3) by simp
  have ts: "times_sent bp \<ge> MAX_TIMES_SENT_MESH" using times bp(3) by (metis unlinked_simps(4))
  have run: "drop_neighbor_loop (Suc n) c i =
      (case is of [] \<Rightarrow> Inr (c\<lparr>ec_sq := pb\<rparr>, None) | j # _ \<Rightarrow> drop_neighbor_loop n (c\<lparr>ec_sq := pb\<rparr>) j)"
    using bp(1) ts w pb1(1) pb(1) fst
    by (simp add: unacked_begin [OF bp(2)] unacked_fuel_def split: list.splits)
  have "sq_effect MSG_TYPE_NEIGHBOR_DATA (tl (lane_view c MSG_TYPE_NEIGHBOR_DATA)) c (c\<lparr>ec_sq := pb\<rparr>)"
    using pb(4) same_views_lane [OF pb1(3)] t by (simp add: sq_effect_def)
  moreover have "\<forall>j. packet_view (packet_at pb1 j) = packet_view (packet_at (ec_sq c) j)"
    using pb1(3) by (simp add: same_views_def)
  ultimately show ?thesis using run pb pb1(4) by (intro exI [of _ pb]) simp
qed

lemma drop_neighbor_stop:
  assumes "sq_wf (ec_sq c)" and "i \<in> set (pb_lane (ec_sq c) MSG_TYPE_NEIGHBOR_DATA)"
    and "times_sent (packet_at (ec_sq c) i) < MAX_TIMES_SENT_MESH"
  shows "drop_neighbor_loop (Suc n) c i = Inr (c, Some i)"
proof -
  have t: "MSG_TYPE_NEIGHBOR_DATA < 7" by (simp add: msg_type_defs)
  obtain bp where bp: "get_packet (ec_sq c) i = Inr bp" "unlinked bp = packet_at (ec_sq c) i"
    using sq_cell [OF assms(1) t assms(2)] by metis
  have "\<not> times_sent bp \<ge> MAX_TIMES_SENT_MESH"
    using assms(3) bp(2) by (metis not_le unlinked_simps(4))
  with bp(1) show ?thesis by simp
qed

lemma dropped_stop:
  assumes "sq_wf (ec_sq c)" and "t < 7" and "pb_lane (ec_sq c) t = i # is"
    and "times_sent (packet_at (ec_sq c) i) < limit"
  shows "dropped t limit c (ec_sq c) (Some i)"
  using assms by (simp add: dropped_def sq_effect_def lane_view_Cons live_Cons not_le [symmetric])

lemma dropped_step:
  assumes t: "t < 7" and lane: "pb_lane (ec_sq c) t = i # is" and times: "times_sent (packet_at (ec_sq c) i) \<ge> limit"
    and eff: "sq_effect t (tl (lane_view c t)) c (c\<lparr>ec_sq := pb1\<rparr>)"
    and len: "length (pool (pbuffer pb1)) = length (pool (pbuffer (ec_sq c)))"
    and at: "\<forall>j < length (pool (pbuffer pb1)). packet_view (packet_at pb1 j) = packet_view (packet_at (ec_sq c) j)"
    and rest: "dropped t limit (c\<lparr>ec_sq := pb1\<rparr>) pb r"
  shows "dropped t limit c pb r"
proof -
  have "live limit (lane_view c t) = live limit (lane_view (c\<lparr>ec_sq := pb1\<rparr>) t)"
    using lane times eff by (simp add: lane_view_Cons live_Cons sq_effect_def)
  then show ?thesis using rest eff len at by (simp add: dropped_def sq_effect_def)
qed

lemma drop_loop_returns:
  assumes t: "t < 7"
    and step: "\<And>c i is n. sq_wf (ec_sq c) \<Longrightarrow> pb_lane (ec_sq c) t = i # is \<Longrightarrow>
      times_sent (packet_at (ec_sq c) i) \<ge> limit \<Longrightarrow>
      \<exists>pb. loop (Suc n) c i =
          (case is of [] \<Rightarrow> Inr (c\<lparr>ec_sq := pb\<rparr>, None) | j # _ \<Rightarrow> loop n (c\<lparr>ec_sq := pb\<rparr>) j) \<and>
         sq_wf pb \<and> pb_lane pb t = is \<and> sq_effect t (tl (lane_view c t)) c (c\<lparr>ec_sq := pb\<rparr>) \<and>
         length (pool (pbuffer pb)) = length (pool (pbuffer (ec_sq c))) \<and>
         (\<forall>j < length (pool (pbuffer pb)). packet_view (packet_at pb j) = packet_view (packet_at (ec_sq c) j))"
    and stop: "\<And>c i n. sq_wf (ec_sq c) \<Longrightarrow> i \<in> set (pb_lane (ec_sq c) t) \<Longrightarrow>
      times_sent (packet_at (ec_sq c) i) < limit \<Longrightarrow> loop (Suc n) c i = Inr (c, Some i)"
  shows "sq_wf (ec_sq c) \<Longrightarrow> pb_lane (ec_sq c) t = i # is \<Longrightarrow> length is < n \<Longrightarrow>
   \<exists>pb r. loop n c i = Inr (c\<lparr>ec_sq := pb\<rparr>, r) \<and>
     dropped t limit c pb r"
proof (induction "is" arbitrary: c i n)
  case Nil
  then obtain k where n: "n = Suc k" by (cases n) auto
  show ?case
  proof (cases "times_sent (packet_at (ec_sq c) i) \<ge> limit")
    case True
    from step [OF Nil(1,2) True, of k] obtain pb where
      pb: "loop (Suc k) c i = Inr (c\<lparr>ec_sq := pb\<rparr>, None)" "sq_wf pb"
      "pb_lane pb t = []"
      "sq_effect t (tl (lane_view c t)) c (c\<lparr>ec_sq := pb\<rparr>)"
      "length (pool (pbuffer pb)) = length (pool (pbuffer (ec_sq c)))"
      "\<forall>j < length (pool (pbuffer pb)). packet_view (packet_at pb j) = packet_view (packet_at (ec_sq c) j)"
      by auto
    have "dropped t limit (c\<lparr>ec_sq := pb\<rparr>) pb None"
    proof -
      have v: "lane_view (c\<lparr>ec_sq := pb\<rparr>) t = []" using pb(3) by (simp add: lane_view_Nil)
      from effect_refl [OF v] show ?thesis unfolding dropped_def v using pb(2,3,5,6) by (simp add: live_def)
    qed
    from dropped_step [OF t Nil(2) True pb(4,5,6) this] pb(1) n show ?thesis by blast
  next
    case False
    then have lt: "times_sent (packet_at (ec_sq c) i) < limit" by simp
    have "i \<in> set (pb_lane (ec_sq c) t)" using Nil(2) by simp
    from stop [OF Nil(1) this lt, of k] dropped_stop [OF Nil(1) t Nil(2) lt] n
    show ?thesis by (intro exI [of _ "ec_sq c"] exI [of _ "Some i"]) simp
  qed
next
  case (Cons j js)
  then obtain k where n: "n = Suc k" by (cases n) auto
  show ?case
  proof (cases "times_sent (packet_at (ec_sq c) i) \<ge> limit")
    case True
    from step [OF Cons.prems(1,2) True, of k] obtain pb where
      pb: "loop (Suc k) c i = loop k (c\<lparr>ec_sq := pb\<rparr>) j" "sq_wf pb"
      "pb_lane pb t = j # js"
      "sq_effect t (tl (lane_view c t)) c (c\<lparr>ec_sq := pb\<rparr>)"
      "length (pool (pbuffer pb)) = length (pool (pbuffer (ec_sq c)))"
      "\<forall>j < length (pool (pbuffer pb)). packet_view (packet_at pb j) = packet_view (packet_at (ec_sq c) j)"
      by auto
    from Cons.IH [of "c\<lparr>ec_sq := pb\<rparr>" j k] pb Cons.prems(3) n obtain pb' r where
      r: "loop k (c\<lparr>ec_sq := pb\<rparr>) j = Inr (c\<lparr>ec_sq := pb'\<rparr>, r)"
        "dropped t limit (c\<lparr>ec_sq := pb\<rparr>) pb' r"
      by auto
    from dropped_step [OF t Cons.prems(2) True pb(4,5,6) r(2)] r(1) pb(1) n show ?thesis by auto
  next
    case False
    then have lt: "times_sent (packet_at (ec_sq c) i) < limit" by simp
    have "i \<in> set (pb_lane (ec_sq c) t)" using Cons.prems(2) by simp
    from stop [OF Cons.prems(1) this lt, of k] dropped_stop [OF Cons.prems(1) t Cons.prems(2) lt] n
    show ?thesis by (intro exI [of _ "ec_sq c"] exI [of _ "Some i"]) simp
  qed
qed


lemma drop_neighbor_returns:
  assumes "sq_wf (ec_sq c)" and "pb_lane (ec_sq c) MSG_TYPE_NEIGHBOR_DATA = i # is" and "length is < n"
  shows "\<exists>pb r. drop_neighbor_loop n c i = Inr (c\<lparr>ec_sq := pb\<rparr>, r) \<and>
     dropped MSG_TYPE_NEIGHBOR_DATA MAX_TIMES_SENT_MESH c pb r"
  by (rule drop_loop_returns [where loop = drop_neighbor_loop and t = MSG_TYPE_NEIGHBOR_DATA
          and limit = MAX_TIMES_SENT_MESH])
     (simp add: msg_type_defs, erule (2) drop_neighbor_step, erule (2) drop_neighbor_stop, rule assms(1),
      rule assms(2), rule assms(3))

lemma drop_mesh_step:
  assumes wf: "sq_wf (ec_sq c)" and lane: "pb_lane (ec_sq c) MSG_TYPE_MESH_DATA = i # is"
    and times: "times_sent (packet_at (ec_sq c) i) \<ge> MAX_TIMES_SENT"
  shows "\<exists>pb. drop_mesh_loop (Suc n) c i =
      (case is of [] \<Rightarrow> Inr (c\<lparr>ec_sq := pb\<rparr>, None) | j # _ \<Rightarrow> drop_mesh_loop n (c\<lparr>ec_sq := pb\<rparr>) j) \<and>
     sq_wf pb \<and> pb_lane pb MSG_TYPE_MESH_DATA = is \<and>
     sq_effect MSG_TYPE_MESH_DATA (tl (lane_view c MSG_TYPE_MESH_DATA)) c (c\<lparr>ec_sq := pb\<rparr>) \<and>
     length (pool (pbuffer pb)) = length (pool (pbuffer (ec_sq c))) \<and>
     (\<forall>j < length (pool (pbuffer pb)). packet_view (packet_at pb j) = packet_view (packet_at (ec_sq c) j))"
proof -
  have t: "MSG_TYPE_MESH_DATA < 7" by (simp add: msg_type_defs)
  have i: "i \<in> set (pb_lane (ec_sq c) MSG_TYPE_MESH_DATA)" using lane by simp
  obtain bp where bp: "get_packet (ec_sq c) i = Inr bp" "unlinked bp = packet_at (ec_sq c) i"
    using sq_cell [OF wf t i] by metis
  have ts: "times_sent bp \<ge> MAX_TIMES_SENT" using times bp(2) by (metis unlinked_simps(4))
  obtain pb where pb: "sq_free i c = Inr (c\<lparr>ec_sq := pb\<rparr>)" "sq_wf pb"
    "pb_lane pb MSG_TYPE_MESH_DATA = is"
    "sq_effect MSG_TYPE_MESH_DATA (tl (lane_view c MSG_TYPE_MESH_DATA)) c (c\<lparr>ec_sq := pb\<rparr>)"
    "length (pool (pbuffer pb)) = length (pool (pbuffer (ec_sq c)))"
    "\<forall>j < length (pool (pbuffer pb)). packet_view (packet_at pb j) = packet_view (packet_at (ec_sq c) j)"
    using free_step [OF wf t lane] .
  have "first_of MSG_TYPE_MESH_DATA (c\<lparr>ec_sq := pb\<rparr>) = (case is of [] \<Rightarrow> None | j # _ \<Rightarrow> Some j)"
    using first_head [of "c\<lparr>ec_sq := pb\<rparr>", OF _ t] pb(2,3) by simp
  with bp(1) ts pb(1) have run: "drop_mesh_loop (Suc n) c i =
      (case is of [] \<Rightarrow> Inr (c\<lparr>ec_sq := pb\<rparr>, None) | j # _ \<Rightarrow> drop_mesh_loop n (c\<lparr>ec_sq := pb\<rparr>) j)"
    by (simp split: list.splits)
  with pb show ?thesis by (intro exI [of _ pb]) simp
qed

lemma drop_mesh_stop:
  assumes "sq_wf (ec_sq c)" and "i \<in> set (pb_lane (ec_sq c) MSG_TYPE_MESH_DATA)"
    and "times_sent (packet_at (ec_sq c) i) < MAX_TIMES_SENT"
  shows "drop_mesh_loop (Suc n) c i = Inr (c, Some i)"
proof -
  have t: "MSG_TYPE_MESH_DATA < 7" by (simp add: msg_type_defs)
  obtain bp where bp: "get_packet (ec_sq c) i = Inr bp" "unlinked bp = packet_at (ec_sq c) i"
    using sq_cell [OF assms(1) t assms(2)] by metis
  have "\<not> times_sent bp \<ge> MAX_TIMES_SENT"
    using assms(3) bp(2) by (metis not_le unlinked_simps(4))
  with bp(1) show ?thesis by simp
qed

lemma drop_mesh_returns:
  assumes "sq_wf (ec_sq c)" and "pb_lane (ec_sq c) MSG_TYPE_MESH_DATA = i # is" and "length is < n"
  shows "\<exists>pb r. drop_mesh_loop n c i = Inr (c\<lparr>ec_sq := pb\<rparr>, r) \<and>
     dropped MSG_TYPE_MESH_DATA MAX_TIMES_SENT c pb r"
  by (rule drop_loop_returns [where loop = drop_mesh_loop and t = MSG_TYPE_MESH_DATA
          and limit = MAX_TIMES_SENT])
     (simp add: msg_type_defs, erule (2) drop_mesh_step, erule (2) drop_mesh_stop, rule assms(1),
      rule assms(2), rule assms(3))

end
