(* ===== verification/Emergency_Recv.thy ===== *)
theory Emergency_Recv
  imports Emergency_Send
begin

text \<open>
  Receiving and the client's calls of \<open>emergency_net/emergency_conn.c\<close>: the handlers of the three
  anonymous broadcast channels and of the mesh, the duplicate filter, the calls that queue data,
  and the election of the timesynch leader. A received frame is the packet buffer from the data
  pointer on, with the number of bytes that arrived. The client's callbacks are a record of
  functions on the state (\<open>struct ec_callbacks\<close>); the connection holds the pointer to it in C,
  here it is an argument. Log output is not modelled.
\<close>

type_synonym 's ec_callback_data_t =
  "'s \<Rightarrow> rimeaddr \<Rightarrow> rimeaddr \<Rightarrow> byte \<Rightarrow> byte \<Rightarrow> bytes \<Rightarrow> byte \<Rightarrow> 's result"

record 's ec_callbacks =
  cb_broadcast_recv :: "'s ec_callback_data_t"
  cb_multicast_unicast_recv :: "'s ec_callback_data_t"
  cb_neighbor_recv :: "'s ec_callback_data_t"
  cb_timesynch :: "'s \<Rightarrow> 's result"
  cb_mesh :: "'s \<Rightarrow> rimeaddr \<Rightarrow> byte \<Rightarrow> byte \<Rightarrow> bytes \<Rightarrow> byte \<Rightarrow> 's result"

subsection \<open>Duplicates\<close>

definition find_dupe :: "header \<Rightarrow> 'a ec_scheme \<Rightarrow> nat option result" where
  "find_dupe p c = queue_buffer_find (ec_dq c) (\<lambda>sp. slim_packet_to_packet_cmp sp p)"

definition store_packet_for_dupe_checks :: "header \<Rightarrow> 'a ec_scheme \<Rightarrow> 'a ec_scheme result" where
  "store_packet_for_dupe_checks p c =
     bindR (find_dupe p c) (\<lambda>sp.
     if sp = None
     then
       bindR (queue_buffer_alloc_front (ec_dq c)) (\<lambda>(dq, sp).
       bindR (case sp of
                Some i \<Rightarrow> Inr (dq, i)
              | None \<Rightarrow>
                  bindR (queue_buffer_pop_back dq) (\<lambda>(dq, _).
                  bindR (queue_buffer_alloc_front dq) (\<lambda>(dq, sp).
                  case sp of None \<Rightarrow> Inl Assert_Failed | Some i \<Rightarrow> Inr (dq, i)))) (\<lambda>(dq, i).
       bindR (set_data dq i \<lparr>sp_originator = hdr_originator p, sp_seqno = hdr_seqno p\<rparr>) (\<lambda>dq.
       Inr (c\<lparr>ec_dq := dq\<rparr>))))
     else Inr c)"

subsection \<open>Whom a frame is for\<close>

datatype frame_kind = Kind_Broadcast | Kind_Multicast | Kind_Unicast

fun find_id_loop :: "nat \<Rightarrow> nat \<Rightarrow> bytes \<Rightarrow> rimeaddr \<Rightarrow> bool result" where
  "find_id_loop 0 off fr me = Inr False"
| "find_id_loop (Suc n) off fr me =
     bindR (read_addr fr off) (\<lambda>a.
     if rimeaddr_cmp a me then Inr True else find_id_loop n (off + 2) fr me)"

text \<open>
  The \<open>switch\<close> with which \<open>neighbor_recv\<close> and \<open>broadcast_recv\<close> begin: the kind of the frame, where
  its data starts, and how long it is (on bytes, as in the code); \<open>None\<close> if it is not for us.
\<close>

definition frame_for_us :: "rimeaddr \<Rightarrow> header \<Rightarrow> bytes \<Rightarrow> nat \<Rightarrow> (frame_kind \<times> nat \<times> byte) option result" where
  "frame_for_us me p fr datalen =
     (if PACKET_TYPE p = BROADCAST then
        Inr (Some (Kind_Broadcast, BROADCAST_PACKET_HDR_SIZE,
                   of_nat datalen - of_nat BROADCAST_PACKET_HDR_SIZE))
      else if PACKET_TYPE p = MULTICAST then
        bindR (read_mem fr PACKET_HDR_SIZE 1) (\<lambda>num.
        bindR (find_id_loop (unat (hd num)) MULTICAST_PACKET_HDR_SIZE fr me) (\<lambda>found.
        if found then
          (let ids_size = 2 * hd num in
           Inr (Some (Kind_Multicast, MULTICAST_PACKET_HDR_SIZE + unat ids_size,
                      of_nat datalen - of_nat MULTICAST_PACKET_HDR_SIZE - ids_size)))
        else Inr None))
      else if PACKET_TYPE p = UNICAST then
        bindR (read_addr fr PACKET_HDR_SIZE) (\<lambda>dest.
        if rimeaddr_cmp dest me
        then Inr (Some (Kind_Unicast, UNICAST_PACKET_HDR_SIZE,
                        of_nat datalen - of_nat UNICAST_PACKET_HDR_SIZE))
        else Inr None)
      else Inl Assert_Failed)"

subsection \<open>Acknowledgements\<close>

text \<open>An acknowledgement arrives: the branch for the ACK flag, and the timer of the data lane.\<close>

definition ack_received :: "ec_timer \<Rightarrow> header \<Rightarrow> 'a ec_scheme \<Rightarrow> 'a ec_scheme result" where
  "ack_received data_timer p c =
     bindR (packet_buffer_find_buffered_packet (ec_sq c) (\<lambda>q. originator_seqno_cmp q p)) (\<lambda>bp.
     case bp of
       None \<Rightarrow> Inr c
     | Some i \<Rightarrow>
         bindR (get_packet (ec_sq c) i) (\<lambda>bp.
         bindR (packet_buffer_neighbor_acked bp (hdr_sender p)) (\<lambda>bp.
         bindR (sq_set i bp c) (\<lambda>c.
         if packet_buffer_all_neighbors_acked bp
         then bindR (sq_free i c) (\<lambda>c. Inr (set_timer_rand FAST_TRANSMIT data_timer c))
         else Inr c))))"

text \<open>Make an acknowledgement for the sender of \<open>p\<close>, unless the same one is queued already.\<close>

definition queue_ack :: "nat \<Rightarrow> ec_timer \<Rightarrow> header \<Rightarrow> 'a ec_scheme \<Rightarrow> 'a ec_scheme result" where
  "queue_ack type ack_timer p c =
     (let ap = init_unicast_packet ACK 0 (hdr_originator p) (ec_node_addr c) (hdr_seqno p) (hdr_sender p) in
      bindR (packet_buffer_find_buffered_packet (ec_sq c) (\<lambda>q. unicast_packet_cmp q ap)) (\<lambda>found.
      if found = None
      then bindR (sq_unicast ap [] 0 type c) (\<lambda>c. Inr (set_timer_rand FAST_TRANSMIT_ACK ack_timer c))
      else Inr c))"

subsection \<open>neighbor_recv\<close>

definition neighbor_data_received :: "'a ec_scheme ec_callbacks \<Rightarrow> header \<Rightarrow> bytes \<Rightarrow> byte
    \<Rightarrow> 'a ec_scheme \<Rightarrow> 'a ec_scheme result" where
  "neighbor_data_received cb p data data_len c =
     bindR (find_dupe p c) (\<lambda>sp.
     let ack = queue_ack MSG_TYPE_NEIGHBOR_ACK Neighbor_Ack_Timer p in
     if sp \<noteq> None then ack c
     else if packet_buffer_has_room_for_packets (ec_sq c) 3
     then bindR (cb_neighbor_recv cb c (hdr_originator p) (hdr_sender p) (hdr_hops p) (hdr_seqno p) data data_len)
       (\<lambda>c. bindR (store_packet_for_dupe_checks p c) ack)
     else Inr c)"

definition neighbor_recv :: "'a ec_scheme ec_callbacks \<Rightarrow> bytes \<Rightarrow> nat \<Rightarrow> 'a ec_scheme \<Rightarrow> 'a ec_scheme result" where
  "neighbor_recv cb fr datalen c =
     bindR (read_header fr) (\<lambda>p.
     bindR (frame_for_us (ec_node_addr c) p fr datalen) (\<lambda>us.
     case us of
       None \<Rightarrow> Inr c
     | Some (_, off, data_len) \<Rightarrow>
         (case conn_ns c of
            None \<Rightarrow> Inl Null_Deref
          | Some ns \<Rightarrow>
              bindR (neighbors_is_neighbor ns (hdr_sender p)) (\<lambda>nb.
              if \<not> nb then Inr c
              else if IS_PACKET_FLAG_SET p ACK then ack_received Neighbor_Data_Timer p c
              else neighbor_data_received cb p (drop off fr) data_len c))))"

subsection \<open>broadcast_recv\<close>

definition broadcast_data_received :: "'a ec_scheme ec_callbacks \<Rightarrow> frame_kind \<Rightarrow> header \<Rightarrow> bytes \<Rightarrow> byte
    \<Rightarrow> 'a ec_scheme \<Rightarrow> 'a ec_scheme result" where
  "broadcast_data_received cb kind p data data_len c =
     bindR (find_dupe p c) (\<lambda>sp.
     let ack = (\<lambda>c. if kind \<noteq> Kind_Broadcast
                    then queue_ack MSG_TYPE_MULTICAST_UNICAST_ACK Multicast_Unicast_Ack_Timer p c
                    else Inr c) in
     if sp \<noteq> None then ack c
     else if packet_buffer_has_room_for_packets (ec_sq c) 3
     then bindR ((if kind \<noteq> Kind_Broadcast then cb_multicast_unicast_recv cb else cb_broadcast_recv cb)
                   c (hdr_originator p) (hdr_sender p) (hdr_hops p) (hdr_seqno p) data data_len)
       (\<lambda>c. bindR (store_packet_for_dupe_checks p c) ack)
     else Inr c)"

definition broadcast_recv :: "'a ec_scheme ec_callbacks \<Rightarrow> bytes \<Rightarrow> nat \<Rightarrow> 'a ec_scheme \<Rightarrow> 'a ec_scheme result" where
  "broadcast_recv cb fr datalen c =
     bindR (read_header fr) (\<lambda>p.
     bindR (frame_for_us (ec_node_addr c) p fr datalen) (\<lambda>us.
     case us of
       None \<Rightarrow> Inr c
     | Some (kind, off, data_len) \<Rightarrow>
         if IS_PACKET_FLAG_SET p ACK then ack_received Multicast_Unicast_Data_Timer p c
         else broadcast_data_received cb kind p (drop off fr) data_len c))"

subsection \<open>Queueing data\<close>

definition ec_reliable_broadcast_ns :: "rimeaddr \<Rightarrow> rimeaddr \<Rightarrow> byte \<Rightarrow> byte \<Rightarrow> bytes \<Rightarrow> byte
    \<Rightarrow> 'a ec_scheme \<Rightarrow> 'a ec_scheme result" where
  "ec_reliable_broadcast_ns originator sender hops seqno data data_len c =
     (case conn_ns c of
        None \<Rightarrow> Inl Null_Deref
      | Some ns \<Rightarrow>
          if neighbors_size ns > 0
          then
            (let bp = init_broadcast_packet 0 hops originator sender seqno in
             bindR (sq_broadcast_ns bp data data_len MSG_TYPE_NEIGHBOR_DATA c) (\<lambda>c.
             bindR (store_packet_for_dupe_checks bp c) (\<lambda>c.
             Inr (if ctimer_expired Neighbor_Data_Timer c
                  then set_timer_rand FAST_TRANSMIT Neighbor_Data_Timer c else c))))
          else Inr c)"

definition ec_broadcast :: "rimeaddr \<Rightarrow> rimeaddr \<Rightarrow> byte \<Rightarrow> byte \<Rightarrow> bytes \<Rightarrow> byte
    \<Rightarrow> 'a ec_scheme \<Rightarrow> 'a ec_scheme result" where
  "ec_broadcast originator sender hops seqno data data_len c =
     (let bp = init_broadcast_packet 0 hops originator sender seqno in
      bindR (sq_broadcast_ns bp data data_len MSG_TYPE_BROADCAST_DATA c) (\<lambda>c.
      bindR (store_packet_for_dupe_checks bp c) (\<lambda>c.
      Inr (if ctimer_expired Broadcast_Data_Timer c
           then set_timer_rand FAST_TRANSMIT Broadcast_Data_Timer c else c))))"

text \<open>The receivers come in a neighbor table of the caller, whose iterator the copying moves.\<close>

definition ec_reliable_multicast :: "neighbors \<Rightarrow> rimeaddr \<Rightarrow> rimeaddr \<Rightarrow> byte \<Rightarrow> byte \<Rightarrow> bytes \<Rightarrow> byte
    \<Rightarrow> 'a ec_scheme \<Rightarrow> 'a ec_scheme result" where
  "ec_reliable_multicast receivers originator sender hops seqno data data_len c =
     (let bp = init_broadcast_packet 0 hops originator sender seqno in
      bindR (sq_broadcast bp data data_len (Some receivers) MSG_TYPE_MULTICAST_UNICAST_DATA c) (\<lambda>(c, _).
      bindR (store_packet_for_dupe_checks bp c) (\<lambda>c.
      Inr (if ctimer_expired Multicast_Unicast_Data_Timer c
           then set_timer_rand FAST_TRANSMIT Multicast_Unicast_Data_Timer c else c))))"

text \<open>The table on the stack of \<open>ec_reliable_unicast\<close>, before \<open>neighbors_init\<close>.\<close>

definition stack_neighbors :: neighbors where
  "stack_neighbors = \<lparr>queue_size = 0, queue_max_size = 0,
     pool = replicate 8 \<lparr>qnext = None, qdata = neighbor_node_zero\<rparr>,
     unused_head = None, used_head = None, iterator = None\<rparr>"

definition ec_reliable_unicast :: "rimeaddr \<Rightarrow> rimeaddr \<Rightarrow> rimeaddr \<Rightarrow> byte \<Rightarrow> byte \<Rightarrow> bytes \<Rightarrow> byte
    \<Rightarrow> 'a ec_scheme \<Rightarrow> 'a ec_scheme result" where
  "ec_reliable_unicast destination originator sender hops seqno data data_len c =
     bindR (neighbors_init stack_neighbors) (\<lambda>ns.
     bindR (neighbors_add ns destination) (\<lambda>ns.
     ec_reliable_multicast ns originator sender hops seqno data data_len c))"

definition ec_mesh :: "rimeaddr \<Rightarrow> byte \<Rightarrow> bytes \<Rightarrow> byte \<Rightarrow> 'a ec_scheme \<Rightarrow> 'a ec_scheme result" where
  "ec_mesh destination seqno data data_len c =
     (let up = init_unicast_packet 0 0 rimeaddr_null rimeaddr_null seqno destination in
      bindR (sq_unicast up data data_len MSG_TYPE_MESH_DATA c) (\<lambda>c.
      Inr (if ctimer_expired Mesh_Data_Timer c
           then set_timer_rand MESH_TRANSMIT Mesh_Data_Timer c else c)))"

definition meshdata_recv :: "'a ec_scheme ec_callbacks \<Rightarrow> rimeaddr \<Rightarrow> byte \<Rightarrow> bytes \<Rightarrow> nat
    \<Rightarrow> 'a ec_scheme \<Rightarrow> 'a ec_scheme result" where
  "meshdata_recv cb from hops fr datalen c =
     bindR (read_mem fr 0 1) (\<lambda>h.
     cb_mesh cb c from hops (hd h) (drop MESH_PACKET_HDR_SIZE fr)
       (of_nat datalen - of_nat MESH_PACKET_HDR_SIZE))"

subsection \<open>The timesynch leader\<close>

definition timesynch_as_leader :: "'a ec_scheme ec_callbacks \<Rightarrow> 'a ec_scheme \<Rightarrow> 'a ec_scheme result" where
  "timesynch_as_leader cb c =
     (let me = ec_node_addr c;
          ts = set_authority_seqno (set_authority_level (ec_sync c) (timesynch_rimeaddr_to_authority me))
                 (ec_ts_seqno c);
          bp = init_broadcast_packet TIMESYNCH 0 me me (ec_ts_seqno c);
          c = c\<lparr>ec_sync := ts, ec_ts_seqno := ec_ts_seqno c + 1\<rparr>
      in bindR (sq_broadcast bp [] 0 None MSG_TYPE_TIMESYNCH_DATA c) (\<lambda>(c, _).
         let c = set_timer_rand FAST_TRANSMIT Timesynch_Data_Timer c;
             c = ctimer_set Ts_Timer TIMESYNCH_LEADER_UPDATE c
         in cb_timesynch cb c))"

text \<open>Passing a leader's packet on, one hop further, and waiting for its next one.\<close>

definition forward_timesynch :: "header \<Rightarrow> 'a ec_scheme \<Rightarrow> 'a ec_scheme result" where
  "forward_timesynch p c =
     (let bp = init_broadcast_packet TIMESYNCH (hdr_hops p + 1) (hdr_originator p) (ec_node_addr c)
                 (hdr_seqno p)
      in bindR (sq_broadcast bp [] 0 None MSG_TYPE_TIMESYNCH_DATA c) (\<lambda>(c, _).
         Inr (ctimer_set Ts_Timer TIMESYNCH_LEADER_TIMEOUT
               (set_timer_rand FAST_TRANSMIT Timesynch_Data_Timer c))))"

definition timesynch_recv :: "'a ec_scheme ec_callbacks \<Rightarrow> bytes \<Rightarrow> 'a ec_scheme \<Rightarrow> 'a ec_scheme result" where
  "timesynch_recv cb fr c =
     (if ec_ts_is_on c
      then
        bindR (read_header fr) (\<lambda>p.
        let authlevel = timesynch_rimeaddr_to_authority (hdr_originator p) in
        bindR (assertR (IS_PACKET_FLAG_SET p TIMESYNCH)) (\<lambda>_.
        if authlevel < authority_level (ec_sync c)
        then
          (let my_authlevel = timesynch_rimeaddr_to_authority (ec_node_addr c) in
           bindR (if my_authlevel < authlevel then timesynch_as_leader cb c
                  else forward_timesynch p (c\<lparr>ec_sync :=
                         set_authority_seqno (set_authority_level (ec_sync c) authlevel) (hdr_seqno p)\<rparr>))
             (\<lambda>c. cb_timesynch cb c))
        else if authlevel = authority_level (ec_sync c)
        then
          (if seqno_newer (hdr_seqno p) (authority_seqno (ec_sync c))
           then bindR (forward_timesynch p (c\<lparr>ec_sync := set_authority_seqno (ec_sync c) (hdr_seqno p)\<rparr>))
                  (\<lambda>c. cb_timesynch cb c)
           else if hdr_seqno p = authority_seqno (ec_sync c) then cb_timesynch cb c
           else Inr c)
        else Inr c))
      else Inr c)"

definition ec_timesynch_network :: "'a ec_scheme ec_callbacks \<Rightarrow> 'a ec_scheme \<Rightarrow> 'a ec_scheme result" where
  "ec_timesynch_network cb c =
     bindR (assertR (ec_ts_is_on c)) (\<lambda>_.
     if ctimer_expired Ts_Timer c then timesynch_as_leader cb c else Inr c)"

definition ec_timesynch_on :: "'a ec_scheme \<Rightarrow> 'a ec_scheme" where
  "ec_timesynch_on c =
     c\<lparr>ec_ts_is_on := True, ec_ts_seqno := 0,
       ec_sync := set_authority_seqno (set_authority_level (ec_sync c) AUTHORITY_LEVEL_MAX) 0\<rparr>"

definition ec_timesynch_off :: "'a ec_scheme \<Rightarrow> 'a ec_scheme" where
  "ec_timesynch_off c = (ctimer_stop Ts_Timer c)\<lparr>ec_ts_is_on := False\<rparr>"

subsection \<open>Opening and closing\<close>

definition ec_open :: "u16 \<Rightarrow> 'a ec_scheme \<Rightarrow> 'a ec_scheme result" where
  "ec_open data_channel c =
     (let ts = set_timesynch_channel (timesynch_init (ec_sync c)) (ucast (data_channel + 1));
          ch = (\<lambda>conn. Some (case conn of
                  Neighbor_Conn \<Rightarrow> data_channel
                | Timesynch_Conn \<Rightarrow> data_channel + 1
                | Broadcast_Conn \<Rightarrow> data_channel + 2
                | Meshdata_Conn \<Rightarrow> data_channel + 3))
      in bindR (queue_buffer_init (pool (pbuffer (ec_sq c))) (of_nat SENDING_QUEUE_LENGTH)) (\<lambda>b.
         bindR (queue_buffer_init (pool (ec_dq c)) (of_nat DUPE_QUEUE_LENGTH)) (\<lambda>dq.
         Inr (c\<lparr>ec_sync := ts, ec_channels := ch,
                ec_sq := packet_buffer_init ((ec_sq c)\<lparr>pbuffer := b\<rparr>),
                ec_dq := dq, ec_ts_is_on := False\<rparr>))))"

definition ec_close :: "'a ec_scheme \<Rightarrow> 'a ec_scheme" where
  "ec_close c = c\<lparr>ec_channels := (\<lambda>_. None)\<rparr>"

text \<open>The connection points to the node's table; the field \<open>ec_ns\<close> is that table.\<close>

definition ec_set_neighbors :: "'a ec_scheme \<Rightarrow> 'a ec_scheme" where
  "ec_set_neighbors c = c\<lparr>ec_ns_set := True\<rparr>"

subsection \<open>Timers that fire\<close>

text \<open>
  A callback timer expires and its function runs; \<open>ok\<close> is the answer of the radio or the mesh
  layer, should the function send.
\<close>

definition timer_fires :: "'a ec_scheme ec_callbacks \<Rightarrow> bool \<Rightarrow> ec_timer \<Rightarrow> 'a ec_scheme \<Rightarrow> 'a ec_scheme result" where
  "timer_fires cb ok tm c =
     (let c = ctimer_stop tm c in
      case tm of
        Neighbor_Ack_Timer \<Rightarrow> send_neighbor_ack ok c
      | Neighbor_Data_Timer \<Rightarrow> send_neighbor_data ok c
      | Broadcast_Data_Timer \<Rightarrow> send_broadcast_data ok c
      | Multicast_Unicast_Data_Timer \<Rightarrow> send_multicast_unicast_data ok c
      | Multicast_Unicast_Ack_Timer \<Rightarrow> send_multicast_unicast_ack ok c
      | Timesynch_Data_Timer \<Rightarrow> send_timesynch_data ok c
      | Mesh_Data_Timer \<Rightarrow> send_mesh_data ok c
      | Ts_Timer \<Rightarrow> timesynch_as_leader cb c)"

end
