(* ===== verification/Send_Laws.thy ===== *)
theory Send_Laws
  imports Emergency_Send
begin

text \<open>
  What a sending step does: on a well-formed connection it returns, keeps the connection well
  formed, touches only the lane it serves, leaves that lane's timer armed while packets wait,
  and hands exactly one frame to the radio, or none when the lane is empty.
\<close>

text \<open>The parts of the state that no sending step changes; timers are only ever set.\<close>

definition ec_frame :: "'a ec_scheme \<Rightarrow> 'a ec_scheme \<Rightarrow> bool" where
  "ec_frame c c' \<longleftrightarrow> ec_node_addr c' = ec_node_addr c \<and> ec_sync c' = ec_sync c \<and>
     ec_channels c' = ec_channels c \<and> ec_dq c' = ec_dq c \<and> ec_ns c' = ec_ns c \<and>
     ec_ns_set c' = ec_ns_set c \<and> ec_ts_seqno c' = ec_ts_seqno c \<and> ec_ts_is_on c' = ec_ts_is_on c \<and>
     ec_rands c' = ec_rands c \<and> ec.more c' = ec.more c \<and>
     (\<forall>tm. ec_timers c tm \<noteq> None \<longrightarrow> ec_timers c' tm \<noteq> None)"

definition sends :: "nat \<Rightarrow> packet_contents list \<Rightarrow> (ec_conn \<times> rimeaddr option \<times> bytes) list
    \<Rightarrow> 'a ec_scheme \<Rightarrow> 'a ec_scheme \<Rightarrow> bool" where
  "sends t ps frames c c' \<longleftrightarrow> ec_wf c' \<and> ec_frame c c' \<and> lane_armed c' t \<and> sq_effect t ps c c' \<and>
     ec_sent c' = ec_sent c @ frames"

lemma ec_frame_refl [simp]: "ec_frame c c"
  by (simp add: ec_frame_def)

lemma sends_empty: "ec_wf c \<Longrightarrow> lane_view c t = [] \<Longrightarrow> sends t [] [] c c"
  by (simp add: sends_def sq_effect_def lane_armed_def lane_view_Nil)

lemma set_timer_rand_eq:
  "\<exists>k d. set_timer_rand FAST_TRANSMIT t c = ctimer_set t d (c\<lparr>ec_rand_pos := k\<rparr>)"
  "\<exists>k d. set_timer_rand FAST_TRANSMIT_ACK t c = ctimer_set t d (c\<lparr>ec_rand_pos := k\<rparr>)"
  "\<exists>k d. set_timer_rand MESH_TRANSMIT t c = ctimer_set t d (c\<lparr>ec_rand_pos := k\<rparr>)"
  by (auto simp: set_timer_rand_def FAST_TRANSMIT_def FAST_TRANSMIT_ACK_def MESH_TRANSMIT_def
      random_rand_def)

text \<open>The end of every sending step: the queue is updated, the frame sent, a timer set.\<close>

lemma sends_timer:
  assumes wf: "ec_wf c" and pb: "sq_wf pb" and m: "length m = 128"
    and eff: "sq_effect t ps c (c\<lparr>ec_sq := pb\<rparr>)" and tm: "lane_timer t = Some tm"
    and c': "c' = ctimer_set tm d (c\<lparr>ec_sq := pb, ec_packetbuf := m, ec_datalen := n,
       ec_sent := ec_sent c @ frames, ec_rand_pos := k\<rparr>)"
  shows "sends t ps frames c c'"
proof -
  have "ec_wf c'" using ec_wfD [OF wf] pb m
    by (simp add: c' ctimer_set_def ec_wf_def DUPE_QUEUE_LENGTH_def PACKETBUF_SIZE_def)
  moreover have "ec_frame c c'" by (simp add: c' ec_frame_def ctimer_set_def)
  moreover have "lane_armed c' t" using tm by (simp add: c' lane_armed_def ctimer_set_def)
  moreover have "sq_effect t ps c c'"
    using eff by (simp add: c' sq_effect_def ctimer_set_def lane_view_def)
  ultimately show ?thesis by (simp add: sends_def c' ctimer_set_def)
qed

lemma sends_no_timer:
  assumes wf: "ec_wf c" and pb: "sq_wf pb" "pb_lane pb t = [] \<or> lane_timer t = None" and m: "length m = 128"
    and eff: "sq_effect t ps c (c\<lparr>ec_sq := pb\<rparr>)"
    and c': "c' = c\<lparr>ec_sq := pb, ec_packetbuf := m, ec_datalen := n, ec_sent := ec_sent c @ frames\<rparr>"
  shows "sends t ps frames c c'"
proof -
  have "ec_wf c'" using ec_wfD [OF wf] pb m
    by (simp add: c' ctimer_set_def ec_wf_def DUPE_QUEUE_LENGTH_def PACKETBUF_SIZE_def)
  moreover have "ec_frame c c'" by (simp add: c' ec_frame_def)
  moreover have "lane_armed c' t" using pb by (auto simp: c' lane_armed_def)
  moreover have "sq_effect t ps c c'"
    using eff by (simp add: c' sq_effect_def lane_view_def)
  ultimately show ?thesis by (simp add: sends_def c')
qed

subsection \<open>Packets that are sent once\<close>

lemma finish_once_sends:
  assumes wf: "ec_wf c0" and t: "t < 7" and tm: "lane_timer t = Some tm" and lane: "pb_lane (ec_sq c0) t = i # is"
    and c: "c = c0\<lparr>ec_packetbuf := m, ec_datalen := n, ec_sent := ec_sent c0 @ frames\<rparr>" and m: "length m = 128"
    and delay: "\<And>c :: 'a ec_scheme. \<exists>k d. set_timer_rand delay tm c = ctimer_set tm d (c\<lparr>ec_rand_pos := k\<rparr>)"
  shows "returns (finish_once ok t tm delay i c)
    (sends t (if ok then tl (lane_view c0 t) else lane_view c0 t) frames c0)"
proof (cases ok)
  case False
  obtain k d where r: "set_timer_rand delay tm c = ctimer_set tm d (c\<lparr>ec_rand_pos := k\<rparr>)"
    using delay by blast
  have eff: "sq_effect t (lane_view c0 t) c0 (c0\<lparr>ec_sq := ec_sq c0\<rparr>)" by (simp add: effect_refl)
  have "sends t (lane_view c0 t) frames c0 (set_timer_rand delay tm c)"
    by (rule sends_timer [OF wf ec_wfD(1) [OF wf] m eff tm, where d = d and n = n and k = k]) (simp add: r [unfolded c] c)
  with False show ?thesis by (simp add: finish_once_def)
next
  case True
  have sq: "sq_wf (ec_sq c)" "pb_lane (ec_sq c) t = i # is" using ec_wfD(1) [OF wf] lane c by simp_all
  obtain pb where pb: "sq_free i c = Inr (c\<lparr>ec_sq := pb\<rparr>)" "sq_wf pb" "pb_lane pb t = is"
    "sq_effect t (tl (lane_view c t)) c (c\<lparr>ec_sq := pb\<rparr>)"
    using sq_free_returns [OF sq(1) t sq(2)] by metis
  have eff: "sq_effect t (tl (lane_view c0 t)) c0 (c0\<lparr>ec_sq := pb\<rparr>)"
    using pb(4) by (simp add: c sq_effect_def lane_view_def)
  have fst: "first_of t (c\<lparr>ec_sq := pb\<rparr>) = (case is of [] \<Rightarrow> None | j # _ \<Rightarrow> Some j)"
    using first_head [of "c\<lparr>ec_sq := pb\<rparr>", OF _ t] pb(2,3) by simp
  show ?thesis
  proof (cases "is")
    case Nil
    have "sends t (tl (lane_view c0 t)) frames c0 (c\<lparr>ec_sq := pb\<rparr>)"
      by (rule sends_no_timer [OF wf pb(2) _ m eff, where n = n]) (use pb(3) Nil in \<open>simp_all add: c\<close>)
    with True Nil pb(1) fst show ?thesis by (simp add: finish_once_def)
  next
    case (Cons j js)
    obtain k d where r: "set_timer_rand delay tm (c\<lparr>ec_sq := pb\<rparr>) =
        ctimer_set tm d ((c\<lparr>ec_sq := pb\<rparr>)\<lparr>ec_rand_pos := k\<rparr>)"
      using delay by blast
    have "sends t (tl (lane_view c0 t)) frames c0 (set_timer_rand delay tm (c\<lparr>ec_sq := pb\<rparr>))"
      by (rule sends_timer [OF wf pb(2) m eff tm, where d = d and n = n and k = k])
         (use r in \<open>cases c0, simp add: c ctimer_set_def\<close>)
    with True Cons pb(1) fst show ?thesis by (simp add: finish_once_def)
  qed
qed

text \<open>The bytes of a queued packet, read from its cell.\<close>

lemma lane_head:
  assumes wf: "ec_wf c" and t: "t < 7" and v: "lane_view c t = (p, l, n, u) # ps"
  obtains i "is" bp where "first_of t c = Some i" and "pb_lane (ec_sq c) t = i # is"
    and "get_packet (ec_sq c) i = Inr bp" and "cell_ok bp" and "lane_ok t bp"
    and "bp_p bp = p" and "bp_data_len bp = l" and "times_sent bp = n" and "items (unacked_ns bp) = u"
    and "length p = 39" and "unat l \<le> 24" and "bp = payload (pbuffer (ec_sq c)) ! i"
    and "unlinked bp = packet_at (ec_sq c) i"
proof -
  from v obtain i "is" where lane: "pb_lane (ec_sq c) t = i # is"
    "packet_view (packet_at (ec_sq c) i) = (p, l, n, u)"
    by (auto simp: lane_view_def)
  have i: "i \<in> set (pb_lane (ec_sq c) t)" using lane(1) by simp
  note sq = ec_wfD(1) [OF wf]
  obtain bp where bp: "get_packet (ec_sq c) i = Inr bp" "cell_ok bp" "unlinked bp = packet_at (ec_sq c) i"
    "lane_ok t bp" "bp = payload (pbuffer (ec_sq c)) ! i"
    using sq_cell [OF sq t i] .
  have vw: "packet_view bp = (p, l, n, u)" using lane(2) bp(3) by (metis packet_view_unlinked)
  have "first_of t c = Some i" using first_head [OF sq t] lane(1) by simp
  with that [OF _ lane(1) bp(1,2,4)] vw bp show ?thesis
    by (simp add: packet_view_def cell_ok_def lane_ok_def PACKET_MEM_def)
qed

lemma no_lane: "ec_wf c \<Longrightarrow> t < 7 \<Longrightarrow> lane_view c t = [] \<Longrightarrow> first_of t c = None"
  using first_none [of c t, OF ec_wfD(1)] by (simp add: lane_view_Nil)

definition once_frame :: "ec_conn \<Rightarrow> packet_contents list \<Rightarrow> (packet_contents \<Rightarrow> nat)
    \<Rightarrow> (ec_conn \<times> rimeaddr option \<times> bytes) list" where
  "once_frame conn ps len = (case ps of [] \<Rightarrow> [] | p # _ \<Rightarrow> [(conn, None, take (len p) (fst p))])"

lemma once_sends:
  assumes wf: "ec_wf c" and t: "t < 7" and tm: "lane_timer t = Some tm" and lane: "pb_lane (ec_sq c) t = i # is"
    and p: "length p = 39" and k: "k \<le> 39"
    and delay: "\<And>c :: 'a ec_scheme. \<exists>k d. set_timer_rand delay tm c = ctimer_set tm d (c\<lparr>ec_rand_pos := k\<rparr>)"
  shows "returns (finish_once ok t tm delay i
      (abc_send conn (c\<lparr>ec_datalen := k, ec_packetbuf := take k p @ drop k (ec_packetbuf c)\<rparr>)))
    (sends t (if ok then tl (lane_view c t) else lane_view c t) [(conn, None, take k p)] c)"
  by (rule finish_once_sends [OF wf t tm lane _ _ delay, where n = k and m = "take k p @ drop k (ec_packetbuf c)"])
     (use p k ec_wfD(6) [OF wf] in \<open>simp_all add: abc_send_def\<close>)

lemma once_frame_Nil [simp]: "once_frame conn [] len = []"
  by (simp add: once_frame_def)

lemma once_frame_Cons [simp]: "once_frame conn ((p, x) # ps) len = [(conn, None, take (len (p, x)) p)]"
  by (simp add: once_frame_def)

lemma header_copy:
  assumes wf: "ec_wf c" and p: "length p = 39" and k: "k \<le> 39"
  shows "read_mem p 0 k = Inr (take k p)"
    and "packetbuf_write 0 (take k p) (packetbuf_set_datalen k (packetbuf_clear c)) =
      Inr (c\<lparr>ec_datalen := k, ec_packetbuf := take k p @ drop k (ec_packetbuf c)\<rparr>)"
  using packetbuf_write_ok [of 0 "take k p" "packetbuf_set_datalen k (packetbuf_clear c)"] p k ec_wfD(6) [OF wf]
  by (simp_all add: read_mem_def packetbuf_set_datalen_def packetbuf_clear_def)

lemma send_neighbor_ack_sends:
  assumes wf: "ec_wf c"
  shows "returns (send_neighbor_ack ok c) (sends MSG_TYPE_NEIGHBOR_ACK
    (if ok then tl (lane_view c MSG_TYPE_NEIGHBOR_ACK) else lane_view c MSG_TYPE_NEIGHBOR_ACK)
    (once_frame Neighbor_Conn (lane_view c MSG_TYPE_NEIGHBOR_ACK) (\<lambda>_. 9)) c)"
proof (cases "lane_view c MSG_TYPE_NEIGHBOR_ACK")
  case Nil
  from no_lane [OF wf _ Nil] sends_empty [OF wf Nil] Nil show ?thesis
    by (simp add: send_neighbor_ack_def msg_type_defs)
next
  case (Cons v ps)
  have t: "MSG_TYPE_NEIGHBOR_ACK < 7" by (simp add: msg_type_defs)
  obtain p l n u where v: "lane_view c MSG_TYPE_NEIGHBOR_ACK = (p, l, n, u) # ps" using Cons by (cases v) auto
  obtain i "is" bp where i: "first_of MSG_TYPE_NEIGHBOR_ACK c = Some i"
    "pb_lane (ec_sq c) MSG_TYPE_NEIGHBOR_ACK = i # is" "get_packet (ec_sq c) i = Inr bp" "bp_p bp = p"
    "length p = 39"
    using lane_head [OF wf t v] by metis
  have "returns (finish_once ok MSG_TYPE_NEIGHBOR_ACK Neighbor_Ack_Timer FAST_TRANSMIT_ACK i
      (abc_send Neighbor_Conn (c\<lparr>ec_datalen := 9, ec_packetbuf := take 9 p @ drop 9 (ec_packetbuf c)\<rparr>)))
    (sends MSG_TYPE_NEIGHBOR_ACK (if ok then tl (lane_view c MSG_TYPE_NEIGHBOR_ACK) else lane_view c MSG_TYPE_NEIGHBOR_ACK)
       [(Neighbor_Conn, None, take 9 p)] c)"
    by (rule once_sends [OF wf t _ i(2,5) _ set_timer_rand_eq(2)]) (simp_all add: lane_timer_def msg_type_defs)
  then show ?thesis using i header_copy [OF wf i(5), of 9] v
    by (simp add: send_neighbor_ack_def Let_def UNICAST_PACKET_HDR_SIZE_def)
qed

lemma send_multicast_unicast_ack_sends:
  assumes wf: "ec_wf c"
  shows "returns (send_multicast_unicast_ack ok c) (sends MSG_TYPE_MULTICAST_UNICAST_ACK
    (if ok then tl (lane_view c MSG_TYPE_MULTICAST_UNICAST_ACK) else lane_view c MSG_TYPE_MULTICAST_UNICAST_ACK)
    (once_frame Broadcast_Conn (lane_view c MSG_TYPE_MULTICAST_UNICAST_ACK) (\<lambda>_. 9)) c)"
proof (cases "lane_view c MSG_TYPE_MULTICAST_UNICAST_ACK")
  case Nil
  from no_lane [OF wf _ Nil] sends_empty [OF wf Nil] Nil show ?thesis
    by (simp add: send_multicast_unicast_ack_def msg_type_defs)
next
  case (Cons v ps)
  have t: "MSG_TYPE_MULTICAST_UNICAST_ACK < 7" by (simp add: msg_type_defs)
  obtain p l n u where v: "lane_view c MSG_TYPE_MULTICAST_UNICAST_ACK = (p, l, n, u) # ps" using Cons by (cases v) auto
  obtain i "is" bp where i: "first_of MSG_TYPE_MULTICAST_UNICAST_ACK c = Some i"
    "pb_lane (ec_sq c) MSG_TYPE_MULTICAST_UNICAST_ACK = i # is" "get_packet (ec_sq c) i = Inr bp" "bp_p bp = p"
    "length p = 39"
    using lane_head [OF wf t v] by metis
  have "returns (finish_once ok MSG_TYPE_MULTICAST_UNICAST_ACK Multicast_Unicast_Ack_Timer FAST_TRANSMIT_ACK i
      (abc_send Broadcast_Conn (c\<lparr>ec_datalen := 9, ec_packetbuf := take 9 p @ drop 9 (ec_packetbuf c)\<rparr>)))
    (sends MSG_TYPE_MULTICAST_UNICAST_ACK (if ok then tl (lane_view c MSG_TYPE_MULTICAST_UNICAST_ACK)
       else lane_view c MSG_TYPE_MULTICAST_UNICAST_ACK) [(Broadcast_Conn, None, take 9 p)] c)"
    by (rule once_sends [OF wf t _ i(2,5) _ set_timer_rand_eq(2)]) (simp_all add: lane_timer_def msg_type_defs)
  then show ?thesis using i header_copy [OF wf i(5), of 9] v
    by (simp add: send_multicast_unicast_ack_def Let_def UNICAST_PACKET_HDR_SIZE_def)
qed

lemma send_timesynch_data_sends:
  assumes wf: "ec_wf c"
  shows "returns (send_timesynch_data ok c) (sends MSG_TYPE_TIMESYNCH_DATA
    (if ok then tl (lane_view c MSG_TYPE_TIMESYNCH_DATA) else lane_view c MSG_TYPE_TIMESYNCH_DATA)
    (once_frame Timesynch_Conn (lane_view c MSG_TYPE_TIMESYNCH_DATA) (\<lambda>_. 7)) c)"
proof (cases "lane_view c MSG_TYPE_TIMESYNCH_DATA")
  case Nil
  from no_lane [OF wf _ Nil] sends_empty [OF wf Nil] Nil show ?thesis
    by (simp add: send_timesynch_data_def msg_type_defs)
next
  case (Cons v ps)
  have t: "MSG_TYPE_TIMESYNCH_DATA < 7" by (simp add: msg_type_defs)
  obtain p l n u where v: "lane_view c MSG_TYPE_TIMESYNCH_DATA = (p, l, n, u) # ps" using Cons by (cases v) auto
  obtain i "is" bp where i: "first_of MSG_TYPE_TIMESYNCH_DATA c = Some i"
    "pb_lane (ec_sq c) MSG_TYPE_TIMESYNCH_DATA = i # is" "get_packet (ec_sq c) i = Inr bp" "bp_p bp = p"
    "length p = 39"
    using lane_head [OF wf t v] by metis
  have "returns (finish_once ok MSG_TYPE_TIMESYNCH_DATA Timesynch_Data_Timer FAST_TRANSMIT i
      (abc_send Timesynch_Conn (c\<lparr>ec_datalen := 7, ec_packetbuf := take 7 p @ drop 7 (ec_packetbuf c)\<rparr>)))
    (sends MSG_TYPE_TIMESYNCH_DATA (if ok then tl (lane_view c MSG_TYPE_TIMESYNCH_DATA)
       else lane_view c MSG_TYPE_TIMESYNCH_DATA) [(Timesynch_Conn, None, take 7 p)] c)"
    by (rule once_sends [OF wf t _ i(2,5) _ set_timer_rand_eq(1)]) (simp_all add: lane_timer_def msg_type_defs)
  then show ?thesis using i header_copy [OF wf i(5), of 7] v
    by (simp add: send_timesynch_data_def Let_def BROADCAST_PACKET_HDR_SIZE_def)
qed

lemma send_broadcast_data_sends:
  assumes wf: "ec_wf c"
  shows "returns (send_broadcast_data ok c) (sends MSG_TYPE_BROADCAST_DATA
    (if ok then tl (lane_view c MSG_TYPE_BROADCAST_DATA) else lane_view c MSG_TYPE_BROADCAST_DATA)
    (once_frame Broadcast_Conn (lane_view c MSG_TYPE_BROADCAST_DATA) (\<lambda>(_, l, _, _). 7 + unat l)) c)"
proof (cases "lane_view c MSG_TYPE_BROADCAST_DATA")
  case Nil
  from no_lane [OF wf _ Nil] sends_empty [OF wf Nil] Nil show ?thesis
    by (simp add: send_broadcast_data_def msg_type_defs)
next
  case (Cons v ps)
  have t: "MSG_TYPE_BROADCAST_DATA < 7" by (simp add: msg_type_defs)
  obtain p l n u where v: "lane_view c MSG_TYPE_BROADCAST_DATA = (p, l, n, u) # ps" using Cons by (cases v) auto
  obtain i "is" bp where i: "first_of MSG_TYPE_BROADCAST_DATA c = Some i"
    "pb_lane (ec_sq c) MSG_TYPE_BROADCAST_DATA = i # is" "get_packet (ec_sq c) i = Inr bp" "bp_p bp = p"
    "length p = 39" "bp_data_len bp = l" "unat l \<le> 24"
    using lane_head [OF wf t v] by metis
  let ?k = "7 + unat l" and ?c = "packetbuf_clear c"
  have buf: "length (ec_packetbuf c) = 128" using ec_wfD(6) [OF wf] .
  have "returns (finish_once ok MSG_TYPE_BROADCAST_DATA Broadcast_Data_Timer FAST_TRANSMIT i
      (abc_send Broadcast_Conn (c\<lparr>ec_datalen := ?k, ec_packetbuf := take ?k p @ drop ?k (ec_packetbuf c)\<rparr>)))
    (sends MSG_TYPE_BROADCAST_DATA (if ok then tl (lane_view c MSG_TYPE_BROADCAST_DATA)
       else lane_view c MSG_TYPE_BROADCAST_DATA) [(Broadcast_Conn, None, take ?k p)] c)"
    by (rule once_sends [OF wf t _ i(2,5) _ set_timer_rand_eq(1)])
       (use i(7) in \<open>simp_all add: lane_timer_def msg_type_defs\<close>)
  moreover have "packetbuf_set_datalen ?k ?c = c\<lparr>ec_datalen := ?k\<rparr>"
    using i(7) by (simp add: packetbuf_set_datalen_def packetbuf_clear_def)
  moreover have "packetbuf_write 0 (take 7 p) (c\<lparr>ec_datalen := ?k\<rparr>) =
      Inr (c\<lparr>ec_datalen := ?k, ec_packetbuf := take 7 p @ drop 7 (ec_packetbuf c)\<rparr>)"
    using buf i(5) by (simp add: packetbuf_write_ok)
  moreover have "packetbuf_write 7 (take (unat l) (drop 7 p))
      (c\<lparr>ec_datalen := ?k, ec_packetbuf := take 7 p @ drop 7 (ec_packetbuf c)\<rparr>) =
      Inr (c\<lparr>ec_datalen := ?k, ec_packetbuf := take ?k p @ drop ?k (ec_packetbuf c)\<rparr>)"
    using buf i(5,7) take_add [of 7 "unat l" p] by (simp add: packetbuf_write_ok add.commute [of "unat l" 7])
  moreover have "read_mem p 0 7 = Inr (take 7 p)" "read_mem p 7 (unat l) = Inr (take (unat l) (drop 7 p))"
    using i(5,7) by (simp_all add: read_mem_def)
  ultimately show ?thesis using i v
    by (simp add: send_broadcast_data_def Let_def BROADCAST_PACKET_HDR_SIZE_def)
qed

subsection \<open>Packets that are sent until they are acknowledged\<close>

text \<open>The lane after its first packet was sent: counted if the radio took it.\<close>

fun counted :: "bool \<Rightarrow> packet_contents list \<Rightarrow> packet_contents list" where
  "counted ok [] = []"
| "counted ok ((p, l, n, u) # ps) = (p, l, if ok then n + 1 else n, u) # ps"

lemma increment_law:
  assumes wf: "sq_wf (ec_sq c)" and t: "t < 7" and lane: "pb_lane (ec_sq c) t = i # is"
  obtains bp pb where "get_packet (ec_sq c) i = Inr bp"
    and "sq_set i (packet_buffer_increment_times_sent bp) c = Inr (c\<lparr>ec_sq := pb\<rparr>)" and "sq_wf pb"
    and "sq_effect t (counted True (lane_view c t)) c (c\<lparr>ec_sq := pb\<rparr>)"
    and "\<forall>u < 7. pb_lane pb u = pb_lane (ec_sq c) u"
proof -
  have i: "i \<in> set (pb_lane (ec_sq c) t)" using lane by simp
  obtain bp where bp: "get_packet (ec_sq c) i = Inr bp" "cell_ok bp" "unlinked bp = packet_at (ec_sq c) i"
    "lane_ok t bp" "bp = payload (pbuffer (ec_sq c)) ! i" using sq_cell [OF wf t i] .
  let ?b = "packet_buffer_increment_times_sent bp"
  obtain pb where pb: "set_packet (ec_sq c) i ?b = Inr pb" "sq_wf pb"
    "\<forall>u < 7. pb_lane pb u = pb_lane (ec_sq c) u" "packet_at pb i = unlinked ?b"
    "\<forall>j. j \<noteq> i \<longrightarrow> packet_at pb j = packet_at (ec_sq c) j"
    by (rule set_packet_wf [OF wf t i, of ?b])
       (use bp in \<open>simp_all add: packet_buffer_increment_times_sent_def cell_ok_def lane_ok_def\<close>)
  have other: "lane_view (c\<lparr>ec_sq := pb\<rparr>) u = lane_view c u" if "u < 7" "u \<noteq> t" for u
  proof -
    have "i \<notin> set (pb_lane (ec_sq c) u)"
      using lane_disjoint [OF sq_wfD(1) [OF wf] that(1) t _ i] that(2) by blast
    with pb(3,5) that show ?thesis by (auto simp: lane_view_def)
  qed
  have "distinct (i # is)" using chain_distinct [OF pb_wfD(5) [OF sq_wfD(1) [OF wf] t]] lane by simp
  then have "map (\<lambda>j. packet_view (packet_at pb j)) is = map (\<lambda>j. packet_view (packet_at (ec_sq c) j)) is"
    using pb(5) by auto
  moreover have "packet_view (packet_at (ec_sq c) i) = (bp_p bp, bp_data_len bp, times_sent bp, items (unacked_ns bp))"
    using bp(3) by (metis packet_view_def packet_view_unlinked)
  ultimately have "lane_view (c\<lparr>ec_sq := pb\<rparr>) t = counted True (lane_view c t)"
    using pb(3,4) lane t
    by (simp add: lane_view_def packet_buffer_increment_times_sent_def packet_view_def del: map_eq_conv)
  with that [of bp pb] bp(1) pb other show ?thesis by (simp add: sq_set_def sq_effect_def)
qed

lemma counted_False [simp]: "counted False ps = ps"
  by (cases "(False, ps)" rule: counted.cases) auto

text \<open>What follows \<open>abc_send\<close> in the two functions.\<close>

lemma resend_sends:
  assumes wf: "ec_wf c0" and t: "t < 7" and tm: "lane_timer t = Some tm"
    and pb: "sq_wf pb" "pb_lane pb t = i # is" and eff: "sq_effect t ps c0 (c0\<lparr>ec_sq := pb\<rparr>)"
    and m: "length m = 128"
    and c: "c = c0\<lparr>ec_datalen := n, ec_sq := pb, ec_packetbuf := m, ec_sent := ec_sent c0 @ frames\<rparr>"
  shows "returns (if \<not> ok then Inr (set_timer_rand FAST_TRANSMIT tm c)
      else bindR (get_packet (ec_sq c) i) (\<lambda>bp.
           bindR (sq_set i (packet_buffer_increment_times_sent bp) c) (\<lambda>c. Inr (ctimer_set tm d c))))
    (sends t (counted ok ps) frames c0)"
proof (cases ok)
  case False
  obtain k e where r: "set_timer_rand FAST_TRANSMIT tm c = ctimer_set tm e (c\<lparr>ec_rand_pos := k\<rparr>)"
    using set_timer_rand_eq(1) by blast
  have "sends t ps frames c0 (set_timer_rand FAST_TRANSMIT tm c)"
    by (rule sends_timer [OF wf pb(1) m eff tm, where d = e and n = n and k = k])
       (use r in \<open>cases c0, simp add: c ctimer_set_def\<close>)
  with False show ?thesis by simp
next
  case True
  have sq: "sq_wf (ec_sq c)" "pb_lane (ec_sq c) t = i # is" using pb c by simp_all
  obtain bp pb' where b: "get_packet (ec_sq c) i = Inr bp"
    "sq_set i (packet_buffer_increment_times_sent bp) c = Inr (c\<lparr>ec_sq := pb'\<rparr>)" "sq_wf pb'"
    "sq_effect t (counted True (lane_view c t)) c (c\<lparr>ec_sq := pb'\<rparr>)"
    using increment_law [OF sq(1) t sq(2)] by metis
  have "lane_view c t = ps" using eff by (simp add: c sq_effect_def lane_view_def)
  then have eff': "sq_effect t (counted True ps) c0 (c0\<lparr>ec_sq := pb'\<rparr>)"
    using b(4) eff by (simp add: c sq_effect_def lane_view_def)
  have "sends t (counted True ps) frames c0 (ctimer_set tm d (c\<lparr>ec_sq := pb'\<rparr>))"
    by (rule sends_timer [OF wf b(3) m eff' tm, where d = d and n = n and k = "ec_rand_pos c0"])
       (cases c0, simp add: c ctimer_set_def)
  with True b show ?thesis by simp
qed

lemma send_multicast_unicast_data_sends:
  assumes wf: "ec_wf c"
  shows "returns (send_multicast_unicast_data ok c) (sends MSG_TYPE_MULTICAST_UNICAST_DATA
    (counted ok (lane_view c MSG_TYPE_MULTICAST_UNICAST_DATA))
    (case lane_view c MSG_TYPE_MULTICAST_UNICAST_DATA of [] \<Rightarrow> []
     | (p, l, _, u) # _ \<Rightarrow> [(Broadcast_Conn, None, targeted_frame (header_of p) (take (unat l) (drop 7 p)) u)]) c)"
proof (cases "lane_view c MSG_TYPE_MULTICAST_UNICAST_DATA")
  case Nil
  from no_lane [OF wf _ Nil] sends_empty [OF wf Nil] Nil show ?thesis
    by (simp add: send_multicast_unicast_data_def msg_type_defs)
next
  case (Cons v ps)
  have t: "MSG_TYPE_MULTICAST_UNICAST_DATA < 7" by (simp add: msg_type_defs)
  obtain p l n u where v: "lane_view c MSG_TYPE_MULTICAST_UNICAST_DATA = (p, l, n, u) # ps" using Cons by (cases v) auto
  obtain i "is" bp where i: "first_of MSG_TYPE_MULTICAST_UNICAST_DATA c = Some i"
    "pb_lane (ec_sq c) MSG_TYPE_MULTICAST_UNICAST_DATA = i # is" "get_packet (ec_sq c) i = Inr bp"
    "lane_ok MSG_TYPE_MULTICAST_UNICAST_DATA bp" "bp_p bp = p" "bp_data_len bp = l"
    "items (unacked_ns bp) = u" "length p = 39" "bp = payload (pbuffer (ec_sq c)) ! i"
    using lane_head [OF wf t v] by metis
  let ?c = "packetbuf_clear c"
  have sq: "sq_wf (ec_sq ?c)" "ec_sq ?c = ec_sq c" "length (ec_packetbuf ?c) = 128"
    using ec_wfD [OF wf] by (simp_all add: packetbuf_clear_def)
  have u: "items (unacked_ns bp) \<noteq> []" using i(4) by (simp add: lane_ok_def)
  obtain pb m k where mk: "make_targeted p i bp ?c = Inr (?c\<lparr>ec_sq := pb, ec_packetbuf := m, ec_datalen := k\<rparr>)"
     "sq_wf pb" "same_views (ec_sq c) pb" "length m = 128"
     "take k m = targeted_frame (header_of p) (take (unat l) (drop 7 p)) u"
    using make_targeted_returns [OF sq(1,3) t, of i bp p] i u sq(2) by (auto simp: PACKET_MEM_def)
  let ?fr = "[(Broadcast_Conn, None, take k m)]"
  let ?c1 = "c\<lparr>ec_datalen := k, ec_sq := pb, ec_packetbuf := m, ec_sent := ec_sent c @ ?fr\<rparr>"
  have c1: "abc_send Broadcast_Conn (?c\<lparr>ec_sq := pb, ec_packetbuf := m, ec_datalen := k\<rparr>) = ?c1"
    by (cases c) (simp add: abc_send_def packetbuf_clear_def)
  have lane: "pb_lane pb MSG_TYPE_MULTICAST_UNICAST_DATA = i # is"
    using mk(3) i(2) t by (simp add: same_views_def)
  have tm: "lane_timer MSG_TYPE_MULTICAST_UNICAST_DATA = Some Multicast_Unicast_Data_Timer"
    by (simp add: lane_timer_def msg_type_defs)
  note fin = resend_sends [OF wf t tm mk(2) lane same_views_effect [OF mk(3) t] mk(4) refl,
      where n = k and frames = ?fr and ok = ok and d = RETRANSMIT_MULTICAST_UNICAST_DATA]
  have "send_multicast_unicast_data ok c = (if \<not> ok then Inr (set_timer_rand FAST_TRANSMIT Multicast_Unicast_Data_Timer ?c1)
      else bindR (get_packet (ec_sq ?c1) i) (\<lambda>bp.
           bindR (sq_set i (packet_buffer_increment_times_sent bp) ?c1) (\<lambda>c.
           Inr (ctimer_set Multicast_Unicast_Data_Timer RETRANSMIT_MULTICAST_UNICAST_DATA c))))"
    using i(1,3,5) mk(1) by (simp add: send_multicast_unicast_data_def Let_def c1)
  with fin v mk(5) show ?thesis by simp
qed

text \<open>
  The frame of \<open>send_neighbor_data\<close>: \<open>p0\<close> is the first packet of the lane before the exhausted ones
  are dropped, the rest comes from the first packet that is left.
\<close>

definition neighbor_frame :: "bytes \<Rightarrow> packet_contents \<Rightarrow> bytes" where
  "neighbor_frame p0 v = (case v of (_, l, n, u) \<Rightarrow>
     if n > 0 then targeted_frame (header_of p0) (take (unat l) (drop 7 p0)) u else take (7 + unat l) p0)"

lemma dropped_wf:
  assumes wf: "ec_wf c" and d: "dropped t limit c pb r"
  shows "ec_wf (c\<lparr>ec_sq := pb\<rparr>)" and "lane_view (c\<lparr>ec_sq := pb\<rparr>) t = live limit (lane_view c t)"
    and "sq_wf pb"
  using d ec_wfD [OF wf] by (simp_all add: dropped_def ec_wf_def sq_effect_def DUPE_QUEUE_LENGTH_def PACKETBUF_SIZE_def)

lemma cell_view:
  assumes "sq_wf pb" and "i < length (pool (pbuffer pb))" and "packet_view (packet_at pb i) = (p, l, n, u)"
  obtains bp where "get_packet pb i = Inr bp" and "bp_p bp = p" and "cell_ok bp"
  using get_packet_used [OF sq_wfD(1) [OF assms(1)] assms(2)] assms(3)
  by (auto simp: packet_at_def packet_view_def)

text \<open>The choice of the frame, on the packet that is left.\<close>

lemma neighbor_frame_returns:
  assumes wf: "ec_wf c" and v: "lane_view c MSG_TYPE_NEIGHBOR_DATA = (p, l, n, u) # ps"
    and lane: "pb_lane (ec_sq c) MSG_TYPE_NEIGHBOR_DATA = i # is"
    and bp: "get_packet (ec_sq c) i = Inr bp" and p0: "length p0 = 39"
    and flag: "IS_PACKET_FLAG_SET (header_of p0) BROADCAST"
  obtains pb m k where "make_neighbor_frame p0 i bp (packetbuf_clear c) =
     Inr (c\<lparr>ec_datalen := k, ec_sq := pb, ec_packetbuf := m\<rparr>)"
    and "sq_wf pb" and "same_views (ec_sq c) pb" and "length m = 128"
    and "take k m = neighbor_frame p0 (p, l, n, u)"
proof -
  have t: "MSG_TYPE_NEIGHBOR_DATA < 7" by (simp add: msg_type_defs)
  obtain i' is' bp' where i: "pb_lane (ec_sq c) MSG_TYPE_NEIGHBOR_DATA = i' # is'"
    "get_packet (ec_sq c) i' = Inr bp'" "lane_ok MSG_TYPE_NEIGHBOR_DATA bp'" "bp_data_len bp' = l"
    "times_sent bp' = n" "items (unacked_ns bp') = u" "unat l \<le> 24" "bp' = payload (pbuffer (ec_sq c)) ! i'"
    using lane_head [OF wf t v] by metis
  have same: "i' = i" "bp' = bp" using i(1,2) lane bp by auto
  let ?c = "packetbuf_clear c"
  have sq: "sq_wf (ec_sq ?c)" "ec_sq ?c = ec_sq c" "length (ec_packetbuf ?c) = 128" "length (ec_packetbuf c) = 128"
    using ec_wfD [OF wf] by (simp_all add: packetbuf_clear_def)
  show ?thesis
  proof (cases "n > 0")
    case True
    have u: "items (unacked_ns bp) \<noteq> []" using i(3) same by (simp add: lane_ok_def)
    obtain pb m k where mk: "make_targeted p0 i bp ?c = Inr (?c\<lparr>ec_sq := pb, ec_packetbuf := m, ec_datalen := k\<rparr>)"
       "sq_wf pb" "same_views (ec_sq c) pb" "length m = 128"
       "take k m = targeted_frame (header_of p0) (take (unat l) (drop 7 p0)) u"
      using make_targeted_returns [OF sq(1,3) t, of i bp p0] i same u sq(2) p0 by (auto simp: PACKET_MEM_def)
    have "?c\<lparr>ec_sq := pb, ec_packetbuf := m, ec_datalen := k\<rparr> = c\<lparr>ec_datalen := k, ec_sq := pb, ec_packetbuf := m\<rparr>"
      by (cases c) (simp add: packetbuf_clear_def)
    with mk True i(5) same flag that [where pb = pb and m = m and k = k] show ?thesis
      by (simp add: neighbor_frame_def make_neighbor_frame_def)
  next
    case False
    let ?len = "of_nat BROADCAST_PACKET_HDR_SIZE + bp_data_len bp :: byte"
    have len: "unat ?len = 7 + unat l"
      using i(4,7) same by (simp add: BROADCAST_PACKET_HDR_SIZE_def unat_word_ariths)
    let ?k = "7 + unat l" and ?m = "take (7 + unat l) p0 @ drop (7 + unat l) (ec_packetbuf c)"
    have hc: "packetbuf_write 0 (take ?k p0) (packetbuf_set_datalen ?k ?c) =
        Inr (c\<lparr>ec_datalen := ?k, ec_packetbuf := ?m\<rparr>)" and rd: "read_mem p0 0 ?k = Inr (take ?k p0)"
      using header_copy [OF wf p0, of ?k] i(7) by simp_all
    have eq: "c\<lparr>ec_datalen := ?k, ec_packetbuf := ?m\<rparr> =
        c\<lparr>ec_datalen := ?k, ec_sq := ec_sq c, ec_packetbuf := ?m\<rparr>" by (cases c) simp
    note w = trans [OF hc arg_cong [OF eq, of Inr]]
    show ?thesis
      using w rd that [where pb = "ec_sq c" and m = ?m and k = ?k] False i(5,7) same len sq p0 flag
      by (simp add: neighbor_frame_def make_neighbor_frame_def)
  qed
qed

lemma send_neighbor_data_sends:
  assumes wf: "ec_wf c"
  shows "returns (send_neighbor_data ok c)
    (let vs = lane_view c MSG_TYPE_NEIGHBOR_DATA; ps = live MAX_TIMES_SENT_MESH vs in
     sends MSG_TYPE_NEIGHBOR_DATA (counted ok ps)
       (case ps of [] \<Rightarrow> [] | v # _ \<Rightarrow> [(Neighbor_Conn, None, neighbor_frame (fst (hd vs)) v)]) c)"
proof (cases "lane_view c MSG_TYPE_NEIGHBOR_DATA")
  case Nil
  from no_lane [OF wf _ Nil] sends_empty [OF wf Nil] Nil show ?thesis
    by (simp add: send_neighbor_data_def msg_type_defs live_def)
next
  case (Cons v0 ps0)
  have t: "MSG_TYPE_NEIGHBOR_DATA < 7" by (simp add: msg_type_defs)
  obtain p0 l0 n0 u0 where v0: "lane_view c MSG_TYPE_NEIGHBOR_DATA = (p0, l0, n0, u0) # ps0" using Cons by (cases v0) auto
  obtain j js b0 where j: "first_of MSG_TYPE_NEIGHBOR_DATA c = Some j"
    "pb_lane (ec_sq c) MSG_TYPE_NEIGHBOR_DATA = j # js" "lane_ok MSG_TYPE_NEIGHBOR_DATA b0" "bp_p b0 = p0"
    "length p0 = 39" "unlinked b0 = packet_at (ec_sq c) j"
    using lane_head [OF wf t v0] by metis
  have flag: "IS_PACKET_FLAG_SET (header_of p0) BROADCAST"
    using j(3,4) by (simp add: lane_ok_def lane_flags_eq IS_PACKET_FLAG_SET_def)
  note pw = sq_wfD(1) [OF ec_wfD(1) [OF wf]]
  have "length (j # js) \<le> length (pool (pbuffer (ec_sq c)))"
    using chain_length [OF pb_wfD(5) [OF pw t]] j(2) by simp
  then have fuel: "length js < sq_fuel c" by (simp add: sq_fuel_def)
  obtain pb r where d: "drop_neighbor_loop (sq_fuel c) c j = Inr (c\<lparr>ec_sq := pb\<rparr>, r)"
    "dropped MSG_TYPE_NEIGHBOR_DATA MAX_TIMES_SENT_MESH c pb r"
    using drop_neighbor_returns [OF ec_wfD(1) [OF wf] j(2) fuel] by blast
  let ?c = "c\<lparr>ec_sq := pb\<rparr>" and ?ps = "live MAX_TIMES_SENT_MESH (lane_view c MSG_TYPE_NEIGHBOR_DATA)"
  note dw = dropped_wf [OF wf d(2)]
  have eff: "sq_effect MSG_TYPE_NEIGHBOR_DATA ?ps c ?c" using d(2) by (simp add: dropped_def)
  show ?thesis
  proof (cases ?ps)
    case Nil
    then have e: "pb_lane pb MSG_TYPE_NEIGHBOR_DATA = []" using dw(2) lane_view_Nil [of ?c] by simp
    then have "r = None" using d(2) by (simp add: dropped_def)
    moreover have "sends MSG_TYPE_NEIGHBOR_DATA [] [] c ?c"
      by (rule sends_no_timer [OF wf dw(3) _ _ eff [unfolded Nil], where n = "ec_datalen c" and m = "ec_packetbuf c"])
         (use e ec_wfD(6) [OF wf] in \<open>simp_all\<close>)
    ultimately show ?thesis using j(1) d(1) Nil v0 by (simp add: send_neighbor_data_def)
  next
    case (Cons v ps)
    obtain p l n u where v: "v = (p, l, n, u)" by (cases v) auto
    have vw: "lane_view ?c MSG_TYPE_NEIGHBOR_DATA = (p, l, n, u) # ps" using dw(2) Cons v by simp
    obtain i "is" bp where i: "pb_lane (ec_sq ?c) MSG_TYPE_NEIGHBOR_DATA = i # is" "get_packet (ec_sq ?c) i = Inr bp"
      using lane_head [OF dw(1) t vw] by metis
    then have r: "r = Some i" using d(2) by (simp add: dropped_def)
    have jl: "j < length (pool (pbuffer (ec_sq c)))" using lane_slot_bound [OF pw t] j(2) by simp
    then have "j < length (pool (pbuffer pb))"
      "packet_view (packet_at pb j) = packet_view (packet_at (ec_sq c) j)"
      using d(2) by (simp_all add: dropped_def)
    moreover have "packet_view (packet_at (ec_sq c) j) = (p0, bp_data_len b0, times_sent b0, items (unacked_ns b0))"
      using j(4,6) by (metis packet_view_def packet_view_unlinked)
    ultimately obtain pc where pc: "get_packet pb j = Inr pc" "bp_p pc = p0"
      using cell_view [OF dw(3)] by metis
    obtain pb' m k where f: "make_neighbor_frame p0 i bp (packetbuf_clear ?c) =
       Inr (?c\<lparr>ec_datalen := k, ec_sq := pb', ec_packetbuf := m\<rparr>)"
      "sq_wf pb'" "same_views (ec_sq ?c) pb'" "length m = 128" "take k m = neighbor_frame p0 (p, l, n, u)"
      using neighbor_frame_returns [OF dw(1) vw i j(5) flag] .
    let ?fr = "[(Neighbor_Conn, None :: rimeaddr option, take k m)]"
    let ?c1 = "c\<lparr>ec_datalen := k, ec_sq := pb', ec_packetbuf := m, ec_sent := ec_sent c @ ?fr\<rparr>"
    have c1: "abc_send Neighbor_Conn (c\<lparr>ec_datalen := k, ec_sq := pb', ec_packetbuf := m\<rparr>) = ?c1"
      by (cases c) (simp add: abc_send_def)
    have lane: "pb_lane pb' MSG_TYPE_NEIGHBOR_DATA = i # is"
      using f(3) i(1) t by (simp add: same_views_def)
    have eff': "sq_effect MSG_TYPE_NEIGHBOR_DATA ?ps c (c\<lparr>ec_sq := pb'\<rparr>)"
      using same_views_effect [OF f(3) t] eff dw(2) by (simp add: sq_effect_def)
    have tm: "lane_timer MSG_TYPE_NEIGHBOR_DATA = Some Neighbor_Data_Timer"
      by (simp add: lane_timer_def msg_type_defs)
    note fin = resend_sends [OF wf t tm f(2) lane eff' f(4) refl,
        where n = k and frames = ?fr and ok = ok and d = RETRANSMIT_NEIGHBOR_DATA]
    have "send_neighbor_data ok c = (if \<not> ok then Inr (set_timer_rand FAST_TRANSMIT Neighbor_Data_Timer ?c1)
        else bindR (get_packet (ec_sq ?c1) i) (\<lambda>bp.
             bindR (sq_set i (packet_buffer_increment_times_sent bp) ?c1) (\<lambda>c.
             Inr (ctimer_set Neighbor_Data_Timer RETRANSMIT_NEIGHBOR_DATA c))))"
      using j(1) d(1) r pc i(2) f(1) by (simp add: send_neighbor_data_def c1 Let_def)
    with fin Cons v v0 f(5) show ?thesis by simp
  qed
qed

subsection \<open>Mesh data\<close>

lemma sends_mesh:
  assumes wf: "ec_wf c" and pb: "sq_wf pb" and m: "length m = 128"
    and eff: "sq_effect MSG_TYPE_MESH_DATA ps c (c\<lparr>ec_sq := pb\<rparr>)"
    and c': "c' = c\<lparr>ec_sq := pb, ec_packetbuf := m, ec_datalen := n,
       ec_sent := ec_sent c @ frames, ec_rand_pos := k, ec_timers := tms\<rparr>"
    and tms: "\<forall>tm. ec_timers c tm \<noteq> None \<longrightarrow> tms tm \<noteq> None"
  shows "sends MSG_TYPE_MESH_DATA ps frames c c'"
proof -
  have "ec_wf c'" using ec_wfD [OF wf] pb m
    by (simp add: c' ec_wf_def DUPE_QUEUE_LENGTH_def PACKETBUF_SIZE_def)
  moreover have "ec_frame c c'" using tms by (simp add: c' ec_frame_def)
  moreover have "lane_armed c' MSG_TYPE_MESH_DATA" by (simp add: lane_armed_def lane_timer_def msg_type_defs)
  moreover have "sq_effect MSG_TYPE_MESH_DATA ps c c'"
    using eff by (simp add: c' sq_effect_def lane_view_def)
  ultimately show ?thesis by (simp add: sends_def c')
qed

definition mesh_frame :: "packet_contents \<Rightarrow> ec_conn \<times> rimeaddr option \<times> bytes" where
  "mesh_frame v = (case v of (p, l, _, _) \<Rightarrow>
     (Meshdata_Conn, Some (addr_at p 7), hdr_seqno (header_of p) # take (unat l) (drop 9 p)))"

lemma meshdata_sent_returns:
  assumes wf: "ec_wf c" and v: "lane_view c MSG_TYPE_MESH_DATA = v # ps"
  shows "returns (meshdata_sent c) (sends MSG_TYPE_MESH_DATA ps [] c)"
proof -
  have t: "MSG_TYPE_MESH_DATA < 7" by (simp add: msg_type_defs)
  obtain p l n u where "v = (p, l, n, u)" by (cases v) auto
  then obtain i "is" where i: "first_of MSG_TYPE_MESH_DATA c = Some i" "pb_lane (ec_sq c) MSG_TYPE_MESH_DATA = i # is"
    using lane_head [OF wf t] v by metis
  obtain pb where pb: "sq_free i c = Inr (c\<lparr>ec_sq := pb\<rparr>)" "sq_wf pb"
    "sq_effect MSG_TYPE_MESH_DATA (tl (lane_view c MSG_TYPE_MESH_DATA)) c (c\<lparr>ec_sq := pb\<rparr>)"
    using sq_free_returns [OF ec_wfD(1) [OF wf] t i(2)] by metis
  obtain k d where r: "set_timer_rand FAST_TRANSMIT Mesh_Data_Timer (c\<lparr>ec_sq := pb\<rparr>) =
      ctimer_set Mesh_Data_Timer d ((c\<lparr>ec_sq := pb\<rparr>)\<lparr>ec_rand_pos := k\<rparr>)"
    using set_timer_rand_eq(1) by blast
  have "sends MSG_TYPE_MESH_DATA ps [] c (set_timer_rand FAST_TRANSMIT Mesh_Data_Timer (c\<lparr>ec_sq := pb\<rparr>))"
    by (rule sends_mesh [OF wf pb(2) ec_wfD(6) [OF wf] _ _, where n = "ec_datalen c" and k = k
          and tms = "(ec_timers c)(Mesh_Data_Timer := Some d)"])
       (use pb(3) v r in \<open>simp_all, cases c, simp add: ctimer_set_def\<close>)
  with i(1) pb(1) show ?thesis by (simp add: meshdata_sent_def)
qed

lemma sends_trans:
  assumes "sends t ps fs c c1" and "sends t qs gs c1 c2"
  shows "sends t qs (fs @ gs) c c2"
  using assms by (auto simp: sends_def ec_frame_def sq_effect_def)

lemma send_mesh_data_sends:
  assumes wf: "ec_wf c"
  shows "returns (send_mesh_data ok c)
    (let ps = live MAX_TIMES_SENT (lane_view c MSG_TYPE_MESH_DATA) in
     sends MSG_TYPE_MESH_DATA (if ok then tl ps else counted True ps)
       (case ps of [] \<Rightarrow> [] | v # _ \<Rightarrow> [mesh_frame v]) c)"
proof (cases "lane_view c MSG_TYPE_MESH_DATA")
  case Nil
  from no_lane [OF wf _ Nil] sends_empty [OF wf Nil] Nil show ?thesis
    by (simp add: send_mesh_data_def msg_type_defs live_def)
next
  case (Cons v0 ps0)
  have t: "MSG_TYPE_MESH_DATA < 7" by (simp add: msg_type_defs)
  obtain p0 l0 n0 u0 where v0: "lane_view c MSG_TYPE_MESH_DATA = (p0, l0, n0, u0) # ps0" using Cons by (cases v0) auto
  obtain j js where j: "first_of MSG_TYPE_MESH_DATA c = Some j" "pb_lane (ec_sq c) MSG_TYPE_MESH_DATA = j # js"
    using lane_head [OF wf t v0] by metis
  note pw = sq_wfD(1) [OF ec_wfD(1) [OF wf]]
  have "length (j # js) \<le> length (pool (pbuffer (ec_sq c)))"
    using chain_length [OF pb_wfD(5) [OF pw t]] j(2) by simp
  then have fuel: "length js < sq_fuel c" by (simp add: sq_fuel_def)
  obtain pb r where d: "drop_mesh_loop (sq_fuel c) c j = Inr (c\<lparr>ec_sq := pb\<rparr>, r)"
    "dropped MSG_TYPE_MESH_DATA MAX_TIMES_SENT c pb r"
    using drop_mesh_returns [OF ec_wfD(1) [OF wf] j(2) fuel] by blast
  let ?c = "c\<lparr>ec_sq := pb\<rparr>" and ?ps = "live MAX_TIMES_SENT (lane_view c MSG_TYPE_MESH_DATA)"
  note dw = dropped_wf [OF wf d(2)]
  have eff: "sq_effect MSG_TYPE_MESH_DATA ?ps c ?c" using d(2) by (simp add: dropped_def)
  show ?thesis
  proof (cases ?ps)
    case Nil
    then have e: "pb_lane pb MSG_TYPE_MESH_DATA = []" using dw(2) lane_view_Nil [of ?c] by simp
    then have "r = None" using d(2) by (simp add: dropped_def)
    moreover have "sends MSG_TYPE_MESH_DATA [] [] c ?c"
      by (rule sends_no_timer [OF wf dw(3) _ _ eff [unfolded Nil], where n = "ec_datalen c" and m = "ec_packetbuf c"])
         (use e ec_wfD(6) [OF wf] in \<open>simp_all\<close>)
    ultimately show ?thesis using j(1) d(1) Nil by (simp add: send_mesh_data_def)
  next
    case (Cons v ps)
    obtain p l n u where v: "v = (p, l, n, u)" by (cases v) auto
    have vw: "lane_view ?c MSG_TYPE_MESH_DATA = (p, l, n, u) # ps" using dw(2) Cons v by simp
    obtain i "is" bp where i: "pb_lane (ec_sq ?c) MSG_TYPE_MESH_DATA = i # is" "get_packet (ec_sq ?c) i = Inr bp"
      "bp_p bp = p" "bp_data_len bp = l" "length p = 39" "unat l \<le> 24"
      using lane_head [OF dw(1) t vw] by metis
    then have r: "r = Some i" using d(2) by (simp add: dropped_def)
    let ?k = "1 + unat l" and ?d = "take (unat l) (drop 9 p)" and ?s = "hdr_seqno (header_of p)"
    let ?m = "?s # ?d @ drop ?k (ec_packetbuf c)" and ?m1 = "?s # drop 1 (ec_packetbuf c)"
    have buf: "length (ec_packetbuf c) = 128" using ec_wfD(6) [OF wf] .
    have dl: "packetbuf_set_datalen ?k (packetbuf_clear ?c) = ?c\<lparr>ec_datalen := ?k\<rparr>"
      using i(6) by (simp add: packetbuf_set_datalen_def packetbuf_clear_def)
    have w1: "packetbuf_write 0 [?s] (?c\<lparr>ec_datalen := ?k\<rparr>) = Inr (?c\<lparr>ec_datalen := ?k, ec_packetbuf := ?m1\<rparr>)"
      using buf by (simp add: packetbuf_write_ok)
    have rd: "read_mem p 9 (unat l) = Inr ?d" using i(5,6) by (simp add: read_mem_def)
    have w2: "packetbuf_write 1 ?d (?c\<lparr>ec_datalen := ?k, ec_packetbuf := ?m1\<rparr>) =
        Inr (?c\<lparr>ec_datalen := ?k, ec_packetbuf := ?m\<rparr>)"
      using buf i(5,6) packetbuf_write_ok [of 1 ?d "?c\<lparr>ec_datalen := ?k, ec_packetbuf := ?m1\<rparr>"]
      by (simp add: add.commute)
    let ?c2 = "?c\<lparr>ec_datalen := ?k, ec_packetbuf := ?m\<rparr>"
    have sq2: "sq_wf (ec_sq ?c2)" "pb_lane (ec_sq ?c2) MSG_TYPE_MESH_DATA = i # is" using dw(3) i(1) by simp_all
    obtain b pb' where b: "get_packet (ec_sq ?c2) i = Inr b"
      "sq_set i (packet_buffer_increment_times_sent b) ?c2 = Inr (?c2\<lparr>ec_sq := pb'\<rparr>)" "sq_wf pb'"
      "sq_effect MSG_TYPE_MESH_DATA (counted True (lane_view ?c2 MSG_TYPE_MESH_DATA)) ?c2 (?c2\<lparr>ec_sq := pb'\<rparr>)"
      using increment_law [OF sq2(1) t sq2(2)] by metis
    have bb: "b = bp" using b(1) i(2) by simp
    let ?fr = "[mesh_frame (p, l, n, u)]"
    let ?c3 = "mesh_send (addr_at p 7) (?c2\<lparr>ec_sq := pb'\<rparr>)"
    have eff3: "sq_effect MSG_TYPE_MESH_DATA (counted True ?ps) c (c\<lparr>ec_sq := pb'\<rparr>)"
      using b(4) eff dw(2) by (simp add: sq_effect_def lane_view_def)
    have lm: "length ?m = 128" and tk: "take ?k ?m = ?s # ?d" using buf i(5,6) by simp_all
    have s3: "sends MSG_TYPE_MESH_DATA (counted True ?ps) ?fr c ?c3"
      by (rule sends_mesh [OF wf b(3) lm eff3, where n = ?k and k = "ec_rand_pos c" and tms = "ec_timers c"])
         (cases c, use tk in \<open>simp_all add: mesh_send_def mesh_frame_def\<close>)
    have run: "send_mesh_data ok c = (if ok then meshdata_sent ?c3 else Inr ?c3)"
      using j(1) d(1) r i(2-4) dl w1 rd w2 b(2) bb
      by (simp add: send_mesh_data_def Let_def MESH_PACKET_HDR_SIZE_def UNICAST_PACKET_HDR_SIZE_def)
    show ?thesis
    proof (cases ok)
      case False
      with run s3 Cons v show ?thesis by simp
    next
      case True
      have wf3: "ec_wf ?c3" and lv: "lane_view ?c3 MSG_TYPE_MESH_DATA = counted True ?ps"
        using s3 by (simp_all add: sends_def sq_effect_def)
      have lv': "lane_view ?c3 MSG_TYPE_MESH_DATA = (p, l, n + 1, u) # ps" using lv Cons v by simp
      have "returns (meshdata_sent ?c3) (sends MSG_TYPE_MESH_DATA ps (?fr @ []) c)"
        by (rule returns_mono [OF meshdata_sent_returns [OF wf3 lv']]) (rule sends_trans [OF s3])
      with True run Cons v show ?thesis by simp
    qed
  qed
qed

end
