(* ===== verification/Recv_Laws.thy ===== *)
theory Recv_Laws
  imports Emergency_Recv Send_Laws
begin

text \<open>
  What queueing a packet, filtering duplicates, acknowledging and receiving do to a well-formed
  connection.
\<close>

subsection \<open>Appending to a lane\<close>

lemma lane_view_packets: "lane_view c t = map packet_view (lane_packets (ec_sq c) t)"
  by (simp add: lane_view_def lane_packets_def comp_def)

lemma header_of_take:
  assumes "take k m = take k m'" and "7 \<le> k"
  shows "header_of m = header_of m'"
proof -
  have "m ! i = m' ! i" if "i < 7" for i
    using that assms by (metis nth_take order.strict_trans2)
  then show ?thesis by (simp add: header_of_def addr_at_def)
qed

definition appended :: "bytes \<Rightarrow> bytes \<Rightarrow> byte \<Rightarrow> neighbors option \<Rightarrow> packet_contents \<Rightarrow> bool" where
  "appended hdr data data_len ns v \<longleftrightarrow> (case v of (p, l, n, u) \<Rightarrow>
     length p = 39 \<and> take (length hdr + unat data_len) p = hdr @ take (unat data_len) data \<and>
     l = data_len \<and> n = 0 \<and> (case ns of None \<Rightarrow> True | Some t \<Rightarrow> u = rev (neighbor_addrs t)))"

lemma packet_flags:
  "hdr_flags (header_of (header_bytes (init_broadcast_packet f h o' s n))) = BROADCAST OR f"
  "hdr_flags (header_of (unicast_bytes (init_unicast_packet f h o' s n d))) = UNICAST OR f"
  using header_of_bytes [of "init_broadcast_packet f h o' s n" "[]"] header_of_unicast [of "init_unicast_packet f h o' s n d" "[]"]
  by (simp_all add: init_broadcast_packet_def init_unicast_packet_def init_packet_def)

definition admissible :: "nat \<Rightarrow> bytes \<Rightarrow> bytes \<Rightarrow> byte \<Rightarrow> neighbors option \<Rightarrow> bool" where
  "admissible t hdr data data_len ns \<longleftrightarrow> t < 7 \<and> 7 \<le> length hdr \<and> length hdr + unat data_len < 32 \<and>
     unat data_len \<le> length data \<and> (\<forall>n. ns = Some n \<longrightarrow> ns_wf n) \<and>
     hdr_flags (header_of hdr) = lane_flags t \<and>
     (t \<in> {MSG_TYPE_NEIGHBOR_DATA, MSG_TYPE_MULTICAST_UNICAST_DATA} \<longrightarrow> (\<exists>n. ns = Some n \<and> items n \<noteq> []))"

lemma free_cells: "sq_wf pb \<Longrightarrow> pb_free_cells pb = 12 - length (entries (pbuffer pb))"
  by (simp add: pb_free_cells_def sq_wfD)

lemma sq_append:
  assumes wf: "sq_wf (ec_sq c)" and room: "0 < pb_free_cells (ec_sq c)"
    and adm: "admissible t hdr data data_len ns"
  shows "returns (buffer_packet (ec_sq c) hdr data data_len ns t) (\<lambda>(pb, ns', _). sq_wf pb \<and>
      rel_option (\<lambda>n n'. ns_wf n' \<and> entries n' = entries n) ns ns' \<and>
      (\<exists>v. appended hdr data data_len ns v \<and> sq_effect t (lane_view c t @ [v]) c (c\<lparr>ec_sq := pb\<rparr>)) \<and>
      pb_free_cells pb = pb_free_cells (ec_sq c) - 1)"
proof -
  have t: "t < 7" using adm by (simp add: admissible_def)
  have room': "length (entries (pbuffer (ec_sq c))) < capacity (pbuffer (ec_sq c))"
    using room by (simp add: pb_free_cells_def)
  obtain pb ns' s i bp where b: "buffer_packet (ec_sq c) hdr data data_len ns t = Inr (pb, ns', s)"
    "pb_wf pb" "rel_option (\<lambda>n n'. ns_wf n' \<and> entries n' = entries n) ns ns'"
    "pb_lane pb t = pb_lane (ec_sq c) t @ [i]" "lane_packets pb t = lane_packets (ec_sq c) t @ [bp]"
    "\<forall>u < 7. u \<noteq> t \<longrightarrow> pb_lane pb u = pb_lane (ec_sq c) u \<and> lane_packets pb u = lane_packets (ec_sq c) u"
    "filled hdr data data_len ns bp" "used_slots (pbuffer pb) = i # used_slots (pbuffer (ec_sq c))"
    "capacity (pbuffer pb) = capacity (pbuffer (ec_sq c))"
    using buffer_packet_returns [OF sq_wfD(1) [OF wf] room' t, of ns hdr data_len data] adm
    by (auto simp: returns_def admissible_def)
  have bp: "bp = packet_at pb i" using b(4,5) by (simp add: lane_packets_def)
  have iu: "i \<in> set (pb_lane pb t)" using b(4) by simp
  have "i < length (pool (pbuffer pb))" using lane_slot_bound [OF b(2) t iu] .
  then have cell: "cell_ok bp" using get_packet_used [OF b(2)] bp by (simp add: packet_at_def)
  have p: "take (length hdr + unat data_len) (bp_p bp) = hdr @ take (unat data_len) data"
    using b(7) by (simp add: filled_def)
  have "header_of (bp_p bp) = header_of hdr"
  proof (rule header_of_take [of 7])
    have "take 7 (take (length hdr + unat data_len) (bp_p bp)) = take 7 hdr"
      unfolding p using adm by (simp add: admissible_def)
    then show "take 7 (bp_p bp) = take 7 hdr" using adm by (simp add: admissible_def min_def)
  qed simp
  then have ok: "lane_ok t bp"
    using adm b(7) by (auto simp: lane_ok_def admissible_def filled_def neighbor_addrs_def)
  have "lane_ok u (packet_at pb j)" if u: "u < 7" "j \<in> set (pb_lane pb u)" for u j
  proof -
    have "packet_at pb j \<in> set (lane_packets pb u)" using u by (simp add: lane_packets_def)
    then consider "u = t" "packet_at pb j = bp" | "packet_at pb j \<in> set (lane_packets (ec_sq c) u)"
      using b(5,6) u(1) by (cases "u = t") auto
    then show ?thesis
      using ok sq_wfD(3) [OF wf u(1)] by cases (auto simp: lane_packets_def)
  qed
  then have sq: "sq_wf pb" using b(2,9) wf by (simp add: sq_wf_def)
  have "appended hdr data data_len ns (packet_view bp)"
    using cell b(7) by (simp add: appended_def packet_view_def cell_ok_def PACKET_MEM_def filled_def)
  moreover have "sq_effect t (lane_view c t @ [packet_view bp]) c (c\<lparr>ec_sq := pb\<rparr>)"
    using b(5,6) by (simp add: sq_effect_def lane_view_packets)
  moreover have "length (entries (pbuffer pb)) = Suc (length (entries (pbuffer (ec_sq c))))"
    using b(8) by (metis length_Cons length_map map_fst_entries)
  moreover obtain p l n u where "packet_view bp = (p, l, n, u)" by (cases "packet_view bp") auto
  ultimately show ?thesis using b(1,3) sq by (auto simp: free_cells wf)
qed

subsection \<open>The duplicate history\<close>

definition slim :: "header \<Rightarrow> slim_packet" where
  "slim p = \<lparr>sp_originator = hdr_originator p, sp_seqno = hdr_seqno p\<rparr>"

lemma slim_cmp: "slim_packet_to_packet_cmp sp p \<longleftrightarrow> sp = slim p"
  by (cases sp) (auto simp: slim_packet_to_packet_cmp_def slim_def)

lemma alloc_front_push:
  "queue_buffer_alloc_front q = Inl e \<Longrightarrow> queue_buffer_push_front q x = Inl e"
  "queue_buffer_alloc_front q = Inr (q1, None) \<Longrightarrow> queue_buffer_push_front q x = Inr (q1, None)"
  "queue_buffer_alloc_front q = Inr (q1, Some i) \<Longrightarrow>
     queue_buffer_push_front q x = bindR (set_data q1 i x) (\<lambda>q. Inr (q, Some i))"
  by (cases "allocate_buffer_space_front q";
      auto simp: queue_buffer_alloc_front_def queue_buffer_push_front_def split: option.splits)+

text \<open>Storing is the history idiom of the queue interface: drop the oldest entry when full.\<close>

definition push_history :: "'a queue_buffer \<Rightarrow> 'a \<Rightarrow> 'a queue_buffer result" where
  "push_history q x = bindR (queue_buffer_push_front q x) (\<lambda>(q, r). case r of
       Some _ \<Rightarrow> Inr q
     | None \<Rightarrow> bindR (queue_buffer_pop_back q) (\<lambda>(q, _).
               bindR (queue_buffer_push_front q x) (\<lambda>(q, r). if r = None then Inl Assert_Failed else Inr q)))"

lemma bind_filled:
  "bindR (bindR (set_data q i x) (\<lambda>q. Inr (q, Some i))) (\<lambda>(q, r). g q r) =
   bindR (set_data q i x) (\<lambda>q. g q (Some i))"
  by (cases "set_data q i x") auto

lemma alloc_and_fill:
  fixes q :: "'a queue_buffer" and f :: "'a queue_buffer \<Rightarrow> 'c result"
  shows "bindR (queue_buffer_alloc_front q) (\<lambda>(dq, sp).
     bindR (case sp of Some i \<Rightarrow> Inr (dq, i) | None \<Rightarrow> bindR (queue_buffer_pop_back dq) (\<lambda>(dq, _).
              bindR (queue_buffer_alloc_front dq) (\<lambda>(dq, sp).
              case sp of None \<Rightarrow> Inl Assert_Failed | Some i \<Rightarrow> Inr (dq, i)))) (\<lambda>(dq, i).
     bindR (set_data dq i x) f)) = bindR (push_history q x) f"
proof -
  show ?thesis
  proof (cases "queue_buffer_alloc_front q")
    case (Inl e)
    then show ?thesis by (simp add: push_history_def alloc_front_push)
  next
    case (Inr r)
    then obtain q1 s where r: "queue_buffer_alloc_front q = Inr (q1, s)" by (cases r) auto
    show ?thesis
    proof (cases s)
      case (Some i)
      with r show ?thesis by (simp add: push_history_def alloc_front_push bind_filled)
    next
      case None
      with r have p: "queue_buffer_push_front q x = Inr (q1, None)" by (simp add: alloc_front_push)
      show ?thesis
      proof (cases "queue_buffer_pop_back q1")
        case (Inl e)
        with r None p show ?thesis by (simp add: push_history_def)
      next
        case (Inr y)
        then obtain q2 z where y: "queue_buffer_pop_back q1 = Inr (q2, z)" by (cases y) auto
        show ?thesis
        proof (cases "queue_buffer_alloc_front q2")
          case (Inl e)
          with r None p y show ?thesis by (simp add: push_history_def alloc_front_push)
        next
          case (Inr w)
          then obtain q3 t where w: "queue_buffer_alloc_front q2 = Inr (q3, t)" by (cases w) auto
          with r None p y show ?thesis
            by (cases t) (simp_all add: push_history_def alloc_front_push bind_filled)
        qed
      qed
    qed
  qed
qed

lemma push_history_returns:
  assumes "qb_wf q" and "0 < capacity q"
  shows "returns (push_history q x) (\<lambda>q'. qb_wf q' \<and> capacity q' = capacity q \<and>
    items q' = take (capacity q) (x # items q))"
  using sq.push_dropping_oldest [OF assms, of x] by (simp add: push_history_def items_def)

lemma find_dupe_eq:
  "ec_wf c \<Longrightarrow> find_dupe p c =
     Inr (map_option fst (List.find (\<lambda>e. snd e = slim p) (entries (ec_dq c))))"
  using find_entries [OF ec_wfD(2), of c "\<lambda>sp. sp = slim p"] by (simp add: find_dupe_def slim_cmp)

lemma find_dupe_iff:
  assumes "ec_wf c"
  obtains r where "find_dupe p c = Inr r" and "r \<noteq> None \<longleftrightarrow> slim p \<in> set (items (ec_dq c))"
proof (rule that [OF find_dupe_eq [OF assms]])
  show "map_option fst (List.find (\<lambda>e. snd e = slim p) (entries (ec_dq c))) \<noteq> None \<longleftrightarrow>
      slim p \<in> set (items (ec_dq c))"
    by (cases "List.find (\<lambda>e. snd e = slim p) (entries (ec_dq c))")
       (force simp: items_def find_None image_iff dest!: find_Some_in)+
qed

definition dq_after :: "header \<Rightarrow> slim_packet list \<Rightarrow> slim_packet list" where
  "dq_after p ds = (if slim p \<in> set ds then ds else take DUPE_QUEUE_LENGTH (slim p # ds))"

lemma store_packet_returns:
  assumes wf: "ec_wf c"
  shows "returns (store_packet_for_dupe_checks p c) (\<lambda>c'. \<exists>dq. c' = c\<lparr>ec_dq := dq\<rparr> \<and> ec_wf c' \<and>
    items dq = dq_after p (items (ec_dq c)))"
proof -
  obtain r where r: "find_dupe p c = Inr r" "r \<noteq> None \<longleftrightarrow> slim p \<in> set (items (ec_dq c))"
    using find_dupe_iff [OF wf] .
  show ?thesis
  proof (cases "r = None")
    case False
    with r wf show ?thesis
      by (auto simp: store_packet_for_dupe_checks_def dq_after_def intro!: exI [of _ "ec_dq c"])
  next
    case True
    have "store_packet_for_dupe_checks p c = bindR (push_history (ec_dq c) (slim p)) (\<lambda>dq. Inr (c\<lparr>ec_dq := dq\<rparr>))"
      using r(1) True alloc_and_fill [of "ec_dq c" "slim p" "\<lambda>dq. Inr (c\<lparr>ec_dq := dq\<rparr>)"]
      by (simp add: store_packet_for_dupe_checks_def slim_def)
    moreover obtain dq where dq: "push_history (ec_dq c) (slim p) = Inr dq" "qb_wf dq" "capacity dq = 24"
      "items dq = take 24 (slim p # items (ec_dq c))"
      using push_history_returns [OF ec_wfD(2) [OF wf], of "slim p"] ec_wfD(3) [OF wf] by (auto simp: returns_def)
    moreover have "ec_wf (c\<lparr>ec_dq := dq\<rparr>)" using wf dq by (simp add: ec_wf_def DUPE_QUEUE_LENGTH_def)
    ultimately show ?thesis using r True by (auto simp: dq_after_def DUPE_QUEUE_LENGTH_def)
  qed
qed

subsection \<open>The client's calls\<close>

text \<open>What no call or reception changes; timers are only ever set, the neighbor table keeps its entries.\<close>

definition ec_keep :: "'a ec_scheme \<Rightarrow> 'a ec_scheme \<Rightarrow> bool" where
  "ec_keep c c' \<longleftrightarrow> ec_node_addr c' = ec_node_addr c \<and> ec_channels c' = ec_channels c \<and>
     ec_ns_set c' = ec_ns_set c \<and> ec_ts_is_on c' = ec_ts_is_on c \<and> ec_rands c' = ec_rands c \<and>
     ec_sent c' = ec_sent c \<and> ec.more c' = ec.more c \<and> entries (ec_ns c') = entries (ec_ns c) \<and>
     (\<forall>tm. ec_timers c tm \<noteq> None \<longrightarrow> ec_timers c' tm \<noteq> None)"

lemma ec_keep_refl [simp]: "ec_keep c c"
  by (simp add: ec_keep_def)

lemma ec_keep_trans: "ec_keep c c1 \<Longrightarrow> ec_keep c1 c2 \<Longrightarrow> ec_keep c c2"
  by (simp add: ec_keep_def)

text \<open>A packet was queued in lane \<open>t\<close>.\<close>

definition queues :: "nat \<Rightarrow> bytes \<Rightarrow> bytes \<Rightarrow> byte \<Rightarrow> neighbors option \<Rightarrow> 'a ec_scheme \<Rightarrow> 'a ec_scheme \<Rightarrow> bool" where
  "queues t hdr data data_len ns c c' \<longleftrightarrow> ec_wf c' \<and> ec_keep c c' \<and>
     (\<exists>v. appended hdr data data_len ns v \<and> sq_effect t (lane_view c t @ [v]) c c') \<and>
     pb_free_cells (ec_sq c') = pb_free_cells (ec_sq c) - 1"

text \<open>Setting timers, drawing random numbers and renaming the history do not disturb that.\<close>

lemma queues_timer:
  assumes "queues t hdr data data_len ns c c1" and "c2 = c1\<lparr>ec_timers := tms, ec_rand_pos := k\<rparr>"
    and "\<forall>tm. ec_timers c1 tm \<noteq> None \<longrightarrow> tms tm \<noteq> None"
  shows "queues t hdr data data_len ns c c2"
  using assms by (simp add: queues_def ec_keep_def sq_effect_def)

lemma queues_dq:
  assumes "queues t hdr data data_len ns c c1" and "c2 = c1\<lparr>ec_dq := dq\<rparr>" and "ec_wf c2"
  shows "queues t hdr data data_len ns c c2"
  using assms by (simp add: queues_def ec_keep_def sq_effect_def lane_view_def)

lemma set_timer_eq:
  "\<exists>k tms. set_timer_rand FAST_TRANSMIT t c = c\<lparr>ec_timers := tms, ec_rand_pos := k\<rparr> \<and>
     (\<forall>tm. ec_timers c tm \<noteq> None \<longrightarrow> tms tm \<noteq> None) \<and> tms t \<noteq> None"
  "\<exists>k tms. set_timer_rand FAST_TRANSMIT_ACK t c = c\<lparr>ec_timers := tms, ec_rand_pos := k\<rparr> \<and>
     (\<forall>tm. ec_timers c tm \<noteq> None \<longrightarrow> tms tm \<noteq> None) \<and> tms t \<noteq> None"
  "\<exists>k tms. set_timer_rand MESH_TRANSMIT t c = c\<lparr>ec_timers := tms, ec_rand_pos := k\<rparr> \<and>
     (\<forall>tm. ec_timers c tm \<noteq> None \<longrightarrow> tms tm \<noteq> None) \<and> tms t \<noteq> None"
proof -
  have "\<exists>k tms. ctimer_set t d (c\<lparr>ec_rand_pos := k'\<rparr>) = c\<lparr>ec_timers := tms, ec_rand_pos := k\<rparr> \<and>
     (\<forall>tm. ec_timers c tm \<noteq> None \<longrightarrow> tms tm \<noteq> None) \<and> tms t \<noteq> None" for d k'
    by (intro exI [of _ k'] exI [of _ "(ec_timers c)(t := Some d)"]) (cases c, simp add: ctimer_set_def)
  then show "\<exists>k tms. set_timer_rand FAST_TRANSMIT t c = c\<lparr>ec_timers := tms, ec_rand_pos := k\<rparr> \<and>
     (\<forall>tm. ec_timers c tm \<noteq> None \<longrightarrow> tms tm \<noteq> None) \<and> tms t \<noteq> None"
  "\<exists>k tms. set_timer_rand FAST_TRANSMIT_ACK t c = c\<lparr>ec_timers := tms, ec_rand_pos := k\<rparr> \<and>
     (\<forall>tm. ec_timers c tm \<noteq> None \<longrightarrow> tms tm \<noteq> None) \<and> tms t \<noteq> None"
  "\<exists>k tms. set_timer_rand MESH_TRANSMIT t c = c\<lparr>ec_timers := tms, ec_rand_pos := k\<rparr> \<and>
     (\<forall>tm. ec_timers c tm \<noteq> None \<longrightarrow> tms tm \<noteq> None) \<and> tms t \<noteq> None"
    using set_timer_rand_eq [of t c] by metis+
qed

lemma arm_if_expired:
  assumes q: "queues t hdr data data_len ns c c1"
    and delay: "\<exists>k tms. set_timer_rand delay tm c1 = c1\<lparr>ec_timers := tms, ec_rand_pos := k\<rparr> \<and>
      (\<forall>tm. ec_timers c1 tm \<noteq> None \<longrightarrow> tms tm \<noteq> None) \<and> tms tm \<noteq> None"
    and c2: "c2 = (if ctimer_expired tm c1 then set_timer_rand delay tm c1 else c1)"
  shows "queues t hdr data data_len ns c c2 \<and> ec_timers c2 tm \<noteq> None \<and> ec_dq c2 = ec_dq c1"
proof (cases "ctimer_expired tm c1")
  case True
  obtain k tms where d: "set_timer_rand delay tm c1 = c1\<lparr>ec_timers := tms, ec_rand_pos := k\<rparr>"
    "\<forall>tm. ec_timers c1 tm \<noteq> None \<longrightarrow> tms tm \<noteq> None" "tms tm \<noteq> None" using delay by blast
  from queues_timer [OF q refl d(2), of k] True d c2 show ?thesis by simp
next
  case False
  then have "c2 = c1" using c2 by simp
  with q False show ?thesis by (simp add: ctimer_expired_def)
qed

lemma sq_broadcast_returns:
  assumes wf: "ec_wf c" and room: "0 < pb_free_cells (ec_sq c)"
    and adm: "admissible t (header_bytes bp) data data_len ns"
  shows "returns (sq_broadcast bp data data_len ns t c) (\<lambda>(c', ns'). (\<exists>pb. c' = c\<lparr>ec_sq := pb\<rparr>) \<and>
    queues t (header_bytes bp) data data_len ns c c' \<and>
    rel_option (\<lambda>n n'. ns_wf n' \<and> entries n' = entries n) ns ns')"
proof -
  obtain pb ns' s v where b: "buffer_packet (ec_sq c) (header_bytes bp) data data_len ns t = Inr (pb, ns', s)"
    "sq_wf pb" "rel_option (\<lambda>n n'. ns_wf n' \<and> entries n' = entries n) ns ns'"
    "appended (header_bytes bp) data data_len ns v" "sq_effect t (lane_view c t @ [v]) c (c\<lparr>ec_sq := pb\<rparr>)"
    "pb_free_cells pb = pb_free_cells (ec_sq c) - 1"
    using sq_append [OF ec_wfD(1) [OF wf] room adm] by (auto simp: returns_def)
  have "ec_wf (c\<lparr>ec_sq := pb\<rparr>)" using wf b(2) by (simp add: ec_wf_def)
  then have "queues t (header_bytes bp) data data_len ns c (c\<lparr>ec_sq := pb\<rparr>)"
    using b by (auto simp: queues_def ec_keep_def simp del: split_paired_Ex)
  with b show ?thesis by (auto simp: sq_broadcast_def packet_buffer_broadcast_packet_def)
qed

lemma sq_unicast_returns:
  assumes wf: "ec_wf c" and room: "0 < pb_free_cells (ec_sq c)"
    and adm: "admissible t (unicast_bytes up) data data_len None"
  shows "returns (sq_unicast up data data_len t c) (\<lambda>c'. (\<exists>pb. c' = c\<lparr>ec_sq := pb\<rparr>) \<and>
    queues t (unicast_bytes up) data data_len None c c')"
proof -
  obtain pb ns' s v where b: "buffer_packet (ec_sq c) (unicast_bytes up) data data_len None t = Inr (pb, ns', s)"
    "sq_wf pb" "appended (unicast_bytes up) data data_len None v"
    "sq_effect t (lane_view c t @ [v]) c (c\<lparr>ec_sq := pb\<rparr>)"
    "pb_free_cells pb = pb_free_cells (ec_sq c) - 1"
    using sq_append [OF ec_wfD(1) [OF wf] room adm] by (auto simp: returns_def)
  have "ec_wf (c\<lparr>ec_sq := pb\<rparr>)" using wf b(2) by (simp add: ec_wf_def)
  then have "queues t (unicast_bytes up) data data_len None c (c\<lparr>ec_sq := pb\<rparr>)"
    using b by (auto simp: queues_def ec_keep_def simp del: split_paired_Ex)
  with b show ?thesis by (auto simp: sq_unicast_def packet_buffer_unicast_packet_def)
qed

lemma sq_broadcast_ns_returns:
  assumes wf: "ec_wf c" and room: "0 < pb_free_cells (ec_sq c)"
    and adm: "admissible t (header_bytes bp) data data_len (conn_ns c)"
  shows "returns (sq_broadcast_ns bp data data_len t c) (\<lambda>c'. ec_dq c' = ec_dq c \<and>
    queues t (header_bytes bp) data data_len (conn_ns c) c c')"
proof -
  obtain c1 pb ns' where 1: "sq_broadcast bp data data_len (conn_ns c) t c = Inr (c1, ns')" "c1 = c\<lparr>ec_sq := pb\<rparr>"
    "queues t (header_bytes bp) data data_len (conn_ns c) c c1"
    "rel_option (\<lambda>n n'. ns_wf n' \<and> entries n' = entries n) (conn_ns c) ns'"
    using sq_broadcast_returns [OF wf room adm] by (auto simp: returns_def)
  show ?thesis
  proof (cases ns')
    case None
    with 1 show ?thesis by (simp add: sq_broadcast_ns_def)
  next
    case (Some n)
    with 1(4) have n: "ns_wf n" "entries n = entries (ec_ns c)"
      by (auto simp: conn_ns_def rel_option_iff split: if_splits option.splits)
    have "ec_wf (c1\<lparr>ec_ns := n\<rparr>)" using 1(3) n by (simp add: queues_def ec_wf_def)
    then have "queues t (header_bytes bp) data data_len (conn_ns c) c (c1\<lparr>ec_ns := n\<rparr>)"
      using 1(3) n by (simp add: queues_def ec_keep_def sq_effect_def lane_view_def)
    with 1 Some show ?thesis by (simp add: sq_broadcast_ns_def)
  qed
qed

text \<open>The common end of the calls: the packet enters the history, and the timer is armed.\<close>

definition calls :: "nat \<Rightarrow> bytes \<Rightarrow> header \<Rightarrow> bytes \<Rightarrow> byte \<Rightarrow> neighbors option \<Rightarrow> 'a ec_scheme \<Rightarrow> 'a ec_scheme \<Rightarrow> bool" where
  "calls t hdr p data data_len ns c c' \<longleftrightarrow> queues t hdr data data_len ns c c' \<and> lane_armed c' t \<and>
     items (ec_dq c') = dq_after p (items (ec_dq c))"

lemma store_and_arm:
  assumes q: "queues t hdr data data_len ns c c1" and dq: "ec_dq c1 = ec_dq c" and tm: "lane_timer t = Some tm"
  shows "returns (bindR (store_packet_for_dupe_checks p c1) (\<lambda>c.
      Inr (if ctimer_expired tm c then set_timer_rand FAST_TRANSMIT tm c else c)))
    (calls t hdr p data data_len ns c)"
proof -
  have "ec_wf c1" using q by (simp add: queues_def)
  then obtain q2 where s: "store_packet_for_dupe_checks p c1 = Inr (c1\<lparr>ec_dq := q2\<rparr>)"
    "ec_wf (c1\<lparr>ec_dq := q2\<rparr>)" "items q2 = dq_after p (items (ec_dq c1))"
    using store_packet_returns by (auto simp: returns_def)
  have "queues t hdr data data_len ns c (c1\<lparr>ec_dq := q2\<rparr>)" using queues_dq [OF q refl s(2)] .
  from arm_if_expired [OF this set_timer_eq(1) refl] s dq tm show ?thesis
    by (simp add: calls_def lane_armed_def)
qed

lemma ec_broadcast_calls:
  assumes wf: "ec_wf c" and room: "0 < pb_free_cells (ec_sq c)"
    and len: "unat data_len \<le> 24" "unat data_len \<le> length data"
  shows "returns (ec_broadcast originator sender hops seqno data data_len c)
    (let p = init_broadcast_packet 0 hops originator sender seqno in
     calls MSG_TYPE_BROADCAST_DATA (header_bytes p) p data data_len (conn_ns c) c)"
proof -
  let ?p = "init_broadcast_packet 0 hops originator sender seqno"
  have adm: "admissible MSG_TYPE_BROADCAST_DATA (header_bytes ?p) data data_len (conn_ns c)"
    using len ec_wfD(4) [OF wf] by (simp add: admissible_def conn_ns_def packet_flags lane_flags_eq) (simp add: msg_type_defs)
  obtain c1 where 1: "sq_broadcast_ns ?p data data_len MSG_TYPE_BROADCAST_DATA c = Inr c1" "ec_dq c1 = ec_dq c"
    "queues MSG_TYPE_BROADCAST_DATA (header_bytes ?p) data data_len (conn_ns c) c c1"
    using sq_broadcast_ns_returns [OF wf room adm] by (auto simp: returns_def)
  have tm: "lane_timer MSG_TYPE_BROADCAST_DATA = Some Broadcast_Data_Timer"
    by (simp add: lane_timer_def msg_type_defs)
  from store_and_arm [OF 1(3,2) tm, of ?p] 1(1) show ?thesis by (simp add: ec_broadcast_def Let_def)
qed

lemma ec_reliable_broadcast_ns_calls:
  assumes wf: "ec_wf c" and room: "0 < pb_free_cells (ec_sq c)" and set: "ec_ns_set c"
    and len: "unat data_len \<le> 24" "unat data_len \<le> length data"
  shows "returns (ec_reliable_broadcast_ns originator sender hops seqno data data_len c) (\<lambda>c'.
     if items (ec_ns c) = [] then c' = c
     else (let p = init_broadcast_packet 0 hops originator sender seqno in
           calls MSG_TYPE_NEIGHBOR_DATA (header_bytes p) p data data_len (Some (ec_ns c)) c c'))"
proof -
  let ?p = "init_broadcast_packet 0 hops originator sender seqno"
  have ns: "conn_ns c = Some (ec_ns c)" "ns_wf (ec_ns c)" using set ec_wfD(4) [OF wf] by (simp_all add: conn_ns_def)
  have size: "neighbors_size (ec_ns c) > 0 \<longleftrightarrow> items (ec_ns c) \<noteq> []"
    using neighbors_size_eq [OF ns(2)] by (auto simp: word_less_nat_alt)
  show ?thesis
  proof (cases "items (ec_ns c) = []")
    case True
    with ns size show ?thesis by (simp add: ec_reliable_broadcast_ns_def)
  next
    case False
    have adm: "admissible MSG_TYPE_NEIGHBOR_DATA (header_bytes ?p) data data_len (conn_ns c)"
      using len ns False by (simp add: admissible_def packet_flags lane_flags_eq) (simp add: msg_type_defs)
    obtain c1 where 1: "sq_broadcast_ns ?p data data_len MSG_TYPE_NEIGHBOR_DATA c = Inr c1" "ec_dq c1 = ec_dq c"
      "queues MSG_TYPE_NEIGHBOR_DATA (header_bytes ?p) data data_len (conn_ns c) c c1"
      using sq_broadcast_ns_returns [OF wf room adm] by (auto simp: returns_def)
    have tm: "lane_timer MSG_TYPE_NEIGHBOR_DATA = Some Neighbor_Data_Timer"
      by (simp add: lane_timer_def msg_type_defs)
    from store_and_arm [OF 1(3,2) tm, of ?p] 1(1) False size ns show ?thesis
      by (simp add: ec_reliable_broadcast_ns_def Let_def)
  qed
qed

lemma ec_reliable_multicast_calls:
  assumes wf: "ec_wf c" and room: "0 < pb_free_cells (ec_sq c)" and ns: "ns_wf ns" "items ns \<noteq> []"
    and len: "unat data_len \<le> 24" "unat data_len \<le> length data"
  shows "returns (ec_reliable_multicast ns originator sender hops seqno data data_len c)
    (let p = init_broadcast_packet 0 hops originator sender seqno in
     calls MSG_TYPE_MULTICAST_UNICAST_DATA (header_bytes p) p data data_len (Some ns) c)"
proof -
  let ?p = "init_broadcast_packet 0 hops originator sender seqno"
  have adm: "admissible MSG_TYPE_MULTICAST_UNICAST_DATA (header_bytes ?p) data data_len (Some ns)"
    using len ns by (simp add: admissible_def packet_flags lane_flags_eq) (simp add: msg_type_defs)
  obtain c1 n' pb where 1: "sq_broadcast ?p data data_len (Some ns) MSG_TYPE_MULTICAST_UNICAST_DATA c = Inr (c1, n')"
    "c1 = c\<lparr>ec_sq := pb\<rparr>"
    "queues MSG_TYPE_MULTICAST_UNICAST_DATA (header_bytes ?p) data data_len (Some ns) c c1"
    using sq_broadcast_returns [OF wf room adm] by (auto simp: returns_def)
  have tm: "lane_timer MSG_TYPE_MULTICAST_UNICAST_DATA = Some Multicast_Unicast_Data_Timer"
    by (simp add: lane_timer_def msg_type_defs)
  have "ec_dq c1 = ec_dq c" using 1(2) by simp
  from store_and_arm [OF 1(3) this tm, of ?p] 1(1) show ?thesis by (simp add: ec_reliable_multicast_def Let_def)
qed

lemma ec_reliable_unicast_calls:
  assumes wf: "ec_wf c" and room: "0 < pb_free_cells (ec_sq c)"
    and len: "unat data_len \<le> 24" "unat data_len \<le> length data"
  shows "returns (ec_reliable_unicast destination originator sender hops seqno data data_len c) (\<lambda>c'.
    \<exists>ns. neighbor_addrs ns = [destination] \<and>
      (let p = init_broadcast_packet 0 hops originator sender seqno in
       calls MSG_TYPE_MULTICAST_UNICAST_DATA (header_bytes p) p data data_len (Some ns) c c'))"
proof -
  obtain n0 where n0: "neighbors_init stack_neighbors = Inr n0" "ns_wf n0" "items n0 = []"
    using neighbors_init_returns [of stack_neighbors] by (auto simp: returns_def stack_neighbors_def)
  obtain ns where ns: "neighbors_add n0 destination = Inr ns" "ns_wf ns" "items ns = [new_neighbor destination]"
    using neighbors_add_room [OF n0(2), of destination] n0(3) by (auto simp: returns_def)
  have "returns (ec_reliable_multicast ns originator sender hops seqno data data_len c) (\<lambda>c'.
    \<exists>ns. neighbor_addrs ns = [destination] \<and>
      (let p = init_broadcast_packet 0 hops originator sender seqno in
       calls MSG_TYPE_MULTICAST_UNICAST_DATA (header_bytes p) p data data_len (Some ns) c c'))"
    by (rule returns_mono [OF ec_reliable_multicast_calls [OF wf room ns(2) _ len]])
       (use ns(3) in \<open>auto simp: neighbor_addrs_def Let_def intro!: exI [of _ ns]\<close>)
  with n0(1) ns(1) show ?thesis by (simp add: ec_reliable_unicast_def)
qed

lemma ec_mesh_queues:
  assumes wf: "ec_wf c" and room: "0 < pb_free_cells (ec_sq c)"
    and len: "unat data_len \<le> 22" "unat data_len \<le> length data"
  shows "returns (ec_mesh destination seqno data data_len c) (\<lambda>c'.
    queues MSG_TYPE_MESH_DATA (unicast_bytes (init_unicast_packet 0 0 rimeaddr_null rimeaddr_null seqno destination))
      data data_len None c c' \<and> ec_timers c' Mesh_Data_Timer \<noteq> None \<and> ec_dq c' = ec_dq c)"
proof -
  let ?up = "init_unicast_packet 0 0 rimeaddr_null rimeaddr_null seqno destination"
  have adm: "admissible MSG_TYPE_MESH_DATA (unicast_bytes ?up) data data_len None"
    using len by (simp add: admissible_def packet_flags lane_flags_eq) (simp add: msg_type_defs)
  obtain c1 pb where 1: "sq_unicast ?up data data_len MSG_TYPE_MESH_DATA c = Inr c1" "c1 = c\<lparr>ec_sq := pb\<rparr>"
    "queues MSG_TYPE_MESH_DATA (unicast_bytes ?up) data data_len None c c1"
    using sq_unicast_returns [OF wf room adm] by (auto simp: returns_def)
  let ?c2 = "if ctimer_expired Mesh_Data_Timer c1 then set_timer_rand MESH_TRANSMIT Mesh_Data_Timer c1 else c1"
  have "ec_mesh destination seqno data data_len c = Inr ?c2" using 1(1) by (simp add: ec_mesh_def Let_def)
  with arm_if_expired [OF 1(3) set_timer_eq(3) refl, of Mesh_Data_Timer] 1(2) show ?thesis
    by (simp only: returns_Inr) simp
qed

subsection \<open>A full sending queue\<close>

lemma buffer_packet_no_room:
  "ec_wf c \<Longrightarrow> pb_free_cells (ec_sq c) = 0 \<Longrightarrow> buffer_packet (ec_sq c) hdr data data_len ns t = Inl Null_Deref"
  using ec_wfD(1) [of c] length_entries_le [of "pbuffer (ec_sq c)"]
  by (simp add: buffer_packet_def allocate_buffered_full sq_wfD pb_wfD free_cells)

lemma calls_no_room:
  assumes "ec_wf c" and "pb_free_cells (ec_sq c) = 0"
  shows "ec_broadcast originator sender hops seqno data data_len c = Inl Null_Deref"
    and "ec_mesh destination seqno data data_len c = Inl Null_Deref"
    and "ec_reliable_multicast ns originator sender hops seqno data data_len c = Inl Null_Deref"
  by (simp_all add: ec_broadcast_def ec_mesh_def ec_reliable_multicast_def sq_broadcast_ns_def
      sq_broadcast_def sq_unicast_def packet_buffer_broadcast_packet_def packet_buffer_unicast_packet_def
      buffer_packet_no_room [OF assms] Let_def)

end
