(* ===== verification/Frame_Laws.thy ===== *)
theory Frame_Laws
  imports Recv_Laws
begin

text \<open>
  Frames and acknowledgements: a frame that a node builds is understood by its receivers, and an
  acknowledgement takes its sender off the list of the packet it belongs to.
\<close>

subsection \<open>Sending and receiving a frame\<close>

lemma read_addr_drop:
  assumes "drop off fr = addr_bytes a @ rest"
  shows "read_addr fr off = Inr a"
proof -
  have len: "off + 1 < length fr"
  proof -
    have "length (drop off fr) \<ge> 2" unfolding assms by simp
    then show ?thesis by simp
  qed
  have "fr ! off = fst a" "fr ! (off + 1) = snd a"
    using assms len nth_drop [of off fr 0] nth_drop [of off fr 1] by (simp_all add: addr_bytes_def)
  with len show ?thesis by (simp add: read_addr_def addr_at_def)
qed

lemma find_id_loop_eq:
  "drop off fr = concat (map addr_bytes as) @ rest \<Longrightarrow>
   find_id_loop (length as) off fr me = Inr (me \<in> set as)"
proof (induction as arbitrary: off)
  case (Cons a as)
  then have rd: "read_addr fr off = Inr a" using read_addr_drop by simp
  have "drop (off + 2) fr = drop 2 (drop off fr)" by (simp add: add.commute)
  also have "\<dots> = concat (map addr_bytes as) @ rest" using Cons.prems by simp
  finally show ?case using Cons.IH rd by auto
qed simp

lemma read_header_append [simp]: "read_header (header_bytes h @ rest) = Inr h"
  by (simp add: read_header_def PACKET_HDR_SIZE_def)

lemma header_of_targeted:
  "header_of (targeted_frame h d addrs @ rest) =
     init_packet (if length addrs > 1 then MULTICAST else UNICAST) (hdr_hops h) (hdr_originator h)
       (hdr_sender h) (hdr_seqno h)"
  by (simp add: targeted_frame_def init_multicast_packet_def init_unicast_packet_def)

lemma length_concat_addrs: "length (concat (map addr_bytes as)) = 2 * length as"
  by (induction as) simp_all

lemma multicast_for_us:
  assumes n: "1 < length addrs" "length addrs \<le> 8"
    and fr_def: "fr = targeted_frame h d addrs @ rest"
  shows "frame_for_us me (header_of fr) fr (length (targeted_frame h d addrs)) =
    Inr (if me \<in> set addrs then Some (Kind_Multicast, 8 + 2 * length addrs, of_nat (length d)) else None)"
    and "drop (8 + 2 * length addrs) fr = d @ rest"
proof -
  let ?mp = "init_multicast_packet 0 (hdr_hops h) (hdr_originator h) (hdr_sender h) (hdr_seqno h) (of_nat (length addrs))"
  have fr: "fr = multicast_bytes ?mp @ concat (map addr_bytes addrs) @ d @ rest"
    using n by (simp add: fr_def targeted_frame_def)
  have ty: "PACKET_TYPE (header_of fr) = MULTICAST" unfolding fr header_of_multicast by simp
  have num: "fr ! 7 = of_nat (length addrs)"
    unfolding fr multicast_num_ids by (simp add: init_multicast_packet_def)
  have len: "8 \<le> length fr" unfolding fr by simp
  then have rd: "read_mem fr PACKET_HDR_SIZE 1 = Inr [fr ! 7]"
    by (simp add: read_mem_def PACKET_HDR_SIZE_def take_Suc hd_drop_conv_nth)
  have un: "unat (of_nat (length addrs) :: byte) = length addrs"
    using n by (simp add: unat_of_nat)
  have "drop 8 fr = concat (map addr_bytes addrs) @ d @ rest" unfolding fr by simp
  from find_id_loop_eq [OF this] have f: "find_id_loop (unat (fr ! 7)) MULTICAST_PACKET_HDR_SIZE fr me = Inr (me \<in> set addrs)"
    using un by (simp add: num MULTICAST_PACKET_HDR_SIZE_def)
  have tl: "length (targeted_frame h d addrs) = 8 + 2 * length addrs + length d"
    using n by (simp add: targeted_frame_def length_concat_addrs)
  have ids: "(2 * of_nat (length addrs) :: byte) = of_nat (2 * length addrs)" by simp
  have un2: "unat (of_nat (2 * length addrs) :: byte) = 2 * length addrs"
    using n by (simp add: unat_of_nat del: of_nat_mult)
  have dl: "(of_nat (8 + 2 * length addrs + length d) :: byte) - 8 - 2 * of_nat (length addrs) = of_nat (length d)"
    by simp
  show "frame_for_us me (header_of fr) fr (length (targeted_frame h d addrs)) =
    Inr (if me \<in> set addrs then Some (Kind_Multicast, 8 + 2 * length addrs, of_nat (length d)) else None)"
    unfolding frame_for_us_def ty rd bindR.simps list.sel f tl
    using un2 dl by (simp add: num Let_def MULTICAST_PACKET_HDR_SIZE_def del: of_nat_mult flip: ids)
  show "drop (8 + 2 * length addrs) fr = d @ rest"
    unfolding fr by (simp add: length_concat_addrs)
qed

lemma unicast_for_us:
  assumes n: "addrs = [a]"
    and fr_def: "fr = targeted_frame h d addrs @ rest"
  shows "frame_for_us me (header_of fr) fr (length (targeted_frame h d addrs)) =
    Inr (if me \<in> set addrs then Some (Kind_Unicast, 9, of_nat (length d)) else None)"
    and "drop 9 fr = d @ rest"
proof -
  let ?up = "init_unicast_packet 0 (hdr_hops h) (hdr_originator h) (hdr_sender h) (hdr_seqno h) a"
  have fr: "fr = unicast_bytes ?up @ d @ rest" using n by (simp add: fr_def targeted_frame_def)
  have ty: "PACKET_TYPE (header_of fr) = UNICAST" unfolding fr header_of_unicast by simp
  have "drop 7 fr = addr_bytes a @ d @ rest"
    unfolding fr by (simp add: unicast_bytes_def init_unicast_packet_def)
  from read_addr_drop [OF this] have rd: "read_addr fr PACKET_HDR_SIZE = Inr a" by (simp add: PACKET_HDR_SIZE_def)
  have tl: "length (targeted_frame h d addrs) = 9 + length d"
    using n by (simp add: targeted_frame_def)
  show "frame_for_us me (header_of fr) fr (length (targeted_frame h d addrs)) =
    Inr (if me \<in> set addrs then Some (Kind_Unicast, 9, of_nat (length d)) else None)"
    unfolding frame_for_us_def ty rd bindR.simps tl
    using n by (simp add: UNICAST_PACKET_HDR_SIZE_def)
  show "drop 9 fr = d @ rest" unfolding fr by simp
qed

text \<open>Where the data of a frame for \<open>addrs\<close> starts, and its kind.\<close>

definition targeted_kind :: "rimeaddr list \<Rightarrow> frame_kind \<times> nat" where
  "targeted_kind addrs = (if length addrs > 1 then (Kind_Multicast, 8 + 2 * length addrs) else (Kind_Unicast, 9))"

lemma targeted_for_us:
  assumes "addrs \<noteq> []" and "length addrs \<le> 8"
    and fr_def: "fr = targeted_frame h d addrs @ rest"
  shows "frame_for_us me (header_of fr) fr (length (targeted_frame h d addrs)) =
    Inr (if me \<in> set addrs then Some (fst (targeted_kind addrs), snd (targeted_kind addrs), of_nat (length d)) else None)"
    and "drop (snd (targeted_kind addrs)) fr = d @ rest"
proof -
  consider "1 < length addrs" | a where "addrs = [a]" using assms(1) by (cases addrs rule: remdups_adj.cases) auto
  then have "frame_for_us me (header_of fr) fr (length (targeted_frame h d addrs)) =
    Inr (if me \<in> set addrs then Some (fst (targeted_kind addrs), snd (targeted_kind addrs), of_nat (length d)) else None) \<and>
    drop (snd (targeted_kind addrs)) fr = d @ rest"
    using multicast_for_us [OF _ assms(2) fr_def] unicast_for_us [OF _ fr_def]
    by cases (simp_all add: targeted_kind_def)
  then show "frame_for_us me (header_of fr) fr (length (targeted_frame h d addrs)) =
    Inr (if me \<in> set addrs then Some (fst (targeted_kind addrs), snd (targeted_kind addrs), of_nat (length d)) else None)"
    and "drop (snd (targeted_kind addrs)) fr = d @ rest" by blast+
qed

subsection \<open>Acknowledgements\<close>

text \<open>A queued packet after \<open>a\<close> acknowledged it; it goes when no one is left to wait for.\<close>

fun acked :: "rimeaddr \<Rightarrow> packet_contents \<Rightarrow> packet_contents list" where
  "acked a (p, l, n, u) = (if remove1 a u = [] then [] else [(p, l, n, remove1 a u)])"

definition views :: "packet_buffer \<Rightarrow> nat list \<Rightarrow> packet_contents list" where
  "views pb is = map (\<lambda>i. packet_view (packet_at pb i)) is"

lemma lane_view_views: "lane_view c t = views (ec_sq c) (pb_lane (ec_sq c) t)"
  by (simp add: lane_view_def views_def)

lemma views_append [simp]: "views pb (as @ cs) = views pb as @ views pb cs"
  by (simp add: views_def)

lemma views_cong: "(\<And>i. i \<in> set is \<Longrightarrow> packet_at pb i = packet_at pb' i) \<Longrightarrow> views pb is = views pb' is"
  by (simp add: views_def)

lemma slot_split:
  assumes wf: "sq_wf pb" and t: "t < 7" and lane: "pb_lane pb t = as @ i # cs"
  shows "i \<notin> set as" "i \<notin> set cs" "u < 7 \<Longrightarrow> u \<noteq> t \<Longrightarrow> i \<notin> set (pb_lane pb u)"
proof -
  have "distinct (as @ i # cs)"
    using chain_distinct [OF pb_wfD(5) [OF sq_wfD(1) [OF wf] t]] lane by simp
  then show "i \<notin> set as" "i \<notin> set cs" by auto
  show "i \<notin> set (pb_lane pb u)" if "u < 7" "u \<noteq> t"
    using lane_disjoint [OF sq_wfD(1) [OF wf] that(1) t, of i] that(2) lane by auto
qed

text \<open>The packet stays, with one receiver less.\<close>

lemma acked_stays:
  assumes wf: "sq_wf (ec_sq c)" and t: "t < 7" and lane: "pb_lane (ec_sq c) t = as @ i # cs"
    and bp: "cell_ok bp" "lane_ok t bp" "bnext bp = bnext (payload (pbuffer (ec_sq c)) ! i)"
  obtains pb where "sq_set i bp c = Inr (c\<lparr>ec_sq := pb\<rparr>)" and "sq_wf pb"
    and "sq_effect t (views (ec_sq c) as @ [packet_view bp] @ views (ec_sq c) cs) c (c\<lparr>ec_sq := pb\<rparr>)"
    and "\<forall>u < 7. pb_lane pb u = pb_lane (ec_sq c) u" and "pb_free_cells pb = pb_free_cells (ec_sq c)"
proof -
  have i: "i \<in> set (pb_lane (ec_sq c) t)" using lane by simp
  obtain pb where pb: "set_packet (ec_sq c) i bp = Inr pb" "sq_wf pb"
    "\<forall>u < 7. pb_lane pb u = pb_lane (ec_sq c) u" "packet_at pb i = unlinked bp"
    "\<forall>j. j \<noteq> i \<longrightarrow> packet_at pb j = packet_at (ec_sq c) j"
    "length (entries (pbuffer pb)) = length (entries (pbuffer (ec_sq c)))"
    using set_packet_wf [OF wf t i bp] .
  note sp = slot_split [OF wf t lane]
  have "views pb as = views (ec_sq c) as" "views pb cs = views (ec_sq c) cs"
    by (rule views_cong; use sp pb(5) in metis)+
  moreover have "views pb [i] = [packet_view bp]" using pb(4) by (simp add: views_def)
  moreover have "views pb (pb_lane pb u) = views (ec_sq c) (pb_lane (ec_sq c) u)" if "u < 7" "u \<noteq> t" for u
    unfolding pb(3) [rule_format, OF that(1)] by (rule views_cong) (use sp(3) [OF that] pb(5) in metis)
  ultimately have "sq_effect t (views (ec_sq c) as @ [packet_view bp] @ views (ec_sq c) cs) c (c\<lparr>ec_sq := pb\<rparr>)"
    using pb(3) t lane views_append [of pb "[i]" cs] by (simp add: sq_effect_def lane_view_views)
  moreover have "pb_free_cells pb = pb_free_cells (ec_sq c)"
    using pb(2,6) wf by (simp add: free_cells)
  ultimately show ?thesis using that [of pb] pb by (simp add: sq_set_def)
qed

text \<open>The packet goes: it is written back with no receivers left, and freed.\<close>

lemma acked_goes:
  assumes wf: "sq_wf (ec_sq c)" and t: "t < 7" and lane: "pb_lane (ec_sq c) t = as @ i # cs"
    and bp: "cell_ok bp" "bnext bp = bnext (payload (pbuffer (ec_sq c)) ! i)"
  obtains pb1 pb where "sq_set i bp c = Inr (c\<lparr>ec_sq := pb1\<rparr>)" and "sq_free i (c\<lparr>ec_sq := pb1\<rparr>) = Inr (c\<lparr>ec_sq := pb\<rparr>)"
    and "sq_wf pb" and "sq_effect t (views (ec_sq c) as @ views (ec_sq c) cs) c (c\<lparr>ec_sq := pb\<rparr>)"
    and "\<forall>u < 7. set (pb_lane pb u) \<subseteq> set (pb_lane (ec_sq c) u)" and "pb_free_cells (ec_sq c) \<le> pb_free_cells pb"
proof -
  note pw = sq_wfD(1) [OF wf]
  note sp = slot_split [OF wf t lane]
  have i: "i \<in> set (pb_lane (ec_sq c) t)" using lane by simp
  have il: "i < length (pool (pbuffer (ec_sq c)))" using lane_slot_bound [OF pw t i] .
  obtain pb1 where 1: "set_packet (ec_sq c) i bp = Inr pb1" "pb_wf pb1" "\<forall>u < 7. pb_lane pb1 u = pb_lane (ec_sq c) u"
    "payload (pbuffer pb1) = (payload (pbuffer (ec_sq c)))[i := bp]"
    "used_slots (pbuffer pb1) = used_slots (pbuffer (ec_sq c))"
    "capacity (pbuffer pb1) = capacity (pbuffer (ec_sq c))"
    using set_packet_law [OF pw il bp] .
  have i1: "i \<in> set (pb_lane pb1 t)" using i 1(3) t by simp
  obtain pb where 2: "packet_buffer_free pb1 i = Inr pb" "pb_wf pb"
    "pb_lane pb t = filter (\<lambda>j. j \<noteq> i) (pb_lane pb1 t)" "\<forall>u < 7. u \<noteq> t \<longrightarrow> pb_lane pb u = pb_lane pb1 u"
    "\<forall>j < length (pool (pbuffer pb1)). packet_at pb j = packet_at pb1 j"
    "used_slots (pbuffer pb) = filter (\<lambda>j. j \<noteq> i) (used_slots (pbuffer pb1))"
    "capacity (pbuffer pb) = capacity (pbuffer pb1)"
    using packet_buffer_free_returns [OF 1(2) t i1] by (auto simp: returns_def)
  have len: "length (pool (pbuffer pb1)) = length (pool (pbuffer (ec_sq c)))"
    using 1(4) by (metis length_list_update length_payload)
  have at: "packet_at pb j = packet_at (ec_sq c) j" if "j < length (pool (pbuffer (ec_sq c)))" "j \<noteq> i" for j
    using 2(5) 1(4) len that by (simp add: packet_at_def)
  have lane_t: "pb_lane pb t = as @ cs"
    using 2(3) 1(3) t lane sp(1,2) by simp (metis (mono_tags, lifting) filter_True)
  have lane_u: "pb_lane pb u = pb_lane (ec_sq c) u" if "u < 7" "u \<noteq> t" for u using 2(4) 1(3) that by simp
  have sub: "set (pb_lane pb u) \<subseteq> set (pb_lane (ec_sq c) u)" if "u < 7" for u
    using lane_t lane_u [OF that] lane by (cases "u = t") auto
  have ni: "i \<notin> set (pb_lane pb u)" if "u < 7" for u
    using lane_t lane_u [OF that] sp that by (cases "u = t") auto
  have same: "packet_at pb j = packet_at (ec_sq c) j" if "u < 7" "j \<in> set (pb_lane pb u)" for u j
    using at lane_slot_bound [OF pw that(1)] sub [OF that(1)] ni [OF that(1)] that(2) by blast
  have "lane_ok u (packet_at pb j)" if "u < 7" "j \<in> set (pb_lane pb u)" for u j
    using same [OF that] sq_wfD(3) [OF wf that(1)] sub [OF that(1)] that(2) by auto
  then have sq: "sq_wf pb" using 2(2,7) 1(6) wf by (simp add: sq_wf_def)
  have vw: "views pb (pb_lane pb u) = views (ec_sq c) (pb_lane pb u)" if "u < 7" for u
    by (rule views_cong) (rule same [OF that])
  then have "sq_effect t (views (ec_sq c) as @ views (ec_sq c) cs) c (c\<lparr>ec_sq := pb\<rparr>)"
    using vw [OF t] lane_t lane_u by (simp add: sq_effect_def lane_view_views) metis
  moreover have "length (entries (pbuffer pb)) \<le> length (entries (pbuffer (ec_sq c)))"
    using 2(6) 1(5) by (metis length_filter_le length_map map_fst_entries)
  then have "pb_free_cells (ec_sq c) \<le> pb_free_cells pb" using sq wf by (simp add: free_cells)
  ultimately show ?thesis using that [of pb1 pb] 1(1) 2(1) sq sub by (simp add: sq_set_def sq_free_def)
qed

definition ack_effect :: "header \<Rightarrow> 'a ec_scheme \<Rightarrow> 'a ec_scheme \<Rightarrow> bool" where
  "ack_effect p c c' \<longleftrightarrow>
     (case List.find (\<lambda>i. originator_seqno_cmp (bp_p (packet_at (ec_sq c) i)) p) (all_slots (ec_sq c)) of
        None \<Rightarrow> c' = c
      | Some i \<Rightarrow> \<exists>t as cs. t < 7 \<and> pb_lane (ec_sq c) t = as @ i # cs \<and>
          sq_effect t (views (ec_sq c) as @ acked (hdr_sender p) (packet_view (packet_at (ec_sq c) i)) @
            views (ec_sq c) cs) c c')"

lemma ack_received_returns:
  assumes wf: "ec_wf c"
  shows "returns (ack_received tm p c) (\<lambda>c'. ec_wf c' \<and> ec_keep c c' \<and> ec_dq c' = ec_dq c \<and> ack_effect p c c' \<and>
    (\<forall>u < 7. set (pb_lane (ec_sq c') u) \<subseteq> set (pb_lane (ec_sq c) u)) \<and>
    pb_free_cells (ec_sq c) \<le> pb_free_cells (ec_sq c'))"
proof -
  let ?hit = "\<lambda>i. originator_seqno_cmp (bp_p (packet_at (ec_sq c) i)) p"
  note sq = ec_wfD(1) [OF wf]
  have f: "packet_buffer_find_buffered_packet (ec_sq c) (\<lambda>q. originator_seqno_cmp q p) =
      Inr (List.find ?hit (all_slots (ec_sq c)))"
    by (rule find_buffered_packet_eq [OF sq_wfD(1) [OF sq]])
  show ?thesis
  proof (cases "List.find ?hit (all_slots (ec_sq c))")
    case None
    with f wf show ?thesis by (simp add: ack_received_def ack_effect_def)
  next
    case (Some i)
    then have "i \<in> set (all_slots (ec_sq c))" by (auto dest: find_Some_in)
    then obtain t where t: "t < 7" and "i \<in> set (pb_lane (ec_sq c) t)" by (auto simp: all_slots_iff)
    then obtain as cs where lane: "pb_lane (ec_sq c) t = as @ i # cs" by (meson split_list)
    then have i: "i \<in> set (pb_lane (ec_sq c) t)" by simp
    obtain bp where bp: "get_packet (ec_sq c) i = Inr bp" "cell_ok bp" "unlinked bp = packet_at (ec_sq c) i"
      "lane_ok t bp" "bp = payload (pbuffer (ec_sq c)) ! i" using sq_cell [OF sq t i] .
    obtain b where b: "packet_buffer_neighbor_acked bp (hdr_sender p) = Inr b" "cell_ok b"
      "items (unacked_ns b) = remove1 (hdr_sender p) (items (unacked_ns bp))" "bnext b = bnext bp"
      "times_sent b = times_sent bp" "bp_data_len b = bp_data_len bp" "bp_p b = bp_p bp"
      using neighbor_acked_returns [OF bp(2), of "hdr_sender p"] unfolding returns_def by blast
    have nx: "bnext b = bnext (payload (pbuffer (ec_sq c)) ! i)" using b(4) bp(5) by simp
    have vi: "packet_view (packet_at (ec_sq c) i) = (bp_p bp, bp_data_len bp, times_sent bp, items (unacked_ns bp))"
      using bp(3) by (metis packet_view_def packet_view_unlinked)
    have all: "packet_buffer_all_neighbors_acked b \<longleftrightarrow> items (unacked_ns b) = []" by (rule all_acked_iff [OF b(2)])
    show ?thesis
    proof (cases "items (unacked_ns b) = []")
      case True
      obtain pb1 pb where g: "sq_set i b c = Inr (c\<lparr>ec_sq := pb1\<rparr>)" "sq_free i (c\<lparr>ec_sq := pb1\<rparr>) = Inr (c\<lparr>ec_sq := pb\<rparr>)"
        "sq_wf pb" "sq_effect t (views (ec_sq c) as @ views (ec_sq c) cs) c (c\<lparr>ec_sq := pb\<rparr>)"
        "\<forall>u < 7. set (pb_lane pb u) \<subseteq> set (pb_lane (ec_sq c) u)" "pb_free_cells (ec_sq c) \<le> pb_free_cells pb"
        using acked_goes [OF sq t lane b(2) nx] .
      obtain k tms where d: "set_timer_rand FAST_TRANSMIT tm (c\<lparr>ec_sq := pb\<rparr>) = (c\<lparr>ec_sq := pb\<rparr>)\<lparr>ec_timers := tms, ec_rand_pos := k\<rparr>"
        "\<forall>tm. ec_timers (c\<lparr>ec_sq := pb\<rparr>) tm \<noteq> None \<longrightarrow> tms tm \<noteq> None" using set_timer_eq(1) by blast
      let ?c = "c\<lparr>ec_sq := pb, ec_timers := tms, ec_rand_pos := k\<rparr>"
      have run: "ack_received tm p c = Inr ?c"
        using f Some bp(1) b(1) g(1,2) True all d(1) by (simp add: ack_received_def)
      have "acked (hdr_sender p) (packet_view (packet_at (ec_sq c) i)) = []" using True b(3) vi by simp
      then have "ack_effect p c ?c"
        unfolding ack_effect_def Some
        by simp (use t lane g(4) in \<open>auto simp: sq_effect_def\<close>)
      moreover have "ec_wf ?c" using wf g(3) by (simp add: ec_wf_def)
      moreover have "ec_keep c ?c" using d(2) by (simp add: ec_keep_def)
      ultimately show ?thesis using run g(5,6) by simp
    next
      case False
      have ok: "lane_ok t b" using bp(4) b(6,7) False by (auto simp: lane_ok_def)
      obtain pb where g: "sq_set i b c = Inr (c\<lparr>ec_sq := pb\<rparr>)" "sq_wf pb"
        "sq_effect t (views (ec_sq c) as @ [packet_view b] @ views (ec_sq c) cs) c (c\<lparr>ec_sq := pb\<rparr>)"
        "\<forall>u < 7. pb_lane pb u = pb_lane (ec_sq c) u" "pb_free_cells pb = pb_free_cells (ec_sq c)"
        using acked_stays [OF sq t lane b(2) ok nx] .
      have run: "ack_received tm p c = Inr (c\<lparr>ec_sq := pb\<rparr>)"
        using f Some bp(1) b(1) g(1) False all by (simp add: ack_received_def)
      have "acked (hdr_sender p) (packet_view (packet_at (ec_sq c) i)) = [packet_view b]"
        using False b vi by (simp add: packet_view_def)
      then have "ack_effect p c (c\<lparr>ec_sq := pb\<rparr>)"
        unfolding ack_effect_def Some by simp (use t lane g(3) in auto)
      moreover have "ec_wf (c\<lparr>ec_sq := pb\<rparr>)" using wf g(2) by (simp add: ec_wf_def)
      ultimately show ?thesis using run g(4,5) by (simp add: ec_keep_def)
    qed
  qed
qed

end
