(* ===== verification/Emergency_Steps.thy ===== *)
theory Emergency_Steps
  imports Frame_Laws
begin

text \<open>
  The connection as a state machine: frames, timers and the mesh layer are events, each handled by
  one function of the code. The theory states what a client must guarantee of its callbacks
  (locale \<open>ec_client\<close>) and proves that then every event keeps the client's invariant, and with it
  the connection's: its queues are well formed, and a lane with packets has its timer running.
\<close>

definition ec_inv :: "'a ec_scheme \<Rightarrow> bool" where
  "ec_inv c \<longleftrightarrow> ec_wf c \<and> all_armed c"

text \<open>What the connection does on its own: its client's data stay as they were.\<close>

definition ec_internal :: "'a ec_scheme \<Rightarrow> 'a ec_scheme \<Rightarrow> bool" where
  "ec_internal c c' \<longleftrightarrow> ec_inv c' \<and> ec_node_addr c' = ec_node_addr c \<and> ec_ns_set c' = ec_ns_set c \<and>
     entries (ec_ns c') = entries (ec_ns c) \<and> ec.more c' = ec.more c"

lemma ec_internal_refl: "ec_inv c \<Longrightarrow> ec_internal c c"
  by (simp add: ec_internal_def)

lemma ec_internal_trans: "ec_internal c c1 \<Longrightarrow> ec_internal c1 c2 \<Longrightarrow> ec_internal c c2"
  by (simp add: ec_internal_def)

lemma ec_invD: "ec_inv c \<Longrightarrow> ec_wf c" "ec_inv c \<Longrightarrow> all_armed c"
  by (simp_all add: ec_inv_def)

lemma keep_internal: "ec_keep c c' \<Longrightarrow> ec_inv c' \<Longrightarrow> ec_internal c c'"
  by (simp add: ec_keep_def ec_internal_def)

subsection \<open>Armed timers\<close>

lemma lane_armed_mono:
  assumes "lane_armed c t" and "pb_lane (ec_sq c') t \<noteq> [] \<Longrightarrow> pb_lane (ec_sq c) t \<noteq> []"
    and "\<And>tm. lane_timer t = Some tm \<Longrightarrow> ec_timers c tm \<noteq> None \<Longrightarrow> ec_timers c' tm \<noteq> None"
  shows "lane_armed c' t"
  using assms unfolding lane_armed_def by (auto split: option.splits)

lemma armed_shrink:
  assumes "all_armed c" and "ec_keep c c'"
    and "\<forall>u < 7. set (pb_lane (ec_sq c') u) \<subseteq> set (pb_lane (ec_sq c) u)"
  shows "all_armed c'"
  unfolding all_armed_def
proof (intro allI impI)
  fix u :: nat assume u: "u < 7"
  show "lane_armed c' u"
    by (rule lane_armed_mono [of c]) (use assms u in \<open>auto simp: all_armed_def ec_keep_def\<close>)
qed

lemma view_empty: "lane_view c u = lane_view c' u \<Longrightarrow> pb_lane (ec_sq c) u = [] \<longleftrightarrow> pb_lane (ec_sq c') u = []"
  by (metis lane_view_Nil)

lemma armed_queues:
  assumes arm: "all_armed c" and q: "queues t hdr data data_len ns c c'" and t: "lane_armed c' t"
  shows "all_armed c'"
  unfolding all_armed_def
proof (intro allI impI)
  fix u :: nat assume u: "u < 7"
  show "lane_armed c' u"
  proof (cases "u = t")
    case False
    from q False u have v: "lane_view c' u = lane_view c u" unfolding queues_def sq_effect_def by blast
    from arm u have a: "lane_armed c u" by (simp add: all_armed_def)
    from q have k: "\<forall>tm. ec_timers c tm \<noteq> None \<longrightarrow> ec_timers c' tm \<noteq> None"
      by (simp add: queues_def ec_keep_def)
    show ?thesis
    proof (rule lane_armed_mono [OF a])
      show "pb_lane (ec_sq c) u \<noteq> []" if "pb_lane (ec_sq c') u \<noteq> []" using that view_empty [OF v] by simp
      show "ec_timers c' tm \<noteq> None" if "ec_timers c tm \<noteq> None" for tm using that k by blast
    qed
  qed (use t in simp)
qed

lemma queues_internal:
  "ec_inv c \<Longrightarrow> queues t hdr data data_len ns c c' \<Longrightarrow> lane_armed c' t \<Longrightarrow> ec_internal c c'"
  using armed_queues [OF ec_invD(2)] by (intro keep_internal) (simp_all add: queues_def ec_inv_def)

lemma calls_internal: "ec_inv c \<Longrightarrow> calls t hdr p data data_len ns c c' \<Longrightarrow> ec_internal c c'"
  using queues_internal by (auto simp: calls_def)

lemma lane_timer_inj: "t < 7 \<Longrightarrow> u < 7 \<Longrightarrow> lane_timer t = Some tm \<Longrightarrow> lane_timer u = Some tm \<Longrightarrow> t = u"
  by (auto simp: lane_timer_def numeral_eq_Suc less_Suc_eq)

lemma lane_timer_mesh: "t < 7 \<Longrightarrow> lane_timer t \<noteq> Some Mesh_Data_Timer"
  by (auto simp: lane_timer_def numeral_eq_Suc less_Suc_eq)

lemma sends_internal:
  assumes inv: "ec_inv c" and t: "t < 7" and tm: "lane_timer t = Some tm \<or> (t = MSG_TYPE_MESH_DATA \<and> tm = Mesh_Data_Timer)"
    and s: "sends t ps frames (ctimer_stop tm c) c'"
  shows "ec_internal c c'"
proof -
  have "lane_armed c' u" if u: "u < 7" for u
  proof (cases "u = t")
    case True
    with s show ?thesis by (simp add: sends_def)
  next
    case False
    have other: "ec_timers c' tm' \<noteq> None" if "lane_timer u = Some tm'" "ec_timers c tm' \<noteq> None" for tm'
    proof -
      have "tm' \<noteq> tm"
        using tm
      proof
        assume "lane_timer t = Some tm"
        from lane_timer_inj [OF t u this] that(1) False show ?thesis by blast
      next
        assume "t = MSG_TYPE_MESH_DATA \<and> tm = Mesh_Data_Timer"
        with lane_timer_mesh [OF u] that(1) show ?thesis by auto
      qed
      with s that(2) show ?thesis by (simp add: sends_def ec_frame_def ctimer_stop_def)
    qed
    have "lane_view c' u = lane_view (ctimer_stop tm c) u"
      using s u False unfolding sends_def sq_effect_def by blast
    then have v: "lane_view c' u = lane_view c u" by (simp add: ctimer_stop_def)
    from inv u have a: "lane_armed c u" by (simp add: ec_inv_def all_armed_def)
    show ?thesis
    proof (rule lane_armed_mono [OF a])
      show "pb_lane (ec_sq c) u \<noteq> []" if "pb_lane (ec_sq c') u \<noteq> []" using that view_empty [OF v] by simp
      show "ec_timers c' tm' \<noteq> None" if "lane_timer u = Some tm'" "ec_timers c tm' \<noteq> None" for tm'
        using other [OF that] .
    qed
  qed
  with s show ?thesis
    by (simp add: ec_internal_def ec_inv_def all_armed_def sends_def ec_frame_def ctimer_stop_def)
qed

subsection \<open>The connection's own steps\<close>

lemma stop_wf: "ec_wf c \<Longrightarrow> ec_wf (ctimer_stop tm c)"
  by (simp add: ctimer_stop_def)

lemma sender_internal:
  assumes inv: "ec_inv c" and r: "r = Inr c'" and s: "returns r (sends t ps frames (ctimer_stop tm c))"
    and t: "t < 7" and tm: "lane_timer t = Some tm \<or> (t = MSG_TYPE_MESH_DATA \<and> tm = Mesh_Data_Timer)"
  shows "ec_internal c c'"
  using sends_internal [OF inv t tm] s r by simp

lemma store_internal:
  assumes "ec_inv c" and "store_packet_for_dupe_checks p c = Inr c'"
  shows "ec_internal c c'"
  using store_packet_returns [OF ec_invD(1) [OF assms(1)], of p] assms
  by (auto simp: ec_internal_def ec_inv_def all_armed_def lane_armed_def split: option.splits)

lemma ack_received_internal:
  assumes "ec_inv c" and "ack_received tm p c = Inr c'"
  shows "ec_internal c c'"
  using ack_received_returns [OF ec_invD(1) [OF assms(1)], of tm p] assms armed_shrink [of c c']
  by (auto simp: ec_inv_def intro!: keep_internal)

lemma find_packet_returns:
  "ec_wf c \<Longrightarrow> packet_buffer_find_buffered_packet (ec_sq c) hit =
     Inr (List.find (\<lambda>i. hit (bp_p (packet_at (ec_sq c) i))) (all_slots (ec_sq c)))"
  by (rule find_buffered_packet_eq [OF sq_wfD(1) [OF ec_wfD(1)]])

lemma queue_ack_returns:
  assumes wf: "ec_wf c" and t: "t \<in> {MSG_TYPE_NEIGHBOR_ACK, MSG_TYPE_MULTICAST_UNICAST_ACK}"
    and tm: "lane_timer t = Some tm" and room: "0 < pb_free_cells (ec_sq c)"
  shows "returns (queue_ack t tm p c) (\<lambda>c'. ec_dq c' = ec_dq c \<and> (c' = c \<and> (\<exists>s < 7. \<exists>v \<in> set (lane_view c s).
      unicast_packet_cmp (fst v) (init_unicast_packet ACK 0 (hdr_originator p) (ec_node_addr c) (hdr_seqno p) (hdr_sender p))) \<or>
    queues t (unicast_bytes (init_unicast_packet ACK 0 (hdr_originator p) (ec_node_addr c) (hdr_seqno p) (hdr_sender p)))
      [] 0 None c c' \<and> lane_armed c' t))"
proof -
  let ?ap = "init_unicast_packet ACK 0 (hdr_originator p) (ec_node_addr c) (hdr_seqno p) (hdr_sender p)"
  have adm: "admissible t (unicast_bytes ?ap) [] 0 None"
    using t by (auto simp: admissible_def packet_flags lane_flags_eq) (simp_all add: msg_type_defs)
  obtain c1 pb where 1: "sq_unicast ?ap [] 0 t c = Inr c1" "c1 = c\<lparr>ec_sq := pb\<rparr>"
    "queues t (unicast_bytes ?ap) [] 0 None c c1"
    using sq_unicast_returns [OF wf room adm] by (auto simp: returns_def)
  obtain k tms where d: "set_timer_rand FAST_TRANSMIT_ACK tm c1 = c1\<lparr>ec_timers := tms, ec_rand_pos := k\<rparr>"
    "\<forall>tm. ec_timers c1 tm \<noteq> None \<longrightarrow> tms tm \<noteq> None" "tms tm \<noteq> None" using set_timer_eq(2) by blast
  have "queues t (unicast_bytes ?ap) [] 0 None c (set_timer_rand FAST_TRANSMIT_ACK tm c1)"
    by (rule queues_timer [OF 1(3) d(1,2)])
  moreover have "lane_armed (set_timer_rand FAST_TRANSMIT_ACK tm c1) t" using d tm by (simp add: lane_armed_def)
  moreover have "ec_dq (set_timer_rand FAST_TRANSMIT_ACK tm c1) = ec_dq c" using d 1(2) by simp
  moreover have "\<exists>s < 7. \<exists>v \<in> set (lane_view c s). unicast_packet_cmp (fst v) ?ap"
    if "List.find (\<lambda>i. unicast_packet_cmp (bp_p (packet_at (ec_sq c) i)) ?ap) (all_slots (ec_sq c)) = Some i" for i
    using find_Some_in [OF that] by (auto simp: all_slots_iff lane_view_def packet_view_def)
  ultimately show ?thesis using 1(1)
    by (cases "List.find (\<lambda>i. unicast_packet_cmp (bp_p (packet_at (ec_sq c) i)) ?ap) (all_slots (ec_sq c))")
       (simp_all add: queue_ack_def Let_def find_packet_returns [OF wf])
qed

lemma queue_ack_full:
  assumes wf: "ec_wf c" and full: "pb_free_cells (ec_sq c) = 0"
  shows "queue_ack t tm p c = Inr c \<or> queue_ack t tm p c = Inl Null_Deref"
  by (auto simp: queue_ack_def Let_def find_packet_returns [OF wf] sq_unicast_def packet_buffer_unicast_packet_def
      buffer_packet_no_room [OF assms])

lemma queue_ack_internal:
  assumes inv: "ec_inv c" and q: "queue_ack t tm p c = Inr c'"
    and t: "t \<in> {MSG_TYPE_NEIGHBOR_ACK, MSG_TYPE_MULTICAST_UNICAST_ACK}" and tm: "lane_timer t = Some tm"
  shows "ec_internal c c'"
proof (cases "pb_free_cells (ec_sq c) = 0")
  case True
  with queue_ack_full [OF ec_invD(1) [OF inv] True, of t tm p] q inv show ?thesis
    by (auto intro: ec_internal_refl)
next
  case False
  then have "0 < pb_free_cells (ec_sq c)" by simp
  from queue_ack_returns [OF ec_invD(1) [OF inv] t tm this, of p] q inv show ?thesis
    by (auto intro: ec_internal_refl queues_internal)
qed

subsection \<open>The client's calls\<close>

lemma buffer_packet_Inr:
  assumes wf: "ec_wf c" and b: "buffer_packet (ec_sq c) hdr data data_len ns t = Inr r"
  shows "0 < pb_free_cells (ec_sq c) \<and> length hdr + unat data_len < 32 \<and> unat data_len \<le> length data"
proof -
  have room: "0 < pb_free_cells (ec_sq c)"
    using buffer_packet_no_room [OF wf, of hdr data data_len ns t] b by fastforce
  obtain pb s where a: "allocate_buffered_packet (ec_sq c) t = Inr (pb, s)"
    using b by (auto simp: buffer_packet_def bindR_eq_Inr)
  have "s \<noteq> None"
    using a by (auto simp: allocate_buffered_packet_def add_buffered_packet_tail_def bindR_eq_Inr split: option.splits)
  with a b room show ?thesis
    by (auto simp: buffer_packet_def bindR_eq_Inr MAX_PACKET_SIZE_def read_mem_def split: if_splits)
qed

lemma sq_broadcast_Inr:
  "ec_wf c \<Longrightarrow> sq_broadcast bp data data_len ns t c = Inr r \<Longrightarrow>
   0 < pb_free_cells (ec_sq c) \<and> unat data_len \<le> 24 \<and> unat data_len \<le> length data"
  using buffer_packet_Inr [of c "header_bytes bp" data data_len ns t]
  by (auto simp: sq_broadcast_def packet_buffer_broadcast_packet_def bindR_eq_Inr)

lemma sq_broadcast_ns_Inr:
  "ec_wf c \<Longrightarrow> sq_broadcast_ns bp data data_len t c = Inr r \<Longrightarrow>
   0 < pb_free_cells (ec_sq c) \<and> unat data_len \<le> 24 \<and> unat data_len \<le> length data"
  using sq_broadcast_Inr [of c bp data data_len "conn_ns c" t]
  by (auto simp: sq_broadcast_ns_def bindR_eq_Inr)

lemma sq_unicast_Inr:
  "ec_wf c \<Longrightarrow> sq_unicast up data data_len t c = Inr r \<Longrightarrow>
   0 < pb_free_cells (ec_sq c) \<and> unat data_len \<le> 22 \<and> unat data_len \<le> length data"
  using buffer_packet_Inr [of c "unicast_bytes up" data data_len None t]
  by (auto simp: sq_unicast_def packet_buffer_unicast_packet_def bindR_eq_Inr)

lemma ec_broadcast_internal:
  assumes inv: "ec_inv c" and e: "ec_broadcast o' s h n data data_len c = Inr c'"
  shows "ec_internal c c'"
proof -
  note wf = ec_invD(1) [OF inv]
  have "0 < pb_free_cells (ec_sq c) \<and> unat data_len \<le> 24 \<and> unat data_len \<le> length data"
    using e sq_broadcast_ns_Inr [OF wf] by (auto simp: ec_broadcast_def Let_def bindR_eq_Inr)
  with ec_broadcast_calls [OF wf, of data_len data o' s h n] e show ?thesis
    using calls_internal [OF inv] by (auto simp: Let_def)
qed

lemma ec_reliable_broadcast_ns_internal:
  assumes inv: "ec_inv c" and e: "ec_reliable_broadcast_ns o' s h n data data_len c = Inr c'"
  shows "ec_internal c c'"
proof -
  note wf = ec_invD(1) [OF inv]
  have set: "ec_ns_set c" using e by (auto simp: ec_reliable_broadcast_ns_def conn_ns_def split: if_splits)
  show ?thesis
  proof (cases "neighbors_size (ec_ns c) > 0")
    case False
    with e set inv show ?thesis
      by (simp add: ec_reliable_broadcast_ns_def conn_ns_def ec_internal_refl)
  next
    case True
    then have "0 < pb_free_cells (ec_sq c) \<and> unat data_len \<le> 24 \<and> unat data_len \<le> length data"
      using e set sq_broadcast_ns_Inr [OF wf]
      by (auto simp: ec_reliable_broadcast_ns_def conn_ns_def Let_def bindR_eq_Inr)
    with ec_reliable_broadcast_ns_calls [OF wf _ set, of data_len data o' s h n] e inv show ?thesis
      using calls_internal [OF inv] by (auto simp: Let_def ec_internal_refl split: if_splits)
  qed
qed

lemma ec_mesh_internal:
  assumes inv: "ec_inv c" and e: "ec_mesh d n data data_len c = Inr c'"
  shows "ec_internal c c'"
proof -
  note wf = ec_invD(1) [OF inv]
  have "0 < pb_free_cells (ec_sq c) \<and> unat data_len \<le> 22 \<and> unat data_len \<le> length data"
    using e sq_unicast_Inr [OF wf] by (auto simp: ec_mesh_def Let_def bindR_eq_Inr)
  moreover have "lane_armed c' MSG_TYPE_MESH_DATA" by (simp add: lane_armed_def lane_timer_def msg_type_defs)
  ultimately show ?thesis
    using ec_mesh_queues [OF wf, of data_len data d n] e queues_internal [OF inv] by auto
qed

subsection \<open>Time synchronisation\<close>

lemma armed_cong: "ec_sq c' = ec_sq c \<Longrightarrow> ec_timers c' = ec_timers c \<Longrightarrow> all_armed c' \<longleftrightarrow> all_armed c"
  by (simp add: all_armed_def lane_armed_def cong: option.case_cong)

lemma sync_internal:
  "ec_inv c \<Longrightarrow> sync_wf ts \<Longrightarrow> ec_internal c (c\<lparr>ec_sync := ts, ec_ts_seqno := n\<rparr>)"
  "ec_inv c \<Longrightarrow> sync_wf ts \<Longrightarrow> ec_internal c (c\<lparr>ec_sync := ts\<rparr>)"
  by (simp_all add: ec_internal_def ec_inv_def ec_wf_def armed_cong [of "c\<lparr>ec_sync := ts, ec_ts_seqno := n\<rparr>" c]
      armed_cong [of "c\<lparr>ec_sync := ts\<rparr>" c])

lemma timer_internal:
  assumes inv: "ec_inv c" and c': "c' = c\<lparr>ec_timers := tms, ec_rand_pos := k\<rparr>"
    and tms: "\<forall>tm. ec_timers c tm \<noteq> None \<longrightarrow> tms tm \<noteq> None"
  shows "ec_internal c c'"
proof (rule keep_internal)
  show "ec_keep c c'" using c' tms by (simp add: ec_keep_def)
  have "all_armed c'" using armed_shrink [OF ec_invD(2) [OF inv] \<open>ec_keep c c'\<close>] c' by simp
  then show "ec_inv c'" using inv c' by (simp add: ec_inv_def)
qed

lemma set_timer_internal: "ec_inv c \<Longrightarrow> ec_internal c (set_timer_rand FAST_TRANSMIT tm c)"
  using set_timer_eq(1) [of tm c] timer_internal by blast

lemma ctimer_set_internal: "ec_inv c \<Longrightarrow> ec_internal c (ctimer_set tm d c)"
  using timer_internal [of c "ctimer_set tm d c" "ec_rand_pos c" "(ec_timers c)(tm := Some d)"]
  by (simp add: ctimer_set_def)

text \<open>Queueing a timesynch packet and setting the two timers.\<close>

lemma timesynch_packet_internal:
  assumes inv: "ec_inv c" and b: "sq_broadcast (init_broadcast_packet TIMESYNCH h o' s n) [] 0 None MSG_TYPE_TIMESYNCH_DATA c = Inr (c1, r)"
  shows "ec_internal c (ctimer_set Ts_Timer d (set_timer_rand FAST_TRANSMIT Timesynch_Data_Timer c1))"
proof -
  note wf = ec_invD(1) [OF inv]
  have room: "0 < pb_free_cells (ec_sq c)" using sq_broadcast_Inr [OF wf b] by simp
  have adm: "admissible MSG_TYPE_TIMESYNCH_DATA (header_bytes (init_broadcast_packet TIMESYNCH h o' s n)) [] 0 None"
    by (simp add: admissible_def packet_flags lane_flags_eq) (simp add: msg_type_defs)
  have q: "queues MSG_TYPE_TIMESYNCH_DATA (header_bytes (init_broadcast_packet TIMESYNCH h o' s n)) [] 0 None c c1"
    using sq_broadcast_returns [OF wf room adm] b by simp
  obtain k tms where d: "set_timer_rand FAST_TRANSMIT Timesynch_Data_Timer c1 = c1\<lparr>ec_timers := tms, ec_rand_pos := k\<rparr>"
    "\<forall>tm. ec_timers c1 tm \<noteq> None \<longrightarrow> tms tm \<noteq> None" "tms Timesynch_Data_Timer \<noteq> None"
    using set_timer_eq(1) by blast
  let ?c2 = "set_timer_rand FAST_TRANSMIT Timesynch_Data_Timer c1"
  have "lane_armed ?c2 MSG_TYPE_TIMESYNCH_DATA"
    using d(1,3) by (simp add: lane_armed_def lane_timer_def msg_type_defs)
  then have i: "ec_internal c ?c2" by (rule queues_internal [OF inv queues_timer [OF q d(1,2)]])
  then have "ec_inv ?c2" by (simp add: ec_internal_def)
  from ec_internal_trans [OF i ctimer_set_internal [OF this]] show ?thesis .
qed

lemma forward_timesynch_internal:
  "ec_inv c \<Longrightarrow> forward_timesynch p c = Inr c' \<Longrightarrow> ec_internal c c'"
  by (auto simp: forward_timesynch_def Let_def bindR_eq_Inr intro: timesynch_packet_internal)

lemma timesynch_as_leader_internal:
  assumes inv: "ec_inv c" and l: "timesynch_as_leader cb c = Inr c'"
  obtains c1 where "ec_internal c c1" and "cb_timesynch cb c1 = Inr c'"
proof -
  let ?c = "c\<lparr>ec_sync := set_authority_seqno (set_authority_level (ec_sync c)
     (timesynch_rimeaddr_to_authority (ec_node_addr c))) (ec_ts_seqno c), ec_ts_seqno := ec_ts_seqno c + 1\<rparr>"
  have i: "ec_internal c ?c"
    by (rule sync_internal [OF inv])
       (use ec_wfD(5) [OF ec_invD(1) [OF inv]] in \<open>simp add: set_authority_seqno_def set_authority_level_def\<close>)
  then have "ec_inv ?c" by (simp add: ec_internal_def)
  note queued = ec_internal_trans [OF i timesynch_packet_internal [OF this]]
  obtain c1 r where "sq_broadcast (init_broadcast_packet TIMESYNCH 0 (ec_node_addr c) (ec_node_addr c) (ec_ts_seqno c))
      [] 0 None MSG_TYPE_TIMESYNCH_DATA ?c = Inr (c1, r)"
    and "cb_timesynch cb (ctimer_set Ts_Timer TIMESYNCH_LEADER_UPDATE
      (set_timer_rand FAST_TRANSMIT Timesynch_Data_Timer c1)) = Inr c'"
    using l by (auto simp: timesynch_as_leader_def Let_def bindR_eq_Inr)
  with queued that show thesis by blast
qed

lemma incoming_packet_wf:
  assumes wf: "sync_wf ts" and i: "incoming_packet ts fr totlen level departure arrival = Inr ts'"
  shows "sync_wf ts'"
proof -
  have a: "sync_wf t' \<Longrightarrow> adjust_offset t' departure arrival = Inr ts' \<Longrightarrow> sync_wf ts'" for t'
    using adjust_offset_returns [of t' "ts_offset t' + departure - arrival" departure arrival] by simp
  show ?thesis
    using i wf a [OF wf] a [OF sync_wf_restart [OF wf]]
    by (auto simp: incoming_packet_def bindR_eq_Inr split: if_splits)
qed

subsection \<open>Timers that fire\<close>

lemma stop_ts_internal: "ec_inv c \<Longrightarrow> ec_internal c (ctimer_stop Ts_Timer c)"
proof -
  assume inv: "ec_inv c"
  have "lane_armed (ctimer_stop Ts_Timer c) t" if t: "t < 7" for t
  proof -
    have "lane_timer t \<noteq> Some Ts_Timer" using t by (auto simp: lane_timer_def numeral_eq_Suc less_Suc_eq)
    moreover have "lane_armed c t" using inv t by (simp add: ec_inv_def all_armed_def)
    ultimately show ?thesis by (auto simp: lane_armed_def ctimer_stop_def split: option.splits)
  qed
  with inv show "ec_internal c (ctimer_stop Ts_Timer c)"
    by (simp add: ec_internal_def ec_inv_def all_armed_def ctimer_stop_def)
qed

lemma meshdata_sent_internal:
  assumes inv: "ec_inv c" and m: "meshdata_sent c = Inr c'"
  shows "ec_internal c c'"
proof -
  have t: "MSG_TYPE_MESH_DATA < 7" by (simp add: msg_type_defs)
  have "first_of MSG_TYPE_MESH_DATA c \<noteq> None" using m by (cases "first_of MSG_TYPE_MESH_DATA c") (simp_all add: meshdata_sent_def)
  then obtain v ps where v: "lane_view c MSG_TYPE_MESH_DATA = v # ps"
    using no_lane [OF ec_invD(1) [OF inv] t] by (cases "lane_view c MSG_TYPE_MESH_DATA") auto
  have s: "sends MSG_TYPE_MESH_DATA ps [] c c'"
    using meshdata_sent_returns [OF ec_invD(1) [OF inv] v] m by simp
  have keep: "ec_frame c c'" "sq_effect MSG_TYPE_MESH_DATA ps c c'" using s by (simp_all add: sends_def)
  have "lane_armed c' u" if u: "u < 7" for u
  proof (cases "u = MSG_TYPE_MESH_DATA")
    case True
    with s show ?thesis by (simp add: sends_def)
  next
    case False
    with keep(2) u have e: "lane_view c' u = lane_view c u" unfolding sq_effect_def by blast
    from inv u have a: "lane_armed c u" by (simp add: ec_inv_def all_armed_def)
    show ?thesis
    proof (rule lane_armed_mono [OF a])
      show "pb_lane (ec_sq c) u \<noteq> []" if "pb_lane (ec_sq c') u \<noteq> []" using that view_empty [OF e] by simp
      show "ec_timers c' tm \<noteq> None" if "ec_timers c tm \<noteq> None" for tm
        using that keep(1) unfolding ec_frame_def by blast
    qed
  qed
  with s show ?thesis by (simp add: ec_internal_def ec_inv_def all_armed_def sends_def ec_frame_def)
qed

lemmas lane_timers = lane_timer_def msg_type_defs

lemma timer_fires_internal:
  assumes inv: "ec_inv c" and tm: "tm \<noteq> Ts_Timer" and f: "timer_fires cb ok tm c = Inr c'"
  shows "ec_internal c c'"
proof -
  note wf = stop_wf [OF ec_invD(1) [OF inv]]
  show ?thesis
  proof (cases tm)
    case Neighbor_Ack_Timer
    from sends_internal [OF inv, of MSG_TYPE_NEIGHBOR_ACK] show ?thesis
      using send_neighbor_ack_sends [OF wf, of ok tm] f Neighbor_Ack_Timer
      by (simp add: timer_fires_def lane_timers)
  next
    case Neighbor_Data_Timer
    from sends_internal [OF inv, of MSG_TYPE_NEIGHBOR_DATA] show ?thesis
      using send_neighbor_data_sends [OF wf, of ok tm] f Neighbor_Data_Timer
      by (simp add: timer_fires_def lane_timers Let_def)
  next
    case Broadcast_Data_Timer
    from sends_internal [OF inv, of MSG_TYPE_BROADCAST_DATA] show ?thesis
      using send_broadcast_data_sends [OF wf, of ok tm] f Broadcast_Data_Timer
      by (simp add: timer_fires_def lane_timers)
  next
    case Multicast_Unicast_Data_Timer
    from sends_internal [OF inv, of MSG_TYPE_MULTICAST_UNICAST_DATA] show ?thesis
      using send_multicast_unicast_data_sends [OF wf, of ok tm] f Multicast_Unicast_Data_Timer
      by (simp add: timer_fires_def lane_timers)
  next
    case Multicast_Unicast_Ack_Timer
    from sends_internal [OF inv, of MSG_TYPE_MULTICAST_UNICAST_ACK] show ?thesis
      using send_multicast_unicast_ack_sends [OF wf, of ok tm] f Multicast_Unicast_Ack_Timer
      by (simp add: timer_fires_def lane_timers)
  next
    case Timesynch_Data_Timer
    from sends_internal [OF inv, of MSG_TYPE_TIMESYNCH_DATA] show ?thesis
      using send_timesynch_data_sends [OF wf, of ok tm] f Timesynch_Data_Timer
      by (simp add: timer_fires_def lane_timers)
  next
    case Mesh_Data_Timer
    from sends_internal [OF inv, of MSG_TYPE_MESH_DATA] show ?thesis
      using send_mesh_data_sends [OF wf, of ok tm] f Mesh_Data_Timer
      by (simp add: timer_fires_def lane_timers Let_def)
  qed (use tm in simp)
qed

end
