(* ===== verification/Node_State.thy ===== *)
theory Node_State
  imports Emergency_Steps
begin

text \<open>
  The sensor node of \<open>main_reg_sensor.c\<close>: its global state (\<open>struct node_properties g_np\<close>, the two
  pseudo neighbors, the node's coordinate, the LEDs, the external flash) and the functions that
  only touch that state: the list of burning coordinates, blinking, and the setup of the node.

  The record extends the connection, so that the node's callbacks are functions on one state: the
  neighbor table \<open>g_np.ns\<close> is the field \<open>ec_ns\<close>, the connection \<open>g_np.c\<close> the other fields of \<open>ec\<close>, the
  node's address the field \<open>ec_node_addr\<close>. A pointer to a neighbor is a slot of the table or one of
  the two pseudo neighbors. The hardware clock is a field that only the environment changes.
\<close>

datatype node_ptr = Table_Node nat | Exit_Node | Max_Node

text \<open>The lines the node prints for the graphical interface.\<close>

datatype gui_line = Gui_Emergency_Packet rimeaddr
  | Gui_Anti_Emergency_Packet rimeaddr
  | Gui_Node_Report_Packet rimeaddr u16 u16 byte byte

record node_properties = ec +
  np_bpn :: "node_ptr option"
  np_emergency_coords :: "coordinate queue_buffer"
  np_rt :: "u16 option"
  np_next_wakeup :: u16
  np_blinking_state :: u16
  np_is_blinking :: bool
  np_is_burning :: bool
  np_is_exit_node :: bool
  np_is_awaiting_setup_packet :: bool
  np_has_sent_node_info :: bool
  np_is_reset_mode :: bool
  np_is_sink_node :: bool
  np_current_sensors_metric :: u8x2
  np_seqno :: byte
  np_exit_node :: neighbor_node
  np_max_node :: neighbor_node
  np_coordinate_node :: coordinate
  np_leds :: "bool \<times> bool \<times> bool"
  np_flash :: "nat \<Rightarrow> byte"
  np_rtimer_now :: u16
  np_printed :: "gui_line list"

definition EMERGENCYNET_CHANNEL :: u16 where "EMERGENCYNET_CHANNEL = 128"
definition BLINKING_SEQUENCE_LENGTH :: u16 where "BLINKING_SEQUENCE_LENGTH = 8"
definition BLINKING_SEQUENCE_SWITCH_TIME :: u16 where "BLINKING_SEQUENCE_SWITCH_TIME = 4 * 1024"
definition MAX_FIRE_COORDINATES :: byte where "MAX_FIRE_COORDINATES = 10"
definition MAX_NUMBER_OF_HOPS_TO_EXIT :: byte where "MAX_NUMBER_OF_HOPS_TO_EXIT = 7"
definition MAX_ALLOWED_METRIC :: metric_t where "MAX_ALLOWED_METRIC = 1000"
definition LIGHT_EMERGENCY_THRESHOLD :: metric_t where "LIGHT_EMERGENCY_THRESHOLD = 400"
definition ABRUPT_METRIC_CHANGE_THRESHOLD :: u16 where "ABRUPT_METRIC_CHANGE_THRESHOLD = 200"

text \<open>The states of the blinking sequence; they are consecutive numbers.\<close>

definition ON :: u16 where "ON = 0"
definition OFF_1 :: u16 where "OFF_1 = 1"
definition OFF_7 :: u16 where "OFF_7 = 7"

text \<open>The packet types of the application, the first byte of the data.\<close>

definition EMERGENCY_PACKET :: byte where "EMERGENCY_PACKET = 0"
definition ANTI_EMERGENCY_PACKET :: byte where "ANTI_EMERGENCY_PACKET = 1"
definition BEST_PATH_UPDATE_PACKET :: byte where "BEST_PATH_UPDATE_PACKET = 2"
definition SETUP_PACKET :: byte where "SETUP_PACKET = 3"
definition INITIALIZE_BEST_PATHS_PACKET :: byte where "INITIALIZE_BEST_PATHS_PACKET = 4"
definition IM_YOUR_NEW_NEIGHBOR :: byte where "IM_YOUR_NEW_NEIGHBOR = 5"
definition KEEP_ALIVE_NEIGHBOR :: byte where "KEEP_ALIVE_NEIGHBOR = 6"
definition NODE_INFO_PACKET :: byte where "NODE_INFO_PACKET = 7"
definition EXTRACT_REPORT_PACKET :: byte where "EXTRACT_REPORT_PACKET = 8"
definition NODE_REPORT_PACKET :: byte where "NODE_REPORT_PACKET = 9"
definition RESET_SYSTEM_PACKET :: byte where "RESET_SYSTEM_PACKET = 10"

lemmas packet_type_defs = EMERGENCY_PACKET_def ANTI_EMERGENCY_PACKET_def BEST_PATH_UPDATE_PACKET_def
  SETUP_PACKET_def INITIALIZE_BEST_PATHS_PACKET_def IM_YOUR_NEW_NEIGHBOR_def KEEP_ALIVE_NEIGHBOR_def
  NODE_INFO_PACKET_def EXTRACT_REPORT_PACKET_def NODE_REPORT_PACKET_def RESET_SYSTEM_PACKET_def

lemmas threshold_defs = MAX_NUMBER_OF_HOPS_TO_EXIT_def MAX_ALLOWED_METRIC_def
  LIGHT_EMERGENCY_THRESHOLD_def ABRUPT_METRIC_CHANGE_THRESHOLD_def

subsection \<open>Layouts\<close>

text \<open>The structs of the packets have byte fields only, so they have no padding.\<close>

definition coordinate_bytes :: "coordinate \<Rightarrow> bytes" where
  "coordinate_bytes co = [fst (cx co), snd (cx co), fst (cy co), snd (cy co)]"

definition coordinate_at :: "bytes \<Rightarrow> nat \<Rightarrow> coordinate" where
  "coordinate_at m i = \<lparr>cx = (m ! i, m ! (i + 1)), cy = (m ! (i + 2), m ! (i + 3))\<rparr>"

definition best_path_bytes :: "neighbor_node_best_path \<Rightarrow> bytes" where
  "best_path_bytes bp = [fst (bp_metric bp), snd (bp_metric bp)] @ addr_bytes (bp_points_to bp) @ [bp_hops bp]"

definition best_path_at :: "bytes \<Rightarrow> nat \<Rightarrow> neighbor_node_best_path" where
  "best_path_at m i =
     \<lparr>bp_metric = (m ! i, m ! (i + 1)), bp_points_to = addr_at m (i + 2), bp_hops = m ! (i + 4)\<rparr>"

definition SETUP_PACKET_SIZE :: nat where "SETUP_PACKET_SIZE = 9"

record setup_packet =
  sp_new_addr :: rimeaddr
  sp_new_coord :: coordinate
  sp_is_exit_node :: byte
  sp_neighbors :: "rimeaddr list"

definition setup_bytes :: "setup_packet \<Rightarrow> bytes" where
  "setup_bytes sp = [SETUP_PACKET] @ addr_bytes (sp_new_addr sp) @ coordinate_bytes (sp_new_coord sp) @
     [sp_is_exit_node sp, of_nat (length (sp_neighbors sp))] @ concat (map addr_bytes (sp_neighbors sp))"

subsection \<open>LEDs\<close>

text \<open>Red, green, blue. \<open>leds_blink\<close> ends with the LEDs as they were.\<close>

definition leds_red :: "bool \<Rightarrow> node_properties \<Rightarrow> node_properties" where
  "leds_red on np = (case np_leds np of (r, g, b) \<Rightarrow> np\<lparr>np_leds := (on, g, b)\<rparr>)"

definition leds_green :: "bool \<Rightarrow> node_properties \<Rightarrow> node_properties" where
  "leds_green on np = (case np_leds np of (r, g, b) \<Rightarrow> np\<lparr>np_leds := (r, on, b)\<rparr>)"

definition leds_blue :: "bool \<Rightarrow> node_properties \<Rightarrow> node_properties" where
  "leds_blue on np = (case np_leds np of (r, g, b) \<Rightarrow> np\<lparr>np_leds := (r, g, on)\<rparr>)"

definition leds_all :: "bool \<Rightarrow> node_properties \<Rightarrow> node_properties" where
  "leds_all on np = np\<lparr>np_leds := (on, on, on)\<rparr>"

subsection \<open>Burning coordinates\<close>

definition add_coordinate_as_burning :: "coordinate \<Rightarrow> node_properties \<Rightarrow> node_properties result" where
  "add_coordinate_as_burning coord np =
     bindR (queue_buffer_find (np_emergency_coords np) (\<lambda>c. coordinate_cmp c coord)) (\<lambda>i.
     case i of
       None \<Rightarrow>
         bindR (queue_buffer_push_front (np_emergency_coords np) coord) (\<lambda>(q, _).
         Inr (np\<lparr>np_emergency_coords := q\<rparr>))
     | Some _ \<Rightarrow> Inr np)"

definition remove_coordinate_as_burning :: "coordinate \<Rightarrow> node_properties \<Rightarrow> node_properties result" where
  "remove_coordinate_as_burning coord np =
     bindR (queue_buffer_find (np_emergency_coords np) (\<lambda>c. coordinate_cmp c coord)) (\<lambda>i.
     case i of
       None \<Rightarrow> Inr np
     | Some i \<Rightarrow>
         bindR (queue_buffer_free (np_emergency_coords np) i) (\<lambda>q.
         Inr (np\<lparr>np_emergency_coords := q\<rparr>)))"

subsection \<open>The node's own packets\<close>

text \<open>\<open>g_np.seqno++\<close> as an argument: the old number goes out, the next one stays.\<close>

definition next_seqno :: "node_properties \<Rightarrow> node_properties" where
  "next_seqno np = np\<lparr>np_seqno := np_seqno np + 1\<rparr>"

definition broadcast_own :: "bytes \<Rightarrow> node_properties \<Rightarrow> node_properties result" where
  "broadcast_own data np =
     ec_broadcast (ec_node_addr np) (ec_node_addr np) 0 (np_seqno np) data (of_nat (length data))
       (next_seqno np)"

definition broadcast_own_ns :: "bytes \<Rightarrow> node_properties \<Rightarrow> node_properties result" where
  "broadcast_own_ns data np =
     ec_reliable_broadcast_ns (ec_node_addr np) (ec_node_addr np) 0 (np_seqno np) data
       (of_nat (length data)) (next_seqno np)"

definition send_emergency_packet :: "node_properties \<Rightarrow> node_properties result" where
  "send_emergency_packet np =
     broadcast_own (EMERGENCY_PACKET # coordinate_bytes (np_coordinate_node np)) np"

definition send_anti_emergency_packet :: "node_properties \<Rightarrow> node_properties result" where
  "send_anti_emergency_packet np =
     broadcast_own (ANTI_EMERGENCY_PACKET # coordinate_bytes (np_coordinate_node np)) np"

subsection \<open>Blinking\<close>

definition node_at :: "node_ptr \<Rightarrow> node_properties \<Rightarrow> neighbor_node result" where
  "node_at p np = (case p of
       Table_Node i \<Rightarrow> get_data (ec_ns np) i
     | Exit_Node \<Rightarrow> Inr (np_exit_node np)
     | Max_Node \<Rightarrow> Inr (np_max_node np))"

text \<open>\<open>ASSERT(g_np.bpn != NULL)\<close> and the node it points to.\<close>

definition bpn_node :: "node_properties \<Rightarrow> neighbor_node result" where
  "bpn_node np = (case np_bpn np of None \<Rightarrow> Inl Assert_Failed | Some p \<Rightarrow> node_at p np)"

definition rtimer_set :: "u16 \<Rightarrow> node_properties \<Rightarrow> node_properties" where
  "rtimer_set t np = np\<lparr>np_rt := Some t\<rparr>"

definition blink :: "node_properties \<Rightarrow> node_properties result" where
  "blink np =
     (if np_is_blinking np \<and> \<not> np_is_burning np
      then
        bindR (bpn_node np) (\<lambda>bpn.
        let np = (if neighbor_node_metric bpn < MAX_ALLOWED_METRIC
                  then (if np_blinking_state np = ON then leds_blue True np
                        else if OFF_1 \<le> np_blinking_state np \<and> np_blinking_state np \<le> OFF_7
                        then leds_blue False np
                        else np)
                  else leds_blue True np);
            np = np\<lparr>np_next_wakeup := np_next_wakeup np + BLINKING_SEQUENCE_SWITCH_TIME\<rparr>;
            np = rtimer_set (np_next_wakeup np) np
        in Inr (np\<lparr>np_blinking_state := (np_blinking_state np + 1) mod BLINKING_SEQUENCE_LENGTH\<rparr>))
      else Inr np)"

definition blinking_update :: "node_properties \<Rightarrow> node_properties result" where
  "blinking_update np =
     (if np_is_blinking np \<and> \<not> np_is_burning np
      then
        (let next = timesynch_time (ec_sync np) (np_rtimer_now np) div BLINKING_SEQUENCE_SWITCH_TIME + 1;
             np = np\<lparr>np_next_wakeup :=
                       timesynch_time_to_rtimer (ec_sync np) (next * BLINKING_SEQUENCE_SWITCH_TIME)\<rparr>;
             np = rtimer_set (np_next_wakeup np) np
         in bindR (bpn_node np) (\<lambda>bpn.
            Inr (np\<lparr>np_blinking_state :=
              (ucast (neighbor_node_hops bpn) + 1 + next) mod BLINKING_SEQUENCE_LENGTH\<rparr>)))
      else Inr np)"

definition blinking_init :: "node_properties \<Rightarrow> node_properties result" where
  "blinking_init np =
     (if \<not> np_is_blinking np then blinking_update (np\<lparr>np_is_blinking := True\<rparr>) else Inr np)"

definition set_burning :: "bool \<Rightarrow> node_properties \<Rightarrow> node_properties" where
  "set_burning on np = leds_blue False (leds_red on (np\<lparr>np_is_burning := on\<rparr>))"

subsection \<open>base/node_properties.c\<close>

definition XMEM_ERASE_UNIT_SIZE :: nat where "XMEM_ERASE_UNIT_SIZE = 0x10000"

definition xmem_pread :: "(nat \<Rightarrow> byte) \<Rightarrow> nat \<Rightarrow> nat \<Rightarrow> bytes" where
  "xmem_pread fl n off = map fl [off..<off + n]"

definition xmem_pwrite :: "bytes \<Rightarrow> nat \<Rightarrow> (nat \<Rightarrow> byte) \<Rightarrow> nat \<Rightarrow> byte" where
  "xmem_pwrite b off fl = (\<lambda>i. if off \<le> i \<and> i < off + length b then b ! (i - off) else fl i)"

definition xmem_erase :: "nat \<Rightarrow> (nat \<Rightarrow> byte) \<Rightarrow> nat \<Rightarrow> byte" where
  "xmem_erase n fl = (\<lambda>i. if i < n then 0 else fl i)"

definition node_properties_restore :: "nat \<Rightarrow> (nat \<Rightarrow> byte) \<Rightarrow> bytes option" where
  "node_properties_restore n fl =
     (if xmem_pread fl 2 0 = [0xde, 0xad] then Some (xmem_pread fl n 2) else None)"

definition node_properties_burn :: "bytes \<Rightarrow> (nat \<Rightarrow> byte) \<Rightarrow> nat \<Rightarrow> byte" where
  "node_properties_burn b fl =
     xmem_pwrite b 2 (xmem_pwrite [0xde, 0xad] 0 (xmem_erase XMEM_ERASE_UNIT_SIZE fl))"

subsection \<open>Setting the node up\<close>

fun add_neighbors_loop :: "nat \<Rightarrow> nat \<Rightarrow> bytes \<Rightarrow> neighbors \<Rightarrow> neighbors result" where
  "add_neighbors_loop 0 off m ns = Inr ns"
| "add_neighbors_loop (Suc n) off m ns =
     bindR (read_addr m off) (\<lambda>a.
     bindR (neighbors_add ns a) (\<lambda>ns. add_neighbors_loop n (off + 2) m ns))"

text \<open>The walk over the table that prints it; only the iterator moves.\<close>

definition print_neighbors :: "neighbors \<Rightarrow> neighbors result" where
  "print_neighbors ns =
     (case neighbors_begin ns of (ns, nn) \<Rightarrow>
        bindR (for_each neighbors_next (\<lambda>ns nn u. bindR (get_data ns nn) (\<lambda>_. Inr (ns, ())))
                 (length (pool ns)) ns nn ()) (\<lambda>(ns, _). Inr ns))"

definition exit_node_bp :: "rimeaddr \<Rightarrow> neighbor_node_best_path" where
  "exit_node_bp addr = \<lparr>bp_metric = (0, 0), bp_points_to = addr, bp_hops = - 1\<rparr>"

text \<open>\<open>memset(&g_np.state, 0, sizeof(g_np.state))\<close>.\<close>

definition clear_state :: "node_properties \<Rightarrow> node_properties" where
  "clear_state np = np\<lparr>np_is_blinking := False, np_is_burning := False, np_is_exit_node := False,
     np_is_awaiting_setup_packet := False, np_has_sent_node_info := False, np_is_reset_mode := False,
     np_is_sink_node := False\<rparr>"

definition coordinate_set_node_coord :: "coordinate \<Rightarrow> node_properties \<Rightarrow> node_properties" where
  "coordinate_set_node_coord coord np = np\<lparr>np_coordinate_node := coord\<rparr>"

text \<open>The node's identity, from the fixed part of the setup packet; its state flags are cleared.\<close>

definition setup_identity :: "bytes \<Rightarrow> node_properties \<Rightarrow> node_properties" where
  "setup_identity sp np =
     (coordinate_set_node_coord (coordinate_at sp 3) (clear_state (leds_all False np)))
       \<lparr>ec_node_addr := addr_at sp 1, np_current_sensors_metric := uint16_to_uint8 0\<rparr>"

text \<open>The two pseudo neighbors; the second assignment of a coordinate goes to \<open>exit_node\<close> as well.\<close>

definition setup_exit_node :: "node_properties \<Rightarrow> node_properties" where
  "setup_exit_node np = leds_green True (np\<lparr>np_is_exit_node := True,
     np_exit_node := neighbor_node_set_best_path
       (neighbor_node_set_coordinate (np_coordinate_node np)
         (neighbor_node_set_addr (np_exit_node np) (ec_node_addr np)) (np_coordinate_node np))
       (exit_node_bp (ec_node_addr np))\<rparr>)"

definition setup_max_node :: "node_properties \<Rightarrow> node_properties" where
  "setup_max_node np = np\<lparr>
     np_max_node := neighbor_node_set_best_path
       (neighbor_node_set_addr (np_max_node np) rimeaddr_null) neighbor_node_best_path_max,
     np_exit_node := neighbor_node_set_coordinate (np_coordinate_node np) (np_exit_node np)
       (np_coordinate_node np)\<rparr>"

text \<open>\<open>m\<close> is the memory from the setup packet on.\<close>

definition setup_parse :: "bytes \<Rightarrow> bool \<Rightarrow> node_properties \<Rightarrow> node_properties result" where
  "setup_parse m is_from_flash np =
     bindR (read_mem m 0 SETUP_PACKET_SIZE) (\<lambda>sp.
     bindR (neighbors_clear (ec_ns np)) (\<lambda>ns.
     bindR (add_neighbors_loop (unat (sp ! 8)) SETUP_PACKET_SIZE m ns) (\<lambda>ns.
     bindR (print_neighbors ns) (\<lambda>ns.
     let np = (setup_identity sp np)\<lparr>ec_ns := ns\<rparr>;
         np = setup_max_node (if sp ! 7 \<noteq> 0 then setup_exit_node np else np)
     in bindR (if is_from_flash then Inr np
               else bindR (read_mem m 0 (SETUP_PACKET_SIZE + 2 * unat (sp ! 8))) (\<lambda>b.
                    Inr (np\<lparr>np_flash := node_properties_burn b (np_flash np)\<rparr>)))
          (\<lambda>np. Inr (ec_set_neighbors np))))))"

end
