(* ===== verification/Node_Paths.thy ===== *)
theory Node_Paths
  imports Node_State
begin

text \<open>
  Exit paths of \<open>main_reg_sensor.c\<close>: the metric of a path, the choice of the best neighbor, and the
  packets that tell the neighbors about the node's own best path.
\<close>

subsection \<open>Metrics\<close>

definition weigh_distance :: "distance_t \<Rightarrow> metric_t" where
  "weigh_distance distance = distance"

definition weigh_metrics :: "node_properties \<Rightarrow> distance_t \<Rightarrow> metric_t" where
  "weigh_metrics np distance =
     (if np_is_burning np
      then 1000 + weigh_distance distance + uint8_to_uint16 (np_current_sensors_metric np)
      else weigh_distance distance)"

subsection \<open>The best neighbor\<close>

text \<open>The body of the loop over the neighbors: the best node so far and its metric.\<close>

definition consider_neighbor :: "rimeaddr \<Rightarrow> nat \<Rightarrow> neighbor_node \<Rightarrow> node_ptr option \<times> metric_t
    \<Rightarrow> node_ptr option \<times> metric_t" where
  "consider_neighbor me i n s =
     (if \<not> neighbor_node_points_to_us me n \<and> neighbor_node_metric n \<noteq> METRIC_T_MAX \<and>
         neighbor_node_hops n < MAX_NUMBER_OF_HOPS_TO_EXIT
      then
        (let metric = weigh_distance (neighbor_node_distance n) + neighbor_node_metric n
         in if metric < snd s then (Some (Table_Node i), metric) else s)
      else s)"

definition find_best_exit_path_neighbor :: "node_properties \<Rightarrow> (node_properties \<times> node_ptr) result" where
  "find_best_exit_path_neighbor np =
     (case neighbors_begin (ec_ns np) of (ns, i) \<Rightarrow>
        bindR
          (if \<not> np_is_exit_node np
           then for_each neighbors_next
                  (\<lambda>ns i s. bindR (get_data ns i) (\<lambda>n. Inr (ns, consider_neighbor (ec_node_addr np) i n s)))
                  (length (pool ns)) ns i (None, METRIC_T_MAX)
           else Inr (ns, Some Exit_Node, METRIC_T_MAX))
          (\<lambda>(ns, best, _).
             Inr (np\<lparr>ec_ns := ns\<rparr>, case best of None \<Rightarrow> Max_Node | Some b \<Rightarrow> b)))"

subsection \<open>The node's own best path\<close>

definition best_neighbor_bp_to_our_bp :: "node_properties \<Rightarrow> neighbor_node_best_path result" where
  "best_neighbor_bp_to_our_bp np =
     bindR (bpn_node np) (\<lambda>bpn.
     Inr \<lparr>bp_metric = uint16_to_uint8 (neighbor_node_metric bpn + weigh_metrics np (neighbor_node_distance bpn)),
          bp_points_to = neighbor_node_addr bpn,
          bp_hops = neighbor_node_hops bpn + 1\<rparr>)"

definition broadcast_best_path :: "node_properties \<Rightarrow> node_properties result" where
  "broadcast_best_path np =
     bindR (best_neighbor_bp_to_our_bp np) (\<lambda>bp.
     broadcast_own_ns (BEST_PATH_UPDATE_PACKET # best_path_bytes bp) np)"

text \<open>The new best neighbor, and whether it was announced. \<open>sender\<close> may be the null pointer.\<close>

definition update_bpn_and_broadcast_new_path_if_changed :: "node_ptr option \<Rightarrow> node_properties
    \<Rightarrow> (node_properties \<times> bool) result" where
  "update_bpn_and_broadcast_new_path_if_changed sender np =
     bindR (find_best_exit_path_neighbor np) (\<lambda>(np, best).
     let announce = bindR (broadcast_best_path (np\<lparr>np_bpn := Some best\<rparr>)) (\<lambda>np. Inr (np, True))
     in case np_bpn np of
          None \<Rightarrow> announce
        | Some old \<Rightarrow>
            bindR (node_at best np) (\<lambda>b.
            bindR (node_at old np) (\<lambda>o'.
            if neighbor_node_metric b < neighbor_node_metric o' then announce
            else if sender = Some best \<or> (old \<noteq> Max_Node \<and> best = Max_Node) then announce
            else Inr (np, False))))"

definition update_bpn_and_send_node_info :: "node_properties \<Rightarrow> node_properties result" where
  "update_bpn_and_send_node_info np =
     bindR (find_best_exit_path_neighbor np) (\<lambda>(np, best).
     let np = np\<lparr>np_bpn := Some best\<rparr>
     in bindR (best_neighbor_bp_to_our_bp np) (\<lambda>bp.
        broadcast_own_ns (NODE_INFO_PACKET # coordinate_bytes (np_coordinate_node np) @ best_path_bytes bp) np))"

definition initialize_best_path_packet_handler :: "node_properties \<Rightarrow> node_properties result" where
  "initialize_best_path_packet_handler np =
     (let np = ec_timesynch_on np;
          np = (if np_is_reset_mode np then np\<lparr>np_is_reset_mode := False\<rparr> else np)
      in if np_is_exit_node np
         then bindR (assertR (\<not> np_has_sent_node_info np)) (\<lambda>_.
              bindR (update_bpn_and_send_node_info np) (\<lambda>np.
              Inr (np\<lparr>np_has_sent_node_info := True\<rparr>)))
         else Inr np)"

end
