(* ===== verification/Node_Handlers.thy ===== *)
theory Node_Handlers
  imports Node_Paths
begin

text \<open>
  The callbacks that \<open>main_reg_sensor.c\<close> gives the connection (\<open>ec_cb\<close>): what the node does with a
  broadcast, a multicast or unicast, a packet of a neighbor, a time synchronisation and a report
  that came over the mesh. The data of a packet is the memory from its first byte on.
\<close>

definition restore_setup :: "node_properties \<Rightarrow> node_properties result" where
  "restore_setup np =
     (case node_properties_restore (SETUP_PACKET_SIZE + 2 * unat MAX_NEIGHBORS) (np_flash np) of
        None \<Rightarrow> Inr np
      | Some buf \<Rightarrow> setup_parse buf True np)"

definition reset_system_packet_handler :: "node_properties \<Rightarrow> node_properties result" where
  "reset_system_packet_handler np =
     bindR (restore_setup np) (\<lambda>np. Inr (np\<lparr>np_is_reset_mode := True\<rparr>))"

text \<open>\<open>p->type\<close>, with \<open>p\<close> the data.\<close>

definition packet_type :: "bytes \<Rightarrow> byte result" where
  "packet_type data = bindR (read_mem data 0 1) (\<lambda>b. Inr (hd b))"

definition read_coordinate :: "bytes \<Rightarrow> nat \<Rightarrow> coordinate result" where
  "read_coordinate m i = bindR (read_mem m i 4) (\<lambda>b. Inr (coordinate_at b 0))"

definition read_best_path :: "bytes \<Rightarrow> nat \<Rightarrow> neighbor_node_best_path result" where
  "read_best_path m i = bindR (read_mem m i 5) (\<lambda>b. Inr (best_path_at b 0))"

subsection \<open>ec_mc_uc_recv\<close>

definition ec_mc_uc_recv :: "node_properties ec_callback_data_t" where
  "ec_mc_uc_recv np originator sender hops seqno data data_len =
     bindR (packet_type data) (\<lambda>type.
     if type = IM_YOUR_NEW_NEIGHBOR
     then bindR (neighbors_add (ec_ns np) originator) (\<lambda>ns. Inr (np\<lparr>ec_ns := ns\<rparr>))
     else Inl Assert_Failed)"

subsection \<open>ec_broadcasts_recv\<close>

text \<open>Passing a packet on, one hop further.\<close>

definition forward_broadcast :: "rimeaddr \<Rightarrow> byte \<Rightarrow> byte \<Rightarrow> bytes \<Rightarrow> byte \<Rightarrow> node_properties
    \<Rightarrow> node_properties result" where
  "forward_broadcast originator hops seqno data data_len np =
     ec_broadcast originator (ec_node_addr np) (hops + 1) seqno data data_len np"

definition forward_broadcast_ns :: "rimeaddr \<Rightarrow> byte \<Rightarrow> byte \<Rightarrow> bytes \<Rightarrow> byte \<Rightarrow> node_properties
    \<Rightarrow> node_properties result" where
  "forward_broadcast_ns originator hops seqno data data_len np =
     ec_reliable_broadcast_ns originator (ec_node_addr np) (hops + 1) seqno data data_len np"

definition node_report_bytes :: "coordinate \<Rightarrow> byte \<Rightarrow> byte \<Rightarrow> bytes" where
  "node_report_bytes coord is_burning is_exit_node =
     [NODE_REPORT_PACKET] @ coordinate_bytes coord @ [is_burning, is_exit_node]"

definition node_report :: "node_properties \<Rightarrow> bytes" where
  "node_report np =
     node_report_bytes (np_coordinate_node np) (of_bool (np_is_burning np)) (of_bool (np_is_exit_node np))"

definition regular_broadcast_recv :: "byte \<Rightarrow> node_properties ec_callback_data_t" where
  "regular_broadcast_recv type np originator sender hops seqno data data_len =
     (if type = EMERGENCY_PACKET then
        bindR (read_coordinate data 1) (\<lambda>source.
        bindR (add_coordinate_as_burning source np) (\<lambda>np.
        bindR (forward_broadcast originator hops seqno data data_len np) blinking_init))
      else if type = ANTI_EMERGENCY_PACKET then
        bindR (read_coordinate data 1) (\<lambda>source.
        bindR (remove_coordinate_as_burning source np) (\<lambda>np.
        forward_broadcast originator hops seqno data data_len np))
      else if type = SETUP_PACKET then
        (if np_is_awaiting_setup_packet np
         then setup_parse data False (np\<lparr>np_is_awaiting_setup_packet := False\<rparr>)
         else Inr np)
      else if type = INITIALIZE_BEST_PATHS_PACKET then
        bindR (forward_broadcast_ns originator hops seqno data data_len np)
          initialize_best_path_packet_handler
      else if type = EXTRACT_REPORT_PACKET then
        (let nrp = node_report np in
         bindR (forward_broadcast originator hops seqno data data_len np) (\<lambda>np.
         ec_mesh originator (np_seqno np) nrp (of_nat (length nrp)) (next_seqno np)))
      else if type = RESET_SYSTEM_PACKET then
        bindR (forward_broadcast_ns originator hops seqno data data_len np) reset_system_packet_handler
      else Inl Assert_Failed)"

definition sink_broadcast_recv :: "byte \<Rightarrow> rimeaddr \<Rightarrow> node_properties \<Rightarrow> node_properties result" where
  "sink_broadcast_recv type originator np =
     (if type = EMERGENCY_PACKET then
        Inr (np\<lparr>np_printed := np_printed np @ [Gui_Emergency_Packet originator]\<rparr>)
      else if type = ANTI_EMERGENCY_PACKET then
        Inr (np\<lparr>np_printed := np_printed np @ [Gui_Anti_Emergency_Packet originator]\<rparr>)
      else if type \<in> {SETUP_PACKET, INITIALIZE_BEST_PATHS_PACKET, EXTRACT_REPORT_PACKET, RESET_SYSTEM_PACKET}
      then Inr np
      else Inl Assert_Failed)"

definition ec_broadcasts_recv :: "node_properties ec_callback_data_t" where
  "ec_broadcasts_recv np originator sender hops seqno data data_len =
     bindR (packet_type data) (\<lambda>type.
     if np_is_reset_mode np \<and> type \<noteq> INITIALIZE_BEST_PATHS_PACKET then Inr np
     else if \<not> np_is_sink_node np
     then regular_broadcast_recv type np originator sender hops seqno data data_len
     else sink_broadcast_recv type originator np)"

subsection \<open>ec_neighbors_recv\<close>

text \<open>The neighbor that sent the packet; \<open>ASSERT(nn != NULL)\<close>.\<close>

definition sender_node :: "rimeaddr \<Rightarrow> node_properties \<Rightarrow> nat result" where
  "sender_node sender np =
     bindR (neighbors_find_neighbor_node (ec_ns np) sender) (\<lambda>nn.
     case nn of None \<Rightarrow> Inl Assert_Failed | Some i \<Rightarrow> Inr i)"

definition change_node :: "nat \<Rightarrow> (neighbor_node \<Rightarrow> neighbor_node) \<Rightarrow> node_properties
    \<Rightarrow> node_properties result" where
  "change_node i f np =
     bindR (get_data (ec_ns np) i) (\<lambda>n.
     bindR (set_data (ec_ns np) i (f n)) (\<lambda>ns. Inr (np\<lparr>ec_ns := ns\<rparr>)))"

definition best_path_update_recv :: "rimeaddr \<Rightarrow> bytes \<Rightarrow> node_properties \<Rightarrow> node_properties result" where
  "best_path_update_recv sender data np =
     bindR (sender_node sender np) (\<lambda>nn.
     bindR (read_best_path data 1) (\<lambda>bp.
     bindR (change_node nn (\<lambda>n. neighbor_node_set_best_path n bp) np) (\<lambda>np.
     bindR (update_bpn_and_broadcast_new_path_if_changed (Some (Table_Node nn)) np) (\<lambda>(np, changed).
     if changed then blinking_update np else Inr np))))"

definition node_info_recv :: "rimeaddr \<Rightarrow> bytes \<Rightarrow> node_properties \<Rightarrow> node_properties result" where
  "node_info_recv sender data np =
     bindR (sender_node sender np) (\<lambda>nn.
     bindR (read_coordinate data 1) (\<lambda>coord.
     bindR (read_best_path data 5) (\<lambda>bp.
     bindR (change_node nn (\<lambda>n. neighbor_node_set_best_path
              (neighbor_node_set_coordinate (np_coordinate_node np) n coord) bp) np) (\<lambda>np.
     if \<not> np_has_sent_node_info np
     then bindR (update_bpn_and_send_node_info np) (\<lambda>np. Inr (np\<lparr>np_has_sent_node_info := True\<rparr>))
     else if \<not> np_is_exit_node np
     then bindR (update_bpn_and_broadcast_new_path_if_changed (Some (Table_Node nn)) np) (\<lambda>(np, _). Inr np)
     else Inr np))))"

definition ec_neighbors_recv :: "node_properties ec_callback_data_t" where
  "ec_neighbors_recv np originator sender hops seqno data data_len =
     bindR (packet_type data) (\<lambda>type.
     if np_is_reset_mode np \<and> type \<noteq> INITIALIZE_BEST_PATHS_PACKET then Inr np
     else if np_is_sink_node np then Inr np
     else if type = BEST_PATH_UPDATE_PACKET then best_path_update_recv sender data np
     else if type = INITIALIZE_BEST_PATHS_PACKET then
       bindR (forward_broadcast_ns originator hops seqno data data_len np)
         initialize_best_path_packet_handler
     else if type = KEEP_ALIVE_NEIGHBOR then
       bindR (sender_node sender np) (\<lambda>nn.
       change_node nn (\<lambda>n. neighbor_node_set_has_sent_keep_alive n 1) np)
     else if type = NODE_INFO_PACKET then node_info_recv sender data np
     else if type = RESET_SYSTEM_PACKET then
       bindR (forward_broadcast_ns originator hops seqno data data_len np) reset_system_packet_handler
     else Inl Assert_Failed)"

subsection \<open>ec_timesynch_recv and ec_mesh_recv\<close>

definition ec_timesynch_recv :: "node_properties \<Rightarrow> node_properties result" where
  "ec_timesynch_recv np = blinking_update np"

definition ec_mesh_recv :: "node_properties \<Rightarrow> rimeaddr \<Rightarrow> byte \<Rightarrow> byte \<Rightarrow> bytes \<Rightarrow> byte
    \<Rightarrow> node_properties result" where
  "ec_mesh_recv np originator hops seqno data data_len =
     bindR (packet_type data) (\<lambda>type.
     if type = NODE_REPORT_PACKET
     then
       bindR (read_coordinate data 1) (\<lambda>coord.
       bindR (read_mem data 5 2) (\<lambda>b.
       Inr (np\<lparr>np_printed := np_printed np @ [Gui_Node_Report_Packet originator
              (uint8_to_uint16 (cx coord)) (uint8_to_uint16 (cy coord)) (b ! 0) (b ! 1)]\<rparr>)))
     else Inl Assert_Failed)"

definition ec_cb :: "node_properties ec_callbacks" where
  "ec_cb = \<lparr>cb_broadcast_recv = ec_broadcasts_recv, cb_multicast_unicast_recv = ec_mc_uc_recv,
     cb_neighbor_recv = ec_neighbors_recv, cb_timesynch = ec_timesynch_recv, cb_mesh = ec_mesh_recv\<rparr>"

end
