(* ===== verification/Node_Commands.thy ===== *)
theory Node_Commands
  imports Node_Handlers
begin

text \<open>
  The commands a node takes on its serial line (\<open>fire_process\<close> in \<open>main_reg_sensor.c\<close>, with
  \<open>cooja_simulation2.impl\<close>, which is included there): the setups of the simulated topology, packets
  to send, and \<open>send_setup_packet:...\<close>, which parses a setup packet with \<open>strtok\<close> and \<open>atoi\<close>.
\<close>

subsection \<open>strtok and atoi\<close>

text \<open>\<open>strtok\<close> with one delimiter: the token, and the string it continues with.\<close>

definition strtok :: "char \<Rightarrow> string \<Rightarrow> string option \<times> string" where
  "strtok d s =
     (case dropWhile (\<lambda>c. c = d) s of
        [] \<Rightarrow> (None, [])
      | t \<Rightarrow> (Some (takeWhile (\<lambda>c. c \<noteq> d) t), drop 1 (dropWhile (\<lambda>c. c \<noteq> d) t)))"

definition is_digit :: "char \<Rightarrow> bool" where
  "is_digit c \<longleftrightarrow> of_char c \<ge> (48 :: nat) \<and> of_char c \<le> (57 :: nat)"

definition is_space :: "char \<Rightarrow> bool" where
  "is_space c \<longleftrightarrow> of_char c = (32 :: nat) \<or> (of_char c \<ge> (9 :: nat) \<and> of_char c \<le> (13 :: nat))"

fun digits_value :: "int \<Rightarrow> string \<Rightarrow> int" where
  "digits_value acc [] = acc"
| "digits_value acc (c # s) =
     (if is_digit c then digits_value (10 * acc + (of_char c - 48)) s else acc)"

definition atoi :: "string \<Rightarrow> int" where
  "atoi s =
     (case dropWhile is_space s of
        [] \<Rightarrow> 0
      | c # t \<Rightarrow> if c = CHR ''-'' then - digits_value 0 t
                else if c = CHR ''+'' then digits_value 0 t
                else digits_value 0 (c # t))"

subsection \<open>send_setup_packet\<close>

text \<open>A token that must be there (\<open>ASSERT(entry != NULL)\<close>), as a number.\<close>

definition token :: "char \<Rightarrow> string \<Rightarrow> (int \<times> string) result" where
  "token d s = (case strtok d s of (None, _) \<Rightarrow> Inl Assert_Failed | (Some t, r) \<Rightarrow> Inr (atoi t, r))"

text \<open>
  The loop over the neighbors. \<open>tmp\<close> has room for \<open>MAX_NEIGHBORS\<close> of them; writing one more is
  outside the array. Each turn of the loop consumes a character, so the string bounds the fuel.
\<close>

fun parse_neighbors :: "nat \<Rightarrow> string \<Rightarrow> rimeaddr list \<Rightarrow> rimeaddr list result" where
  "parse_neighbors 0 s as = Inl Diverge"
| "parse_neighbors (Suc fuel) s as =
     (case strtok (CHR ''.'') s of
        (None, _) \<Rightarrow> Inr as
      | (Some entry, r) \<Rightarrow>
          if unat MAX_NEIGHBORS \<le> length as then Inl Out_Of_Bounds
          else bindR (token (CHR '':'') r) (\<lambda>(v, r).
               parse_neighbors fuel r (as @ [(of_int (atoi entry), of_int v)])))"

definition parse_setup_packet :: "string \<Rightarrow> setup_packet result" where
  "parse_setup_packet s =
     (case strtok (CHR '':'') s of (name, s) \<Rightarrow>
      bindR (assertR (name \<noteq> None)) (\<lambda>_.
      bindR (token (CHR ''.'') s) (\<lambda>(a0, s).
      bindR (token (CHR '':'') s) (\<lambda>(a1, s).
      bindR (token (CHR ''.'') s) (\<lambda>(x, s).
      bindR (token (CHR '':'') s) (\<lambda>(y, s).
      bindR (token (CHR '':'') s) (\<lambda>(is_exit, s).
      bindR (parse_neighbors (Suc (length s)) s []) (\<lambda>neighbors.
      bindR (assertR (neighbors \<noteq> [])) (\<lambda>_.
      Inr \<lparr>sp_new_addr = (of_int a0, of_int a1),
           sp_new_coord = \<lparr>cx = uint16_to_uint8 (of_int x), cy = uint16_to_uint8 (of_int y)\<rparr>,
           sp_is_exit_node = of_int is_exit,
           sp_neighbors = neighbors\<rparr>)))))))))"

subsection \<open>The simulated topology\<close>

text \<open>
  Eight nodes, exits at both ends; \<open>cooja_simulation2.impl\<close> draws them:
  \<open>1* - 2 - 6 - 7 - 8*\<close> and above it \<open>2 - 3 - 4 - 5 - 7\<close>.
\<close>

definition cooja_packet :: "byte \<Rightarrow> byte \<Rightarrow> byte \<Rightarrow> byte \<Rightarrow> byte list \<Rightarrow> setup_packet" where
  "cooja_packet a x y is_exit ns = \<lparr>sp_new_addr = (a, 0), sp_new_coord = \<lparr>cx = (0, x), cy = (0, y)\<rparr>,
     sp_is_exit_node = is_exit, sp_neighbors = map (\<lambda>n. (n, 0)) ns\<rparr>"

definition cooja_setup_upper :: "string \<Rightarrow> setup_packet option" where
  "cooja_setup_upper cmd =
     (if cmd = ''1'' then Some (cooja_packet 1 0 0 1 [2])
      else if cmd = ''2'' then Some (cooja_packet 2 1 0 0 [1, 3, 6])
      else if cmd = ''3'' then Some (cooja_packet 3 1 1 0 [4, 2])
      else if cmd = ''4'' then Some (cooja_packet 4 2 1 0 [3, 5])
      else None)"

definition cooja_setup_lower :: "string \<Rightarrow> setup_packet option" where
  "cooja_setup_lower cmd =
     (if cmd = ''5'' then Some (cooja_packet 5 3 1 0 [4, 7])
      else if cmd = ''6'' then Some (cooja_packet 6 2 0 0 [2, 7])
      else if cmd = ''7'' then Some (cooja_packet 7 3 0 0 [6, 5, 8])
      else if cmd = ''8'' then Some (cooja_packet 8 4 0 1 [7])
      else None)"

definition cooja_setup :: "string \<Rightarrow> setup_packet option" where
  "cooja_setup cmd = (case cooja_setup_upper cmd of None \<Rightarrow> cooja_setup_lower cmd | Some sp \<Rightarrow> Some sp)"

subsection \<open>The commands\<close>

definition send_setup_packet :: "string \<Rightarrow> node_properties \<Rightarrow> node_properties result" where
  "send_setup_packet cmd np = bindR (parse_setup_packet cmd) (\<lambda>sp. broadcast_own (setup_bytes sp) np)"

definition sink_setup :: bytes where
  "sink_setup = SETUP_PACKET # replicate (SETUP_PACKET_SIZE + 1) 0"

definition serial_command :: "string \<Rightarrow> node_properties \<Rightarrow> node_properties result" where
  "serial_command cmd np =
     (case cooja_setup cmd of
        Some sp \<Rightarrow> setup_parse (setup_bytes sp) False np
      | None \<Rightarrow>
          if cmd = ''init'' then
            ec_broadcasts_recv np (0xFE, 0xFE) (0xFE, 0xFE) 0 0 [INITIALIZE_BEST_PATHS_PACKET] 1
          else if cmd = ''send_init_packet'' then broadcast_own [INITIALIZE_BEST_PATHS_PACKET] np
          else if cmd = ''blink'' then Inr np
          else if cmd = ''id'' then
            bindR (print_neighbors (ec_ns np)) (\<lambda>ns. Inr (np\<lparr>ec_ns := ns\<rparr>))
          else if cmd = ''sink'' then
            bindR (setup_parse sink_setup False np) (\<lambda>np. Inr (np\<lparr>np_is_sink_node := True\<rparr>))
          else if cmd = ''reset_system_packet'' then broadcast_own [RESET_SYSTEM_PACKET] np
          else if cmd = ''extract_report_packet'' then broadcast_own [EXTRACT_REPORT_PACKET] np
          else if take 17 cmd = ''send_setup_packet'' then
            send_setup_packet cmd np
          else Inr np)"

end
