(* ===== verification/Node_Process.thy ===== *)
theory Node_Process
  imports Node_Commands
begin

text \<open>
  The node's process (\<open>fire_process\<close> in \<open>main_reg_sensor.c\<close>): start, the button, the serial line, and
  what it does when its three timers have expired (sensing, sending keep-alives, checking the
  neighbors' keep-alives). Which timers have expired and what the light sensor reads are arguments
  of a turn of the process's loop.
\<close>

subsection \<open>Starting\<close>

definition zero_queue :: "nat \<Rightarrow> 'a \<Rightarrow> 'a queue_buffer" where
  "zero_queue n x = \<lparr>queue_size = 0, queue_max_size = 0, pool = replicate n \<lparr>qnext = None, qdata = x\<rparr>,
     unused_head = None, used_head = None, iterator = None\<rparr>"

definition buffered_packet_zero :: buffered_packet where
  "buffered_packet_zero = \<lparr>bnext = None, unacked_ns = zero_queue 8 (0, 0), times_sent = 0,
     bp_data_len = 0, bp_p = replicate PACKET_MEM 0\<rparr>"

text \<open>\<open>memset(&g_np, 0, sizeof(struct node_properties))\<close>: the globals outside \<open>g_np\<close> stay.\<close>

definition zero_node_properties :: "node_properties \<Rightarrow> node_properties" where
  "zero_node_properties np =
     (clear_state np)\<lparr>ec_channels := (\<lambda>_. None), ec_timers := (\<lambda>_. None),
       ec_sq := \<lparr>prio_heads = replicate 7 None,
                 pbuffer = zero_queue SENDING_QUEUE_LENGTH buffered_packet_zero\<rparr>,
       ec_dq := zero_queue DUPE_QUEUE_LENGTH \<lparr>sp_originator = (0, 0), sp_seqno = 0\<rparr>,
       ec_ns := zero_queue 8 neighbor_node_zero, ec_ns_set := False,
       ec_ts_seqno := 0, ec_ts_is_on := False,
       np_bpn := None, np_emergency_coords := zero_queue 10 coordinate_null, np_rt := None,
       np_next_wakeup := 0, np_blinking_state := 0, np_current_sensors_metric := (0, 0), np_seqno := 0\<rparr>"

definition reset_node_properties :: "node_properties \<Rightarrow> node_properties result" where
  "reset_node_properties np =
     (let np = zero_node_properties np
      in bindR (neighbors_init (ec_ns np)) (\<lambda>ns.
         bindR (queue_buffer_init (pool (np_emergency_coords np)) MAX_FIRE_COORDINATES) (\<lambda>coords.
         bindR (ec_open EMERGENCYNET_CHANNEL (np\<lparr>ec_ns := ns, np_emergency_coords := coords\<rparr>))
           restore_setup)))"

subsection \<open>Sensing\<close>

record sensor_readings =
  sr_light :: u16

text \<open>The value of the light sensor comes from outside.\<close>

definition read_sensors :: "u16 \<Rightarrow> sensor_readings" where
  "read_sensors light = \<lparr>sr_light = light\<rparr>"

definition sensor_readings_to_metric :: "sensor_readings \<Rightarrow> metric_t" where
  "sensor_readings_to_metric r = sr_light r"

definition is_emergency :: "metric_t \<Rightarrow> bool" where
  "is_emergency metric \<longleftrightarrow> metric > LIGHT_EMERGENCY_THRESHOLD"

text \<open>\<open>abs\<close> of a difference of two \<open>int16_t\<close>, in the 16-bit \<open>int\<close> of the node.\<close>

definition int_abs :: "16 word \<Rightarrow> 16 word" where
  "int_abs a = (if a <s 0 then - a else a)"

definition abrupt_metric_change_poll :: "u16 \<Rightarrow> node_properties \<Rightarrow> metric_t \<times> bool" where
  "abrupt_metric_change_poll light np =
     (let metric = sensor_readings_to_metric (read_sensors light);
          csm = uint8_to_uint16 (np_current_sensors_metric np)
      in (metric, ABRUPT_METRIC_CHANGE_THRESHOLD <s int_abs (metric - csm)))"

definition emergency_sensed :: "node_properties \<Rightarrow> node_properties result" where
  "emergency_sensed np =
     (if np_bpn np \<noteq> None
      then
        (if \<not> np_is_burning np
         then
           bindR (blinking_init (set_burning True np)) (\<lambda>np.
           bindR (add_coordinate_as_burning (np_coordinate_node np) np) (\<lambda>np.
           bindR (send_emergency_packet np) (\<lambda>np.
           bindR (ec_timesynch_network ec_cb np) broadcast_best_path)))
         else Inr np)
      else Inr np)"

definition anti_emergency_sensed :: "node_properties \<Rightarrow> node_properties result" where
  "anti_emergency_sensed np =
     bindR
       (if np_is_burning np
        then
          (let np = set_burning False np in
           bindR (remove_coordinate_as_burning (np_coordinate_node np) np) (\<lambda>np.
           bindR (send_anti_emergency_packet np) blinking_update))
        else Inr np)
       broadcast_best_path"

definition emergency_check :: "u16 \<Rightarrow> node_properties \<Rightarrow> node_properties result" where
  "emergency_check light np =
     (if \<not> np_is_awaiting_setup_packet np \<or> \<not> np_is_sink_node np
      then
        (case abrupt_metric_change_poll light np of (current_metric, abrupt) \<Rightarrow>
           if abrupt
           then
             (let np = np\<lparr>np_current_sensors_metric := uint16_to_uint8 current_metric\<rparr> in
              if is_emergency current_metric then emergency_sensed np
              else if np_is_blinking np then anti_emergency_sensed np
              else Inr np)
           else Inr np)
      else Inr np)"

subsection \<open>Keep-alives\<close>

definition keepalive_send :: "node_properties \<Rightarrow> node_properties result" where
  "keepalive_send np =
     (if np_is_blinking np
      then (if neighbors_size (ec_ns np) > 0 then broadcast_own_ns [KEEP_ALIVE_NEIGHBOR] np else Inr np)
      else Inr np)"

text \<open>
  The loop that removes silent neighbors: after a removal it starts again at the front, and the
  loop's own \<open>neighbors_next\<close> then steps over the first neighbor. The second component says
  whether a new path must be announced.
\<close>

fun keepalive_loop :: "nat \<Rightarrow> nat option \<Rightarrow> bool \<Rightarrow> node_properties \<Rightarrow> (node_properties \<times> bool) result" where
  "keepalive_loop fuel None need np = Inr (np, need)"
| "keepalive_loop 0 (Some nn) need np = Inl Diverge"
| "keepalive_loop (Suc fuel) (Some nn) need np =
     bindR (get_data (ec_ns np) nn) (\<lambda>n.
     if \<not> neighbor_node_has_sent_keep_alive n
     then
       (let np = (if np_bpn np = Some (Table_Node nn) then np\<lparr>np_bpn := None\<rparr> else np) in
        bindR (neighbors_remove (ec_ns np) (neighbor_node_addr n)) (\<lambda>ns.
        case neighbors_begin ns of
          (ns, None) \<Rightarrow> Inr (np\<lparr>ec_ns := ns\<rparr>, need)
        | (ns, Some _) \<Rightarrow>
            bindR (neighbors_next ns) (\<lambda>(ns, nn). keepalive_loop fuel nn True (np\<lparr>ec_ns := ns\<rparr>))))
     else
       bindR (neighbors_next (ec_ns np)) (\<lambda>(ns, nn). keepalive_loop fuel nn need (np\<lparr>ec_ns := ns\<rparr>)))"

definition clear_keep_alives :: "neighbors \<Rightarrow> neighbors result" where
  "clear_keep_alives ns =
     (case neighbors_begin ns of (ns, nn) \<Rightarrow>
        bindR (for_each neighbors_next
                 (\<lambda>ns nn u. bindR (get_data ns nn) (\<lambda>n.
                    bindR (set_data ns nn (neighbor_node_set_has_sent_keep_alive n 0)) (\<lambda>ns. Inr (ns, ()))))
                 (length (pool ns)) ns nn ()) (\<lambda>(ns, _). Inr ns))"

definition keepalive_fuel :: nat where "keepalive_fuel = 81"

definition keepalive_check :: "node_properties \<Rightarrow> node_properties result" where
  "keepalive_check np =
     (if np_is_blinking np
      then
        (case neighbors_begin (ec_ns np) of (ns, nn) \<Rightarrow>
           bindR (keepalive_loop keepalive_fuel nn False (np\<lparr>ec_ns := ns\<rparr>)) (\<lambda>(np, need).
           bindR (clear_keep_alives (ec_ns np)) (\<lambda>ns.
           let np = np\<lparr>ec_ns := ns\<rparr> in
           if need
           then bindR (update_bpn_and_broadcast_new_path_if_changed None np) (\<lambda>(np, changed).
                if changed then blinking_update np else Inr np)
           else Inr np)))
      else Inr np)"

subsection \<open>A turn of the loop\<close>

text \<open>The exit handler closes the connection; the code after it runs as on any other event.\<close>

datatype process_event = Process_Exit | Button_Pressed | Serial_Line string | Other_Event

definition process_event :: "process_event \<Rightarrow> node_properties \<Rightarrow> node_properties result" where
  "process_event ev np = (case ev of
       Process_Exit \<Rightarrow> Inr (ec_close np)
     | Button_Pressed \<Rightarrow> Inr ((leds_all True np)\<lparr>np_is_awaiting_setup_packet := True\<rparr>)
     | Serial_Line cmd \<Rightarrow> serial_command cmd np
     | Other_Event \<Rightarrow> Inr np)"

definition fire_process :: "process_event \<Rightarrow> bool \<Rightarrow> bool \<Rightarrow> bool \<Rightarrow> u16 \<Rightarrow> node_properties
    \<Rightarrow> node_properties result" where
  "fire_process ev emergency_expired send_expired check_expired light np =
     bindR (process_event ev np) (\<lambda>np.
     bindR (if emergency_expired then emergency_check light np else Inr np) (\<lambda>np.
     bindR (if send_expired then keepalive_send np else Inr np) (\<lambda>np.
     if check_expired then keepalive_check np else Inr np)))"

end
