(* ===== verification/Emergency_Client.thy ===== *)
theory Emergency_Client
  imports Emergency_Steps
begin

text \<open>
  The connection and its client. Everything that happens to a connection is an event: a frame on
  one of its channels, a word from the mesh layer, a frame overheard by the clock's sniffer, a timer
  that fires. A client supplies callbacks; locale \<open>ec_client\<close> states what they must keep, and shows
  that then every event keeps it, so that it holds in every state that is reached.
\<close>

datatype ec_event =
    Neighbor_Frame bytes nat
  | Broadcast_Frame bytes nat
  | Timesynch_Frame bytes
  | Sniffed_Frame bytes nat authority_t rtimer_clock_t rtimer_clock_t
  | Mesh_Frame rimeaddr byte bytes nat
  | Mesh_Sent
  | Mesh_Timed_Out
  | Timer_Fires ec_timer bool

definition ec_handle :: "'a ec_scheme ec_callbacks \<Rightarrow> ec_event \<Rightarrow> 'a ec_scheme \<Rightarrow> 'a ec_scheme result" where
  "ec_handle cb ev c = (case ev of
       Neighbor_Frame fr datalen \<Rightarrow> neighbor_recv cb fr datalen c
     | Broadcast_Frame fr datalen \<Rightarrow> broadcast_recv cb fr datalen c
     | Timesynch_Frame fr \<Rightarrow> timesynch_recv cb fr c
     | Sniffed_Frame fr totlen level departure arrival \<Rightarrow>
         bindR (incoming_packet (ec_sync c) fr totlen level departure arrival) (\<lambda>ts.
         Inr (c\<lparr>ec_sync := ts\<rparr>))
     | Mesh_Frame from hops fr datalen \<Rightarrow> meshdata_recv cb from hops fr datalen c
     | Mesh_Sent \<Rightarrow> meshdata_sent c
     | Mesh_Timed_Out \<Rightarrow> Inr (meshdata_timeout c)
     | Timer_Fires tm ok \<Rightarrow> timer_fires cb ok tm c)"

locale ec_client =
  fixes cb :: "'a ec_scheme ec_callbacks" and inv :: "'a ec_scheme \<Rightarrow> bool"
  assumes inv_ec: "inv c \<Longrightarrow> ec_inv c"
    and inv_internal: "inv c \<Longrightarrow> ec_internal c c' \<Longrightarrow> inv c'"
    and broadcast_keeps: "inv c \<Longrightarrow> ensures (cb_broadcast_recv cb c originator sender hops seqno data data_len) inv"
    and multicast_keeps: "inv c \<Longrightarrow> ensures (cb_multicast_unicast_recv cb c originator sender hops seqno data data_len) inv"
    and neighbor_keeps: "inv c \<Longrightarrow> ensures (cb_neighbor_recv cb c originator sender hops seqno data data_len) inv"
    and timesynch_keeps: "inv c \<Longrightarrow> ensures (cb_timesynch cb c) inv"
    and mesh_keeps: "inv c \<Longrightarrow> ensures (cb_mesh cb c originator hops seqno data data_len) inv"
begin

lemma internal_keeps: "inv c \<Longrightarrow> (\<And>c'. r = Inr c' \<Longrightarrow> ec_internal c c') \<Longrightarrow> ensures r inv"
  using inv_internal by (auto simp: ensures_def)

lemma store_keeps: "inv c \<Longrightarrow> ensures (store_packet_for_dupe_checks p c) inv"
  by (rule internal_keeps) (auto intro: store_internal inv_ec)

lemma ack_keeps: "inv c \<Longrightarrow> ensures (ack_received tm p c) inv"
  by (rule internal_keeps) (auto intro: ack_received_internal inv_ec)

lemma queue_ack_keeps:
  "inv c \<Longrightarrow> ensures (queue_ack MSG_TYPE_NEIGHBOR_ACK Neighbor_Ack_Timer p c) inv"
  "inv c \<Longrightarrow> ensures (queue_ack MSG_TYPE_MULTICAST_UNICAST_ACK Multicast_Unicast_Ack_Timer p c) inv"
  by (rule internal_keeps;
      auto intro: queue_ack_internal [OF inv_ec] simp: lane_timer_def msg_type_defs)+

lemma neighbor_data_keeps:
  assumes "inv c" shows "ensures (neighbor_data_received cb p data data_len c) inv"
  unfolding neighbor_data_received_def Let_def
  by (intro ensures_read ensures_if ensures_bindR [where Q = inv])
     (use assms in \<open>auto intro: neighbor_keeps store_keeps queue_ack_keeps\<close>)

lemma broadcast_data_keeps:
  assumes "inv c" shows "ensures (broadcast_data_received cb kind p data data_len c) inv"
proof -
  have cbs: "ensures ((if b then cb_multicast_unicast_recv cb else cb_broadcast_recv cb) c o' s h n d l) inv"
    for b o' s h n d l using assms broadcast_keeps multicast_keeps by simp
  have ack: "ensures (if b then queue_ack MSG_TYPE_MULTICAST_UNICAST_ACK Multicast_Unicast_Ack_Timer p c else Inr c) inv"
    if "inv c" for b c using that queue_ack_keeps by simp
  show ?thesis
    unfolding broadcast_data_received_def Let_def
    by (rule ensures_read, rule ensures_if, rule ack [OF assms], rule ensures_if, rule ensures_bindR [OF cbs],
        rule ensures_bindR [OF store_keeps]) (simp_all add: ack assms)
qed

lemma neighbor_recv_keeps: "inv c \<Longrightarrow> ensures (neighbor_recv cb fr n c) inv"
  unfolding neighbor_recv_def
  by (intro ensures_read ensures_option ensures_pair ensures_if)
     (auto intro: neighbor_data_keeps ack_keeps)

lemma broadcast_recv_keeps: "inv c \<Longrightarrow> ensures (broadcast_recv cb fr n c) inv"
  unfolding broadcast_recv_def
  by (intro ensures_read ensures_option ensures_pair ensures_if)
     (auto intro: broadcast_data_keeps ack_keeps)

lemma leader_keeps:
  assumes "inv c" shows "ensures (timesynch_as_leader cb c) inv"
  unfolding ensures_def
proof (intro allI impI)
  fix c' assume "timesynch_as_leader cb c = Inr c'"
  from timesynch_as_leader_internal [OF inv_ec [OF assms] this] obtain c1
    where "ec_internal c c1" "cb_timesynch cb c1 = Inr c'" .
  with ensuresD [OF timesynch_keeps] inv_internal [OF assms] show "inv c'" by blast
qed

lemma sync_keeps: "inv c \<Longrightarrow> sync_wf ts \<Longrightarrow> inv (c\<lparr>ec_sync := ts\<rparr>)"
  using inv_internal sync_internal(2) inv_ec by blast

lemma forward_keeps: "inv c \<Longrightarrow> ensures (forward_timesynch p c) inv"
  by (rule internal_keeps) (auto intro: forward_timesynch_internal inv_ec)

lemma timesynch_recv_keeps:
  assumes inv: "inv c" shows "ensures (timesynch_recv cb fr c) inv"
proof -
  have s: "inv (c\<lparr>ec_sync := set_authority_seqno (set_authority_level (ec_sync c) a) n\<rparr>)"
    "inv (c\<lparr>ec_sync := set_authority_seqno (ec_sync c) n\<rparr>)" for a n
    using sync_keeps [OF inv] ec_wfD(5) [OF ec_invD(1) [OF inv_ec [OF inv]]]
    by (simp_all add: set_authority_seqno_def set_authority_level_def)
  show ?thesis
    unfolding timesynch_recv_def Let_def
    by (intro ensures_if ensures_read [where r = "read_header fr"] ensures_read [where r = "assertR _"]
          ensures_bindR [where Q = inv] forward_keeps s timesynch_keeps leader_keeps inv) (simp_all add: inv)
qed

lemma mesh_recv_keeps: "inv c \<Longrightarrow> ensures (meshdata_recv cb from hops fr n c) inv"
  unfolding meshdata_recv_def by (rule ensures_read, rule mesh_keeps)

lemma sniff_keeps:
  assumes "inv c"
  shows "ensures (bindR (incoming_packet (ec_sync c) fr n a t1 t2) (\<lambda>ts. Inr (c\<lparr>ec_sync := ts\<rparr>))) inv"
  by (rule ensures_read)
     (use assms in \<open>auto intro: sync_keeps incoming_packet_wf ec_wfD(5) [OF ec_invD(1) [OF inv_ec]]\<close>)

lemma mesh_sent_keeps: "inv c \<Longrightarrow> ensures (meshdata_sent c) inv"
  by (rule internal_keeps) (auto intro: meshdata_sent_internal inv_ec)

lemma mesh_timeout_keeps: "inv c \<Longrightarrow> inv (meshdata_timeout c)"
  using inv_internal set_timer_internal inv_ec unfolding meshdata_timeout_def by blast

lemma timer_keeps:
  assumes "inv c" shows "ensures (timer_fires cb ok tm c) inv"
proof (cases "tm = Ts_Timer")
  case True
  have "inv (ctimer_stop Ts_Timer c)" using assms inv_internal stop_ts_internal inv_ec by blast
  with True leader_keeps show ?thesis by (simp add: timer_fires_def Let_def)
next
  case False
  show ?thesis by (rule internal_keeps [OF assms]) (rule timer_fires_internal [OF inv_ec [OF assms] False])
qed

lemma handle_keeps: "inv c \<Longrightarrow> ensures (ec_handle cb ev c) inv"
  by (cases ev)
     (simp_all add: ec_handle_def neighbor_recv_keeps broadcast_recv_keeps timesynch_recv_keeps sniff_keeps
        mesh_recv_keeps mesh_sent_keeps mesh_timeout_keeps timer_keeps)

end

end
