(* ===== verification/Node_Laws.thy ===== *)
theory Node_Laws
  imports Node_Process Emergency_Client
begin

text \<open>
  The invariant of the sensor node and that everything the node does keeps it: the connection's own
  invariant (well-formed queues, tables and clock, timers running for the lanes that hold packets),
  and a well-formed list of at most ten fires. The node is a client of the connection: its callbacks
  meet the assumptions of locale \<open>ec_client\<close>.
\<close>

definition node_inv :: "node_properties \<Rightarrow> bool" where
  "node_inv np \<longleftrightarrow> ec_inv np \<and> qb_wf (np_emergency_coords np) \<and> capacity (np_emergency_coords np) = 10"

lemma node_invD:
  assumes "node_inv np"
  shows "ec_inv np" "qb_wf (np_emergency_coords np)" "capacity (np_emergency_coords np) = 10" "ns_wf (ec_ns np)"
  using assms ec_wfD(4) [OF ec_invD(1), of np] by (simp_all add: node_inv_def)

lemma ec_inv_cong:
  assumes "ec_sq c' = ec_sq c" and "ec_dq c' = ec_dq c" and "ec_timers c' = ec_timers c"
    and "ec_packetbuf c' = ec_packetbuf c" and "ns_wf (ec_ns c')" and "sync_wf (ec_sync c')"
  shows "ec_inv c \<Longrightarrow> ec_inv c'"
  using assms armed_cong [of c' c] by (simp add: ec_inv_def ec_wf_def)

lemma node_inv_cong:
  assumes "ec_sq np' = ec_sq np" and "ec_dq np' = ec_dq np" and "ec_timers np' = ec_timers np"
    and "ec_packetbuf np' = ec_packetbuf np" and "ec_ns np' = ec_ns np" and "ec_sync np' = ec_sync np"
    and "np_emergency_coords np' = np_emergency_coords np"
  shows "node_inv np \<Longrightarrow> node_inv np'"
  using assms ec_inv_cong [of np' np] ec_wfD [OF ec_invD(1) [OF node_invD(1), of np]]
  by (simp add: node_inv_def)

lemma node_inv_fields:
  assumes "node_inv np"
  shows "node_inv (np\<lparr>np_bpn := b\<rparr>)" "node_inv (np\<lparr>np_seqno := n\<rparr>)" "node_inv (np\<lparr>np_leds := l\<rparr>)"
    "node_inv (np\<lparr>np_rt := t\<rparr>)" "node_inv (np\<lparr>np_next_wakeup := w\<rparr>)" "node_inv (np\<lparr>np_blinking_state := s\<rparr>)"
    "node_inv (np\<lparr>np_is_blinking := f\<rparr>)" "node_inv (np\<lparr>np_is_burning := f\<rparr>)"
    "node_inv (np\<lparr>np_is_awaiting_setup_packet := f\<rparr>)" "node_inv (np\<lparr>np_has_sent_node_info := f\<rparr>)"
    "node_inv (np\<lparr>np_is_reset_mode := f\<rparr>)" "node_inv (np\<lparr>np_is_sink_node := f\<rparr>)"
    "node_inv (np\<lparr>np_current_sensors_metric := m\<rparr>)" "node_inv (np\<lparr>np_printed := p\<rparr>)"
    "node_inv (np\<lparr>np_flash := fl\<rparr>)" "node_inv (np\<lparr>np_rtimer_now := w\<rparr>)"
    "node_inv (np\<lparr>ec_node_addr := a, np_coordinate_node := co\<rparr>)"
    "node_inv (np\<lparr>np_is_exit_node := f, np_exit_node := e\<rparr>)"
    "node_inv (np\<lparr>np_max_node := mx, np_exit_node := e\<rparr>)"
    "node_inv (clear_state np)" "node_inv (ec_set_neighbors np)"
  by (rule node_inv_cong [OF _ _ _ _ _ _ _ assms]; simp add: clear_state_def ec_set_neighbors_def)+

lemma node_inv_ns: "node_inv np \<Longrightarrow> ns_wf ns \<Longrightarrow> node_inv (np\<lparr>ec_ns := ns\<rparr>)"
  using ec_inv_cong [of "np\<lparr>ec_ns := ns\<rparr>" np] ec_wfD(5) [OF ec_invD(1) [OF node_invD(1), of np]]
  by (simp add: node_inv_def)

lemma more_coords: "ec.more c' = ec.more c \<Longrightarrow> np_emergency_coords c' = np_emergency_coords c"
  by (cases c, cases c') simp

lemma node_internal: "node_inv np \<Longrightarrow> ec_internal np np' \<Longrightarrow> node_inv np'"
  using more_coords [of np' np] by (simp add: node_inv_def ec_internal_def)

lemma node_keeps: "node_inv np \<Longrightarrow> (\<And>np'. r = Inr np' \<Longrightarrow> ec_internal np np') \<Longrightarrow> ensures r node_inv"
  using node_internal by (auto simp: ensures_def)

subsection \<open>The neighbor table\<close>

lemma neighbors_add_wf: "ns_wf ns \<Longrightarrow> ensures (neighbors_add ns a) ns_wf"
  using neighbors_size_le [of ns] neighbors_add_full [of ns a] neighbors_add_room [of ns a]
  by (cases "length (items ns) < 8") (auto elim!: returnsE)

lemma add_neighbors_loop_wf: "ns_wf ns \<Longrightarrow> ensures (add_neighbors_loop n off m ns) ns_wf"
  by (induction n off m ns rule: add_neighbors_loop.induct)
     (auto intro!: ensures_read [where r = "read_addr _ _"] ensures_bindR [OF neighbors_add_wf])

lemma neighbors_clear_wf: "ns_wf ns \<Longrightarrow> ensures (neighbors_clear ns) ns_wf"
  using neighbors_clear_returns [of ns] by (auto elim!: returnsE)

lemma neighbors_remove_wf: "ns_wf ns \<Longrightarrow> ensures (neighbors_remove ns a) ns_wf"
  using neighbors_remove_returns [of ns a] by (auto elim!: returnsE)

lemma set_data_keeps: "ns_wf ns \<Longrightarrow> ensures (set_data ns i n) ns_wf"
proof (cases "i < length (pool ns)")
  case True
  assume ns: "ns_wf ns"
  obtain ns' where "set_data ns i n = Inr ns'" "qb_wf ns'" "frame ns ns'"
    using set_data_wf [OF ns_wfD(1) [OF ns] True] .
  with ns show ?thesis by (simp add: ns_wf_def frame_def capacity_def)
qed (simp add: set_data_def)


lemma pool_length: "qb_wf q \<Longrightarrow> length (entries q) \<le> length (pool q)"
  by (erule qb_wfE) (auto simp: entries_lists qb_lists_def dest: chain_length)

lemma unacked_at_most_eight: "cell_ok bp \<Longrightarrow> length (items (unacked_ns bp)) \<le> 8"
  using length_entries_le [of "unacked_ns bp"] pool_length [of "unacked_ns bp"]
  by (auto simp: cell_ok_def items_def)

text \<open>A loop over the table that only reads it computes a fold over its entries.\<close>

lemma scan_neighbors:
  assumes "ns_wf ns"
  shows "returns (case neighbors_begin ns of (ns, nn) \<Rightarrow>
      for_each neighbors_next (\<lambda>ns i s. bindR (get_data ns i) (\<lambda>n. Inr (ns, g i n s))) (length (pool ns)) ns nn s)
    (\<lambda>(ns', s'). ns_wf ns' \<and> entries ns' = entries ns \<and> s' = fold (\<lambda>(i, n). g i n) (entries ns) s)"
proof -
  note q = ns_wfD(1) [OF assms]
  obtain ns1 where b: "queue_buffer_begin ns = (ns1, head_slot (entries ns))" "length (pool ns1) = length (pool ns)"
    using iq.first_eq [OF q] by (auto simp: queue_buffer_begin_def)
  have "returns (case queue_buffer_begin ns of (q1, p) \<Rightarrow>
      for_each queue_buffer_next (\<lambda>ns i s. bindR (get_data ns i) (\<lambda>n. Inr (ns, g i n s))) (length (pool ns)) q1 p s)
    (\<lambda>(q', s'). qb_wf q' \<and> entries q' = entries ns \<and> capacity q' = capacity ns \<and> iterator q' = None \<and>
       s' = fold (\<lambda>(i, x). g i x) (entries ns) s)"
    by (rule iq.for_each_fold [OF q pool_length [OF q]]) (simp add: get_data_entry)
  with b show ?thesis
    by (auto simp: neighbors_ops ns_wf_def ns_wfD(2) [OF assms] elim!: returns_mono)
qed

subsection \<open>LEDs, fires and blinking\<close>

lemma leds_keep:
  assumes "node_inv np"
  shows "node_inv (leds_red on np)" "node_inv (leds_green on np)" "node_inv (leds_blue on np)"
    "node_inv (leds_all on np)"
  using assms by (simp_all add: leds_red_def leds_green_def leds_blue_def leds_all_def node_inv_fields
      split: prod.splits)

lemma node_inv_coords:
  "node_inv np \<Longrightarrow> qb_wf q \<Longrightarrow> capacity q = 10 \<Longrightarrow> node_inv (np\<lparr>np_emergency_coords := q\<rparr>)"
  using ec_inv_cong [of "np\<lparr>np_emergency_coords := q\<rparr>" np] ec_wfD(5) [OF ec_invD(1) [OF node_invD(1), of np]]
    node_invD(4) [of np] by (simp add: node_inv_def)

lemma push_front_keeps:
  assumes "qb_wf q"
  shows "ensures (queue_buffer_push_front q x) (\<lambda>(q', _). qb_wf q' \<and> capacity q' = capacity q)"
proof (cases "length (entries q) < capacity q")
  case True
  from sq.push_front_returns [OF assms True, of x] show ?thesis by (auto simp: returns_def)
next
  case False
  with length_entries_le [OF assms] have "length (entries q) = capacity q" by simp
  from push_front_full [OF assms this, of x] assms show ?thesis by simp
qed

lemma add_coordinate_keeps:
  assumes inv: "node_inv np" shows "ensures (add_coordinate_as_burning coord np) node_inv"
  unfolding add_coordinate_as_burning_def
  by (rule ensures_read, rule ensures_option, rule ensures_bindR [OF push_front_keeps [OF node_invD(2) [OF inv]]])
     (auto simp: inv node_invD(3) [OF inv] intro!: node_inv_coords [OF inv])

lemma remove_coordinate_keeps:
  assumes inv: "node_inv np" shows "ensures (remove_coordinate_as_burning coord np) node_inv"
proof -
  note q = node_invD(2) [OF inv]
  have "ensures (queue_buffer_free (np_emergency_coords np) i) (\<lambda>q'. qb_wf q' \<and> capacity q' = 10)"
    if "queue_buffer_find (np_emergency_coords np) P = Inr (Some i)" for i P
  proof -
    have "i \<in> fst ` set (entries (np_emergency_coords np))" using sq.find_Some [OF q that] by force
    from sq.free_returns [OF q this] show ?thesis
      by (auto simp: node_invD(3) [OF inv] elim!: returnsE)
  qed
  note freed = this
  show ?thesis
    unfolding remove_coordinate_as_burning_def
    by (rule ensures_read, rule ensures_option, simp add: inv, rule ensures_bindR, rule freed, simp)
       (auto intro!: node_inv_coords [OF inv])
qed

lemma blink_keeps: "node_inv np \<Longrightarrow> ensures (blink np) node_inv"
  unfolding blink_def rtimer_set_def
  by (intro ensures_if ensures_read) (auto simp: Let_def intro!: node_inv_fields leds_keep)

lemma blinking_update_keeps: "node_inv np \<Longrightarrow> ensures (blinking_update np) node_inv"
  unfolding blinking_update_def rtimer_set_def Let_def
  by (intro ensures_if ensures_read) (auto intro!: node_inv_fields)

lemma blinking_init_keeps: "node_inv np \<Longrightarrow> ensures (blinking_init np) node_inv"
  unfolding blinking_init_def by (intro ensures_if) (simp_all add: blinking_update_keeps node_inv_fields)

lemma set_burning_keeps: "node_inv np \<Longrightarrow> node_inv (set_burning on np)"
  unfolding set_burning_def by (intro leds_keep node_inv_fields)

subsection \<open>Setting up\<close>

lemma print_neighbors_returns:
  assumes "ns_wf ns"
  shows "returns (print_neighbors ns) (\<lambda>ns'. ns_wf ns' \<and> entries ns' = entries ns)"
proof -
  have "returns (bindR (case neighbors_begin ns of (ns, nn) \<Rightarrow>
      for_each neighbors_next (\<lambda>ns i s. bindR (get_data ns i) (\<lambda>n. Inr (ns, ()))) (length (pool ns)) ns nn ())
    (\<lambda>(ns, _). Inr ns)) (\<lambda>ns'. ns_wf ns' \<and> entries ns' = entries ns)"
    by (rule returns_bindR [OF scan_neighbors [OF assms, of "\<lambda>_ _ _. ()" "()"]]) auto
  then show ?thesis by (simp add: print_neighbors_def split: prod.splits)
qed

lemma setup_keeps:
  assumes "node_inv np"
  shows "node_inv (setup_identity sp np)" "node_inv (setup_exit_node np)" "node_inv (setup_max_node np)"
  unfolding setup_identity_def setup_exit_node_def setup_max_node_def coordinate_set_node_coord_def
  by (rule node_inv_cong [OF _ _ _ _ _ _ _ assms];
      simp add: clear_state_def leds_all_def leds_green_def split: prod.splits)+

lemma setup_parse_keeps:
  assumes inv: "node_inv np" shows "ensures (setup_parse m fl np) node_inv"
proof -
  show ?thesis
    unfolding setup_parse_def Let_def
  proof (intro ensures_read [where r = "read_mem m 0 SETUP_PACKET_SIZE"] ensures_bindR [where Q = ns_wf]
      ensures_bindR [where Q = node_inv])
    show "ensures (neighbors_clear (ec_ns np)) ns_wf" by (rule neighbors_clear_wf [OF node_invD(4) [OF inv]])
    show "ensures (print_neighbors ns) ns_wf" if "ns_wf ns" for ns
      by (rule ensures_returns [OF returns_mono [OF print_neighbors_returns [OF that]]]) simp
  qed (auto intro!: add_neighbors_loop_wf ensures_read node_inv_fields node_inv_ns setup_keeps inv)
qed

subsection \<open>Exit paths\<close>

text \<open>The best neighbor as a fold over the table.\<close>

definition best_of :: "node_properties \<Rightarrow> node_ptr" where
  "best_of np =
     (if np_is_exit_node np then Exit_Node
      else case fst (fold (\<lambda>(i, n). consider_neighbor (ec_node_addr np) i n) (entries (ec_ns np)) (None, METRIC_T_MAX)) of
        None \<Rightarrow> Max_Node | Some b \<Rightarrow> b)"

lemma find_best_returns:
  assumes "ns_wf (ec_ns np)"
  shows "returns (find_best_exit_path_neighbor np) (\<lambda>(np', best). \<exists>ns. np' = np\<lparr>ec_ns := ns\<rparr> \<and> ns_wf ns \<and>
     entries ns = entries (ec_ns np) \<and> best = best_of np)"
proof (cases "np_is_exit_node np")
  case True
  obtain ns i where b: "neighbors_begin (ec_ns np) = (ns, i)" "qb_wf ns" "entries ns = entries (ec_ns np)"
    "capacity ns = capacity (ec_ns np)"
    using iq.first_eq [OF ns_wfD(1) [OF assms]] by (auto simp: neighbors_ops)
  with True assms show ?thesis
    by (auto simp: find_best_exit_path_neighbor_def best_of_def ns_wf_def intro!: exI [of _ ns])
next
  case False
  obtain ns1 i where b: "neighbors_begin (ec_ns np) = (ns1, i)" by (cases "neighbors_begin (ec_ns np)")
  from scan_neighbors [OF assms, of "\<lambda>i n s. consider_neighbor (ec_node_addr np) i n s" "(None, METRIC_T_MAX)"]
  obtain ns s where "for_each neighbors_next
      (\<lambda>ns i s. bindR (get_data ns i) (\<lambda>n. Inr (ns, consider_neighbor (ec_node_addr np) i n s)))
      (length (pool ns1)) ns1 i (None, METRIC_T_MAX) = Inr (ns, s)" "ns_wf ns" "entries ns = entries (ec_ns np)"
    "s = fold (\<lambda>(i, n). consider_neighbor (ec_node_addr np) i n) (entries (ec_ns np)) (None, METRIC_T_MAX)"
    using b by (auto simp: returns_def)
  with False b show ?thesis
    by (auto simp: find_best_exit_path_neighbor_def best_of_def case_prod_beta intro!: exI [of _ ns])
qed

lemma find_best_keeps:
  "node_inv np \<Longrightarrow> ensures (find_best_exit_path_neighbor np) (\<lambda>(np', _). node_inv np')"
  by (rule ensures_returns [OF returns_mono [OF find_best_returns [OF node_invD(4)]]])
     (auto intro: node_inv_ns)

lemma own_keeps:
  assumes "node_inv np"
  shows "ensures (broadcast_own data np) node_inv" "ensures (broadcast_own_ns data np) node_inv"
proof -
  have n: "node_inv (next_seqno np)" using assms by (simp add: next_seqno_def node_inv_fields)
  show "ensures (broadcast_own data np) node_inv" "ensures (broadcast_own_ns data np) node_inv"
    unfolding broadcast_own_def broadcast_own_ns_def
    by (rule node_keeps [OF n]; auto intro: ec_broadcast_internal ec_reliable_broadcast_ns_internal node_invD(1) [OF n])+
qed

lemma broadcast_best_path_keeps: "node_inv np \<Longrightarrow> ensures (broadcast_best_path np) node_inv"
  unfolding broadcast_best_path_def by (rule ensures_read) (rule own_keeps)

lemma update_bpn_keeps:
  assumes "node_inv np"
  shows "ensures (update_bpn_and_broadcast_new_path_if_changed sender np) (\<lambda>(np', _). node_inv np')"
proof -
  have a: "ensures (bindR (broadcast_best_path (np'\<lparr>np_bpn := b\<rparr>)) (\<lambda>np. Inr (np, True))) (\<lambda>(np', _). node_inv np')"
    if "node_inv np'" for np' b
    by (rule ensures_bindR [OF broadcast_best_path_keeps]) (simp_all add: that node_inv_fields)
  show ?thesis
    unfolding update_bpn_and_broadcast_new_path_if_changed_def Let_def
    by (rule ensures_bindR [OF find_best_keeps [OF assms]])
       (auto intro!: ensures_pair ensures_option ensures_read ensures_if a)
qed

lemma send_node_info_keeps: "node_inv np \<Longrightarrow> ensures (update_bpn_and_send_node_info np) node_inv"
  unfolding update_bpn_and_send_node_info_def Let_def
  by (rule ensures_bindR [OF find_best_keeps]) (auto intro!: ensures_read own_keeps node_inv_fields)

lemma timesynch_on_keeps:
  assumes inv: "node_inv np" shows "node_inv (ec_timesynch_on np)"
proof -
  have "ec_inv (ec_timesynch_on np)"
    by (rule ec_inv_cong [OF _ _ _ _ _ _ node_invD(1) [OF inv]])
       (use node_invD(4) [OF inv] ec_wfD(5) [OF ec_invD(1) [OF node_invD(1) [OF inv]]]
        in \<open>simp_all add: ec_timesynch_on_def set_authority_level_def set_authority_seqno_def\<close>)
  moreover have "np_emergency_coords (ec_timesynch_on np) = np_emergency_coords np"
    by (simp add: ec_timesynch_on_def)
  ultimately show ?thesis using node_invD(2,3) [OF inv] by (simp add: node_inv_def)
qed

lemma initialize_keeps:
  assumes "node_inv np" shows "ensures (initialize_best_path_packet_handler np) node_inv"
proof -
  define n where "n = (if np_is_reset_mode (ec_timesynch_on np)
      then (ec_timesynch_on np)\<lparr>np_is_reset_mode := False\<rparr> else ec_timesynch_on np)"
  have n: "node_inv n" using timesynch_on_keeps [OF assms] node_inv_fields(11) by (simp add: n_def)
  have "ensures (bindR (assertR (\<not> np_has_sent_node_info n)) (\<lambda>_.
      bindR (update_bpn_and_send_node_info n) (\<lambda>np. Inr (np\<lparr>np_has_sent_node_info := True\<rparr>)))) node_inv"
    by (rule ensures_read, rule ensures_bindR [OF send_node_info_keeps [OF n]]) (simp add: node_inv_fields)
  then show ?thesis
    using n by (simp only: initialize_best_path_packet_handler_def Let_def n_def [symmetric]) simp
qed

subsection \<open>Callbacks\<close>

lemma restore_keeps: "node_inv np \<Longrightarrow> ensures (restore_setup np) node_inv"
  unfolding restore_setup_def by (rule ensures_option) (simp_all add: setup_parse_keeps)

lemma reset_keeps: "node_inv np \<Longrightarrow> ensures (reset_system_packet_handler np) node_inv"
  unfolding reset_system_packet_handler_def by (rule ensures_bindR [OF restore_keeps]) (simp_all add: node_inv_fields)

lemma forward_broadcast_keeps:
  assumes "node_inv np"
  shows "ensures (forward_broadcast o' h n d l np) node_inv" "ensures (forward_broadcast_ns o' h n d l np) node_inv"
  unfolding forward_broadcast_def forward_broadcast_ns_def
  by (rule node_keeps [OF assms];
      auto intro: ec_broadcast_internal ec_reliable_broadcast_ns_internal node_invD(1) [OF assms])+

lemma mc_uc_keeps: "node_inv np \<Longrightarrow> ensures (ec_mc_uc_recv np o' s h n d l) node_inv"
  unfolding ec_mc_uc_recv_def
  by (rule ensures_read)
     (auto intro!: ensures_bindR [OF neighbors_add_wf] node_inv_ns node_invD(4))

lemma report_keeps: "node_inv np \<Longrightarrow> ensures (ec_mesh o' (np_seqno np) d l (next_seqno np)) node_inv"
  using node_keeps [of "next_seqno np"] ec_mesh_internal node_invD(1) node_inv_fields(2)
  by (metis next_seqno_def)

lemma regular_broadcast_keeps:
  assumes "node_inv np" shows "ensures (regular_broadcast_recv type np o' s h n d l) node_inv"
  unfolding regular_broadcast_recv_def Let_def
  by (intro ensures_if ensures_read [where r = "read_coordinate _ _"]
        ensures_bindR [OF add_coordinate_keeps] ensures_bindR [OF remove_coordinate_keeps]
        ensures_bindR [OF forward_broadcast_keeps(1)] ensures_bindR [OF forward_broadcast_keeps(2)]
        blinking_init_keeps setup_parse_keeps forward_broadcast_keeps initialize_keeps reset_keeps
        report_keeps node_inv_fields assms) (simp_all add: assms)

lemma broadcasts_recv_keeps:
  assumes "node_inv np" shows "ensures (ec_broadcasts_recv np o' s h n d l) node_inv"
  unfolding ec_broadcasts_recv_def sink_broadcast_recv_def
  by (intro ensures_read ensures_if regular_broadcast_keeps assms) (simp_all add: assms node_inv_fields)

lemma change_node_keeps:
  assumes "node_inv np" shows "ensures (change_node i f np) node_inv"
  unfolding change_node_def
  by (rule ensures_read, rule ensures_bindR [OF set_data_keeps [OF node_invD(4) [OF assms]]])
     (simp add: node_inv_ns [OF assms])

lemma best_path_update_keeps: "node_inv np \<Longrightarrow> ensures (best_path_update_recv sender d np) node_inv"
  unfolding best_path_update_recv_def
  by (rule ensures_read, rule ensures_read, rule ensures_bindR [OF change_node_keeps], assumption,
      rule ensures_bindR [OF update_bpn_keeps], assumption) (auto intro!: blinking_update_keeps)

lemma node_info_keeps: "node_inv np \<Longrightarrow> ensures (node_info_recv sender d np) node_inv"
  unfolding node_info_recv_def
  by (rule ensures_read, rule ensures_read, rule ensures_read, rule ensures_bindR [OF change_node_keeps], assumption)
     (auto intro!: ensures_bindR [OF send_node_info_keeps] ensures_bindR [OF update_bpn_keeps] node_inv_fields)

lemma neighbors_recv_keeps:
  assumes "node_inv np" shows "ensures (ec_neighbors_recv np o' s h n d l) node_inv"
  unfolding ec_neighbors_recv_def
  by (rule ensures_read)
     (auto intro!: assms best_path_update_keeps node_info_keeps initialize_keeps reset_keeps
        ensures_bindR [OF forward_broadcast_keeps(2)] ensures_read [where r = "sender_node _ _"] change_node_keeps)

lemma node_mesh_recv_keeps: "node_inv np \<Longrightarrow> ensures (ec_mesh_recv np o' h n d l) node_inv"
  unfolding ec_mesh_recv_def by (intro ensures_read ensures_if) (simp_all add: node_inv_fields)

text \<open>The node is a client of the connection.\<close>

interpretation node: ec_client ec_cb node_inv
proof unfold_locales
  show "node_inv np \<Longrightarrow> ec_inv np" for np by (rule node_invD(1))
  show "node_inv np \<Longrightarrow> ec_internal np np' \<Longrightarrow> node_inv np'" for np np' by (rule node_internal)
qed (simp_all add: ec_cb_def broadcasts_recv_keeps mc_uc_keeps neighbors_recv_keeps node_mesh_recv_keeps
    ec_timesynch_recv_def blinking_update_keeps)

subsection \<open>The process\<close>

lemma emergency_check_keeps:
  assumes "node_inv np" shows "ensures (emergency_check light np) node_inv"
proof -
  have leader: "ensures (ec_timesynch_network ec_cb np) node_inv" if "node_inv np" for np
    unfolding ec_timesynch_network_def by (intro ensures_read ensures_if node.leader_keeps) (simp_all add: that)
  have 1: "ensures (emergency_sensed np) node_inv" if "node_inv np" for np
    unfolding emergency_sensed_def
    by (intro ensures_if ensures_bindR [OF blinking_init_keeps] ensures_bindR [OF add_coordinate_keeps]
          ensures_bindR [where r = "send_emergency_packet _" and Q = node_inv] ensures_bindR [OF leader]
          broadcast_best_path_keeps set_burning_keeps that)
       (simp_all add: send_emergency_packet_def own_keeps that)
  have 2: "ensures (anti_emergency_sensed np) node_inv" if "node_inv np" for np
    unfolding anti_emergency_sensed_def Let_def
    by (intro ensures_bindR [where r = "if _ then _ else _" and Q = node_inv] ensures_if
          ensures_bindR [OF remove_coordinate_keeps] ensures_bindR [where Q = node_inv]
          broadcast_best_path_keeps blinking_update_keeps set_burning_keeps that)
       (simp_all add: send_anti_emergency_packet_def own_keeps that)
  show ?thesis
    unfolding emergency_check_def Let_def
    by (auto intro!: 1 2 node_inv_fields assms simp: assms split: prod.split)
qed

lemma keepalive_send_keeps: "node_inv np \<Longrightarrow> ensures (keepalive_send np) node_inv"
  unfolding keepalive_send_def by (auto intro!: own_keeps)

lemma serial_keeps:
  assumes "node_inv np" shows "ensures (serial_command cmd np) node_inv"
proof -
  have p: "ensures (bindR (print_neighbors (ec_ns np)) (\<lambda>ns. Inr (np\<lparr>ec_ns := ns\<rparr>))) node_inv"
    by (rule ensures_bindR [OF ensures_returns [OF print_neighbors_returns [OF node_invD(4) [OF assms]]]])
       (simp add: node_inv_ns [OF assms])
  have s: "ensures (bindR (setup_parse sink_setup False np) (\<lambda>np. Inr (np\<lparr>np_is_sink_node := True\<rparr>))) node_inv"
    by (rule ensures_bindR [OF setup_parse_keeps [OF assms]]) (simp add: node_inv_fields)
  show ?thesis
    unfolding serial_command_def send_setup_packet_def
    by (intro ensures_option ensures_if setup_parse_keeps broadcasts_recv_keeps own_keeps p s
          ensures_read [where r = "parse_setup_packet _"] assms) (simp_all add: assms)
qed

lemma ec_close_keeps: "node_inv np \<Longrightarrow> node_inv (ec_close np)"
  by (rule node_inv_cong) (simp_all add: ec_close_def)

lemma process_event_keeps: "node_inv np \<Longrightarrow> ensures (process_event ev np) node_inv"
  by (cases ev) (simp_all add: process_event_def serial_keeps leds_keep node_inv_fields ec_close_keeps)

end
