(* ===== verification/Keepalive_Laws.thy ===== *)
theory Keepalive_Laws
  imports Node_Laws
begin

text \<open>
  The check of the neighbors' keep-alives: the loop that removes silent neighbors restarts at the
  front after every removal, so its termination rests on the table getting shorter.
\<close>

lemma remove_present:
  assumes ns: "ns_wf ns" and e: "(i, n) \<in> set (entries ns)"
  obtains ns' where "neighbors_remove ns (neighbor_node_addr n) = Inr ns'" and "ns_wf ns'"
    and "set (entries ns') \<subseteq> set (entries ns)" and "length (entries ns') < length (entries ns)"
proof -
  have "List.find (\<lambda>e. nn_addr (snd e) = nn_addr n) (entries ns) \<noteq> None"
    using e by (auto simp: List.find_None_iff)
  then obtain e' where f: "List.find (\<lambda>e. nn_addr (snd e) = nn_addr n) (entries ns) = Some e'" by auto
  obtain ns' where r: "neighbors_remove ns (nn_addr n) = Inr ns'" "ns_wf ns'"
    "entries ns' = filter (\<lambda>e. fst e \<noteq> fst e') (entries ns)"
    using neighbors_remove_returns [OF ns, of "nn_addr n"] f by (auto simp: returns_def)
  have "e' \<in> set (entries ns)" using find_Some_in [OF f] by simp
  then have "length (filter (\<lambda>e. fst e \<noteq> fst e') (entries ns)) < length (entries ns)"
    by (intro length_filter_less) auto
  with r that show thesis by (auto simp: neighbor_node_addr_def)
qed

text \<open>What holds when the loop is over: no neighbor is new, and if none was removed none is gone.\<close>

definition checked :: "(nat \<times> neighbor_node) list \<Rightarrow> bool \<Rightarrow> node_properties \<times> bool \<Rightarrow> bool" where
  "checked ents need r \<longleftrightarrow> (case r of (np', need') \<Rightarrow> node_inv np' \<and> set (entries (ec_ns np')) \<subseteq> set ents \<and>
     (need \<longrightarrow> need') \<and> (\<not> need' \<longrightarrow> entries (ec_ns np') = [] \<or> entries (ec_ns np') = ents))"

lemma keepalive_loop_returns:
  assumes "node_inv np" and "entries (ec_ns np) = es @ fs" and "iterator (ec_ns np) = head_slot fs"
    and "9 * length (entries (ec_ns np)) + length fs \<le> fuel"
  shows "returns (keepalive_loop fuel (head_slot fs) need np) (checked (entries (ec_ns np)) need)"
  using assms
proof (induction fuel arbitrary: np es fs need)
  case 0
  then show ?case by (simp add: checked_def)
next
  case (Suc fuel)
  show ?case
  proof (cases fs)
    case Nil
    with Suc.prems show ?thesis by (simp add: checked_def)
  next
    case (Cons e fs')
    obtain i n where fs: "fs = (i, n) # fs'" using Cons by (cases e) auto
    note ns = node_invD(4) [OF Suc.prems(1)]
    have e: "(i, n) \<in> set (entries (ec_ns np))" using Suc.prems(2) fs by simp
    have d: "get_data (ec_ns np) i = Inr n" by (rule get_data_entry [OF ns_wfD(1) [OF ns] e])
    show ?thesis
    proof (cases "neighbor_node_has_sent_keep_alive n")
      case True
      have it: "iterator (ec_ns np) = Some i" using Suc.prems(3) fs by simp
      obtain ns' where n': "queue_buffer_next (ec_ns np) = Inr (ns', head_slot fs')" "qb_wf ns'"
        "entries ns' = entries (ec_ns np)" "capacity ns' = capacity (ec_ns np)" "iterator ns' = head_slot fs'"
        using iq.step_returns [OF ns_wfD(1) [OF ns] Suc.prems(2) [unfolded fs] it] by (auto simp: returns_def)
      have "ns_wf ns'" using n' ns by (simp add: ns_wf_def)
      from Suc.IH [of "np\<lparr>ec_ns := ns'\<rparr>" "es @ [(i, n)]" fs' need] node_inv_ns [OF Suc.prems(1) this]
        Suc.prems fs d n' True show ?thesis by (simp add: neighbors_ops)
    next
      case False
      obtain ns1 where r: "neighbors_remove (ec_ns np) (neighbor_node_addr n) = Inr ns1" "ns_wf ns1"
        "set (entries ns1) \<subseteq> set (entries (ec_ns np))" "length (entries ns1) < length (entries (ec_ns np))"
        using remove_present [OF ns e] .
      let ?np = "if np_bpn np = Some (Table_Node i) then np\<lparr>np_bpn := None\<rparr> else np"
      have inv: "node_inv ?np" using Suc.prems(1) node_inv_fields(1) by simp
      obtain ns2 where b: "queue_buffer_begin ns1 = (ns2, head_slot (entries ns1))" "qb_wf ns2"
        "entries ns2 = entries ns1" "capacity ns2 = capacity ns1" "iterator ns2 = head_slot (entries ns1)"
        using iq.first_eq [OF ns_wfD(1) [OF r(2)]] by auto
      have w2: "ns_wf ns2" using b r(2) by (simp add: ns_wf_def)
      show ?thesis
      proof (cases "entries ns1")
        case Nil
        with d False r b w2 node_inv_ns [OF inv w2] fs show ?thesis
          by (auto simp: neighbors_ops Let_def checked_def)
      next
        case (Cons f gs)
        obtain j m where f: "entries ns1 = (j, m) # gs" using Cons by (cases f) auto
        obtain ns3 where s: "queue_buffer_next ns2 = Inr (ns3, head_slot gs)" "qb_wf ns3"
          "entries ns3 = entries ns2" "capacity ns3 = capacity ns2" "iterator ns3 = head_slot gs"
          using iq.step_returns [of ns2 "[]" j m gs] b f by (auto simp: returns_def)
        have w3: "ns_wf ns3" using s w2 by (simp add: ns_wf_def)
        have len: "9 * length (entries ns3) + length gs \<le> fuel"
          using r(4) f s(3) b(3) Suc.prems(4) neighbors_size_le [OF ns] by (simp add: items_def)
        have "returns (keepalive_loop fuel (head_slot gs) True (?np\<lparr>ec_ns := ns3\<rparr>)) (checked (entries ns3) True)"
          using Suc.IH [of "?np\<lparr>ec_ns := ns3\<rparr>" "[(j, m)]" gs True] node_inv_ns [OF inv w3] s b f len by simp
        then have "returns (keepalive_loop fuel (head_slot gs) True (?np\<lparr>ec_ns := ns3\<rparr>)) (checked (entries (ec_ns np)) need)"
          by (rule returns_mono) (use r(3) s(3) b(3) in \<open>auto simp: checked_def\<close>)
        with d False r b s f fs show ?thesis
          by (cases "np_bpn np = Some (Table_Node i)") (simp_all add: neighbors_ops Let_def)
      qed
    qed
  qed
qed

subsection \<open>Clearing the flags\<close>

lemma set_data_entries:
  assumes "qb_wf q" and "set_data q i x = Inr q'" and "i < length (pool q)"
  shows "entries q' = map (\<lambda>(j, y). (j, if j = i then x else y)) (entries q) \<and> qb_wf q' \<and>
    capacity q' = capacity q \<and> iterator q' = iterator q \<and> length (pool q') = length (pool q)"
proof -
  obtain q1 where "set_data q i x = Inr q1" "qb_wf q1" "used_slots q1 = used_slots q"
    "payload q1 = (payload q)[i := x]" "frame q q1" "length (pool q1) = length (pool q)"
    using set_data_wf [OF assms(1,3)] .
  with assms show ?thesis
    by (auto simp: entries_def frame_def capacity_def comp_def)
qed

text \<open>A loop that rewrites the item of every cell it visits.\<close>

lemma rewrite_neighbors:
  assumes ns: "ns_wf ns"
  shows "returns (case neighbors_begin ns of (q, nn) \<Rightarrow>
      for_each neighbors_next (\<lambda>ns nn u. bindR (get_data ns nn) (\<lambda>n. bindR (set_data ns nn (f n)) (\<lambda>ns. Inr (ns, ()))))
        (length (pool ns)) q nn ())
    (\<lambda>(ns', _). ns_wf ns' \<and> entries ns' = map (\<lambda>(i, n). (i, f n)) (entries ns))"
proof -
  let ?I = "\<lambda>pre es (_ :: unit). es = map (\<lambda>(i, n). (i, if i \<in> set pre then f n else n)) (entries ns)"
  have "returns (case queue_buffer_begin ns of (q1, p) \<Rightarrow>
      for_each queue_buffer_next (\<lambda>ns nn u. bindR (get_data ns nn) (\<lambda>n. bindR (set_data ns nn (f n)) (\<lambda>ns. Inr (ns, ()))))
        (length (pool ns)) q1 p ())
    (\<lambda>(q', s'). qb_wf q' \<and> capacity q' = capacity ns \<and> iterator q' = None \<and>
       map fst (entries q') = map fst (entries ns) \<and> ?I (map fst (entries ns)) (entries q') s')"
  proof (rule iq.for_each_inv [where I = ?I])
    show "qb_wf ns" "length (entries ns) \<le> length (pool ns)"
      using ns_wfD(1) [OF ns] pool_length by auto
    show "?I [] (entries ns) ()" by (simp add: case_prod_beta)
  next
    fix q i x pre post s
    assume q: "qb_wf q" "entries q = pre @ (i, x) # post" "iterator q = Some i"
      and fst: "map fst (entries q) = map fst (entries ns)" and I: "?I (map fst pre) (entries q) s"
    have d: "get_data q i = Inr x" using get_data_entry [OF q(1), of i x] q(2) by simp
    have "i < length (pool q)" using d by (auto simp: get_data_def split: if_splits)
    moreover from this obtain q1 where s1: "set_data q i (f x) = Inr q1" by (simp add: set_data_def)
    ultimately have e: "entries q1 = map (\<lambda>(j, y). (j, if j = i then f x else y)) (entries q)"
      "qb_wf q1" "capacity q1 = capacity q" "iterator q1 = Some i"
      using set_data_entries [OF q(1)] q(3) by auto
    have dist: "distinct (map fst (entries ns))" using sq.ents_distinct [OF ns_wfD(1) [OF ns]] .
    have x: "f x = f n" if "(i, n) \<in> set (entries ns)" for n
    proof -
      have "(i, x) \<in> set (entries q)" using q(2) by simp
      then obtain n' where n': "(i, n') \<in> set (entries ns)" "x = (if i \<in> set (map fst pre) then f n' else n')"
        using I by auto
      have "n' = n" using eq_key_imp_eq_value [OF dist n'(1) that] .
      moreover have "distinct (map fst (entries q))" using fst dist by simp
      then have "i \<notin> set (map fst pre)" using q(2) by force
      ultimately show ?thesis using n'(2) by simp
    qed
    have "entries q1 = map (\<lambda>(j, n). (j, if j \<in> set (map fst pre @ [i]) then f n else n)) (entries ns)"
      unfolding e(1) I by (auto simp: x)
    moreover have "map fst (entries q1) = map fst (entries ns)" using fst by (simp add: e(1) case_prod_beta comp_def)
    ultimately show "returns (bindR (get_data q i) (\<lambda>n. bindR (set_data q i (f n)) (\<lambda>ns. Inr (ns, ()))))
      (\<lambda>(q', s'). qb_wf q' \<and> capacity q' = capacity q \<and> iterator q' = Some i \<and>
         map fst (entries q') = map fst (entries ns) \<and> ?I (map fst pre @ [i]) (entries q') s')"
      using d s1 e by simp
  qed
  then show ?thesis
    unfolding neighbors_ops
    by (rule returns_mono) (force simp: ns_wf_def ns_wfD(2) [OF ns])
qed

lemma clear_keep_alives_returns:
  assumes "ns_wf ns"
  shows "returns (clear_keep_alives ns) (\<lambda>ns'. ns_wf ns' \<and>
     entries ns' = map (\<lambda>(i, n). (i, neighbor_node_set_has_sent_keep_alive n 0)) (entries ns))"
proof -
  obtain q p where b: "neighbors_begin ns = (q, p)" "pool q = pool ns"
    by (auto simp: neighbors_ops queue_buffer_begin_def)
  from rewrite_neighbors [OF assms, of "\<lambda>n. neighbor_node_set_has_sent_keep_alive n 0"] b
  show ?thesis by (auto simp: clear_keep_alives_def returns_def)
qed

lemma keepalive_check_keeps:
  assumes inv: "node_inv np" shows "ensures (keepalive_check np) node_inv"
proof -
  note ns = node_invD(4) [OF inv]
  obtain q where b: "neighbors_begin (ec_ns np) = (q, head_slot (entries (ec_ns np)))" "qb_wf q"
    "entries q = entries (ec_ns np)" "capacity q = capacity (ec_ns np)" "iterator q = head_slot (entries q)"
    using iq.first_eq [OF ns_wfD(1) [OF ns]] by (auto simp: neighbors_ops)
  then have q: "ns_wf q" using ns by (simp add: ns_wf_def)
  have "9 * length (entries q) + length (entries q) \<le> keepalive_fuel"
    using neighbors_size_le [OF q] by (simp add: items_def keepalive_fuel_def)
  from keepalive_loop_returns [OF node_inv_ns [OF inv q], of "[]" "entries q" keepalive_fuel False] this b
  have l: "ensures (keepalive_loop keepalive_fuel (head_slot (entries q)) False (np\<lparr>ec_ns := q\<rparr>)) (\<lambda>(np', _). node_inv np')"
    by (auto intro!: ensures_returns elim!: returns_mono simp: checked_def)
  have c: "ensures (clear_keep_alives ns') ns_wf" if "ns_wf ns'" for ns'
    by (rule ensures_returns [OF returns_mono [OF clear_keep_alives_returns [OF that]]]) simp
  show ?thesis
    unfolding keepalive_check_def b(1) Let_def
    by (auto intro!: ensures_bindR [OF l [unfolded b(3)]] ensures_bindR [OF c] ensures_bindR [OF update_bpn_keeps]
        node_inv_ns node_invD(4) blinking_update_keeps simp: inv)
qed

text \<open>Whatever a turn of the process's loop does, it keeps the invariant.\<close>

lemma fire_process_keeps: "node_inv np \<Longrightarrow> ensures (fire_process ev e s c light np) node_inv"
  unfolding fire_process_def
  by (intro ensures_bindR [OF process_event_keeps] ensures_bindR [where r = "if _ then _ else _" and Q = node_inv]
        ensures_if emergency_check_keeps keepalive_send_keeps keepalive_check_keeps) simp_all

end
