(* ===== verification/Node_Setup.thy ===== *)
theory Node_Setup
  imports Keepalive_Laws
begin

text \<open>
  Setting a node up: what a setup packet makes of the node, that it is still known after a reboot
  (the packet is burned to the external flash), and when a setup fails.
\<close>

subsection \<open>The packet's layout\<close>

lemma length_setup_bytes [simp]: "length (setup_bytes sp) = 9 + 2 * length (sp_neighbors sp)"
  by (simp add: setup_bytes_def coordinate_bytes_def length_concat_addrs)

lemma setup_fields:
  assumes "b = take 9 (setup_bytes sp)" and "length (sp_neighbors sp) < 256"
  shows "addr_at b 1 = sp_new_addr sp" "coordinate_at b 3 = sp_new_coord sp"
    "b ! 7 = sp_is_exit_node sp" "unat (b ! 8) = length (sp_neighbors sp)"
proof -
  have "b = [SETUP_PACKET, fst (sp_new_addr sp), snd (sp_new_addr sp), fst (cx (sp_new_coord sp)),
      snd (cx (sp_new_coord sp)), fst (cy (sp_new_coord sp)), snd (cy (sp_new_coord sp)), sp_is_exit_node sp,
      of_nat (length (sp_neighbors sp))]"
    using assms(1) by (simp add: setup_bytes_def addr_bytes_def coordinate_bytes_def)
  with assms(2) show "addr_at b 1 = sp_new_addr sp" "coordinate_at b 3 = sp_new_coord sp"
    "b ! 7 = sp_is_exit_node sp" "unat (b ! 8) = length (sp_neighbors sp)"
    by (simp_all add: addr_at_def coordinate_at_def unsigned_of_nat take_bit_nat_eq_self)
qed

lemma drop_setup_bytes: "drop 9 (setup_bytes sp @ rest) = concat (map addr_bytes (sp_neighbors sp)) @ rest"
  by (simp add: setup_bytes_def addr_bytes_def coordinate_bytes_def)

subsection \<open>The neighbors\<close>

lemma add_neighbors_returns:
  assumes "ns_wf ns" and "drop off m = concat (map addr_bytes as) @ rest" and "length (items ns) + length as \<le> 8"
  shows "returns (add_neighbors_loop (length as) off m ns)
    (\<lambda>ns'. ns_wf ns' \<and> items ns' = map new_neighbor (rev as) @ items ns)"
  using assms
proof (induction as arbitrary: off ns)
  case (Cons a as)
  obtain ns1 where ns1: "neighbors_add ns a = Inr ns1" "ns_wf ns1" "items ns1 = new_neighbor a # items ns"
    using neighbors_add_room [OF Cons.prems(1), of a] Cons.prems(3) by (auto simp: returns_def)
  have a: "read_addr m off = Inr a" by (rule read_addr_drop) (use Cons.prems(2) in simp)
  have "drop (off + 2) m = drop 2 (drop off m)" by (simp add: add.commute)
  also have "\<dots> = concat (map addr_bytes as) @ rest" using Cons.prems(2) by simp
  finally have "returns (add_neighbors_loop (length as) (off + 2) m ns1)
      (\<lambda>ns'. ns_wf ns' \<and> items ns' = map new_neighbor (rev as) @ items ns1)"
    by (rule Cons.IH [OF ns1(2)]) (use Cons.prems(3) ns1(3) in simp)
  then show ?case using a ns1 by simp
qed simp

lemma add_neighbors_fails:
  assumes "ns_wf ns" and "drop off m = concat (map addr_bytes as) @ rest" and "8 < length (items ns) + length as"
  shows "add_neighbors_loop (length as) off m ns = Inl Assert_Failed"
  using assms
proof (induction as arbitrary: off ns)
  case Nil
  with neighbors_size_le [of ns] show ?case by simp
next
  case (Cons a as)
  have a: "read_addr m off = Inr a" by (rule read_addr_drop) (use Cons.prems(2) in simp)
  show ?case
  proof (cases "length (items ns) < 8")
    case True
    obtain ns1 where ns1: "neighbors_add ns a = Inr ns1" "ns_wf ns1" "items ns1 = new_neighbor a # items ns"
      using neighbors_add_room [OF Cons.prems(1) True, of a] by (auto simp: returns_def)
    have "drop (off + 2) m = drop 2 (drop off m)" by (simp add: add.commute)
    also have "\<dots> = concat (map addr_bytes as) @ rest" using Cons.prems(2) by simp
    finally have "add_neighbors_loop (length as) (off + 2) m ns1 = Inl Assert_Failed"
      by (rule Cons.IH [OF ns1(2)]) (use Cons.prems(3) ns1(3) in simp)
    with a ns1 show ?thesis by simp
  next
    case False
    with neighbors_size_le [OF Cons.prems(1)] have "length (items ns) = 8" by simp
    with a neighbors_add_full [OF Cons.prems(1)] show ?thesis by simp
  qed
qed

subsection \<open>The flash\<close>

lemma read_back: "k \<le> length b \<Longrightarrow> map (\<lambda>i. b ! (i - n)) [n..<n + k] = take k b"
  by (rule nth_equalityI) simp_all

lemma pread_burn:
  assumes "k \<le> length b"
  shows "node_properties_restore k (node_properties_burn b fl) = Some (take k b)"
proof -
  have "map (node_properties_burn b fl) [2..<2 + k] = map (\<lambda>i. b ! (i - 2)) [2..<2 + k]"
    using assms by (intro map_cong) (auto simp: node_properties_burn_def xmem_pwrite_def)
  moreover have "map (node_properties_burn b fl) [0..<2] = [0xde, 0xad]"
    by (simp add: node_properties_burn_def xmem_pwrite_def upt_conv_Cons numeral_2_eq_2)
  ultimately show ?thesis
    unfolding node_properties_restore_def xmem_pread_def using read_back [OF assms, of 2] by (simp only: add_0 if_True simp_thms)
qed

lemma restore_prefix:
  assumes "node_properties_restore k fl = Some b" and "k \<le> n"
  shows "\<exists>rest. node_properties_restore n fl = Some (b @ rest)"
proof -
  have "[2..<2 + n] = [2..<2 + k] @ [2 + k..<2 + n]"
    using upt_add_eq_append [of 2 "2 + k" "n - k"] assms(2) by simp
  with assms(1) show ?thesis
    by (auto simp: node_properties_restore_def xmem_pread_def simp del: upt_Suc split: if_splits)
qed

subsection \<open>The effect of a setup packet\<close>

text \<open>The node's identity and its empty record of earlier events; what the setup leaves alone.\<close>

definition set_up :: "setup_packet \<Rightarrow> node_properties \<Rightarrow> bool" where
  "set_up sp np \<longleftrightarrow> ec_node_addr np = sp_new_addr sp \<and> np_coordinate_node np = sp_new_coord sp \<and>
     neighbor_addrs (ec_ns np) = rev (sp_neighbors sp) \<and> np_is_exit_node np = (sp_is_exit_node sp \<noteq> 0) \<and>
     ec_ns_set np \<and> \<not> np_is_blinking np \<and> \<not> np_is_burning np \<and> \<not> np_is_awaiting_setup_packet np \<and>
     \<not> np_has_sent_node_info np \<and> \<not> np_is_reset_mode np \<and> \<not> np_is_sink_node np"

definition same_queues :: "node_properties \<Rightarrow> node_properties \<Rightarrow> bool" where
  "same_queues np np' \<longleftrightarrow> ec_sq np' = ec_sq np \<and> ec_dq np' = ec_dq np \<and> ec_timers np' = ec_timers np \<and>
     ec_sent np' = ec_sent np \<and> np_bpn np' = np_bpn np \<and> np_emergency_coords np' = np_emergency_coords np \<and>
     np_seqno np' = np_seqno np"

lemma neighbor_addrs_new: "items ns = map new_neighbor as \<Longrightarrow> neighbor_addrs ns = as"
  by (simp add: neighbor_addrs_def comp_def)

lemma setup_parse_returns:
  assumes inv: "node_inv np" and n: "length (sp_neighbors sp) \<le> 8"
  shows "returns (setup_parse (setup_bytes sp @ rest) from_flash np) (\<lambda>np'. node_inv np' \<and> set_up sp np' \<and>
     same_queues np np' \<and>
     (if from_flash then np_flash np' = np_flash np
      else np_flash np' = node_properties_burn (setup_bytes sp) (np_flash np)))"
proof -
  let ?m = "setup_bytes sp @ rest"
  define b where "b = take 9 (setup_bytes sp)"
  note f = setup_fields [OF b_def, unfolded One_nat_def]
  have n': "length (sp_neighbors sp) < 256" using n by simp
  obtain ns1 where ns1: "neighbors_clear (ec_ns np) = Inr ns1" "ns_wf ns1" "items ns1 = []"
    using neighbors_clear_returns [OF node_invD(4) [OF inv]] by (auto simp: returns_def)
  obtain ns2 where ns2: "add_neighbors_loop (length (sp_neighbors sp)) 9 ?m ns1 = Inr ns2" "ns_wf ns2"
    "items ns2 = map new_neighbor (rev (sp_neighbors sp))"
    using add_neighbors_returns [OF ns1(2) drop_setup_bytes] ns1(3) n by (auto simp: returns_def)
  obtain ns3 where ns3: "print_neighbors ns2 = Inr ns3" "ns_wf ns3" "entries ns3 = entries ns2"
    using print_neighbors_returns [OF ns2(2)] by (auto simp: returns_def)
  have addrs: "neighbor_addrs ns3 = rev (sp_neighbors sp)"
    by (rule neighbor_addrs_new) (use ns2(3) ns3(3) in \<open>simp add: items_def\<close>)
  have rd: "read_mem ?m 0 9 = Inr b" "read_mem ?m 0 (9 + 2 * length (sp_neighbors sp)) = Inr (setup_bytes sp)"
    by (simp_all add: read_mem_def b_def)
  define np1 where "np1 = setup_max_node (if b ! 7 \<noteq> 0 then setup_exit_node ((setup_identity b np)\<lparr>ec_ns := ns3\<rparr>)
      else (setup_identity b np)\<lparr>ec_ns := ns3\<rparr>)"
  have run: "setup_parse ?m from_flash np = Inr (ec_set_neighbors (if from_flash then np1
      else np1\<lparr>np_flash := node_properties_burn (setup_bytes sp) (np_flash np1)\<rparr>))"
    using rd ns1(1) ns2(1) ns3(1) f(4) [OF n']
    by (simp add: setup_parse_def SETUP_PACKET_SIZE_def Let_def np1_def [symmetric])
  have su: "set_up sp (ec_set_neighbors np1)" "same_queues np np1" "np_flash np1 = np_flash np"
    using f [OF n'] addrs
    by (simp_all add: set_up_def same_queues_def np1_def setup_max_node_def setup_exit_node_def setup_identity_def
        ec_set_neighbors_def coordinate_set_node_coord_def clear_state_def leds_all_def leds_green_def split: prod.splits)
  define np2 where "np2 = (if from_flash then np1
      else np1\<lparr>np_flash := node_properties_burn (setup_bytes sp) (np_flash np1)\<rparr>)"
  have "node_inv np1"
    unfolding np1_def by (intro setup_keeps) (simp add: setup_keeps node_inv_ns inv ns3)
  then have "node_inv (ec_set_neighbors np2)" by (simp add: np2_def node_inv_fields)
  moreover have "set_up sp (ec_set_neighbors np2)" "same_queues np (ec_set_neighbors np2)"
    "np_flash (ec_set_neighbors np2) = (if from_flash then np_flash np
       else node_properties_burn (setup_bytes sp) (np_flash np))"
    using su by (simp_all add: np2_def set_up_def same_queues_def ec_set_neighbors_def)
  ultimately show ?thesis using run [folded np2_def] by simp
qed

lemma setup_parse_fails:
  assumes inv: "node_inv np" and n: "8 < length (sp_neighbors sp)" "length (sp_neighbors sp) < 256"
  shows "setup_parse (setup_bytes sp @ rest) from_flash np = Inl Assert_Failed"
proof -
  obtain ns1 where ns1: "neighbors_clear (ec_ns np) = Inr ns1" "ns_wf ns1" "items ns1 = []"
    using neighbors_clear_returns [OF node_invD(4) [OF inv]] by (auto simp: returns_def)
  have "add_neighbors_loop (length (sp_neighbors sp)) 9 (setup_bytes sp @ rest) ns1 = Inl Assert_Failed"
    by (rule add_neighbors_fails [OF ns1(2) drop_setup_bytes]) (use n ns1(3) in simp)
  moreover have "read_mem (setup_bytes sp @ rest) 0 9 = Inr (take 9 (setup_bytes sp))"
    by (simp add: read_mem_def)
  ultimately show ?thesis
    using ns1(1) setup_fields(4) [OF refl n(2)] by (simp add: setup_parse_def SETUP_PACKET_SIZE_def Let_def)
qed

text \<open>A node that was set up from a packet finds itself set up after a reset.\<close>

lemma restore_setup_returns:
  assumes inv: "node_inv np" and n: "length (sp_neighbors sp) \<le> 8"
    and fl: "np_flash np = node_properties_burn (setup_bytes sp) fl"
  shows "returns (restore_setup np) (\<lambda>np'. node_inv np' \<and> set_up sp np' \<and> same_queues np np' \<and>
    np_flash np' = np_flash np)"
proof -
  have "node_properties_restore (length (setup_bytes sp)) (np_flash np) = Some (setup_bytes sp)"
    unfolding fl using pread_burn [of "length (setup_bytes sp)" "setup_bytes sp" fl] by simp
  from restore_prefix [OF this, of 25] n obtain rest where
    "node_properties_restore 25 (np_flash np) = Some (setup_bytes sp @ rest)" by auto
  then show ?thesis
    using setup_parse_returns [OF inv n, of rest True]
    by (simp add: restore_setup_def SETUP_PACKET_SIZE_def MAX_NEIGHBORS_def)
qed

end
