(* ===== verification/Node_Runs.thy ===== *)
theory Node_Runs
  imports Node_Setup
begin

text \<open>
  Runs of a node: it boots, and then handles one event after another - what the connection receives
  and its timers, turns of the process, the interrupt of the real-time timer, the passing of time.
  The invariant holds after the boot and after every event.
\<close>

subsection \<open>Booting\<close>

text \<open>What C guarantees of the static memory before the process starts: the sizes of its arrays.\<close>

definition powered :: "node_properties \<Rightarrow> bool" where
  "powered np \<longleftrightarrow> length (ts_offsets (ec_sync np)) = MAX_OFFSETS \<and> length (ec_packetbuf np) = PACKETBUF_SIZE"

definition erased :: "node_properties \<Rightarrow> bool" where
  "erased np \<longleftrightarrow> xmem_pread (np_flash np) 2 0 \<noteq> [0xde, 0xad]"

lemma zero_queue_init:
  assumes "unat n \<le> k"
  obtains qb where "queue_buffer_init (pool (zero_queue k x)) n = Inr qb" and "qb_wf qb"
    and "entries qb = []" and "capacity qb = unat n" and "payload qb = replicate k x"
  using init_entries [of n "pool (zero_queue k x)"] assms by (auto simp: zero_queue_def)

lemma zero_queue_wf: "qb_wf (zero_queue k x)" "length (pool (zero_queue k x)) = k"
proof -
  have "qb_lists (zero_queue k x) [] []"
    by (simp add: qb_lists_def zero_queue_def payload_def)
  then show "qb_wf (zero_queue k x)" by (rule qb_lists_wf)
qed (simp add: zero_queue_def)

lemma buffered_packet_zero_ok: "cell_ok buffered_packet_zero"
  by (simp add: cell_ok_def buffered_packet_zero_def zero_queue_wf PACKET_MEM_def)

lemma empty_sq_wf:
  assumes "qb_wf q" and "entries q = []" and "capacity q = 12" and "payload q = replicate k buffered_packet_zero"
  shows "sq_wf (packet_buffer_init (pb\<lparr>pbuffer := q\<rparr>))"
    and "t < 7 \<Longrightarrow> pb_lane (packet_buffer_init (pb\<lparr>pbuffer := q\<rparr>)) t = []"
proof -
  let ?pb = "packet_buffer_init (pb\<lparr>pbuffer := q\<rparr>)"
  have h: "prio_heads ?pb ! t = None" if "t < 7" for t
    using that by (simp add: packet_buffer_init_def PACKET_BUFFER_MAX_TYPES_def)
  have "used_slots q = []" using assms(2) by (simp add: entries_def)
  then have L: "pb_lanes ?pb (\<lambda>_. [])"
    using h by (simp add: pb_lanes_def packet_buffer_init_def PACKET_BUFFER_MAX_TYPES_def)
  show e: "t < 7 \<Longrightarrow> pb_lane ?pb t = []" for t by (rule pb_lanes_lane [OF L])
  have "pb_wf ?pb"
    by (rule pb_wfI [OF _ _ L]) (use assms buffered_packet_zero_ok in \<open>simp_all add: packet_buffer_init_def\<close>)
  then show "sq_wf ?pb" using assms(3) e
    by (simp add: sq_wf_def SENDING_QUEUE_LENGTH_def packet_buffer_init_def)
qed

text \<open>The connection after \<open>ec_open\<close>: nothing is queued, nothing is remembered.\<close>

lemma no_lane_armed: "\<forall>t < 7. pb_lane (ec_sq c) t = [] \<Longrightarrow> all_armed c"
  by (simp add: all_armed_def lane_armed_def)

lemma open_returns:
  assumes np: "powered np" and ns: "ns_wf ns" "items ns = []"
    and co: "qb_wf coords" "capacity coords = 10" "entries coords = []"
  shows "returns (ec_open ch ((zero_node_properties np)\<lparr>ec_ns := ns, np_emergency_coords := coords\<rparr>))
    (\<lambda>np'. node_inv np' \<and> pb_free_cells (ec_sq np') = 12 \<and> (\<forall>t < 7. pb_lane (ec_sq np') t = []) \<and>
       items (ec_dq np') = [] \<and> items (ec_ns np') = [] \<and> items (np_emergency_coords np') = [] \<and>
       np_flash np' = np_flash np \<and> ec_ns_set np' = False \<and> np_bpn np' = None \<and> \<not> np_is_blinking np')"
proof -
  let ?n = "(zero_node_properties np)\<lparr>ec_ns := ns, np_emergency_coords := coords\<rparr>"
  obtain b where b: "queue_buffer_init (pool (zero_queue 12 buffered_packet_zero)) 12 = Inr b" "qb_wf b"
    "entries b = []" "capacity b = 12" "payload b = replicate 12 buffered_packet_zero"
    using zero_queue_init [of 12 12 buffered_packet_zero] by auto
  obtain dq where dq: "queue_buffer_init (pool (zero_queue 24 \<lparr>sp_originator = (0, 0), sp_seqno = 0\<rparr>)) 24 = Inr dq"
    "qb_wf dq" "entries dq = []" "capacity dq = 24"
    using zero_queue_init [of 24 24 "\<lparr>sp_originator = (0, 0), sp_seqno = 0\<rparr>"] by auto
  obtain np' where o': "ec_open ch ?n = Inr np'"
    "ec_sq np' = packet_buffer_init ((ec_sq ?n)\<lparr>pbuffer := b\<rparr>)" "ec_dq np' = dq" "ec_ns np' = ns"
    "ec_packetbuf np' = ec_packetbuf np" "np_emergency_coords np' = coords" "np_flash np' = np_flash np"
    "ec_sync np' = set_timesynch_channel (timesynch_init (ec_sync np)) (ucast (ch + 1))"
    "ec_ns_set np' = False" "np_bpn np' = None" "np_is_blinking np' = False"
    using b dq by (simp add: ec_open_def zero_node_properties_def clear_state_def SENDING_QUEUE_LENGTH_def
        DUPE_QUEUE_LENGTH_def Let_def)
  note sq = empty_sq_wf [OF b(2-5), where pb = "ec_sq ?n"]
  have "sync_wf (ec_sync np')"
    using np o'(8) by (simp add: sync_wf_def powered_def timesynch_init_def set_timesynch_channel_def samples_def)
  then have wf: "ec_wf np'"
    using o' sq dq ns np by (simp add: ec_wf_def powered_def DUPE_QUEUE_LENGTH_def)
  have free: "pb_free_cells (ec_sq np') = 12"
    using o'(2) b(3,4) by (simp add: pb_free_cells_def packet_buffer_init_def)
  have lanes: "\<forall>t < 7. pb_lane (ec_sq np') t = []" using o'(2) sq(2) by simp
  have "node_inv np'"
    using wf no_lane_armed [OF lanes] co o'(6) by (simp add: node_inv_def ec_inv_def)
  with o' free lanes dq ns co show ?thesis by (simp add: items_def)
qed

lemma zero_tables:
  obtains ns co where "neighbors_init (ec_ns (zero_node_properties np)) = Inr ns" and "ns_wf ns" and "items ns = []"
    and "queue_buffer_init (pool (np_emergency_coords (zero_node_properties np))) MAX_FIRE_COORDINATES = Inr co"
    and "qb_wf co" and "capacity co = 10" and "entries co = []"
proof -
  obtain co where "queue_buffer_init (pool (zero_queue 10 coordinate_null)) 10 = Inr co" "qb_wf co"
    "entries co = []" "capacity co = 10"
    using zero_queue_init [of 10 10 coordinate_null] by auto
  with that neighbors_init_returns [of "ec_ns (zero_node_properties np)"] show thesis
    by (auto simp: zero_node_properties_def zero_queue_wf returns_def MAX_FIRE_COORDINATES_def)
qed

lemma boot_returns:
  assumes np: "powered np" and "erased np"
  shows "returns (reset_node_properties np)
    (\<lambda>np'. node_inv np' \<and> pb_free_cells (ec_sq np') = 12 \<and> (\<forall>t < 7. pb_lane (ec_sq np') t = []) \<and>
       items (ec_dq np') = [] \<and> items (ec_ns np') = [] \<and> items (np_emergency_coords np') = [] \<and>
       np_flash np' = np_flash np \<and> ec_ns_set np' = False \<and> np_bpn np' = None \<and> \<not> np_is_blinking np')"
proof -
  obtain ns co where ns: "neighbors_init (ec_ns (zero_node_properties np)) = Inr ns" "ns_wf ns" "items ns = []"
    and co: "queue_buffer_init (pool (np_emergency_coords (zero_node_properties np))) MAX_FIRE_COORDINATES = Inr co"
    "qb_wf co" "capacity co = 10" "entries co = []"
    using zero_tables [of np] .
  have "restore_setup n = Inr n" if "np_flash n = np_flash np" for n
    using assms(2) that by (simp add: restore_setup_def node_properties_restore_def erased_def)
  then show ?thesis
    using open_returns [OF np ns(2,3) co(2-4), of EMERGENCYNET_CHANNEL] ns(1) co(1)
    by (auto simp: reset_node_properties_def Let_def returns_def)
qed

lemma boot_keeps:
  assumes np: "powered np"
  shows "ensures (reset_node_properties np) node_inv"
proof -
  obtain ns co where ns: "neighbors_init (ec_ns (zero_node_properties np)) = Inr ns" "ns_wf ns" "items ns = []"
    and co: "queue_buffer_init (pool (np_emergency_coords (zero_node_properties np))) MAX_FIRE_COORDINATES = Inr co"
    "qb_wf co" "capacity co = 10" "entries co = []"
    using zero_tables [of np] .
  from open_returns [OF np ns(2,3) co(2-4), of EMERGENCYNET_CHANNEL] show ?thesis
    using ns(1) co(1) restore_keeps by (auto simp: reset_node_properties_def Let_def returns_def)
qed

subsection \<open>Runs\<close>

datatype node_event =
    Connection_Event ec_event
  | Process_Turn process_event bool bool bool u16
  | Real_Time_Timer
  | Time_Passes u16

text \<open>
  One event. The interrupt of the real-time timer runs \<open>blink\<close>, between two events of the
  process; the clock moves on by itself.
\<close>

definition node_handle :: "node_event \<Rightarrow> node_properties \<Rightarrow> node_properties result" where
  "node_handle ev np = (case ev of
       Connection_Event e \<Rightarrow> ec_handle ec_cb e np
     | Process_Turn pe emergency send check light \<Rightarrow> fire_process pe emergency send check light np
     | Real_Time_Timer \<Rightarrow> blink (np\<lparr>np_rt := None\<rparr>)
     | Time_Passes t \<Rightarrow> Inr (np\<lparr>np_rtimer_now := t\<rparr>))"

fun node_handles :: "node_event list \<Rightarrow> node_properties \<Rightarrow> node_properties result" where
  "node_handles [] np = Inr np"
| "node_handles (ev # evs) np = bindR (node_handle ev np) (node_handles evs)"

inductive node_step :: "node_properties \<Rightarrow> node_properties \<Rightarrow> bool" where
  connection: "ec_handle ec_cb e np = Inr np' \<Longrightarrow> node_step np np'"
| turn: "fire_process pe emergency send check light np = Inr np' \<Longrightarrow> node_step np np'"
| interrupt: "np_rt np = Some t \<Longrightarrow> blink (np\<lparr>np_rt := None\<rparr>) = Inr np' \<Longrightarrow> node_step np np'"
| time: "node_step np (np\<lparr>np_rtimer_now := t\<rparr>)"

inductive_cases node_stepE: "node_step np np'"

inductive reachable :: "node_properties \<Rightarrow> bool" where
  boot: "powered np \<Longrightarrow> reset_node_properties np = Inr np' \<Longrightarrow> reachable np'"
| step: "reachable np \<Longrightarrow> node_step np np' \<Longrightarrow> reachable np'"

inductive_cases reachableE: "reachable np"

lemma node_handle_keeps: "node_inv np \<Longrightarrow> ensures (node_handle ev np) node_inv"
  by (cases ev) (simp_all add: node_handle_def node.handle_keeps fire_process_keeps blink_keeps node_inv_fields)

lemma node_step_keeps: "node_step np np' \<Longrightarrow> node_inv np \<Longrightarrow> node_inv np'"
  by (induction rule: node_step.induct)
     (blast intro: ensuresD [OF node.handle_keeps] ensuresD [OF fire_process_keeps]
        ensuresD [OF blink_keeps] node_inv_fields)+

lemma reachable_node_inv: "reachable np \<Longrightarrow> node_inv np"
  by (induction rule: reachable.induct) (blast intro: node_step_keeps ensuresD [OF boot_keeps])+

text \<open>A run of the events is a sequence of steps, as far as the interrupt occurs only when it is set.\<close>

fun occurs :: "node_event \<Rightarrow> node_properties \<Rightarrow> bool" where
  "occurs Real_Time_Timer np = (np_rt np \<noteq> None)"
| "occurs ev np = True"

lemma node_handle_step: "node_handle ev np = Inr np' \<Longrightarrow> occurs ev np \<Longrightarrow> node_step np np'"
  by (cases ev) (auto simp: node_handle_def intro: node_step.intros)

lemma node_handles_reachable:
  "reachable np \<Longrightarrow> node_handles evs np = Inr np' \<Longrightarrow> Real_Time_Timer \<notin> set evs \<Longrightarrow> reachable np'"
proof (induction evs arbitrary: np)
  case (Cons ev evs)
  then obtain np1 where "node_handle ev np = Inr np1" "node_handles evs np1 = Inr np'"
    by (auto simp: bindR_eq_Inr)
  moreover have "occurs ev np" using Cons.prems(3) by (cases ev) auto
  ultimately show ?case using Cons node_handle_step reachable.step by (metis list.set_intros(2))
qed simp

subsection \<open>Timers that send\<close>

lemma data_timer_returns:
  assumes "ec_wf c" and "tm \<noteq> Ts_Timer"
  shows "\<exists>c'. timer_fires cb ok tm c = Inr c' \<and> ec_wf c' \<and> ec_frame (ctimer_stop tm c) c'"
proof -
  have wf: "ec_wf (ctimer_stop tm c)" by (rule stop_wf [OF assms(1)])
  have s: "\<exists>c'. r = Inr c' \<and> ec_wf c' \<and> ec_frame c0 c'" if "returns r (sends t ps fs c0)" for r :: "'a ec_scheme result" and t ps fs c0
    using that by (auto simp: returns_def sends_def)
  show ?thesis
    using assms(2) s [OF send_neighbor_ack_sends [OF wf, of ok]] s [OF send_broadcast_data_sends [OF wf, of ok]]
      s [OF send_multicast_unicast_ack_sends [OF wf, of ok]] s [OF send_timesynch_data_sends [OF wf, of ok]]
      s [OF send_multicast_unicast_data_sends [OF wf, of ok]]
      s [OF send_neighbor_data_sends [OF wf, of ok, unfolded Let_def]]
      s [OF send_mesh_data_sends [OF wf, of ok, unfolded Let_def]]
    by (cases tm) (simp_all add: timer_fires_def Let_def)
qed

end
