(* ===== verification/Example_Nodes.thy ===== *)
theory Example_Nodes
  imports Node_Runs
begin

text \<open>
  Concrete nodes that the program reaches, with what is known of them; theorems are instantiated at
  them. A node with erased memory and flash; the same node booted; then deployed as node 2 of the
  simulated topology, with neighbors 1, 3 and 6; then with packets queued in several lanes.
\<close>

definition fresh_clock :: timesynch where
  "fresh_clock = \<lparr>ts_offset = 0, ts_offsets = replicate MAX_OFFSETS 0, ts_offset_index = 0, authority_level = 0,
     authority_seqno = 0, timesynch_channel = 0\<rparr>"

definition fresh_connection :: ec where
  "fresh_connection = \<lparr>ec_node_addr = (2, 0), ec_sync = fresh_clock, ec_channels = (\<lambda>_. None),
     ec_timers = (\<lambda>_. None),
     ec_sq = \<lparr>prio_heads = replicate 7 None, pbuffer = zero_queue SENDING_QUEUE_LENGTH buffered_packet_zero\<rparr>,
     ec_dq = zero_queue DUPE_QUEUE_LENGTH \<lparr>sp_originator = (0, 0), sp_seqno = 0\<rparr>,
     ec_ns = zero_queue 8 neighbor_node_zero, ec_ns_set = False, ec_ts_seqno = 0, ec_ts_is_on = False,
     ec_rands = (\<lambda>i. 77), ec_rand_pos = 0, ec_packetbuf = replicate 128 0, ec_datalen = 0,
     ec_sent = []\<rparr>"

definition fresh_node :: node_properties where
  "fresh_node = ec.extend fresh_connection
     (node_properties.fields None (zero_queue 10 coordinate_null) None 0 0 False False False False False False
        False (0, 0) 0 neighbor_node_zero neighbor_node_zero coordinate_null (False, False, False) (\<lambda>_. 0) 0 [])"

definition booted :: node_properties where
  "booted = projr (reset_node_properties fresh_node)"

definition command :: "string \<Rightarrow> node_event" where
  "command s = Process_Turn (Serial_Line s) False False False 0"

definition deployed :: node_properties where
  "deployed = projr (node_handle (command ''2'') booted)"

lemma pread_tag: "xmem_pread fl 2 0 = [fl 0, fl 1]"
  by (simp add: xmem_pread_def numeral_2_eq_2 upt_conv_Cons)

lemma fresh_powered: "powered fresh_node" "erased fresh_node"
  by (simp_all add: powered_def erased_def fresh_node_def fresh_connection_def fresh_clock_def ec.defs
      node_properties.defs PACKETBUF_SIZE_def pread_tag)

lemma booted_eq: "reset_node_properties fresh_node = Inr booted"
  using boot_returns [OF fresh_powered] by (auto simp: booted_def returns_def)

lemma booted_reachable: "reachable booted"
  by (rule reachable.boot [OF fresh_powered(1) booted_eq])

lemma booted_facts:
  "node_inv booted" "pb_free_cells (ec_sq booted) = 12" "items (ec_dq booted) = []" "items (ec_ns booted) = []"
  using boot_returns [OF fresh_powered] booted_eq by (auto simp: returns_def)

lemma booted_flags: "\<not> np_is_blinking booted" "np_bpn booted = None" "ec_ns_set booted = False"
  using boot_returns [OF fresh_powered] booted_eq by (auto simp: returns_def)

lemma command_2: "cooja_setup ''2'' = Some (cooja_packet 2 1 0 0 [1, 3, 6])"
  by (simp add: cooja_setup_def cooja_setup_upper_def)

lemma deployed_returns:
  "returns (node_handle (command ''2'') booted) (\<lambda>np. node_inv np \<and> set_up (cooja_packet 2 1 0 0 [1, 3, 6]) np \<and>
     same_queues booted np \<and> np_flash np = node_properties_burn (setup_bytes (cooja_packet 2 1 0 0 [1, 3, 6])) (np_flash booted))"
  using setup_parse_returns [OF booted_facts(1), of "cooja_packet 2 1 0 0 [1, 3, 6]" "[]" False]
  by (simp add: node_handle_def command_def fire_process_def process_event_def serial_command_def command_2 cooja_packet_def)

lemma deployed_eq: "node_handle (command ''2'') booted = Inr deployed"
  using deployed_returns by (auto simp: deployed_def returns_def)

lemma deployed_facts:
  "node_inv deployed" "set_up (cooja_packet 2 1 0 0 [1, 3, 6]) deployed" "same_queues booted deployed"
  using deployed_returns deployed_eq by (auto simp: returns_def)

lemma deployed_reachable: "reachable deployed"
  by (rule reachable.step [OF booted_reachable]) (rule node_handle_step [OF deployed_eq], simp add: command_def)

text \<open>Packets wait in the lanes: one for the neighbors, one for everybody.\<close>

definition queued :: node_properties where
  "queued = projr (bindR (ec_reliable_broadcast_ns (9, 0) (2, 0) 1 7 [6] 1 deployed)
     (ec_broadcast (9, 0) (2, 0) 1 8 [0, 0, 4, 0, 5] 5))"

lemma deployed_connection:
  "ec_wf deployed" "pb_free_cells (ec_sq deployed) = 12" "ec_ns_set deployed"
  "neighbor_addrs (ec_ns deployed) = [(6, 0), (3, 0), (1, 0)]" "items (ec_dq deployed) = []"
  using deployed_facts booted_facts node_invD(1) [OF deployed_facts(1)]
  by (simp_all add: ec_inv_def set_up_def same_queues_def cooja_packet_def)

lemma deployed_lanes: "t < 7 \<Longrightarrow> lane_view deployed t = []"
proof -
  assume "t < 7"
  moreover have "ec_sq deployed = ec_sq booted" using deployed_facts(3) by (simp add: same_queues_def)
  ultimately show "lane_view deployed t = []"
    using boot_returns [OF fresh_powered] booted_eq by (auto simp: returns_def lane_view_Nil)
qed

lemma queued_returns:
  "returns (bindR (ec_reliable_broadcast_ns (9, 0) (2, 0) 1 7 [6] 1 deployed)
     (ec_broadcast (9, 0) (2, 0) 1 8 [0, 0, 4, 0, 5] 5)) (\<lambda>np. node_inv np \<and> pb_free_cells (ec_sq np) = 10 \<and>
    (\<exists>v. appended (header_bytes (init_broadcast_packet 0 1 (9, 0) (2, 0) 7)) [6] 1 (Some (ec_ns deployed)) v \<and>
       lane_view np MSG_TYPE_NEIGHBOR_DATA = [v]) \<and>
    (\<exists>v. appended (header_bytes (init_broadcast_packet 0 1 (9, 0) (2, 0) 8)) [0, 0, 4, 0, 5] 5 (Some (ec_ns deployed)) v \<and>
       lane_view np MSG_TYPE_BROADCAST_DATA = [v]))"
proof -
  note d = deployed_connection
  note lanes = deployed_lanes
  have "items (ec_ns deployed) \<noteq> []" using d(4) by (auto simp: neighbor_addrs_def)
  moreover have "0 < pb_free_cells (ec_sq deployed)" using d(2) by simp
  ultimately obtain c1 where c1: "ec_reliable_broadcast_ns (9, 0) (2, 0) 1 7 [6] 1 deployed = Inr c1"
    "calls MSG_TYPE_NEIGHBOR_DATA (header_bytes (init_broadcast_packet 0 1 (9, 0) (2, 0) 7))
       (init_broadcast_packet 0 1 (9, 0) (2, 0) 7) [6] 1 (Some (ec_ns deployed)) deployed c1"
    using ec_reliable_broadcast_ns_calls [OF d(1) _ d(3), of 1 "[6]" "(9, 0)" "(2, 0)" 1 7]
    by (auto simp: returns_def Let_def)
  have inv1: "node_inv c1"
    by (rule node_internal [OF deployed_facts(1)]) (rule calls_internal [OF node_invD(1) [OF deployed_facts(1)] c1(2)])
  from c1(2) obtain v where v: "appended (header_bytes (init_broadcast_packet 0 1 (9, 0) (2, 0) 7)) [6] 1 (Some (ec_ns deployed)) v"
    "lane_view c1 MSG_TYPE_NEIGHBOR_DATA = [v]" "lane_view c1 MSG_TYPE_BROADCAST_DATA = []"
    "pb_free_cells (ec_sq c1) = 11" "ec_ns_set c1" "entries (ec_ns c1) = entries (ec_ns deployed)"
    using lanes d(2,3) by (auto simp: calls_def queues_def sq_effect_def ec_keep_def msg_type_defs)
  have cn: "conn_ns c1 = Some (ec_ns c1)" using v(5) by (simp add: conn_ns_def)
  obtain c2 where c2: "ec_broadcast (9, 0) (2, 0) 1 8 [0, 0, 4, 0, 5] 5 c1 = Inr c2"
    "calls MSG_TYPE_BROADCAST_DATA (header_bytes (init_broadcast_packet 0 1 (9, 0) (2, 0) 8))
       (init_broadcast_packet 0 1 (9, 0) (2, 0) 8) [0, 0, 4, 0, 5] 5 (Some (ec_ns c1)) c1 c2"
    using ec_broadcast_calls [OF ec_invD(1) [OF node_invD(1) [OF inv1]], of 5 "[0, 0, 4, 0, 5]" "(9, 0)" "(2, 0)" 1 8]
      v(4) cn by (auto simp: returns_def Let_def)
  have "node_inv c2"
    by (rule node_internal [OF inv1]) (rule calls_internal [OF node_invD(1) [OF inv1] c2(2)])
  moreover have "neighbor_addrs (ec_ns c1) = neighbor_addrs (ec_ns deployed)"
    using v(6) by (simp add: neighbor_addrs_def items_def)
  ultimately show ?thesis
    using c1(1) c2 v(1-4) by (auto simp: calls_def queues_def sq_effect_def msg_type_defs appended_def)
qed

lemma queued_facts:
  "node_inv queued" "pb_free_cells (ec_sq queued) = 10"
  "\<exists>v. appended (header_bytes (init_broadcast_packet 0 1 (9, 0) (2, 0) 7)) [6] 1 (Some (ec_ns deployed)) v \<and>
     lane_view queued MSG_TYPE_NEIGHBOR_DATA = [v]"
  "\<exists>v. appended (header_bytes (init_broadcast_packet 0 1 (9, 0) (2, 0) 8)) [0, 0, 4, 0, 5] 5 (Some (ec_ns deployed)) v \<and>
     lane_view queued MSG_TYPE_BROADCAST_DATA = [v]"
  using queued_returns by (auto simp: queued_def returns_def)

lemma queued_wf: "ec_wf queued"
  using node_invD(1) [OF queued_facts(1)] by (simp add: ec_inv_def)

text \<open>The deployed node is told to start the exit paths: its packet waits for being broadcast.\<close>

definition announcing :: node_properties where
  "announcing = projr (node_handle (command ''send_init_packet'') deployed)"

lemma announcing_returns:
  "returns (node_handle (command ''send_init_packet'') deployed) (\<lambda>np. node_inv np \<and> lane_view np MSG_TYPE_BROADCAST_DATA \<noteq> [])"
proof -
  have c: "cooja_setup ''send_init_packet'' = None"
    by (simp add: cooja_setup_def cooja_setup_upper_def cooja_setup_lower_def)
  have d: "node_inv (next_seqno deployed)" "0 < pb_free_cells (ec_sq (next_seqno deployed))"
    using deployed_facts(1) deployed_connection(2) by (simp_all add: next_seqno_def node_inv_fields)
  have "returns (broadcast_own [INITIALIZE_BEST_PATHS_PACKET] deployed)
      (\<lambda>np. node_inv np \<and> lane_view np MSG_TYPE_BROADCAST_DATA \<noteq> [])"
    unfolding broadcast_own_def
    by (rule returns_mono [OF ec_broadcast_calls [OF ec_invD(1) [OF node_invD(1) [OF d(1)]] d(2)]])
       (auto simp: Let_def calls_def queues_def sq_effect_def intro!: node_internal [OF d(1)]
          calls_internal [OF node_invD(1) [OF d(1)], unfolded calls_def queues_def sq_effect_def])
  then show ?thesis
    by (simp add: node_handle_def command_def fire_process_def process_event_def serial_command_def c)
qed

lemma announcing_facts:
  "reachable announcing" "lane_view announcing MSG_TYPE_BROADCAST_DATA \<noteq> []"
proof -
  have e: "node_handle (command ''send_init_packet'') deployed = Inr announcing"
    using announcing_returns by (auto simp: announcing_def returns_def)
  show "reachable announcing"
    by (rule reachable.step [OF deployed_reachable]) (rule node_handle_step [OF e], simp add: command_def)
  show "lane_view announcing MSG_TYPE_BROADCAST_DATA \<noteq> []"
    using announcing_returns e by (auto simp: returns_def)
qed

text \<open>The queue of the booted node filled to the brim with broadcasts.\<close>

fun fill :: "nat \<Rightarrow> 'a ec_scheme \<Rightarrow> 'a ec_scheme result" where
  "fill 0 c = Inr c"
| "fill (Suc n) c = bindR (ec_broadcast (9, 0) (9, 0) 0 (of_nat n) [] 0 c) (fill n)"

definition full :: node_properties where
  "full = projr (fill 12 booted)"

lemma fill_returns:
  "ec_wf c \<Longrightarrow> n \<le> pb_free_cells (ec_sq c) \<Longrightarrow>
   returns (fill n c) (\<lambda>c'. ec_wf c' \<and> pb_free_cells (ec_sq c') = pb_free_cells (ec_sq c) - n \<and>
     set (items (ec_dq c')) \<subseteq> {sp. sp_originator sp = (9, 0)} \<union> set (items (ec_dq c)))"
proof (induction n arbitrary: c)
  case (Suc n)
  from ec_broadcast_calls [OF Suc.prems(1), of 0 "[]" "(9, 0)" "(9, 0)" 0 "of_nat n"] Suc.prems(2)
  obtain c1 where c1: "ec_broadcast (9, 0) (9, 0) 0 (of_nat n) [] 0 c = Inr c1" "ec_wf c1"
    "pb_free_cells (ec_sq c1) = pb_free_cells (ec_sq c) - 1"
    "items (ec_dq c1) = dq_after (init_broadcast_packet 0 0 (9, 0) (9, 0) (of_nat n)) (items (ec_dq c))"
    by (auto simp: returns_def Let_def calls_def queues_def)
  have "set (items (ec_dq c1)) \<subseteq> {sp. sp_originator sp = (9, 0)} \<union> set (items (ec_dq c))"
    unfolding c1(4) by (auto simp: dq_after_def slim_def init_broadcast_packet_def init_packet_def
        DUPE_QUEUE_LENGTH_def dest: in_set_takeD)
  note sub = this
  have "returns (fill n c1) (\<lambda>c'. ec_wf c' \<and> pb_free_cells (ec_sq c') = pb_free_cells (ec_sq c) - Suc n \<and>
     set (items (ec_dq c')) \<subseteq> {sp. sp_originator sp = (9, 0)} \<union> set (items (ec_dq c)))"
    by (rule returns_mono [OF Suc.IH [OF c1(2)]]) (use c1(3) Suc.prems(2) sub in auto)
  with c1(1) show ?case by simp
qed simp

lemma full_facts:
  "ec_wf full" "pb_free_cells (ec_sq full) = 0" "sp \<in> set (items (ec_dq full)) \<Longrightarrow> sp_originator sp = (9, 0)"
  using fill_returns [OF ec_invD(1) [OF node_invD(1) [OF booted_facts(1)]], of 12] booted_facts(2,3)
  by (auto simp: full_def returns_def)

end
