(* ===== verification/Receiving_Spec.thy ===== *)
theory Receiving_Spec
  imports Example_Nodes
begin

text \<open>
  What a node makes of the frames it receives: which frames are for it, what an acknowledgement
  changes, that a packet is delivered once, and when it is not delivered at all.
\<close>

subsection \<open>Frames reach those they are for\<close>

text \<open>
  C11: Data sent to some nodes reaches exactly these: the frame that the multicast and unicast lane
  sends is accepted by a node if and only if the node has not acknowledged it yet, and the data the
  node finds in it is the data that was queued, with its length.
\<close>

theorem data_reaches_the_unacknowledged:
  assumes wf: "ec_wf c" and v: "lane_view c MSG_TYPE_MULTICAST_UNICAST_DATA = (p, l, n, u) # ps"
  shows "\<exists>c' fr kind off. send_multicast_unicast_data ok c = Inr c' \<and>
     ec_sent c' = ec_sent c @ [(Broadcast_Conn, None, fr)] \<and> u \<noteq> [] \<and>
     (\<forall>me. frame_for_us me (header_of fr) fr (length fr) = Inr (if me \<in> set u then Some (kind, off, l) else None)) \<and>
     drop off fr = take (unat l) (drop 7 p) \<and>
     hdr_originator (header_of fr) = hdr_originator (header_of p) \<and> hdr_seqno (header_of fr) = hdr_seqno (header_of p)"
proof -
  let ?d = "take (unat l) (drop 7 p)"
  let ?fr = "targeted_frame (header_of p) ?d u"
  have t: "MSG_TYPE_MULTICAST_UNICAST_DATA < 7" by (simp add: msg_type_defs)
  obtain bp where bp: "cell_ok bp" "lane_ok MSG_TYPE_MULTICAST_UNICAST_DATA bp" "items (unacked_ns bp) = u"
    "length p = 39" "unat l \<le> 24"
    using lane_head [OF wf t v] by metis
  have u: "u \<noteq> []" "length u \<le> 8"
    using bp(2,3) unacked_at_most_eight [OF bp(1)] by (auto simp: lane_ok_def)
  have len: "of_nat (length ?d) = l" using bp(4,5) by (simp add: min_absorb2)
  obtain c' where c': "send_multicast_unicast_data ok c = Inr c'" "ec_sent c' = ec_sent c @ [(Broadcast_Conn, None, ?fr)]"
    using send_multicast_unicast_data_sends [OF wf, of ok] v by (auto simp: returns_def sends_def)
  note us = targeted_for_us [OF u, of ?fr "header_of p" ?d "[]", simplified]
  have "header_of ?fr = init_packet (if length u > 1 then MULTICAST else UNICAST) (hdr_hops (header_of p))
      (hdr_originator (header_of p)) (hdr_sender (header_of p)) (hdr_seqno (header_of p))"
    using header_of_targeted [of "header_of p" ?d u "[]"] by simp
  then have "hdr_originator (header_of ?fr) = hdr_originator (header_of p)" "hdr_seqno (header_of ?fr) = hdr_seqno (header_of p)"
    by (simp_all add: init_packet_def)
  with c' u(1) us len show ?thesis by metis
qed

text \<open>A node that wants to tell one other node something.\<close>

definition telling :: node_properties where
  "telling = projr (ec_reliable_unicast (5, 0) (2, 0) (2, 0) 0 3 [5, 1] 2 deployed)"

lemma telling_facts:
  "ec_wf telling" "\<exists>p n u. lane_view telling MSG_TYPE_MULTICAST_UNICAST_DATA = [(p, 2, n, u)]"
proof -
  have "pb_lane (ec_sq deployed) MSG_TYPE_MULTICAST_UNICAST_DATA = []"
    using boot_returns [OF fresh_powered] booted_eq deployed_facts(3)
    by (auto simp: returns_def same_queues_def msg_type_defs)
  then have "lane_view deployed MSG_TYPE_MULTICAST_UNICAST_DATA = []" by (simp add: lane_view_Nil)
  moreover have "0 < pb_free_cells (ec_sq deployed)" using deployed_connection(2) by simp
  from ec_reliable_unicast_calls [OF deployed_connection(1) this, of 2 "[5, 1]" "(5, 0)" "(2, 0)" "(2, 0)" 0 3]
  obtain c' ns where "ec_reliable_unicast (5, 0) (2, 0) (2, 0) 0 3 [5, 1] 2 deployed = Inr c'"
    "calls MSG_TYPE_MULTICAST_UNICAST_DATA (header_bytes (init_broadcast_packet 0 0 (2, 0) (2, 0) 3))
       (init_broadcast_packet 0 0 (2, 0) (2, 0) 3) [5, 1] 2 (Some ns) deployed c'"
    by (auto simp: returns_def Let_def)
  ultimately show "ec_wf telling" "\<exists>p n u. lane_view telling MSG_TYPE_MULTICAST_UNICAST_DATA = [(p, 2, n, u)]"
    by (auto simp: telling_def calls_def queues_def sq_effect_def appended_def)
qed

lemma data_reaches_witness:
  "\<exists>c' fr kind off u. send_multicast_unicast_data True telling = Inr c' \<and>
     (\<forall>me. frame_for_us me (header_of fr) fr (length fr) = Inr (if me \<in> set u then Some (kind, off, 2) else None))"
proof -
  obtain p n u where v: "lane_view telling MSG_TYPE_MULTICAST_UNICAST_DATA = [(p, 2, n, u)]"
    using telling_facts(2) by blast
  from data_reaches_the_unacknowledged [OF telling_facts(1) v, of True] show ?thesis by blast
qed

subsection \<open>Acknowledgements\<close>

lemma views_at: "views pb (i # cs) = packet_view (packet_at pb i) # views pb cs"
  by (simp add: views_def)

text \<open>
  C20: An acknowledgement is taken into account at most once, for the first queued packet with its
  originator and sequence number: its sender no longer counts as unacknowledged, and the packet
  leaves the queue when nobody is left. If no packet matches, nothing changes. All other packets
  stay as they are, in their order.
\<close>

theorem acknowledgement_effect:
  assumes wf: "ec_wf c"
  shows "returns (ack_received tm p c) (\<lambda>c'. ec_wf c' \<and>
    ((\<forall>t < 7. \<forall>v \<in> set (lane_view c t). \<not> originator_seqno_cmp (fst v) p) \<and> c' = c \<or>
     (\<exists>t < 7. \<exists>vs q l n u ws. lane_view c t = vs @ (q, l, n, u) # ws \<and> originator_seqno_cmp q p \<and>
        lane_view c' t = vs @ (if remove1 (hdr_sender p) u = [] then [] else [(q, l, n, remove1 (hdr_sender p) u)]) @ ws \<and>
        (\<forall>s < 7. s \<noteq> t \<longrightarrow> lane_view c' s = lane_view c s))))"
proof (rule returns_mono [OF ack_received_returns [OF wf]])
  fix c'
  assume r: "ec_wf c' \<and> ec_keep c c' \<and> ec_dq c' = ec_dq c \<and> ack_effect p c c' \<and>
    (\<forall>u < 7. set (pb_lane (ec_sq c') u) \<subseteq> set (pb_lane (ec_sq c) u)) \<and> pb_free_cells (ec_sq c) \<le> pb_free_cells (ec_sq c')"
  let ?hit = "\<lambda>i. originator_seqno_cmp (bp_p (packet_at (ec_sq c) i)) p"
  let ?goal = "(\<forall>t < 7. \<forall>v \<in> set (lane_view c t). \<not> originator_seqno_cmp (fst v) p) \<and> c' = c \<or>
     (\<exists>t < 7. \<exists>vs q l n u ws. lane_view c t = vs @ (q, l, n, u) # ws \<and> originator_seqno_cmp q p \<and>
        lane_view c' t = vs @ (if remove1 (hdr_sender p) u = [] then [] else [(q, l, n, remove1 (hdr_sender p) u)]) @ ws \<and>
        (\<forall>s < 7. s \<noteq> t \<longrightarrow> lane_view c' s = lane_view c s))"
  have ?goal
  proof (cases "List.find ?hit (all_slots (ec_sq c))")
    case None
    then have "\<forall>t < 7. \<forall>i \<in> set (pb_lane (ec_sq c) t). \<not> ?hit i"
      by (auto simp: find_None all_slots_iff)
    with None r show ?thesis by (auto simp: ack_effect_def lane_view_def packet_view_def)
  next
    case (Some i)
    with r obtain t vs ws where t: "t < 7" "pb_lane (ec_sq c) t = vs @ i # ws"
      "sq_effect t (views (ec_sq c) vs @ acked (hdr_sender p) (packet_view (packet_at (ec_sq c) i)) @ views (ec_sq c) ws) c c'"
      by (auto simp: ack_effect_def)
    obtain q l n u where v: "packet_view (packet_at (ec_sq c) i) = (q, l, n, u)"
      by (cases "packet_view (packet_at (ec_sq c) i)")
    have hit: "originator_seqno_cmp q p"
      using find_Some_in [OF Some] v by (simp add: packet_view_def)
    have "lane_view c t = views (ec_sq c) vs @ (q, l, n, u) # views (ec_sq c) ws"
      using t(2) v by (simp add: lane_view_views views_at)
    moreover have "lane_view c' t = views (ec_sq c) vs @ (if remove1 (hdr_sender p) u = [] then []
        else [(q, l, n, remove1 (hdr_sender p) u)]) @ views (ec_sq c) ws" "\<forall>s < 7. s \<noteq> t \<longrightarrow> lane_view c' s = lane_view c s"
      using t(3) v by (simp_all add: sq_effect_def)
    ultimately show ?thesis using t(1) hit by blast
  qed
  with r show "ec_wf c' \<and> ?goal" by blast
qed

lemma acknowledgement_witness:
  "returns (ack_received Neighbor_Data_Timer (init_packet (UNICAST OR ACK) 0 (9, 0) (3, 0) 7) queued) ec_wf"
  by (rule returns_mono [OF acknowledgement_effect [OF queued_wf]]) blast

subsection \<open>Delivery\<close>

text \<open>
  C21: A packet that the node remembers (same originator and sequence number) is not delivered again,
  on neither channel: only the acknowledgement is repeated, which a broadcast does not get.
\<close>

theorem duplicates_are_not_delivered:
  assumes "ec_wf c" and "\<lparr>sp_originator = hdr_originator p, sp_seqno = hdr_seqno p\<rparr> \<in> set (items (ec_dq c))"
  shows "neighbor_data_received cb p data data_len c = queue_ack MSG_TYPE_NEIGHBOR_ACK Neighbor_Ack_Timer p c \<and>
     broadcast_data_received cb kind p data data_len c =
       (if kind = Kind_Broadcast then Inr c
        else queue_ack MSG_TYPE_MULTICAST_UNICAST_ACK Multicast_Unicast_Ack_Timer p c)"
proof -
  obtain r where "find_dupe p c = Inr r" "r \<noteq> None"
    using find_dupe_iff [OF assms(1), of p] assms(2) by (auto simp: slim_def)
  then show ?thesis by (simp add: neighbor_data_received_def broadcast_data_received_def)
qed

lemma duplicates_witness:
  "\<exists>c. store_packet_for_dupe_checks (init_packet UNICAST 0 (4, 0) (3, 0) 1) booted = Inr c \<and>
     broadcast_data_received ec_cb Kind_Broadcast (init_packet UNICAST 0 (4, 0) (3, 0) 1) [] 0 c = Inr c"
proof -
  let ?p = "init_packet UNICAST 0 (4, 0) (3, 0) 1"
  obtain c where c: "store_packet_for_dupe_checks ?p booted = Inr c" "ec_wf c" "items (ec_dq c) = dq_after ?p []"
    using store_packet_returns [OF ec_invD(1) [OF node_invD(1) [OF booted_facts(1)]], of ?p] booted_facts(3)
    by (auto simp: returns_def)
  then have "\<lparr>sp_originator = hdr_originator ?p, sp_seqno = hdr_seqno ?p\<rparr> \<in> set (items (ec_dq c))"
    by (simp add: dq_after_def slim_def DUPE_QUEUE_LENGTH_def)
  from duplicates_are_not_delivered [OF c(2) this, of ec_cb "[]" 0 Kind_Broadcast] c(1) show ?thesis by auto
qed

text \<open>
  A node whose queue has room for less than three packets drops new packets: the client does not
  see them and the sender gets no acknowledgement, so it will try again. Nothing at all changes.
\<close>

theorem no_room_no_delivery:
  assumes "ec_wf c" and "pb_free_cells (ec_sq c) < 3"
    and "\<lparr>sp_originator = hdr_originator p, sp_seqno = hdr_seqno p\<rparr> \<notin> set (items (ec_dq c))"
  shows "neighbor_data_received cb p data data_len c = Inr c \<and>
     broadcast_data_received cb kind p data data_len c = Inr c"
proof -
  have "find_dupe p c = Inr None"
    using find_dupe_iff [OF assms(1), of p] assms(3) by (metis slim_def)
  moreover have "\<not> packet_buffer_has_room_for_packets (ec_sq c) 3"
    using has_room_iff [OF sq_wfD(1) [OF ec_wfD(1) [OF assms(1)]], of 3] assms(2) by simp
  ultimately show ?thesis by (simp add: neighbor_data_received_def broadcast_data_received_def)
qed

lemma no_room_witness:
  "neighbor_data_received ec_cb (init_packet BROADCAST 0 (4, 0) (3, 0) 1) [5] 1 full = Inr full"
proof -
  let ?p = "init_packet BROADCAST 0 (4, 0) (3, 0) 1"
  have "\<lparr>sp_originator = hdr_originator ?p, sp_seqno = hdr_seqno ?p\<rparr> \<notin> set (items (ec_dq full))"
    by (auto simp: init_packet_def dest: full_facts(3))
  from no_room_no_delivery [OF full_facts(1) _ this, of ec_cb "[5]" 1] full_facts(2) show ?thesis by simp
qed

text \<open>
  C33: When the sending queue is full, every way to queue one more packet dereferences the null
  pointer: the check that was to report a full queue comes after the dereference. The broadcasts,
  the mesh, multicasts and the packets of the clock's leader are all affected.
\<close>

theorem full_queue_dereferences_null:
  assumes "ec_wf c" and "pb_free_cells (ec_sq c) = 0"
  shows "ec_broadcast o' s h n data l c = Inl Null_Deref \<and> ec_mesh d n data l c = Inl Null_Deref \<and>
     ec_reliable_multicast ns o' s h n data l c = Inl Null_Deref \<and> timesynch_as_leader cb c = Inl Null_Deref"
proof -
  have "buffer_packet (ec_sq c) hdr data l ns t = Inl Null_Deref" for hdr data l ns t
    by (rule buffer_packet_no_room [OF assms])
  then have "timesynch_as_leader cb c = Inl Null_Deref"
    by (simp add: timesynch_as_leader_def Let_def sq_broadcast_def packet_buffer_broadcast_packet_def)
  with calls_no_room [OF assms] show ?thesis by simp
qed

lemma full_queue_witness: "timesynch_as_leader ec_cb full = Inl Null_Deref \<and> ec_broadcast (9, 0) (9, 0) 0 1 [] 0 full = Inl Null_Deref"
  using full_queue_dereferences_null [OF full_facts(1,2), of "(9, 0)" "(9, 0)" 0 1 "[]" 0 _ _ ec_cb] by simp

text \<open>Storing packets one after the other.\<close>

fun remember :: "header list \<Rightarrow> 'a ec_scheme \<Rightarrow> 'a ec_scheme result" where
  "remember [] c = Inr c"
| "remember (p # ps) c = bindR (store_packet_for_dupe_checks p c) (remember ps)"

lemma dq_after_keeps: "x \<in> set (take k ds) \<Longrightarrow> k < 24 \<Longrightarrow> x \<in> set (take (Suc k) (dq_after p ds))"
  using set_take_subset_set_take [of k "Suc k" ds]
  by (auto simp: dq_after_def DUPE_QUEUE_LENGTH_def take_Cons' min_def)

lemma remember_returns:
  "ec_wf c \<Longrightarrow> x \<in> set (take k (items (ec_dq c))) \<Longrightarrow> k + length ps \<le> 24 \<Longrightarrow>
   returns (remember ps c) (\<lambda>c'. ec_wf c' \<and> x \<in> set (items (ec_dq c')))"
proof (induction ps arbitrary: c k)
  case Nil
  then show ?case by (auto dest: in_set_takeD)
next
  case (Cons p ps)
  obtain c1 where c1: "store_packet_for_dupe_checks p c = Inr c1" "ec_wf c1"
    "items (ec_dq c1) = dq_after p (items (ec_dq c))"
    using store_packet_returns [OF Cons.prems(1), of p] by (auto simp: returns_def)
  have "x \<in> set (take (Suc k) (items (ec_dq c1)))"
    using dq_after_keeps [OF Cons.prems(2)] Cons.prems(3) c1(3) by simp
  from Cons.IH [OF c1(2) this] Cons.prems(3) c1(1) show ?case by simp
qed

text \<open>
  C23: The history is long enough for the next 23 packets: after a new packet was stored, up to 23
  others may be stored, in any order and with any repetitions, and the packet is still recognised.
\<close>

theorem history_remembers_24_packets:
  assumes wf: "ec_wf c" and new: "slim p \<notin> set (items (ec_dq c))" and ps: "length ps \<le> 23"
  shows "returns (remember (p # ps) c) (\<lambda>c'. \<exists>i. find_dupe p c' = Inr (Some i))"
proof -
  obtain c1 where c1: "store_packet_for_dupe_checks p c = Inr c1" "ec_wf c1"
    "items (ec_dq c1) = take 24 (slim p # items (ec_dq c))"
    using store_packet_returns [OF wf, of p] new by (auto simp: returns_def dq_after_def DUPE_QUEUE_LENGTH_def)
  have "slim p \<in> set (take 1 (items (ec_dq c1)))" using c1(3) by (simp add: take_Cons')
  from remember_returns [OF c1(2) this, of ps] ps
  obtain c' where c': "remember ps c1 = Inr c'" "ec_wf c'" "slim p \<in> set (items (ec_dq c'))"
    by (auto simp: returns_def)
  obtain i where "find_dupe p c' = Inr (Some i)"
    using find_dupe_iff [OF c'(2), of p] c'(3) by auto
  with c1(1) c'(1) show ?thesis by simp
qed

lemma history_witness:
  "returns (remember (replicate 24 (init_packet 0 0 (4, 0) (4, 0) 1)) booted)
     (\<lambda>c'. \<exists>i. find_dupe (init_packet 0 0 (4, 0) (4, 0) 1) c' = Inr (Some i))"
proof -
  let ?p = "init_packet 0 0 (4, 0) (4, 0) 1"
  have wf: "ec_wf booted" using node_invD(1) [OF booted_facts(1)] by (simp add: ec_inv_def)
  have "replicate 24 ?p = ?p # replicate 23 ?p" by (simp add: replicate_Suc [symmetric] del: replicate_Suc)
  then show ?thesis
    using history_remembers_24_packets [OF wf, of ?p "replicate 23 ?p"] booted_facts(3) by simp
qed

end
