(* ===== verification/Sending_Spec.thy ===== *)
theory Sending_Spec
  imports Example_Nodes
begin

text \<open>
  What the sending queue promises in the states a node reaches: it is well formed, no packet waits
  without a timer, no timer that sends can fault, packets leave in the order they came, packets that
  are never acknowledged are given up.
\<close>

subsection \<open>The lanes share the queue\<close>

lemma lane_distinct: "pb_wf pb \<Longrightarrow> t < 7 \<Longrightarrow> distinct (pb_lane pb t)"
  by (rule chain_distinct [OF pb_wfD(5)])

lemma all_slots_distinct:
  assumes "pb_wf pb" shows "distinct (all_slots pb)"
proof -
  have "distinct (concat (map (pb_lane pb) ts))" if "distinct ts" "set ts \<subseteq> {..<7}" for ts
    using that
  proof (induction ts)
    case (Cons t ts)
    have "set (pb_lane pb t) \<inter> set (pb_lane pb u) = {}" if "u \<in> set ts" for u
      using lane_disjoint [OF assms, of t u] Cons.prems that by auto
    with Cons lane_distinct [OF assms] show ?case by auto
  qed simp
  then show ?thesis by (simp add: all_slots_def atLeast0LessThan)
qed

lemma lanes_fill_queue:
  assumes "pb_wf pb" shows "(\<Sum>t < 7. length (pb_lane pb t)) = length (entries (pbuffer pb))"
proof -
  have "distinct (used_slots (pbuffer pb))"
    using pb_wfD(1) [OF assms] by (metis distinct_entries map_fst_entries)
  then have "length (all_slots pb) = length (used_slots (pbuffer pb))"
    using all_slots_distinct [OF assms] used_all_slots [OF assms] by (metis distinct_card)
  moreover have "length (all_slots pb) = (\<Sum>t < 7. length (pb_lane pb t))"
    by (simp add: all_slots_def length_concat comp_def interv_sum_list_conv_sum_set_nat atLeast0LessThan)
  ultimately show ?thesis by (simp add: entries_def)
qed

text \<open>
  C1: In every state that a node reaches, its data structures are well formed: at most twelve
  packets wait for being sent, in all lanes together; at most eight neighbors, ten fires and 24
  remembered packets are known; the clock has its samples sorted.
\<close>

theorem reachable_states_well_formed:
  assumes "reachable np"
  shows "node_inv np \<and> (\<Sum>t < 7. length (lane_view np t)) \<le> 12 \<and> length (items (ec_ns np)) \<le> 8 \<and>
     length (items (np_emergency_coords np)) \<le> 10 \<and> length (items (ec_dq np)) \<le> 24 \<and> sync_wf (ec_sync np)"
proof -
  note inv = reachable_node_inv [OF assms]
  note wf = ec_wfD [OF ec_invD(1) [OF node_invD(1) [OF inv]]]
  have "(\<Sum>t < 7. length (lane_view np t)) \<le> 12"
    using lanes_fill_queue [OF sq_wfD(1) [OF wf(1)]] length_entries_le [OF pb_wfD(1) [OF sq_wfD(1) [OF wf(1)]]]
      sq_wfD(2) [OF wf(1)] by (simp add: lane_view_def)
  moreover have "length (items q) \<le> capacity q" if "qb_wf q" for q :: "'b queue_buffer"
    using length_entries_le [OF that] by (simp add: items_def)
  from this [OF node_invD(2) [OF inv]] this [OF wf(2)]
  have "length (items (np_emergency_coords np)) \<le> 10" "length (items (ec_dq np)) \<le> 24"
    using node_invD(3) [OF inv] wf(3) by simp_all
  ultimately show ?thesis using inv neighbors_size_le [OF wf(4)] wf(5) by simp
qed

lemma reachable_states_witness: "reachable deployed \<and> node_inv deployed"
  using reachable_states_well_formed [OF deployed_reachable] deployed_reachable by simp

subsection \<open>The lanes are typed\<close>

text \<open>
  C18: What lies in a lane has the type of the lane. In every reachable state, the header of a queued
  packet has the flags of the message type whose lane the packet is in, a packet of 24 bytes of data
  at most is stored in a cell of 39 bytes, and data that waits for acknowledgements names one to
  eight nodes that have not acknowledged it yet.
\<close>

theorem queued_packets_are_typed:
  assumes "reachable np" and "t < 7" and "(p, l, n, u) \<in> set (lane_view np t)"
  shows "hdr_flags (header_of p) = lane_flags t \<and> length p = 39 \<and> unat l \<le> 24 \<and> length u \<le> 8 \<and>
     (t = MSG_TYPE_NEIGHBOR_DATA \<or> t = MSG_TYPE_MULTICAST_UNICAST_DATA \<longrightarrow> u \<noteq> [])"
proof -
  have wf: "ec_wf np" using ec_invD(1) [OF node_invD(1) [OF reachable_node_inv [OF assms(1)]]] .
  obtain i where i: "i \<in> set (pb_lane (ec_sq np) t)" "packet_view (packet_at (ec_sq np) i) = (p, l, n, u)"
    using assms(3) by (auto simp: lane_view_def)
  obtain bp where bp: "cell_ok bp" "unlinked bp = packet_at (ec_sq np) i" "lane_ok t bp"
    using sq_cell [OF ec_wfD(1) [OF wf] assms(2) i(1)] by metis
  have "packet_view bp = (p, l, n, u)" using i(2) bp(2) by (metis packet_view_unlinked)
  with bp(1,3) unacked_at_most_eight [OF bp(1)] show ?thesis
    by (auto simp: packet_view_def cell_ok_def lane_ok_def PACKET_MEM_def)
qed

lemma queued_packets_witness:
  "\<exists>(p, l, n, u) \<in> set (lane_view announcing MSG_TYPE_BROADCAST_DATA). hdr_flags (header_of p) = BROADCAST"
proof -
  obtain p l n u where v: "(p, l, n, u) \<in> set (lane_view announcing MSG_TYPE_BROADCAST_DATA)"
    using announcing_facts(2) by (metis list.set_intros(1) list.exhaust prod_cases4)
  have "MSG_TYPE_BROADCAST_DATA < 7" by (simp add: msg_type_defs)
  from queued_packets_are_typed [OF announcing_facts(1) this v] v show ?thesis
    by (auto simp: lane_flags_eq)
qed

subsection \<open>The timers of the lanes\<close>

text \<open>
  C19: Packets wait for a timer that runs: in every reachable state, each of the six lanes of packets and
  acknowledgements for neighbors, everybody and chosen receivers, and of the clock, has its timer
  running if it holds packets. (It does not hold for the seventh, the mesh's: its timer fires once, and
  is set again only when the mesh layer reports success or failure, or another packet is queued.)
\<close>

theorem waiting_packets_have_timers:
  assumes "reachable np" and "t < 6" and "lane_view np t \<noteq> []"
  shows "\<exists>tm d. lane_timer t = Some tm \<and> ec_timers np tm = Some d"
proof -
  have "lane_armed np t"
    using ec_invD(2) [OF node_invD(1) [OF reachable_node_inv [OF assms(1)]]] assms(2)
    by (simp add: all_armed_def)
  moreover have "lane_timer t \<noteq> None"
    using assms(2) by (auto simp: lane_timer_def numeral_eq_Suc less_Suc_eq)
  ultimately show ?thesis using assms(3) by (auto simp: lane_armed_def lane_view_Nil split: option.splits)
qed

lemma waiting_packets_witness:
  "\<exists>tm d. lane_timer MSG_TYPE_BROADCAST_DATA = Some tm \<and> ec_timers announcing tm = Some d"
  by (rule waiting_packets_have_timers [OF announcing_facts(1) _ announcing_facts(2)]) (simp add: msg_type_defs)

text \<open>
  C10: A timer that sends never makes the node fault, whatever is queued and whatever the radio
  answers, and the node goes on from a reachable state.
\<close>

theorem data_timers_never_fault:
  assumes "reachable np" and "tm \<noteq> Ts_Timer"
  shows "\<exists>np'. ec_handle ec_cb (Timer_Fires tm ok) np = Inr np' \<and> reachable np'"
proof -
  obtain np' where "ec_handle ec_cb (Timer_Fires tm ok) np = Inr np'"
    using data_timer_returns [OF ec_invD(1) [OF node_invD(1) [OF reachable_node_inv [OF assms(1)]]] assms(2)]
    by (auto simp: ec_handle_def)
  with assms(1) show ?thesis by (blast intro: reachable.step node_step.connection)
qed

lemma data_timers_witness:
  "\<exists>np'. ec_handle ec_cb (Timer_Fires Neighbor_Data_Timer True) deployed = Inr np' \<and> reachable np'"
  by (rule data_timers_never_fault [OF deployed_reachable]) simp

end
