(* ===== verification/Liveness_Spec.thy ===== *)
theory Liveness_Spec
  imports Sending_Spec
begin

text \<open>
  What happens when a lane's timer fires again and again: broadcasts leave in the order they were
  queued; packets for neighbors that never acknowledge them are given up.
\<close>

fun repeatedly :: "nat \<Rightarrow> ('c \<Rightarrow> 'c result) \<Rightarrow> 'c \<Rightarrow> 'c result" where
  "repeatedly 0 f c = Inr c"
| "repeatedly (Suc n) f c = bindR (f c) (repeatedly n f)"

lemma broadcast_fires:
  assumes "ec_wf c"
  shows "returns (timer_fires cb True Broadcast_Data_Timer c)
    (\<lambda>c'. ec_wf c' \<and> lane_view c' MSG_TYPE_BROADCAST_DATA = tl (lane_view c MSG_TYPE_BROADCAST_DATA) \<and>
       ec_sent c' = ec_sent c @ once_frame Broadcast_Conn (lane_view c MSG_TYPE_BROADCAST_DATA) (\<lambda>(_, l, _, _). 7 + unat l) \<and>
       (\<forall>u < 7. u \<noteq> MSG_TYPE_BROADCAST_DATA \<longrightarrow> lane_view c' u = lane_view c u))"
  using send_broadcast_data_sends [OF stop_wf [OF assms], of True Broadcast_Data_Timer]
  by (auto simp: timer_fires_def ctimer_stop_def sends_def sq_effect_def elim!: returns_mono)

text \<open>
  C16: Every queued broadcast is sent: when the lane's timer fires as often as packets wait, and the
  radio takes each frame, the lane is empty, and the frames have left in the order of the queue,
  header and data as queued; the other lanes are as they were.
\<close>

theorem broadcasts_drain_in_order:
  assumes "ec_wf c"
  shows "returns (repeatedly (length (lane_view c MSG_TYPE_BROADCAST_DATA)) (timer_fires cb True Broadcast_Data_Timer) c)
    (\<lambda>c'. lane_view c' MSG_TYPE_BROADCAST_DATA = [] \<and>
       ec_sent c' = ec_sent c @ map (\<lambda>(p, l, _, _). (Broadcast_Conn, None, take (7 + unat l) p))
                                  (lane_view c MSG_TYPE_BROADCAST_DATA) \<and>
       (\<forall>u < 7. u \<noteq> MSG_TYPE_BROADCAST_DATA \<longrightarrow> lane_view c' u = lane_view c u))"
  using assms
proof (induction "lane_view c MSG_TYPE_BROADCAST_DATA" arbitrary: c)
  case Nil
  from Nil(1) [symmetric] show ?case by simp
next
  case (Cons v vs)
  obtain p l n u where v: "v = (p, l, n, u)" by (cases v)
  obtain c1 where c1: "timer_fires cb True Broadcast_Data_Timer c = Inr c1" "ec_wf c1"
    "lane_view c1 MSG_TYPE_BROADCAST_DATA = vs"
    "ec_sent c1 = ec_sent c @ [(Broadcast_Conn, None, take (7 + unat l) p)]"
    "\<forall>u < 7. u \<noteq> MSG_TYPE_BROADCAST_DATA \<longrightarrow> lane_view c1 u = lane_view c u"
    using broadcast_fires [OF Cons.prems, of cb] Cons(2) [symmetric] v by (auto simp: returns_def)
  from Cons.hyps(1) [OF c1(3) [symmetric] c1(2)] show ?case
    using c1 Cons(2) [symmetric] v by (auto elim!: returns_mono)
qed

lemma broadcasts_drain_witness:
  "returns (repeatedly (length (lane_view queued MSG_TYPE_BROADCAST_DATA)) (timer_fires ec_cb True Broadcast_Data_Timer) queued)
     (\<lambda>c'. lane_view c' MSG_TYPE_BROADCAST_DATA = []) \<and> length (lane_view queued MSG_TYPE_BROADCAST_DATA) = 1"
  using broadcasts_drain_in_order [OF queued_wf, of ec_cb] queued_facts(4) by (auto elim!: returns_mono)

subsection \<open>Giving up\<close>

lemma neighbor_fires:
  assumes "ec_wf c"
  shows "returns (timer_fires cb True Neighbor_Data_Timer c)
    (\<lambda>c'. ec_wf c' \<and> lane_view c' MSG_TYPE_NEIGHBOR_DATA =
       counted True (live MAX_TIMES_SENT_MESH (lane_view c MSG_TYPE_NEIGHBOR_DATA)))"
  using send_neighbor_data_sends [OF stop_wf [OF assms], of True Neighbor_Data_Timer]
  by (auto simp: timer_fires_def ctimer_stop_def sends_def sq_effect_def Let_def elim!: returns_mono)

text \<open>How often the packets of a lane may still be sent.\<close>

definition tries_left :: "packet_contents list \<Rightarrow> nat" where
  "tries_left vs = (\<Sum>(_, _, n, _) \<leftarrow> vs. 10 - unat n)"

lemma tries_left_live: "tries_left (live MAX_TIMES_SENT_MESH vs) = tries_left vs"
  by (induction vs) (auto simp: live_def tries_left_def MAX_TIMES_SENT_MESH_def word_le_nat_alt)

lemma tries_left_counted:
  assumes "live MAX_TIMES_SENT_MESH vs = v # ps"
  shows "tries_left (counted True (v # ps)) + 1 = tries_left vs"
proof -
  obtain p l n u where v: "v = (p, l, n, u)" by (cases v)
  have "\<not> MAX_TIMES_SENT_MESH \<le> n"
    using assms hd_dropWhile [of "\<lambda>(_, _, n, _). n \<ge> MAX_TIMES_SENT_MESH" vs] by (simp add: live_def v)
  then have n: "unat n < 10" by (simp add: MAX_TIMES_SENT_MESH_def word_le_nat_alt)
  then have "10 - unat (n + 1) + 1 = 10 - unat n" using unat_Suc_less [of n 10] by simp
  then show ?thesis using tries_left_live [of vs] by (simp add: assms v tries_left_def)
qed

lemma given_up:
  "ec_wf c \<Longrightarrow> tries_left (lane_view c MSG_TYPE_NEIGHBOR_DATA) \<le> k \<Longrightarrow>
   returns (repeatedly (Suc k) (timer_fires cb True Neighbor_Data_Timer) c)
     (\<lambda>c'. ec_wf c' \<and> lane_view c' MSG_TYPE_NEIGHBOR_DATA = [])"
proof (induction k arbitrary: c)
  case 0
  from neighbor_fires [OF 0(1), of cb] obtain c1 where c1: "timer_fires cb True Neighbor_Data_Timer c = Inr c1"
    "ec_wf c1" "lane_view c1 MSG_TYPE_NEIGHBOR_DATA = counted True (live MAX_TIMES_SENT_MESH (lane_view c MSG_TYPE_NEIGHBOR_DATA))"
    by (auto simp: returns_def)
  have "live MAX_TIMES_SENT_MESH (lane_view c MSG_TYPE_NEIGHBOR_DATA) = []"
    using tries_left_counted [of "lane_view c MSG_TYPE_NEIGHBOR_DATA"] 0(2)
    by (cases "live MAX_TIMES_SENT_MESH (lane_view c MSG_TYPE_NEIGHBOR_DATA)") fastforce+
  with c1 show ?case by simp
next
  case (Suc k)
  let ?vs = "lane_view c MSG_TYPE_NEIGHBOR_DATA"
  from neighbor_fires [OF Suc.prems(1), of cb] obtain c1 where c1: "timer_fires cb True Neighbor_Data_Timer c = Inr c1"
    "ec_wf c1" "lane_view c1 MSG_TYPE_NEIGHBOR_DATA = counted True (live MAX_TIMES_SENT_MESH ?vs)"
    by (auto simp: returns_def)
  have "tries_left (lane_view c1 MSG_TYPE_NEIGHBOR_DATA) \<le> k"
  proof (cases "live MAX_TIMES_SENT_MESH ?vs")
    case Nil
    then show ?thesis by (simp add: c1(3) tries_left_def)
  next
    case (Cons v ps)
    from tries_left_counted [OF Cons] Suc.prems(2) show ?thesis by (simp only: c1(3) Cons)
  qed
  from Suc.IH [OF c1(2) this] c1(1) show ?case by simp
qed

text \<open>
  C17: Packets for neighbors are not sent for ever: a packet leaves the lane after ten transmissions
  at the latest, even if nobody acknowledges anything, so the lane is empty after one firing of its
  timer more than there are transmissions left for its packets.
\<close>

theorem unacknowledged_packets_given_up:
  assumes "ec_wf c" and "vs = lane_view c MSG_TYPE_NEIGHBOR_DATA"
  shows "returns (repeatedly (Suc (\<Sum>(_, _, n, _) \<leftarrow> vs. 10 - unat n)) (timer_fires cb True Neighbor_Data_Timer) c)
     (\<lambda>c'. lane_view c' MSG_TYPE_NEIGHBOR_DATA = [])"
  using given_up [OF assms(1) order_refl, of cb]
  by (auto simp: assms(2) tries_left_def elim!: returns_mono simp del: repeatedly.simps)

lemma given_up_witness:
  "returns (repeatedly 11 (timer_fires ec_cb True Neighbor_Data_Timer) queued) (\<lambda>c'. lane_view c' MSG_TYPE_NEIGHBOR_DATA = [])
   \<and> lane_view queued MSG_TYPE_NEIGHBOR_DATA \<noteq> []"
proof -
  obtain v where v: "lane_view queued MSG_TYPE_NEIGHBOR_DATA = [v]" "fst (snd (snd v)) = 0"
    using queued_facts(3) by (auto simp: appended_def)
  then have eq: "Suc (\<Sum>(_, _, n, _) \<leftarrow> lane_view queued MSG_TYPE_NEIGHBOR_DATA. 10 - unat n) = 11"
    by (cases v) simp
  show ?thesis
    using unacknowledged_packets_given_up [OF queued_wf refl, of ec_cb] v(1) unfolding eq by simp
qed

subsection \<open>What is sent to the neighbors\<close>

lemma neighbor_data_runs:
  assumes "ec_wf c" and "lane_view c MSG_TYPE_NEIGHBOR_DATA = vs" and "live MAX_TIMES_SENT_MESH vs = v # ps"
  obtains c' where "send_neighbor_data ok c = Inr c'" and "ec_wf c'"
    and "ec_sent c' = ec_sent c @ [(Neighbor_Conn, None, neighbor_frame (fst (hd vs)) v)]"
    and "lane_view c' MSG_TYPE_NEIGHBOR_DATA = counted ok (v # ps)"
  using send_neighbor_data_sends [OF assms(1), of ok] assms(2,3)
  by (auto simp: returns_def sends_def sq_effect_def Let_def)

text \<open>
  The first transmission of a packet for the neighbors is a broadcast of its header and data;
  every later one is addressed to the neighbors that have not acknowledged it. A transmission that
  the radio took is counted; one that it refused is repeated unchanged.
\<close>

theorem neighbor_data_transmission:
  assumes "ec_wf c" and "lane_view c MSG_TYPE_NEIGHBOR_DATA = (p, l, n, u) # ps" and "n < 10"
  shows "\<exists>c' fr. send_neighbor_data ok c = Inr c' \<and> ec_sent c' = ec_sent c @ [(Neighbor_Conn, None, fr)] \<and>
     fr = (if n = 0 then take (7 + unat l) p else targeted_frame (header_of p) (take (unat l) (drop 7 p)) u) \<and>
     lane_view c' MSG_TYPE_NEIGHBOR_DATA = (p, l, if ok then n + 1 else n, u) # ps"
proof -
  have "live MAX_TIMES_SENT_MESH ((p, l, n, u) # ps) = (p, l, n, u) # ps"
    using assms(3) by (simp add: live_def MAX_TIMES_SENT_MESH_def not_le)
  from neighbor_data_runs [OF assms(1,2) this, of ok]
  obtain c' where c': "send_neighbor_data ok c = Inr c'"
    "ec_sent c' = ec_sent c @ [(Neighbor_Conn, None, neighbor_frame p (p, l, n, u))]"
    "lane_view c' MSG_TYPE_NEIGHBOR_DATA = counted ok ((p, l, n, u) # ps)" by auto
  have "neighbor_frame p (p, l, n, u) =
      (if n = 0 then take (7 + unat l) p else targeted_frame (header_of p) (take (unat l) (drop 7 p)) u)"
    by (simp add: neighbor_frame_def word_gt_0)
  with c' show ?thesis by simp
qed

lemma neighbor_data_witness:
  "\<exists>c' fr. send_neighbor_data True queued = Inr c' \<and> ec_sent c' = ec_sent queued @ [(Neighbor_Conn, None, fr)] \<and> length fr = 8"
proof -
  obtain p u where v: "lane_view queued MSG_TYPE_NEIGHBOR_DATA = [(p, 1, 0, u)]" "length p = 39"
    using queued_facts(3) by (auto simp: appended_def)
  from neighbor_data_transmission [OF queued_wf v(1), of True] v(2) show ?thesis by fastforce
qed

text \<open>
  C35: When the first packet of the lane is given up, the frame sent in its stead is built from the
  memory of the packet just freed: header and contents of the old packet go out, with the length
  of the next one, which counts as sent.
\<close>

theorem given_up_packet_is_sent_again:
  assumes "ec_wf c" and "lane_view c MSG_TYPE_NEIGHBOR_DATA = (p, l, n, u) # (p', l', 0, u') # ps" and "n \<ge> 10"
  shows "\<exists>c'. send_neighbor_data True c = Inr c' \<and>
     ec_sent c' = ec_sent c @ [(Neighbor_Conn, None, take (7 + unat l') p)] \<and>
     lane_view c' MSG_TYPE_NEIGHBOR_DATA = (p', l', 1, u') # ps"
proof -
  have "live MAX_TIMES_SENT_MESH ((p, l, n, u) # (p', l', 0, u') # ps) = (p', l', 0, u') # ps"
    using assms(3) by (simp add: live_def MAX_TIMES_SENT_MESH_def)
  from neighbor_data_runs [OF assms(1,2) this, of True] show ?thesis
    by (auto simp: neighbor_frame_def)
qed

lemma transmissions_counted:
  "ec_wf c \<Longrightarrow> lane_view c MSG_TYPE_NEIGHBOR_DATA = (p, l, n, u) # ps \<Longrightarrow> unat n + k \<le> 10 \<Longrightarrow>
   returns (repeatedly k (send_neighbor_data True) c)
     (\<lambda>c'. ec_wf c' \<and> lane_view c' MSG_TYPE_NEIGHBOR_DATA = (p, l, n + of_nat k, u) # ps)"
proof (induction k arbitrary: c n)
  case (Suc k)
  then have n: "n < 10" by (simp add: word_less_nat_alt)
  then have "live MAX_TIMES_SENT_MESH ((p, l, n, u) # ps) = (p, l, n, u) # ps"
    by (simp add: live_def MAX_TIMES_SENT_MESH_def not_le)
  from neighbor_data_runs [OF Suc.prems(1,2) this, of True] obtain c1 where c1: "send_neighbor_data True c = Inr c1"
    "ec_wf c1" "lane_view c1 MSG_TYPE_NEIGHBOR_DATA = (p, l, n + 1, u) # ps" by auto
  have "unat (n + 1) + k \<le> 10"
    using unat_Suc_less [of n 10] n Suc.prems(3) by (simp add: word_less_nat_alt)
  from Suc.IH [OF c1(2,3) this] c1(1) show ?case by (simp add: add.assoc)
qed simp

lemma tell_neighbors:
  assumes "ec_wf c" and "0 < pb_free_cells (ec_sq c)" and "ec_ns_set c" and "items (ec_ns c) \<noteq> []"
    and "unat l \<le> 24" and "unat l \<le> length data"
  obtains c' v where "ec_reliable_broadcast_ns o' s h n data l c = Inr c'" and "ec_wf c'"
    and "pb_free_cells (ec_sq c') = pb_free_cells (ec_sq c) - 1" and "ec_ns_set c'" and "items (ec_ns c') \<noteq> []"
    and "lane_view c' MSG_TYPE_NEIGHBOR_DATA = lane_view c MSG_TYPE_NEIGHBOR_DATA @ [v]"
    and "appended (header_bytes (init_broadcast_packet 0 h o' s n)) data l (Some (ec_ns c)) v"
proof -
  obtain c' where c': "ec_reliable_broadcast_ns o' s h n data l c = Inr c'"
    "queues MSG_TYPE_NEIGHBOR_DATA (header_bytes (init_broadcast_packet 0 h o' s n)) data l (Some (ec_ns c)) c c'"
    using ec_reliable_broadcast_ns_calls [OF assms(1-3,5,6), of o' s h n] assms(4)
    by (auto simp: returns_def Let_def calls_def)
  have "items (ec_ns c') \<noteq> []"
    using c'(2) assms(4) by (simp add: queues_def ec_keep_def items_def)
  with c' assms(3) that show thesis by (auto simp: queues_def ec_keep_def sq_effect_def)
qed

lemma deployed_neighbor_lane: "lane_view deployed MSG_TYPE_NEIGHBOR_DATA = []" "items (ec_ns deployed) \<noteq> []"
proof -
  have "pb_lane (ec_sq deployed) MSG_TYPE_NEIGHBOR_DATA = []"
    using boot_returns [OF fresh_powered] booted_eq deployed_facts(3)
    by (auto simp: returns_def same_queues_def msg_type_defs)
  then show "lane_view deployed MSG_TYPE_NEIGHBOR_DATA = []" by (simp add: lane_view_Nil)
  show "items (ec_ns deployed) \<noteq> []" using deployed_connection(4) by (auto simp: neighbor_addrs_def)
qed

lemma given_up_again_witness:
  "\<exists>(c :: node_properties) c' p p' u u'. lane_view c MSG_TYPE_NEIGHBOR_DATA = [(p, 1, 10, u), (p', 2, 0, u')] \<and>
     send_neighbor_data True c = Inr c' \<and> ec_sent c' = ec_sent c @ [(Neighbor_Conn, None, take 9 p)] \<and> length p = 39"
proof -
  note d = deployed_connection
  have f: "0 < pb_free_cells (ec_sq deployed)" using d(2) by simp
  have e: "unat (1 :: byte) \<le> 24" "unat (1 :: byte) \<le> length [6 :: byte]"
    "unat (2 :: byte) \<le> 24" "unat (2 :: byte) \<le> length [7, 7 :: byte]" by simp_all
  obtain c1 v1 where run: "ec_reliable_broadcast_ns (9, 0) (2, 0) 0 1 [6] 1 deployed = Inr c1" and c1: "ec_wf c1"
    "pb_free_cells (ec_sq c1) = pb_free_cells (ec_sq deployed) - 1" "ec_ns_set c1" "items (ec_ns c1) \<noteq> []"
    "lane_view c1 MSG_TYPE_NEIGHBOR_DATA = lane_view deployed MSG_TYPE_NEIGHBOR_DATA @ [v1]"
    "appended (header_bytes (init_broadcast_packet 0 0 (9, 0) (2, 0) 1)) [6] 1 (Some (ec_ns deployed)) v1"
    using tell_neighbors [OF d(1) f d(3) deployed_neighbor_lane(2) e(1,2)] .
  have f1: "0 < pb_free_cells (ec_sq c1)" using c1(2) d(2) by simp
  obtain c2 v2 where run: "ec_reliable_broadcast_ns (9, 0) (2, 0) 0 2 [7, 7] 2 c1 = Inr c2" and c2: "ec_wf c2"
    "pb_free_cells (ec_sq c2) = pb_free_cells (ec_sq c1) - 1" "ec_ns_set c2" "items (ec_ns c2) \<noteq> []"
    "lane_view c2 MSG_TYPE_NEIGHBOR_DATA = lane_view c1 MSG_TYPE_NEIGHBOR_DATA @ [v2]"
    "appended (header_bytes (init_broadcast_packet 0 0 (9, 0) (2, 0) 2)) [7, 7] 2 (Some (ec_ns c1)) v2"
    using tell_neighbors [OF c1(1) f1 c1(3,4) e(3,4)] .
  obtain p u p' u' where v: "v1 = (p, 1, 0, u)" "v2 = (p', 2, 0, u')" "length p = 39"
    using c1(6) c2(6) by (cases v1, cases v2) (auto simp: appended_def)
  obtain c3 where run: "repeatedly 10 (send_neighbor_data True) c2 = Inr c3" and c3: "ec_wf c3" "lane_view c3 MSG_TYPE_NEIGHBOR_DATA = [(p, 1, 10, u), (p', 2, 0, u')]"
    using transmissions_counted [OF c2(1), of p 1 0 u "[v2]" 10] c1(5) c2(5) v deployed_neighbor_lane(1)
    by (auto simp: returns_def)
  from given_up_packet_is_sent_again [OF c3] c3(2) v(3) show ?thesis by fastforce
qed

subsection \<open>What is never given up\<close>

text \<open>The timer of a lane fires once for each answer of the radio.\<close>

fun answered :: "bool list \<Rightarrow> (bool \<Rightarrow> 'c \<Rightarrow> 'c result) \<Rightarrow> 'c \<Rightarrow> 'c result" where
  "answered [] f c = Inr c"
| "answered (ok # oks) f c = bindR (f ok c) (answered oks f)"

lemma reliable_fires:
  assumes "ec_wf c" and "lane_view c MSG_TYPE_MULTICAST_UNICAST_DATA = (p, l, n, u) # ps"
  obtains c' where "timer_fires cb ok Multicast_Unicast_Data_Timer c = Inr c'" and "ec_wf c'"
    and "lane_view c' MSG_TYPE_MULTICAST_UNICAST_DATA = (p, l, n + of_bool ok, u) # ps"
    and "ec_sent c' = ec_sent c @ [(Broadcast_Conn, None, targeted_frame (header_of p) (take (unat l) (drop 7 p)) u)]"
    and "lane_armed c' MSG_TYPE_MULTICAST_UNICAST_DATA"
  using send_multicast_unicast_data_sends [OF stop_wf [OF assms(1)], of ok Multicast_Unicast_Data_Timer] assms(2)
  by (auto simp: timer_fires_def ctimer_stop_def sends_def sq_effect_def returns_def)

text \<open>
  C36: Reliable data is repeated for ever. Other than data for the neighbors, a multicast or unicast is
  never given up: however often its timer fires, and whatever the radio answers, the packet stays at
  the head of its lane, the same frame goes to those that have not acknowledged it, the packets
  behind it wait, and the timer is set again. Only its counter moves, modulo 256.
\<close>

theorem reliable_data_is_repeated:
  assumes "ec_wf c" and "lane_view c MSG_TYPE_MULTICAST_UNICAST_DATA = (p, l, n, u) # ps" and "oks \<noteq> []"
  shows "returns (answered oks (\<lambda>ok. timer_fires cb ok Multicast_Unicast_Data_Timer) c) (\<lambda>c'.
     lane_view c' MSG_TYPE_MULTICAST_UNICAST_DATA = (p, l, n + of_nat (count_list oks True), u) # ps \<and>
     ec_sent c' = ec_sent c @ replicate (length oks) (Broadcast_Conn, None, targeted_frame (header_of p) (take (unat l) (drop 7 p)) u) \<and>
     lane_armed c' MSG_TYPE_MULTICAST_UNICAST_DATA)"
  using assms
proof (induction oks arbitrary: c n)
  case (Cons ok oks)
  obtain c1 where c1: "timer_fires cb ok Multicast_Unicast_Data_Timer c = Inr c1" "ec_wf c1"
    "lane_view c1 MSG_TYPE_MULTICAST_UNICAST_DATA = (p, l, n + of_bool ok, u) # ps"
    "ec_sent c1 = ec_sent c @ [(Broadcast_Conn, None, targeted_frame (header_of p) (take (unat l) (drop 7 p)) u)]"
    "lane_armed c1 MSG_TYPE_MULTICAST_UNICAST_DATA" using reliable_fires [OF Cons.prems(1,2), of cb ok] .
  show ?case
  proof (cases "oks = []")
    case True
    with c1 show ?thesis by (cases ok) simp_all
  next
    case False
    from Cons.IH [OF c1(2,3) False] c1(1,4) show ?thesis by (cases ok) (auto simp: add.assoc elim!: returns_mono)
  qed
qed simp

lemma reliable_data_witness:
  "\<exists>(c :: node_properties) p u. lane_view c MSG_TYPE_MULTICAST_UNICAST_DATA = [(p, 1, 0, u)] \<and> u = [(7, 0)] \<and>
     returns (answered (replicate 256 True) (\<lambda>ok. timer_fires ec_cb ok Multicast_Unicast_Data_Timer) c)
       (\<lambda>c'. lane_view c' MSG_TYPE_MULTICAST_UNICAST_DATA = [(p, 1, 0, u)])"
proof -
  note d = deployed_connection
  have f: "0 < pb_free_cells (ec_sq deployed)" using d(2) by simp
  have l: "unat (1 :: byte) \<le> 24" "unat (1 :: byte) \<le> length [6 :: byte]" by simp_all
  obtain c ns where c: "neighbor_addrs ns = [(7, 0)]"
    "calls MSG_TYPE_MULTICAST_UNICAST_DATA (header_bytes (init_broadcast_packet 0 0 (2, 0) (2, 0) 1)) (init_broadcast_packet 0 0 (2, 0) (2, 0) 1)
       [6] 1 (Some ns) deployed c"
    using ec_reliable_unicast_calls [OF d(1) f l, of "(7, 0)" "(2, 0)" "(2, 0)" 0 1] by (auto simp: returns_def Let_def)
  have "pb_lane (ec_sq deployed) MSG_TYPE_MULTICAST_UNICAST_DATA = []"
    using boot_returns [OF fresh_powered] booted_eq deployed_facts(3) by (auto simp: returns_def same_queues_def msg_type_defs)
  then obtain p where p: "ec_wf c" "lane_view c MSG_TYPE_MULTICAST_UNICAST_DATA = [(p, 1, 0, [(7, 0)])]"
    using c by (auto simp: calls_def queues_def sq_effect_def appended_def lane_view_Nil)
  have "count_list (replicate 256 True) True = 256" by (simp add: count_list_eq_length_filter)
  with reliable_data_is_repeated [OF p, of "replicate 256 True" ec_cb] p(2) show ?thesis
    by (fastforce elim!: returns_mono)
qed

end
