(* ===== verification/Round_Spec.thy ===== *)
theory Round_Spec
  imports Receiving_Spec Liveness_Spec
begin

text \<open>
  One round of the protocol for neighbors, over two nodes: data leaves one node, is delivered and
  acknowledged by the other, and the acknowledgement comes home.
\<close>

subsection \<open>Frames on their way\<close>

text \<open>A frame of the lane for neighbors is for everybody the first time, later for those in \<open>u\<close>.\<close>

lemma neighbor_frame_arrives:
  assumes p: "length p = 39" "unat l \<le> 24" "hdr_flags (header_of p) = BROADCAST"
    and u: "u \<noteq> []" "length u \<le> 8" and me: "n = 0 \<or> me \<in> set u"
  obtains h kind off where "read_header (neighbor_frame p (p, l, n, u)) = Inr h"
    and "frame_for_us me h (neighbor_frame p (p, l, n, u)) (length (neighbor_frame p (p, l, n, u))) = Inr (Some (kind, off, l))"
    and "drop off (neighbor_frame p (p, l, n, u)) = take (unat l) (drop 7 p)"
    and "hdr_originator h = hdr_originator (header_of p)" and "hdr_seqno h = hdr_seqno (header_of p)"
    and "hdr_sender h = hdr_sender (header_of p)" and "hdr_hops h = hdr_hops (header_of p)" and "\<not> IS_PACKET_FLAG_SET h ACK"
proof (cases "n = 0")
  case True
  let ?fr = "take (7 + unat l) p"
  have fr: "neighbor_frame p (p, l, n, u) = ?fr" using True by (simp add: neighbor_frame_def)
  have "header_of ?fr = header_of p" by (simp add: header_of_def addr_at_def)
  moreover have "length ?fr = 7 + unat l" using p(1,2) by simp
  moreover have "PACKET_TYPE (header_of p) = BROADCAST" "\<not> IS_PACKET_FLAG_SET (header_of p) ACK"
    using p(3) by (simp_all add: PACKET_TYPE_def IS_PACKET_FLAG_SET_def packet_flag_defs)
  moreover have "drop 7 ?fr = take (unat l) (drop 7 p)" by (simp add: drop_take)
  ultimately show ?thesis
    by (intro that [of "header_of p" Kind_Broadcast 7])
       (simp_all add: fr read_header_def PACKET_HDR_SIZE_def frame_for_us_def BROADCAST_PACKET_HDR_SIZE_def)
next
  case False
  let ?d = "take (unat l) (drop 7 p)"
  let ?fr = "targeted_frame (header_of p) ?d u"
  have fr: "neighbor_frame p (p, l, n, u) = ?fr" using False by (simp add: neighbor_frame_def word_gt_0)
  have len: "of_nat (length ?d) = l" using p(1,2) by (simp add: min_absorb2)
  note us = targeted_for_us [OF u, of ?fr "header_of p" ?d "[]", simplified]
  have h: "header_of ?fr = init_packet (if length u > 1 then MULTICAST else UNICAST) (hdr_hops (header_of p))
      (hdr_originator (header_of p)) (hdr_sender (header_of p)) (hdr_seqno (header_of p))"
    using header_of_targeted [of "header_of p" ?d u "[]"] by simp
  have "7 \<le> length ?fr" by (simp add: targeted_frame_def)
  then show ?thesis
    using us me False len h
    by (intro that [of "header_of ?fr" "fst (targeted_kind u)" "snd (targeted_kind u)"])
       (simp_all add: fr read_header_def PACKET_HDR_SIZE_def init_packet_def IS_PACKET_FLAG_SET_def packet_flag_defs)
qed

text \<open>An acknowledgement is for its destination.\<close>

lemma ack_arrives:
  assumes "fr = unicast_bytes (init_unicast_packet ACK 0 o' s n d)"
  shows "read_header fr = Inr (init_packet (UNICAST OR ACK) 0 o' s n)"
    and "frame_for_us d (init_packet (UNICAST OR ACK) 0 o' s n) fr (length fr) = Inr (Some (Kind_Unicast, 9, 0))"
proof -
  let ?up = "init_unicast_packet ACK 0 o' s n d"
  have h: "up_hdr ?up = init_packet (UNICAST OR ACK) 0 o' s n" by (simp add: init_unicast_packet_def)
  show "read_header fr = Inr (init_packet (UNICAST OR ACK) 0 o' s n)"
    using header_of_unicast [of ?up "[]"] by (simp add: assms read_header_def PACKET_HDR_SIZE_def h)
  have "PACKET_TYPE (init_packet (UNICAST OR ACK) 0 o' s n) = UNICAST" using init_packet_type(3) [of ACK 0 o' s n d] h by simp
  moreover have "read_addr fr 7 = Inr d"
    using read_addr_drop [of 7 fr d "[]"] by (simp add: assms unicast_bytes_def init_unicast_packet_def)
  ultimately show "frame_for_us d (init_packet (UNICAST OR ACK) 0 o' s n) fr (length fr) = Inr (Some (Kind_Unicast, 9, 0))"
    by (simp add: frame_for_us_def PACKET_HDR_SIZE_def UNICAST_PACKET_HDR_SIZE_def assms)
qed

subsection \<open>The receiver\<close>

text \<open>A new packet is delivered, remembered, and its acknowledgement queued.\<close>

lemma delivered_and_acknowledged:
  assumes wf: "ec_wf b" and new: "slim h \<notin> set (items (ec_dq b))" and room: "3 \<le> pb_free_cells (ec_sq b)"
    and client: "cb_neighbor_recv cb b (hdr_originator h) (hdr_sender h) (hdr_hops h) (hdr_seqno h) data l = Inr b1"
    and b1: "ec_wf b1" "0 < pb_free_cells (ec_sq b1)"
    and none: "\<forall>t < 7. \<forall>v \<in> set (lane_view b1 t). \<not> unicast_packet_cmp (fst v)
      (init_unicast_packet ACK 0 (hdr_originator h) (ec_node_addr b1) (hdr_seqno h) (hdr_sender h))"
  shows "returns (neighbor_data_received cb h data l b) (\<lambda>b2. ec_wf b2 \<and> slim h \<in> set (items (ec_dq b2)) \<and>
    ec_keep b1 b2 \<and> (\<exists>q m n u. lane_view b2 MSG_TYPE_NEIGHBOR_ACK = lane_view b1 MSG_TYPE_NEIGHBOR_ACK @ [(q, m, n, u)] \<and>
      take 9 q = unicast_bytes (init_unicast_packet ACK 0 (hdr_originator h) (ec_node_addr b1) (hdr_seqno h) (hdr_sender h))))"
proof -
  have f: "find_dupe h b = Inr None" using find_dupe_iff [OF wf, of h] new by metis
  have r: "packet_buffer_has_room_for_packets (ec_sq b) 3"
    using has_room_iff [OF sq_wfD(1) [OF ec_wfD(1) [OF wf]], of 3] room by simp
  obtain c dq where c: "store_packet_for_dupe_checks h b1 = Inr c" "c = b1\<lparr>ec_dq := dq\<rparr>" "ec_wf c"
    "items dq = dq_after h (items (ec_dq b1))"
    using store_packet_returns [OF b1(1), of h] unfolding returns_def by blast
  have mem: "slim h \<in> set (items (ec_dq c))" using c(2,4) by (simp add: dq_after_def DUPE_QUEUE_LENGTH_def)
  have fields: "ec_node_addr c = ec_node_addr b1" "0 < pb_free_cells (ec_sq c)" "lane_view c = lane_view b1" "ec_keep b1 c"
    using c(2) b1(2) by (simp_all add: lane_view_def ec_keep_def fun_eq_iff)
  have t: "MSG_TYPE_NEIGHBOR_ACK \<in> {MSG_TYPE_NEIGHBOR_ACK, MSG_TYPE_MULTICAST_UNICAST_ACK}"
    "lane_timer MSG_TYPE_NEIGHBOR_ACK = Some Neighbor_Ack_Timer" by (simp_all add: lane_timer_def msg_type_defs)
  let ?up = "init_unicast_packet ACK 0 (hdr_originator h) (ec_node_addr b1) (hdr_seqno h) (hdr_sender h)"
  obtain b2 where b2: "queue_ack MSG_TYPE_NEIGHBOR_ACK Neighbor_Ack_Timer h c = Inr b2" "ec_dq b2 = ec_dq c"
    "queues MSG_TYPE_NEIGHBOR_ACK (unicast_bytes ?up) [] 0 None c b2"
    using queue_ack_returns [OF c(3) t fields(2), of h] none fields(1,3) unfolding returns_def by metis
  have run: "neighbor_data_received cb h data l b = Inr b2"
    using f r client c(1) b2(1) by (simp add: neighbor_data_received_def Let_def)
  obtain q m n u where v: "appended (unicast_bytes ?up) [] 0 None (q, m, n, u)"
    "lane_view b2 MSG_TYPE_NEIGHBOR_ACK = lane_view b1 MSG_TYPE_NEIGHBOR_ACK @ [(q, m, n, u)]"
    using b2(3) fields(3) unfolding queues_def sq_effect_def by (metis prod_cases4)
  have "take 9 q = unicast_bytes ?up" using v(1) by (simp add: appended_def)
  with v(2) b2(2,3) mem ec_keep_trans [OF fields(4)] show ?thesis
    unfolding run returns_Inr by (auto simp: queues_def)
qed

subsection \<open>The sender\<close>

text \<open>
  An acknowledgement is matched against the lanes in their order, so the node's own queued
  acknowledgements come first.
\<close>

lemma find_in_lanes:
  assumes "t < 7" and "\<forall>s < t. \<forall>i \<in> set (pb_lane pb s). \<not> P i" and "pb_lane pb t = as @ i # is" and "\<forall>j \<in> set as. \<not> P j" and "P i"
  shows "List.find P (all_slots pb) = Some i"
proof -
  have "[0..<7] = [0..<t] @ t # [Suc t..<7]"
    using upt_add_eq_append [of 0 t "7 - t"] assms(1) by (simp add: upt_conv_Cons)
  then have e: "all_slots pb = (concat (map (pb_lane pb) [0..<t]) @ as) @ i # (is @ concat (map (pb_lane pb) [Suc t..<7]))"
    using assms(3) by (simp add: all_slots_def)
  have "List.find P (concat (map (pb_lane pb) [0..<t]) @ as) = None"
    using assms(2,4) by (auto simp: find_None)
  then show ?thesis
    using assms(5) unfolding e find_append [of P "concat (map (pb_lane pb) [0..<t]) @ as"] by simp
qed

lemma first_match_acked:
  assumes wf: "ec_wf c" and t: "t < 7" and v: "lane_view c t = (p, l, n, u) # ps"
    and hit: "originator_seqno_cmp p h" and own: "\<forall>s < t. \<forall>v \<in> set (lane_view c s). \<not> originator_seqno_cmp (fst v) h"
  shows "returns (ack_received tm h c) (\<lambda>c'. ec_wf c' \<and>
    lane_view c' t = (if remove1 (hdr_sender h) u = [] then [] else [(p, l, n, remove1 (hdr_sender h) u)]) @ ps \<and>
    (\<forall>s < 7. s \<noteq> t \<longrightarrow> lane_view c' s = lane_view c s))"
proof (rule returns_mono [OF ack_received_returns [OF wf]])
  fix c'
  let ?hit = "\<lambda>i. originator_seqno_cmp (bp_p (packet_at (ec_sq c) i)) h"
  assume r: "ec_wf c' \<and> ec_keep c c' \<and> ec_dq c' = ec_dq c \<and> ack_effect h c c' \<and>
    (\<forall>u < 7. set (pb_lane (ec_sq c') u) \<subseteq> set (pb_lane (ec_sq c) u)) \<and> pb_free_cells (ec_sq c) \<le> pb_free_cells (ec_sq c')"
  note wf' = sq_wfD(1) [OF ec_wfD(1) [OF wf]]
  obtain i "is" where i: "pb_lane (ec_sq c) t = i # is" "packet_view (packet_at (ec_sq c) i) = (p, l, n, u)"
    "views (ec_sq c) is = ps"
    using v by (auto simp: lane_view_views views_def)
  have first: "\<forall>s < t. \<forall>j \<in> set (pb_lane (ec_sq c) s). \<not> ?hit j"
    using own by (auto simp: lane_view_def packet_view_def)
  have "?hit i" using hit i(2) by (simp add: packet_view_def)
  from find_in_lanes [OF t first, of "[]" i "is"] i(1) this
  have "List.find ?hit (all_slots (ec_sq c)) = Some i" by simp
  with r obtain s as cs where s: "s < 7" "pb_lane (ec_sq c) s = as @ i # cs"
    "sq_effect s (views (ec_sq c) as @ acked (hdr_sender h) (packet_view (packet_at (ec_sq c) i)) @ views (ec_sq c) cs) c c'"
    by (auto simp: ack_effect_def)
  have here: "s = t" using lane_disjoint [OF wf' s(1) t, of i] s(2) i(1) by auto
  have "as = [] \<and> cs = is"
    using i(1) s(2) here chain_distinct [OF pb_wfD(5) [OF wf' t]] by (cases as) auto
  with s(3) i(2,3) here r show "ec_wf c' \<and>
    lane_view c' t = (if remove1 (hdr_sender h) u = [] then [] else [(p, l, n, remove1 (hdr_sender h) u)]) @ ps \<and>
    (\<forall>s < 7. s \<noteq> t \<longrightarrow> lane_view c' s = lane_view c s)"
    by (simp add: sq_effect_def views_def)
qed

subsection \<open>The round\<close>

text \<open>The conditions under which two nodes hear each other.\<close>

definition hears :: "'a ec_scheme \<Rightarrow> rimeaddr \<Rightarrow> bool" where
  "hears c a \<longleftrightarrow> ec_ns_set c \<and> a \<in> set (neighbor_addrs (ec_ns c))"

lemma neighbor_recv_hears:
  assumes "ec_wf c" and "hears c (hdr_sender h)" and "read_header fr = Inr h"
    and "frame_for_us (ec_node_addr c) h fr len = Inr (Some (kind, off, l))"
  shows "neighbor_recv cb fr len c =
    (if IS_PACKET_FLAG_SET h ACK then ack_received Neighbor_Data_Timer h c else neighbor_data_received cb h (drop off fr) l c)"
  using assms neighbors_is_neighbor_eq [OF ec_wfD(4) [OF assms(1)], of "hdr_sender h"]
  by (simp add: neighbor_recv_def hears_def conn_ns_def)

text \<open>The data leaves, and its frame is for every neighbor that has not acknowledged it.\<close>

lemma data_leaves:
  assumes wf: "ec_wf a" and v: "lane_view a MSG_TYPE_NEIGHBOR_DATA = (p, l, n, u) # ps" "n < MAX_TIMES_SENT_MESH" "me \<in> set u"
  obtains a1 h1 kind off where "send_neighbor_data True a = Inr a1"
    and "sends MSG_TYPE_NEIGHBOR_DATA ((p, l, n + 1, u) # ps) [(Neighbor_Conn, None, neighbor_frame p (p, l, n, u))] a a1"
    and "read_header (neighbor_frame p (p, l, n, u)) = Inr h1"
    and "frame_for_us me h1 (neighbor_frame p (p, l, n, u)) (length (neighbor_frame p (p, l, n, u))) = Inr (Some (kind, off, l))"
    and "drop off (neighbor_frame p (p, l, n, u)) = take (unat l) (drop 7 p)"
    and "hdr_originator h1 = hdr_originator (header_of p)" and "hdr_seqno h1 = hdr_seqno (header_of p)"
    and "hdr_sender h1 = hdr_sender (header_of p)" and "hdr_hops h1 = hdr_hops (header_of p)" and "\<not> IS_PACKET_FLAG_SET h1 ACK"
proof -
  have t: "MSG_TYPE_NEIGHBOR_DATA < 7" by (simp add: msg_type_defs)
  obtain bp where bp: "cell_ok bp" "lane_ok MSG_TYPE_NEIGHBOR_DATA bp" "bp_p bp = p" "items (unacked_ns bp) = u"
    "length p = 39" "unat l \<le> 24" using lane_head [OF wf t v(1)] by metis
  have typed: "hdr_flags (header_of p) = BROADCAST" "length u \<le> 8" "u \<noteq> []"
    using bp(2-4) unacked_at_most_eight [OF bp(1)] v(3) by (auto simp: lane_ok_def lane_flags_eq)
  have live: "live MAX_TIMES_SENT_MESH ((p, l, n, u) # ps) = (p, l, n, u) # ps" using v(2) by (simp add: live_def not_le)
  obtain a1 where a1: "send_neighbor_data True a = Inr a1"
    "sends MSG_TYPE_NEIGHBOR_DATA ((p, l, n + 1, u) # ps) [(Neighbor_Conn, None, neighbor_frame p (p, l, n, u))] a a1"
    using send_neighbor_data_sends [OF wf, of True] v(1) live by (auto simp: returns_def Let_def)
  show thesis
    by (rule neighbor_frame_arrives [OF bp(5,6) typed(1,3,2), of n me]) (use v(3) in simp, rule that [OF a1])
qed

text \<open>The acknowledgement of \<open>b\<close> comes home to \<open>a\<close>, which has no acknowledgement of this packet to send.\<close>

lemma ack_comes_home:
  assumes wf: "ec_wf a" and v: "lane_view a MSG_TYPE_NEIGHBOR_DATA = (p, l, n, u) # ps" and b: "hears a b"
    and own: "\<forall>v \<in> set (lane_view a MSG_TYPE_NEIGHBOR_ACK). \<not> originator_seqno_cmp (fst v) (header_of p)"
    and ack: "ack = unicast_bytes (init_unicast_packet ACK 0 (hdr_originator (header_of p)) b (hdr_seqno (header_of p)) (ec_node_addr a))"
  obtains a' where "neighbor_recv cb ack (length ack) a = Inr a'"
    and "lane_view a' MSG_TYPE_NEIGHBOR_DATA = (if remove1 b u = [] then [] else [(p, l, n, remove1 b u)]) @ ps"
proof -
  let ?h = "init_packet (UNICAST OR ACK) 0 (hdr_originator (header_of p)) b (hdr_seqno (header_of p))"
  have t: "MSG_TYPE_NEIGHBOR_DATA < 7" by (simp add: msg_type_defs)
  have hit: "originator_seqno_cmp p ?h" "hdr_sender ?h = b" "IS_PACKET_FLAG_SET ?h ACK"
    by (simp_all add: originator_seqno_cmp_def init_packet_def IS_PACKET_FLAG_SET_def packet_flag_defs)
  have own': "\<forall>s < MSG_TYPE_NEIGHBOR_DATA. \<forall>v \<in> set (lane_view a s). \<not> originator_seqno_cmp (fst v) ?h"
    using own by (simp add: originator_seqno_cmp_def init_packet_def msg_type_defs)
  obtain a' where a': "ack_received Neighbor_Data_Timer ?h a = Inr a'"
    "lane_view a' MSG_TYPE_NEIGHBOR_DATA = (if remove1 b u = [] then [] else [(p, l, n, remove1 b u)]) @ ps"
    using first_match_acked [OF wf t v hit(1) own', of Neighbor_Data_Timer] hit(2) unfolding returns_def by metis
  note arrives = ack_arrives [OF ack]
  show thesis
    using that [OF _ a'(2)] neighbor_recv_hears [OF wf _ arrives(1), of "length ack" Kind_Unicast 9 0 cb] arrives(2) hit(2,3) b a'(1)
    by simp
qed

text \<open>
  C3: Data for the neighbors goes round. Node \<open>a\<close> sends the packet at the head of its lane; a
  neighbor \<open>b\<close> that has not acknowledged it delivers the data to its client, remembers the packet
  and queues an acknowledgement; when that is sent and arrives, \<open>a\<close> counts \<open>b\<close> as served, and the
  packet leaves the queue of \<open>a\<close> if \<open>b\<close> was the last one.
\<close>

theorem neighbor_data_is_acknowledged:
  assumes wf: "ec_wf a" "ec_wf b" and hears: "hears a (ec_node_addr b)" "hears b (ec_node_addr a)"
    and v: "lane_view a MSG_TYPE_NEIGHBOR_DATA = (p, l, n, u) # ps" "n < MAX_TIMES_SENT_MESH" "ec_node_addr b \<in> set u"
    and h: "h = header_of p" "hdr_sender h = ec_node_addr a"
    and own: "\<forall>v \<in> set (lane_view a MSG_TYPE_NEIGHBOR_ACK). \<not> originator_seqno_cmp (fst v) h"
    and new: "slim h \<notin> set (items (ec_dq b))" "3 \<le> pb_free_cells (ec_sq b)"
    and client: "cb_neighbor_recv cb b (hdr_originator h) (ec_node_addr a) (hdr_hops h) (hdr_seqno h)
        (take (unat l) (drop 7 p)) l = Inr b1"
      "ec_wf b1" "0 < pb_free_cells (ec_sq b1)" "ec_node_addr b1 = ec_node_addr b" "lane_view b1 MSG_TYPE_NEIGHBOR_ACK = []"
      "\<forall>t < 7. \<forall>v \<in> set (lane_view b1 t). \<not> unicast_packet_cmp (fst v)
         (init_unicast_packet ACK 0 (hdr_originator h) (ec_node_addr b) (hdr_seqno h) (ec_node_addr a))"
  shows "\<exists>a1 fr b2 b3 ack a2. send_neighbor_data True a = Inr a1 \<and> ec_sent a1 = ec_sent a @ [(Neighbor_Conn, None, fr)] \<and>
     neighbor_recv cb fr (length fr) b = Inr b2 \<and> slim h \<in> set (items (ec_dq b2)) \<and>
     send_neighbor_ack True b2 = Inr b3 \<and> ec_sent b3 = ec_sent b1 @ [(Neighbor_Conn, None, ack)] \<and>
     neighbor_recv cb' ack (length ack) a1 = Inr a2 \<and>
     lane_view a2 MSG_TYPE_NEIGHBOR_DATA =
       (if remove1 (ec_node_addr b) u = [] then [] else [(p, l, n + 1, remove1 (ec_node_addr b) u)]) @ ps"
proof -
  let ?fr = "neighbor_frame p (p, l, n, u)"
  obtain a1 h1 kind off where run_a: "send_neighbor_data True a = Inr a1"
    and a1: "sends MSG_TYPE_NEIGHBOR_DATA ((p, l, n + 1, u) # ps) [(Neighbor_Conn, None, ?fr)] a a1"
    and fr: "read_header ?fr = Inr h1" "frame_for_us (ec_node_addr b) h1 ?fr (length ?fr) = Inr (Some (kind, off, l))"
      "drop off ?fr = take (unat l) (drop 7 p)" "hdr_originator h1 = hdr_originator h" "hdr_seqno h1 = hdr_seqno h"
      "hdr_sender h1 = ec_node_addr a" "hdr_hops h1 = hdr_hops h" "\<not> IS_PACKET_FLAG_SET h1 ACK"
    using data_leaves [OF wf(1) v] h by metis
  have slim: "slim h1 = slim h" by (simp add: slim_def fr(4,5))
  let ?ack = "unicast_bytes (init_unicast_packet ACK 0 (hdr_originator h) (ec_node_addr b) (hdr_seqno h) (ec_node_addr a))"
  obtain b2 q m k w where b2: "neighbor_data_received cb h1 (take (unat l) (drop 7 p)) l b = Inr b2" "ec_wf b2"
    "slim h \<in> set (items (ec_dq b2))" "ec_keep b1 b2" "lane_view b2 MSG_TYPE_NEIGHBOR_ACK = [(q, m, k, w)]" "take 9 q = ?ack"
    using delivered_and_acknowledged [OF wf(2), of h1 cb "take (unat l) (drop 7 p)" l b1] new client slim fr(4-7)
    unfolding returns_def by (metis append_Nil)
  have run_b: "neighbor_recv cb ?fr (length ?fr) b = Inr b2"
    using neighbor_recv_hears [OF wf(2) _ fr(1,2), of cb] fr(3,6,8) hears(2) b2(1) by simp
  obtain b3 where run_ack: "send_neighbor_ack True b2 = Inr b3" and b3: "ec_sent b3 = ec_sent b1 @ [(Neighbor_Conn, None, ?ack)]"
    using send_neighbor_ack_sends [OF b2(2), of True] b2(4-6) by (auto simp: returns_def sends_def ec_keep_def)
  have a1': "ec_wf a1" "lane_view a1 MSG_TYPE_NEIGHBOR_DATA = (p, l, n + 1, u) # ps" "ec_node_addr a1 = ec_node_addr a"
    "hears a1 (ec_node_addr b)" "lane_view a1 MSG_TYPE_NEIGHBOR_ACK = lane_view a MSG_TYPE_NEIGHBOR_ACK"
    using a1 hears(1) by (simp_all add: sends_def ec_frame_def hears_def sq_effect_def) (simp add: msg_type_defs)
  have own': "\<forall>v \<in> set (lane_view a1 MSG_TYPE_NEIGHBOR_ACK). \<not> originator_seqno_cmp (fst v) (header_of p)"
    using own a1'(5) h(1) by simp
  obtain a2 where home: "neighbor_recv cb' ?ack (length ?ack) a1 = Inr a2" "lane_view a2 MSG_TYPE_NEIGHBOR_DATA =
      (if remove1 (ec_node_addr b) u = [] then [] else [(p, l, n + 1, remove1 (ec_node_addr b) u)]) @ ps"
    using ack_comes_home [OF a1'(1,2,4) own', of ?ack cb'] a1'(3) h(1) by metis
  have "ec_sent a1 = ec_sent a @ [(Neighbor_Conn, None, ?fr)]" using a1 by (simp add: sends_def)
  with run_a run_b b2(3) run_ack b3 home show ?thesis by blast
qed

text \<open>Node 3 of the simulated topology, as a sink, which hears node 2.\<close>

definition listening :: node_properties where
  "listening = (projr (setup_parse (setup_bytes (cooja_packet 3 1 1 0 [4, 2])) False booted))\<lparr>np_is_sink_node := True\<rparr>"

lemma listening_facts:
  "ec_wf listening" "hears listening (2, 0)" "ec_node_addr listening = (3, 0)" "items (ec_dq listening) = []"
  "pb_free_cells (ec_sq listening) = 12" "t < 7 \<Longrightarrow> lane_view listening t = []"
  "ec_neighbors_recv listening o' s h n [6] l = Inr listening"
proof -
  let ?sp = "cooja_packet 3 1 1 0 [4, 2]"
  obtain b where b: "setup_parse (setup_bytes ?sp) False booted = Inr b" "node_inv b" "set_up ?sp b" "same_queues booted b"
    using setup_parse_returns [OF booted_facts(1), of ?sp "[]" False] by (auto simp: returns_def cooja_packet_def)
  have l: "listening = b\<lparr>np_is_sink_node := True\<rparr>" by (simp add: listening_def b(1))
  have "node_inv listening" using node_inv_fields(12) [OF b(2)] by (simp add: l)
  then show "ec_wf listening" using ec_invD(1) node_invD(1) by blast
  show "hears listening (2, 0)" "ec_node_addr listening = (3, 0)" "ec_neighbors_recv listening o' s h n [6] l = Inr listening"
    using b(3) by (simp_all add: l hears_def set_up_def cooja_packet_def ec_neighbors_recv_def packet_type_def read_mem_def)
  show "items (ec_dq listening) = []" "pb_free_cells (ec_sq listening) = 12"
    using b(4) booted_facts(2,3) by (simp_all add: l same_queues_def)
  show "lane_view listening t = []" if "t < 7"
    using b(4) boot_returns [OF fresh_powered] booted_eq that
    by (auto simp: l same_queues_def returns_def lane_view_def)
qed

lemma deployed_tells:
  obtains a p where "ec_wf a" and "hears a (3, 0)" and "ec_node_addr a = (2, 0)"
    and "lane_view (a :: node_properties) MSG_TYPE_NEIGHBOR_DATA = [(p, 1, 0, [(1, 0), (3, 0), (6, 0)])]"
    and "\<forall>t < 7. t \<noteq> MSG_TYPE_NEIGHBOR_DATA \<longrightarrow> lane_view a t = []" and "take 8 p = header_bytes (init_broadcast_packet 0 0 o' (2, 0) 7) @ [6]"
    and "length p = 39" and "pb_free_cells (ec_sq a) = 11"
proof -
  note d = deployed_connection
  have f: "0 < pb_free_cells (ec_sq deployed)" using d(2) by simp
  have e: "unat (1 :: byte) \<le> 24" "unat (1 :: byte) \<le> length [6 :: byte]" by simp_all
  obtain a where "queues MSG_TYPE_NEIGHBOR_DATA (header_bytes (init_broadcast_packet 0 0 o' (2, 0) 7)) [6] 1 (Some (ec_ns deployed)) deployed a"
    using ec_reliable_broadcast_ns_calls [OF d(1) f d(3) e, of o' "(2, 0)" 0 7] deployed_neighbor_lane(2)
    by (auto simp: returns_def Let_def calls_def)
  then obtain v where a: "ec_wf a" "ec_keep deployed a"
    "appended (header_bytes (init_broadcast_packet 0 0 o' (2, 0) 7)) [6] 1 (Some (ec_ns deployed)) v"
    "sq_effect MSG_TYPE_NEIGHBOR_DATA (lane_view deployed MSG_TYPE_NEIGHBOR_DATA @ [v]) deployed a"
    "pb_free_cells (ec_sq a) = 11"
    using d(2) unfolding queues_def by auto
  obtain p l n u where v: "v = (p, l, n, u)" by (cases v)
  have p: "length p = 39" "take 8 p = header_bytes (init_broadcast_packet 0 0 o' (2, 0) 7) @ [6]"
    "v = (p, 1, 0, [(1, 0), (3, 0), (6, 0)])"
    using a(3) d(4) by (simp_all add: v appended_def)
  have lanes: "lane_view a MSG_TYPE_NEIGHBOR_DATA = [v]" "\<forall>t < 7. t \<noteq> MSG_TYPE_NEIGHBOR_DATA \<longrightarrow> lane_view a t = []"
    using a(4) deployed_neighbor_lane(1) deployed_lanes by (simp_all add: sq_effect_def)
  have "ec_node_addr deployed = (2, 0)" using deployed_facts(2) by (simp add: set_up_def cooja_packet_def)
  then have "ec_node_addr a = (2, 0)" "hears a (3, 0)"
    using a(2) d(3,4) by (simp_all add: ec_keep_def hears_def neighbor_addrs_def items_def)
  with a(1,5) p lanes that show thesis by metis
qed

lemma round_witness:
  "\<exists>(a :: node_properties) a1 b2 b3 a2 fr ack. send_neighbor_data True a = Inr a1 \<and>
     neighbor_recv ec_cb fr (length fr) listening = Inr b2 \<and> send_neighbor_ack True b2 = Inr b3 \<and>
     neighbor_recv ec_cb ack (length ack) a1 = Inr a2 \<and>
     (\<exists>p. lane_view a2 MSG_TYPE_NEIGHBOR_DATA = [(p, 1, 1, [(1, 0), (6, 0)])])"
proof -
  obtain a p where a: "ec_wf a" "hears a (3, 0)" "ec_node_addr a = (2, 0)"
    "lane_view (a :: node_properties) MSG_TYPE_NEIGHBOR_DATA = [(p, 1, 0, [(1, 0), (3, 0), (6, 0)])]"
    "\<forall>t < 7. t \<noteq> MSG_TYPE_NEIGHBOR_DATA \<longrightarrow> lane_view a t = []"
    "take 8 p = header_bytes (init_broadcast_packet 0 0 (2, 0) (2, 0) 7) @ [6]"
    "length p = 39" using deployed_tells [of "(2, 0)"] .
  note b = listening_facts
  have "p = take 8 p @ drop 8 p" by simp
  then have p: "p = header_bytes (init_broadcast_packet 0 0 (2, 0) (2, 0) 7) @ [6] @ drop 8 p" using a(6) by simp
  have h: "header_of p = init_broadcast_packet 0 0 (2, 0) (2, 0) 7" by (subst p) simp
  have "drop 7 p = [6] @ drop 8 p" by (subst p) simp
  then have data: "take 1 (drop 7 p) = [6]" by simp
  have lanes: "\<forall>v \<in> set (lane_view a MSG_TYPE_NEIGHBOR_ACK). \<not> originator_seqno_cmp (fst v) (header_of p)"
    "\<forall>t < 7. \<forall>v \<in> set (lane_view listening t). \<not> unicast_packet_cmp (fst v)
       (init_unicast_packet ACK 0 (hdr_originator (header_of p)) (ec_node_addr listening) (hdr_seqno (header_of p)) (ec_node_addr a))"
    "lane_view listening MSG_TYPE_NEIGHBOR_ACK = []"
    using a(5) b(6) by (simp_all add: msg_type_defs)
  have client: "cb_neighbor_recv ec_cb listening (hdr_originator (header_of p)) (ec_node_addr a) (hdr_hops (header_of p))
      (hdr_seqno (header_of p)) (take (unat (1 :: byte)) (drop 7 p)) 1 = Inr listening"
    using b(7) data by (simp add: ec_cb_def)
  have other: "hears a (ec_node_addr listening)" "hears listening (ec_node_addr a)" "(0 :: byte) < MAX_TIMES_SENT_MESH"
    "ec_node_addr listening \<in> set [(1, 0), (3, 0), (6, 0)]" "hdr_sender (header_of p) = ec_node_addr a"
    "slim (header_of p) \<notin> set (items (ec_dq listening))" "3 \<le> pb_free_cells (ec_sq listening)" "0 < pb_free_cells (ec_sq listening)"
    using a(2,3) b(2-5) by (simp_all add: h MAX_TIMES_SENT_MESH_def init_broadcast_packet_def init_packet_def)
  from neighbor_data_is_acknowledged [OF a(1) b(1) other(1,2) a(4) other(3,4) refl other(5) lanes(1) other(6,7) client b(1)
      other(8) refl lanes(3,2), of ec_cb] b(3)
  show ?thesis by fastforce
qed

subsection \<open>Acknowledgements that cross\<close>

text \<open>
  C34: A node's own acknowledgement gets in the way of the one it waits for. While an acknowledgement
  that the node has to send for a packet is still queued, and the node has forwarded the packet, an
  arriving acknowledgement of the forwarded packet is taken for the node's own: the forwarded packet
  still waits for its receiver, and the queued acknowledgement is removed without being sent, unless
  the memory it was built in lists further receivers of an older packet.
\<close>

theorem own_acknowledgement_in_the_way:
  assumes "ec_wf c" and "lane_view c MSG_TYPE_NEIGHBOR_ACK = (q, l, n, u) # ps" and "originator_seqno_cmp q h"
  shows "\<exists>c'. ack_received Neighbor_Data_Timer h c = Inr c' \<and>
     lane_view c' MSG_TYPE_NEIGHBOR_DATA = lane_view c MSG_TYPE_NEIGHBOR_DATA \<and>
     lane_view c' MSG_TYPE_NEIGHBOR_ACK = (if remove1 (hdr_sender h) u = [] then [] else [(q, l, n, remove1 (hdr_sender h) u)]) @ ps"
proof -
  have t: "MSG_TYPE_NEIGHBOR_ACK < 7" "\<forall>s < MSG_TYPE_NEIGHBOR_ACK. P s" for P by (simp_all add: msg_type_defs)
  obtain c' where "ack_received Neighbor_Data_Timer h c = Inr c'"
    "lane_view c' MSG_TYPE_NEIGHBOR_ACK = (if remove1 (hdr_sender h) u = [] then [] else [(q, l, n, remove1 (hdr_sender h) u)]) @ ps"
    "\<forall>s < 7. s \<noteq> MSG_TYPE_NEIGHBOR_ACK \<longrightarrow> lane_view c' s = lane_view c s"
    using first_match_acked [OF assms(1) t(1) assms(2,3) t(2), of Neighbor_Data_Timer] unfolding returns_def by blast
  then show ?thesis by (simp add: msg_type_defs)
qed

text \<open>Node 2 has forwarded packet 7 of node 9, which node 3 had sent to it, and has to acknowledge it.\<close>

lemma own_acknowledgement_witness:
  "\<exists>(c :: node_properties) c' p. lane_view c MSG_TYPE_NEIGHBOR_DATA = [(p, 1, 0, [(1, 0), (3, 0), (6, 0)])] \<and>
     ack_received Neighbor_Data_Timer (init_packet (UNICAST OR ACK) 0 (9, 0) (6, 0) 7) c = Inr c' \<and>
     lane_view c' MSG_TYPE_NEIGHBOR_DATA = lane_view c MSG_TYPE_NEIGHBOR_DATA"
proof -
  let ?h = "init_packet BROADCAST 0 (9, 0) (3, 0) 7" and ?up = "init_unicast_packet ACK 0 (9, 0) (2, 0) 7 (3, 0)"
  obtain a p where a: "ec_wf a" "ec_node_addr a = (2, 0)"
    "lane_view (a :: node_properties) MSG_TYPE_NEIGHBOR_DATA = [(p, 1, 0, [(1, 0), (3, 0), (6, 0)])]"
    "\<forall>t < 7. t \<noteq> MSG_TYPE_NEIGHBOR_DATA \<longrightarrow> lane_view a t = []"
    "take 8 p = header_bytes (init_broadcast_packet 0 0 (9, 0) (2, 0) 7) @ [6]" "pb_free_cells (ec_sq a) = 11"
    using deployed_tells [of "(9, 0)"] .
  have "p = header_bytes (init_broadcast_packet 0 0 (9, 0) (2, 0) 7) @ [6] @ drop 8 p"
    using append_take_drop_id [of 8 p] unfolding a(5) by simp
  then have p: "p ! 0 = BROADCAST"
    by (metis append_Cons header_bytes_def header.select_convs(1) init_broadcast_packet_def init_packet_def nth_Cons_0 or.right_neutral)
  have "\<not> unicast_packet_cmp p ?up"
  proof
    assume "unicast_packet_cmp p ?up"
    then have "take 9 p ! 0 = unicast_bytes ?up ! 0" by (simp add: unicast_packet_cmp_def UNICAST_PACKET_HDR_SIZE_def)
    with p show False
      by (simp add: unicast_bytes_def header_bytes_def init_unicast_packet_def init_packet_def packet_flag_defs)
  qed
  then have none: "\<forall>t < 7. \<forall>v \<in> set (lane_view a t). \<not> unicast_packet_cmp (fst v) ?up"
    using a(3,4) by (metis empty_iff fst_conv list.set(1) set_ConsD)
  have t: "MSG_TYPE_NEIGHBOR_ACK \<in> {MSG_TYPE_NEIGHBOR_ACK, MSG_TYPE_MULTICAST_UNICAST_ACK}"
    "lane_timer MSG_TYPE_NEIGHBOR_ACK = Some Neighbor_Ack_Timer" "0 < pb_free_cells (ec_sq a)"
    using a(6) by (simp_all add: lane_timer_def msg_type_defs)
  have h: "hdr_originator ?h = (9, 0)" "hdr_sender ?h = (3, 0)" "hdr_seqno ?h = 7" by (simp_all add: init_packet_def)
  obtain c where c: "queues MSG_TYPE_NEIGHBOR_ACK (unicast_bytes ?up) [] 0 None a c"
    using queue_ack_returns [OF a(1) t, of ?h] none unfolding h a(2) returns_def by metis
  then obtain q l n u where v: "appended (unicast_bytes ?up) [] 0 None (q, l, n, u)"
    "sq_effect MSG_TYPE_NEIGHBOR_ACK (lane_view a MSG_TYPE_NEIGHBOR_ACK @ [(q, l, n, u)]) a c" and wf: "ec_wf c"
    unfolding queues_def by (metis prod_cases4)
  have lanes: "lane_view c MSG_TYPE_NEIGHBOR_ACK = [(q, l, n, u)]" "lane_view c MSG_TYPE_NEIGHBOR_DATA = lane_view a MSG_TYPE_NEIGHBOR_DATA"
    using v(2) a(4) by (simp_all add: sq_effect_def) (simp_all add: msg_type_defs)
  have "take 9 q = unicast_bytes ?up" using v(1) by (simp add: appended_def)
  then have "header_of q = up_hdr ?up" using header_of_unicast [of ?up "drop 9 q"] by (metis append_take_drop_id)
  then have "originator_seqno_cmp q (init_packet (UNICAST OR ACK) 0 (9, 0) (6, 0) 7)"
    by (simp add: originator_seqno_cmp_def init_unicast_packet_def init_packet_def)
  from own_acknowledgement_in_the_way [OF wf lanes(1) this] lanes(2) a(3) show ?thesis by metis
qed

end
