(* ===== verification/Node_Spec.thy ===== *)
theory Node_Spec
  imports Example_Nodes
begin

text \<open>
  What a node does with what it senses and hears: the fires it knows of, an emergency of its own,
  the packets it ignores, the leader of the clock it follows, and the packets that stop it.
\<close>

subsection \<open>Fires\<close>

lemma remove_found:
  "distinct (map fst es) \<Longrightarrow> List.find (\<lambda>e. snd e = x) es = Some e \<Longrightarrow>
   map snd (filter (\<lambda>e'. fst e' \<noteq> fst e) es) = remove1 x (map snd es)"
proof (induction es)
  case (Cons f es)
  show ?case
  proof (cases "snd f = x")
    case True
    have "fst e' \<noteq> fst f" if "e' \<in> set es" for e' using that Cons.prems(1) by (metis distinct.simps(2) image_eqI image_set list.simps(9))
    then have "filter (\<lambda>e'. fst e' \<noteq> fst f) es = es" by (simp add: filter_id_conv)
    with True Cons.prems(2) show ?thesis by auto
  next
    case False
    then have f: "List.find (\<lambda>e. snd e = x) es = Some e" using Cons.prems(2) by simp
    then have "fst f \<noteq> fst e" using find_Some_in [OF f] Cons.prems(1) by force
    with Cons f False show ?thesis by simp
  qed
qed simp

lemma add_fire_returns:
  assumes inv: "node_inv np"
  shows "returns (add_coordinate_as_burning co np) (\<lambda>np'. \<exists>q. np' = np\<lparr>np_emergency_coords := q\<rparr> \<and> node_inv np' \<and>
     items q = (if co \<in> set (items (np_emergency_coords np)) \<or> length (items (np_emergency_coords np)) = 10
                then items (np_emergency_coords np) else co # items (np_emergency_coords np)))"
proof -
  let ?q = "np_emergency_coords np"
  note q = node_invD(2,3) [OF inv]
  have f: "queue_buffer_find ?q (\<lambda>c. coordinate_cmp c co) = Inr (map_option fst (List.find (\<lambda>e. snd e = co) (entries ?q)))"
    using find_entries [OF q(1), of "\<lambda>c. c = co"] by simp
  have in_iff: "List.find (\<lambda>e. snd e = co) (entries ?q) = None \<longleftrightarrow> co \<notin> set (items ?q)"
    by (auto simp: find_None items_def)
  have le: "length (items ?q) \<le> 10" using length_entries_le [OF q(1)] q(2) by (simp add: items_def)
  have keep: "\<exists>q. np = np\<lparr>np_emergency_coords := q\<rparr> \<and> node_inv np \<and> items q = items ?q"
    using inv by (intro exI [of _ ?q]) simp
  show ?thesis
  proof (cases "List.find (\<lambda>e. snd e = co) (entries ?q)")
    case (Some e)
    then have "co \<in> set (items ?q)" using in_iff by simp
    moreover have "add_coordinate_as_burning co np = Inr np"
      using Some f by (simp add: add_coordinate_as_burning_def)
    ultimately show ?thesis by (simp add: keep)
  next
    case None
    then have n: "co \<notin> set (items ?q)" using in_iff by simp
    show ?thesis
    proof (cases "length (items ?q) = 10")
      case True
      then have "queue_buffer_push_front ?q co = Inr (?q, None)"
        using push_front_full [OF q(1)] q(2) by (simp add: items_def)
      with None f have "add_coordinate_as_burning co np = Inr np" by (simp add: add_coordinate_as_burning_def)
      with True show ?thesis by (simp add: keep)
    next
      case False
      then have "length (entries ?q) < capacity ?q" using le q(2) by (simp add: items_def)
      from sq.push_front_returns [OF q(1) this, of co] obtain q' i where
        "queue_buffer_push_front ?q co = Inr (q', Some i)" "qb_wf q'" "entries q' = (i, co) # entries ?q" "capacity q' = 10"
        using q(2) by (auto simp: returns_def)
      with None f n False node_inv_coords [OF inv, of q'] show ?thesis
        by (auto simp: add_coordinate_as_burning_def items_def)
    qed
  qed
qed

lemma remove_fire_returns:
  assumes inv: "node_inv np"
  shows "returns (remove_coordinate_as_burning co np) (\<lambda>np'. \<exists>q. np' = np\<lparr>np_emergency_coords := q\<rparr> \<and> node_inv np' \<and>
     items q = remove1 co (items (np_emergency_coords np)))"
proof -
  let ?q = "np_emergency_coords np"
  note q = node_invD(2,3) [OF inv]
  have f: "queue_buffer_find ?q (\<lambda>c. coordinate_cmp c co) = Inr (map_option fst (List.find (\<lambda>e. snd e = co) (entries ?q)))"
    using find_entries [OF q(1), of "\<lambda>c. c = co"] by simp
  show ?thesis
  proof (cases "List.find (\<lambda>e. snd e = co) (entries ?q)")
    case None
    then have "co \<notin> set (items ?q)" by (auto simp: find_None items_def)
    then have "remove1 co (items ?q) = items ?q" by (simp add: remove1_idem)
    moreover have "remove_coordinate_as_burning co np = Inr np"
      using None f by (simp add: remove_coordinate_as_burning_def)
    moreover have "\<exists>q. np = np\<lparr>np_emergency_coords := q\<rparr> \<and> node_inv np \<and> items q = items ?q"
      using inv by (intro exI [of _ ?q]) simp
    ultimately show ?thesis by simp
  next
    case (Some e)
    then have "fst e \<in> fst ` set (entries ?q)" by (auto dest: find_Some_in)
    from sq.free_returns [OF q(1) this] obtain q' where q': "queue_buffer_free ?q (fst e) = Inr q'" "qb_wf q'"
      "entries q' = filter (\<lambda>e'. fst e' \<noteq> fst e) (entries ?q)" "capacity q' = 10"
      using q(2) by (auto simp: returns_def)
    have "items q' = remove1 co (items ?q)"
      using remove_found [OF sq.ents_distinct [OF q(1)] Some] q'(3) by (simp add: items_def)
    with Some f q' node_inv_coords [OF inv, of q'] show ?thesis
      by (auto simp: remove_coordinate_as_burning_def)
  qed
qed

text \<open>
  The fires a node knows of form a set of at most ten places: a place reported again is not
  stored twice, an eleventh is forgotten, and when the place is reported safe it is gone, while the
  other fires stay in their order and the sending queue stays as it was.
\<close>

theorem fires_are_a_bounded_set:
  assumes inv: "node_inv np"
  shows "returns (add_coordinate_as_burning co np) (\<lambda>np1. set (items (np_emergency_coords np1)) =
       (if length (items (np_emergency_coords np)) < 10 then insert co (set (items (np_emergency_coords np)))
        else set (items (np_emergency_coords np))) \<and>
     returns (remove_coordinate_as_burning co np1) (\<lambda>np2. node_inv np2 \<and>
       items (np_emergency_coords np2) = remove1 co (items (np_emergency_coords np)) \<and> ec_sq np2 = ec_sq np))"
proof -
  let ?is = "items (np_emergency_coords np)"
  have le: "length ?is \<le> 10" using length_entries_le [OF node_invD(2) [OF inv]] node_invD(3) [OF inv] by (simp add: items_def)
  obtain q where q: "add_coordinate_as_burning co np = Inr (np\<lparr>np_emergency_coords := q\<rparr>)"
    "node_inv (np\<lparr>np_emergency_coords := q\<rparr>)"
    "items q = (if co \<in> set ?is \<or> length ?is = 10 then ?is else co # ?is)"
    using add_fire_returns [OF inv, of co] by (auto simp: returns_def)
  have r: "returns (remove_coordinate_as_burning co (np\<lparr>np_emergency_coords := q\<rparr>)) (\<lambda>np2. node_inv np2 \<and>
       items (np_emergency_coords np2) = remove1 co (items q) \<and> ec_sq np2 = ec_sq np)"
    by (rule returns_mono [OF remove_fire_returns [OF q(2), of co]]) auto
  have "remove1 co (items q) = remove1 co ?is"
    using q(3) by (simp add: remove1_idem)
  with q r le show ?thesis by (auto simp: insert_absorb)
qed

lemma fires_witness:
  "returns (add_coordinate_as_burning (np_coordinate_node deployed) deployed) (\<lambda>np1.
     set (items (np_emergency_coords np1)) = {np_coordinate_node deployed})"
  using fires_are_a_bounded_set [OF deployed_facts(1), of "np_coordinate_node deployed"] deployed_facts(3)
    boot_returns [OF fresh_powered] booted_eq
  by (auto simp: same_queues_def returns_def)

subsection \<open>Packets that are ignored and packets that stop the node\<close>

text \<open>
  A node in reset mode ignores what it hears, from everybody and from neighbors, except the
  packet that starts the exit paths anew.
\<close>

lemma reset_mode_ignores_packets:
  assumes "np_is_reset_mode np" and "type \<noteq> INITIALIZE_BEST_PATHS_PACKET"
  shows "ec_broadcasts_recv np o' s h n (type # data) l = Inr np \<and> ec_neighbors_recv np o' s h n (type # data) l = Inr np"
  using assms by (simp add: ec_broadcasts_recv_def ec_neighbors_recv_def packet_type_def read_mem_def)

lemma reset_mode_witness:
  "ec_broadcasts_recv (deployed\<lparr>np_is_reset_mode := True\<rparr>) (1, 0) (1, 0) 0 5 [SETUP_PACKET] 1 =
   Inr (deployed\<lparr>np_is_reset_mode := True\<rparr>)"
  using reset_mode_ignores_packets [of "deployed\<lparr>np_is_reset_mode := True\<rparr>" SETUP_PACKET _ _ _ _ "[]"]
  by (simp add: SETUP_PACKET_def INITIALIZE_BEST_PATHS_PACKET_def)

text \<open>
  Anybody can stop a node with one frame: a broadcast of an unknown type, and likewise a packet
  of an unknown type from a neighbor, runs into a failing assertion on every node that is not in
  reset mode (and, for packets from neighbors, not the sink).
\<close>

theorem unknown_packets_stop_the_node:
  assumes "\<not> np_is_reset_mode np" and "10 < type"
  shows "ec_broadcasts_recv np o' s h n (type # data) l = Inl Assert_Failed \<and>
     (\<not> np_is_sink_node np \<longrightarrow> ec_neighbors_recv np o' s h n (type # data) l = Inl Assert_Failed)"
proof -
  have "type \<noteq> t" if "t \<le> 10" for t using assms(2) that by auto
  then have "type \<noteq> EMERGENCY_PACKET" "type \<noteq> ANTI_EMERGENCY_PACKET" "type \<noteq> BEST_PATH_UPDATE_PACKET" "type \<noteq> SETUP_PACKET"
    "type \<noteq> INITIALIZE_BEST_PATHS_PACKET" "type \<noteq> KEEP_ALIVE_NEIGHBOR" "type \<noteq> NODE_INFO_PACKET"
    "type \<noteq> EXTRACT_REPORT_PACKET" "type \<noteq> RESET_SYSTEM_PACKET"
    by (simp_all add: packet_type_defs)
  with assms(1) show ?thesis
    by (simp add: ec_broadcasts_recv_def ec_neighbors_recv_def packet_type_def read_mem_def
        regular_broadcast_recv_def sink_broadcast_recv_def)
qed

lemma unknown_packets_witness: "ec_broadcasts_recv deployed (1, 0) (1, 0) 0 5 [77] 1 = Inl Assert_Failed"
  using unknown_packets_stop_the_node [of deployed 77 "(1, 0)" "(1, 0)" 0 5 "[]" 1] deployed_facts(2)
  by (simp add: set_up_def)

end
