(* ===== verification/Emergency_Spec.thy ===== *)
theory Emergency_Spec
  imports Node_Spec
begin

text \<open>
  The clock's leader and the emergency: whom a node follows, what a leader does, and what happens
  when a node that knows its way senses a fire.
\<close>

subsection \<open>Packets of the clock\<close>

text \<open>A packet for the clock is queued, and the timer that waits for the next one is set.\<close>

lemma timesynch_packet_runs:
  assumes inv: "ec_inv c" and room: "0 < pb_free_cells (ec_sq c)"
  obtains c1 r c2 v where "sq_broadcast (init_broadcast_packet TIMESYNCH h o' s n) [] 0 None MSG_TYPE_TIMESYNCH_DATA c = Inr (c1, r)"
    and "c2 = ctimer_set Ts_Timer d (set_timer_rand FAST_TRANSMIT Timesynch_Data_Timer c1)"
    and "ec_internal c c2" and "ec_sync c2 = ec_sync c" and "ec_timers c2 Ts_Timer = Some d"
    and "appended (header_bytes (init_broadcast_packet TIMESYNCH h o' s n)) [] 0 None v"
    and "lane_view c2 MSG_TYPE_TIMESYNCH_DATA = lane_view c MSG_TYPE_TIMESYNCH_DATA @ [v]"
    and "\<forall>u < 7. u \<noteq> MSG_TYPE_TIMESYNCH_DATA \<longrightarrow> lane_view c2 u = lane_view c u"
    and "pb_free_cells (ec_sq c2) = pb_free_cells (ec_sq c) - 1" and "ec_ns c2 = ec_ns c"
    and "ec_ts_is_on c2 = ec_ts_is_on c"
proof -
  have adm: "admissible MSG_TYPE_TIMESYNCH_DATA (header_bytes (init_broadcast_packet TIMESYNCH h o' s n)) [] 0 None"
    by (simp add: admissible_def packet_flags lane_flags_eq) (simp add: msg_type_defs)
  obtain c1 r pb where c1: "sq_broadcast (init_broadcast_packet TIMESYNCH h o' s n) [] 0 None MSG_TYPE_TIMESYNCH_DATA c = Inr (c1, r)" "c1 = c\<lparr>ec_sq := pb\<rparr>"
    "queues MSG_TYPE_TIMESYNCH_DATA (header_bytes (init_broadcast_packet TIMESYNCH h o' s n)) [] 0 None c c1"
    using sq_broadcast_returns [OF ec_invD(1) [OF inv] room adm] by (auto simp: returns_def)
  obtain k tms where s: "set_timer_rand FAST_TRANSMIT Timesynch_Data_Timer c1 = c1\<lparr>ec_timers := tms, ec_rand_pos := k\<rparr>"
    using set_timer_eq(1) by blast
  let ?c2 = "ctimer_set Ts_Timer d (set_timer_rand FAST_TRANSMIT Timesynch_Data_Timer c1)"
  have "ec_internal c ?c2" by (rule timesynch_packet_internal [OF inv c1(1)])
  moreover have "ec_sync ?c2 = ec_sync c" "ec_timers ?c2 Ts_Timer = Some d" "ec_ns ?c2 = ec_ns c" "ec_ts_is_on ?c2 = ec_ts_is_on c"
    "ec_sq ?c2 = ec_sq c1" "\<And>u. lane_view ?c2 u = lane_view c1 u"
    using s c1(2) by (simp_all add: ctimer_set_def)
  ultimately show thesis
    using that [OF c1(1) refl] c1(3) by (auto simp: queues_def sq_effect_def)
qed

text \<open>Nodes that are not blinking have no light to adjust to the clock.\<close>

definition steady :: "node_properties \<Rightarrow> bool" where
  "steady np \<longleftrightarrow> np_is_burning np \<or> \<not> np_is_blinking np"

lemma steady_callback: "steady np \<Longrightarrow> cb_timesynch ec_cb np = Inr np"
  by (auto simp: steady_def ec_cb_def ec_timesynch_recv_def blinking_update_def)

lemma internal_steady: "ec_internal np np' \<Longrightarrow> steady np' = steady np"
  by (cases np, cases np') (simp add: steady_def ec_internal_def)

text \<open>A packet of a leader is passed on by a node that has taken over the leader and its number.\<close>

lemma forward_runs:
  assumes inv: "node_inv np" and room: "0 < pb_free_cells (ec_sq np)"
  obtains np' v where "forward_timesynch p (np\<lparr>ec_sync := set_authority_seqno (set_authority_level (ec_sync np) a) k\<rparr>) = Inr np'"
    and "ec_internal np np'" and "node_inv np'" and "authority_level (ec_sync np') = a" and "authority_seqno (ec_sync np') = k"
    and "ec_timers np' Ts_Timer = Some TIMESYNCH_LEADER_TIMEOUT" and "ec_ts_is_on np' = ec_ts_is_on np"
    and "appended (header_bytes (init_broadcast_packet TIMESYNCH (hdr_hops p + 1) (hdr_originator p) (ec_node_addr np) (hdr_seqno p))) [] 0 None v"
    and "lane_view np' MSG_TYPE_TIMESYNCH_DATA = lane_view np MSG_TYPE_TIMESYNCH_DATA @ [v]"
    and "pb_free_cells (ec_sq np') = pb_free_cells (ec_sq np) - 1"
proof -
  let ?fwd = "init_broadcast_packet TIMESYNCH (hdr_hops p + 1) (hdr_originator p) (ec_node_addr np) (hdr_seqno p)"
  let ?np = "np\<lparr>ec_sync := set_authority_seqno (set_authority_level (ec_sync np) a) k\<rparr>"
  note ei = node_invD(1) [OF inv]
  have i1: "ec_internal np ?np"
    by (rule sync_internal(2) [OF ei])
       (use ec_wfD(5) [OF ec_invD(1) [OF ei]] in \<open>simp add: set_authority_seqno_def set_authority_level_def\<close>)
  then have inv1: "ec_inv ?np" by (simp add: ec_internal_def)
  have room1: "0 < pb_free_cells (ec_sq ?np)" using room by simp
  obtain c1 r c2 v where c: "sq_broadcast ?fwd [] 0 None MSG_TYPE_TIMESYNCH_DATA ?np = Inr (c1, r)"
    "c2 = ctimer_set Ts_Timer TIMESYNCH_LEADER_TIMEOUT (set_timer_rand FAST_TRANSMIT Timesynch_Data_Timer c1)"
    "ec_internal ?np c2" "ec_sync c2 = ec_sync ?np" "ec_timers c2 Ts_Timer = Some TIMESYNCH_LEADER_TIMEOUT"
    "appended (header_bytes ?fwd) [] 0 None v"
    "lane_view c2 MSG_TYPE_TIMESYNCH_DATA = lane_view ?np MSG_TYPE_TIMESYNCH_DATA @ [v]"
    "pb_free_cells (ec_sq c2) = pb_free_cells (ec_sq ?np) - 1" "ec_ts_is_on c2 = ec_ts_is_on ?np"
    using timesynch_packet_runs [OF inv1 room1] by metis
  have "forward_timesynch p ?np = Inr c2" using c(1,2) by (simp add: forward_timesynch_def Let_def)
  then show thesis
    using that [of c2 v] ec_internal_trans [OF i1 c(3)] node_internal [OF inv ec_internal_trans [OF i1 c(3)]] c(4-9)
    by (simp add: lane_view_def set_authority_seqno_def set_authority_level_def)
qed

text \<open>
  A node follows the leader with the lowest address that it hears: a packet of the clock from a
  leader below the one it knows, but not above the node's own address, makes the node adopt the
  leader and its sequence number, pass the packet on with one hop more and itself as the sender, and
  wait for the leader's next packet. (The node is not blinking; a blinking one also adjusts its
  light.)
\<close>

theorem lower_leader_is_followed:
  assumes inv: "node_inv np" and on: "ec_ts_is_on np" and room: "0 < pb_free_cells (ec_sq np)"
    and dark: "\<not> np_is_blinking np"
    and lower: "timesynch_rimeaddr_to_authority leader < authority_level (ec_sync np)"
    and mine: "timesynch_rimeaddr_to_authority leader \<le> timesynch_rimeaddr_to_authority (ec_node_addr np)"
    and fr: "fr = header_bytes (init_broadcast_packet TIMESYNCH hops leader sender seqno) @ rest"
  shows "returns (timesynch_recv ec_cb fr np) (\<lambda>np'. node_inv np' \<and>
     authority_level (ec_sync np') = timesynch_rimeaddr_to_authority leader \<and> authority_seqno (ec_sync np') = seqno \<and>
     ec_timers np' Ts_Timer = Some TIMESYNCH_LEADER_TIMEOUT \<and>
     (\<exists>p n u. lane_view np' MSG_TYPE_TIMESYNCH_DATA = lane_view np MSG_TYPE_TIMESYNCH_DATA @ [(p, 0, n, u)] \<and>
        take 7 p = header_bytes (init_broadcast_packet TIMESYNCH (hops + 1) leader (ec_node_addr np) seqno)))"
proof -
  let ?p = "init_broadcast_packet TIMESYNCH hops leader sender seqno"
  have p: "hdr_originator ?p = leader" "hdr_seqno ?p = seqno" "hdr_hops ?p = hops" "IS_PACKET_FLAG_SET ?p TIMESYNCH"
    by (simp_all add: IS_PACKET_FLAG_SET_def init_broadcast_packet_def init_packet_def packet_flag_defs)
  obtain np' v where f: "forward_timesynch ?p (np\<lparr>ec_sync := set_authority_seqno (set_authority_level (ec_sync np)
      (timesynch_rimeaddr_to_authority leader)) seqno\<rparr>) = Inr np'" "ec_internal np np'" "node_inv np'"
    "authority_level (ec_sync np') = timesynch_rimeaddr_to_authority leader" "authority_seqno (ec_sync np') = seqno"
    "ec_timers np' Ts_Timer = Some TIMESYNCH_LEADER_TIMEOUT"
    "appended (header_bytes (init_broadcast_packet TIMESYNCH (hops + 1) leader (ec_node_addr np) seqno)) [] 0 None v"
    "lane_view np' MSG_TYPE_TIMESYNCH_DATA = lane_view np MSG_TYPE_TIMESYNCH_DATA @ [v]"
    using forward_runs [OF inv room, of ?p] unfolding p(1-3) by metis
  have "steady np'" using internal_steady [OF f(2)] dark by (simp add: steady_def)
  then have "timesynch_recv ec_cb fr np = Inr np'"
    using on lower leD [OF mine] p f(1) steady_callback by (simp add: timesynch_recv_def fr Let_def)
  moreover obtain q l n u where v: "v = (q, l, n, u)" by (cases v)
  ultimately show ?thesis using f(3-8) by (auto simp: appended_def)
qed

lemma started_facts:
  "node_inv (ec_timesynch_on deployed)" "ec_ts_is_on (ec_timesynch_on deployed)"
  "pb_free_cells (ec_sq (ec_timesynch_on deployed)) = 12" "authority_level (ec_sync (ec_timesynch_on deployed)) = AUTHORITY_LEVEL_MAX"
  "ec_node_addr (ec_timesynch_on deployed) = (2, 0)" "\<not> np_is_blinking (ec_timesynch_on deployed)"
  using timesynch_on_keeps [OF deployed_facts(1)] deployed_connection(2) deployed_facts(2)
  by (simp_all add: ec_timesynch_on_def set_authority_seqno_def set_authority_level_def set_up_def cooja_packet_def)

lemma leader_witness:
  "returns (timesynch_recv ec_cb (header_bytes (init_broadcast_packet TIMESYNCH 1 (1, 0) (3, 0) 4)) (ec_timesynch_on deployed))
     (\<lambda>np. ec_timers np Ts_Timer = Some TIMESYNCH_LEADER_TIMEOUT)"
  by (rule returns_mono [OF lower_leader_is_followed [OF started_facts(1,2) _ started_facts(6),
        where leader = "(1, 0)" and hops = 1 and sender = "(3, 0)" and seqno = 4 and rest = "[]"]])
     (simp_all add: started_facts timesynch_rimeaddr_to_authority_def AUTHORITY_LEVEL_MAX_def uint8_to_uint16_def)

subsection \<open>The node's own packets\<close>

text \<open>What the node's own sending keeps of the node: everything but the connection and the number.\<close>

definition same_node :: "node_properties \<Rightarrow> node_properties \<Rightarrow> bool" where
  "same_node np np' \<longleftrightarrow> np_bpn np' = np_bpn np \<and> np_is_blinking np' = np_is_blinking np \<and> np_is_burning np' = np_is_burning np \<and>
     np_coordinate_node np' = np_coordinate_node np \<and> np_current_sensors_metric np' = np_current_sensors_metric np \<and>
     np_emergency_coords np' = np_emergency_coords np \<and> ec_node_addr np' = ec_node_addr np \<and> ec_ns_set np' = ec_ns_set np \<and>
     entries (ec_ns np') = entries (ec_ns np)"

lemma internal_same_node: "ec_internal np np' \<Longrightarrow> same_node np np'"
  by (cases np, cases np') (simp add: same_node_def ec_internal_def)

lemma same_node_trans: "same_node np np1 \<Longrightarrow> same_node np1 np2 \<Longrightarrow> same_node np np2"
  by (simp add: same_node_def)

text \<open>A packet at the end of a lane, with its data.\<close>

definition sent_last :: "nat \<Rightarrow> bytes \<Rightarrow> node_properties \<Rightarrow> node_properties \<Rightarrow> bool" where
  "sent_last t data np np' \<longleftrightarrow> (\<exists>p n u. lane_view np' t = lane_view np t @ [(p, of_nat (length data), n, u)] \<and>
     take (length data) (drop 7 p) = data) \<and> (\<forall>v < 7. v \<noteq> t \<longrightarrow> lane_view np' v = lane_view np v)"

lemma appended_data:
  assumes "appended (header_bytes h) data l ns (p, k, n, u)" and "unat l = length data"
  shows "take (length data) (drop 7 p) = data"
proof -
  have "take (7 + length data) p = header_bytes h @ data" using assms by (simp add: appended_def)
  then have "drop 7 (take (7 + length data) p) = data" by simp
  then show ?thesis by (simp add: drop_take)
qed

lemma next_seqno_same [simp]: "lane_view (next_seqno np) t = lane_view np t" "ec_sq (next_seqno np) = ec_sq np"
  "ec_ns (next_seqno np) = ec_ns np" "ec_ns_set (next_seqno np) = ec_ns_set np" "same_node np (next_seqno np)"
  "ec_ts_is_on (next_seqno np) = ec_ts_is_on np"
  by (simp_all add: next_seqno_def lane_view_def same_node_def)

lemma calls_sent_last:
  assumes inv: "node_inv np" and c: "calls t (header_bytes h) h data (of_nat (length data)) ns np np'"
    and len: "length data \<le> 24"
  shows "node_inv np' \<and> same_node np np' \<and> sent_last t data np np' \<and>
    pb_free_cells (ec_sq np') = pb_free_cells (ec_sq np) - 1 \<and> ec_ts_is_on np' = ec_ts_is_on np"
proof -
  have l: "unat (of_nat (length data) :: byte) = length data"
    using len by (simp add: unsigned_of_nat take_bit_nat_eq_self)
  note i = calls_internal [OF node_invD(1) [OF inv] c]
  obtain v where v: "appended (header_bytes h) data (of_nat (length data)) ns v" "sq_effect t (lane_view np t @ [v]) np np'"
    "pb_free_cells (ec_sq np') = pb_free_cells (ec_sq np) - 1" "ec_ts_is_on np' = ec_ts_is_on np"
    using c by (auto simp: calls_def queues_def ec_keep_def)
  obtain p k n u where p: "v = (p, k, n, u)" by (cases v)
  have "k = of_nat (length data)" using v(1) by (simp add: p appended_def)
  with v(2) appended_data [OF v(1) [unfolded p] l] have "sent_last t data np np'"
    by (auto simp: sent_last_def sq_effect_def p)
  with v(3,4) node_internal [OF inv i] internal_same_node [OF i] show ?thesis by simp
qed

lemma broadcast_own_returns:
  assumes inv: "node_inv np" and room: "0 < pb_free_cells (ec_sq np)" and len: "length data \<le> 24"
  shows "returns (broadcast_own data np) (\<lambda>np'. node_inv np' \<and> same_node np np' \<and>
    sent_last MSG_TYPE_BROADCAST_DATA data np np' \<and> pb_free_cells (ec_sq np') = pb_free_cells (ec_sq np) - 1 \<and>
    ec_ts_is_on np' = ec_ts_is_on np)"
proof -
  have inv1: "node_inv (next_seqno np)" using inv by (simp add: next_seqno_def node_inv_fields)
  have l: "unat (of_nat (length data) :: byte) \<le> 24" "unat (of_nat (length data) :: byte) \<le> length data"
    using len by (simp_all add: unsigned_of_nat take_bit_nat_eq_self)
  have "0 < pb_free_cells (ec_sq (next_seqno np))" using room by simp
  from ec_broadcast_calls [OF ec_invD(1) [OF node_invD(1) [OF inv1]] this l, of "ec_node_addr np" "ec_node_addr np" 0 "np_seqno np"]
  show ?thesis unfolding broadcast_own_def
    by (rule returns_mono)
       (use calls_sent_last [OF inv1 _ len] same_node_trans [OF next_seqno_same(5)] in \<open>fastforce simp: Let_def sent_last_def\<close>)
qed

lemma broadcast_own_ns_returns:
  assumes inv: "node_inv np" and room: "0 < pb_free_cells (ec_sq np)" and len: "length data \<le> 24"
    and ns: "ec_ns_set np" "items (ec_ns np) \<noteq> []"
  shows "returns (broadcast_own_ns data np) (\<lambda>np'. node_inv np' \<and> same_node np np' \<and>
    sent_last MSG_TYPE_NEIGHBOR_DATA data np np' \<and> pb_free_cells (ec_sq np') = pb_free_cells (ec_sq np) - 1)"
proof -
  have inv1: "node_inv (next_seqno np)" using inv by (simp add: next_seqno_def node_inv_fields)
  have l: "unat (of_nat (length data) :: byte) \<le> 24" "unat (of_nat (length data) :: byte) \<le> length data"
    using len by (simp_all add: unsigned_of_nat take_bit_nat_eq_self)
  have "0 < pb_free_cells (ec_sq (next_seqno np))" "ec_ns_set (next_seqno np)" using room ns by simp_all
  from ec_reliable_broadcast_ns_calls [OF ec_invD(1) [OF node_invD(1) [OF inv1]] this l, of "ec_node_addr np" "ec_node_addr np" 0 "np_seqno np"]
  show ?thesis unfolding broadcast_own_ns_def
    by (rule returns_mono)
       (use calls_sent_last [OF inv1 _ len] same_node_trans [OF next_seqno_same(5)] ns in \<open>fastforce simp: Let_def sent_last_def\<close>)
qed

text \<open>A node that leads announces itself, and then adjusts its light.\<close>

lemma leader_queues:
  assumes inv: "node_inv np" and room: "0 < pb_free_cells (ec_sq np)"
  obtains np' where "timesynch_as_leader ec_cb np = cb_timesynch ec_cb np'" and "node_inv np'" and "ec_internal np np'"
    and "authority_level (ec_sync np') = timesynch_rimeaddr_to_authority (ec_node_addr np)" and "ec_ts_is_on np' = ec_ts_is_on np"
    and "\<forall>u < 7. u \<noteq> MSG_TYPE_TIMESYNCH_DATA \<longrightarrow> lane_view np' u = lane_view np u"
    and "pb_free_cells (ec_sq np') = pb_free_cells (ec_sq np) - 1"
proof -
  let ?bp = "init_broadcast_packet TIMESYNCH 0 (ec_node_addr np) (ec_node_addr np) (ec_ts_seqno np)"
  let ?np = "np\<lparr>ec_sync := set_authority_seqno (set_authority_level (ec_sync np)
      (timesynch_rimeaddr_to_authority (ec_node_addr np))) (ec_ts_seqno np), ec_ts_seqno := ec_ts_seqno np + 1\<rparr>"
  note ei = node_invD(1) [OF inv]
  have i1: "ec_internal np ?np"
    by (rule sync_internal(1) [OF ei])
       (use ec_wfD(5) [OF ec_invD(1) [OF ei]] in \<open>simp add: set_authority_seqno_def set_authority_level_def\<close>)
  then have inv1: "ec_inv ?np" by (simp add: ec_internal_def)
  have room1: "0 < pb_free_cells (ec_sq ?np)" using room by simp
  obtain c1 r c2 where c: "sq_broadcast ?bp [] 0 None MSG_TYPE_TIMESYNCH_DATA ?np = Inr (c1, r)"
    "c2 = ctimer_set Ts_Timer TIMESYNCH_LEADER_UPDATE (set_timer_rand FAST_TRANSMIT Timesynch_Data_Timer c1)"
    "ec_internal ?np c2"
    "\<forall>u < 7. u \<noteq> MSG_TYPE_TIMESYNCH_DATA \<longrightarrow> lane_view c2 u = lane_view ?np u"
    "pb_free_cells (ec_sq c2) = pb_free_cells (ec_sq ?np) - 1" "ec_sync c2 = ec_sync ?np" "ec_ts_is_on c2 = ec_ts_is_on ?np"
    using timesynch_packet_runs [OF inv1 room1] by metis
  note keep = ec_internal_trans [OF i1 c(3)]
  have "timesynch_as_leader ec_cb np = cb_timesynch ec_cb c2"
    using c(1,2) by (simp add: timesynch_as_leader_def Let_def)
  then show thesis
    using that [of c2] node_internal [OF inv keep] keep c(4-7)
    by (simp add: lane_view_def set_authority_seqno_def set_authority_level_def)
qed

lemma leader_runs:
  assumes inv: "node_inv np" and room: "0 < pb_free_cells (ec_sq np)" and calm: "steady np"
  shows "returns (timesynch_as_leader ec_cb np) (\<lambda>np'. node_inv np' \<and> ec_internal np np' \<and> same_node np np' \<and>
    (\<forall>u < 7. u \<noteq> MSG_TYPE_TIMESYNCH_DATA \<longrightarrow> lane_view np' u = lane_view np u) \<and>
    pb_free_cells (ec_sq np') = pb_free_cells (ec_sq np) - 1)"
proof -
  obtain np' where l: "timesynch_as_leader ec_cb np = cb_timesynch ec_cb np'" "node_inv np'" "ec_internal np np'"
    "\<forall>u < 7. u \<noteq> MSG_TYPE_TIMESYNCH_DATA \<longrightarrow> lane_view np' u = lane_view np u"
    "pb_free_cells (ec_sq np') = pb_free_cells (ec_sq np) - 1" using leader_queues [OF inv room] by metis
  have "steady np'" using internal_steady [OF l(3)] calm by simp
  with l internal_same_node [OF l(3)] steady_callback show ?thesis by simp
qed

subsection \<open>An emergency\<close>

lemma network_runs:
  assumes inv: "node_inv np" and room: "0 < pb_free_cells (ec_sq np)" and burns: "np_is_burning np" and on: "ec_ts_is_on np"
  shows "returns (ec_timesynch_network ec_cb np) (\<lambda>np'. node_inv np' \<and> same_node np np' \<and>
    (\<forall>u < 7. u \<noteq> MSG_TYPE_TIMESYNCH_DATA \<longrightarrow> lane_view np' u = lane_view np u) \<and>
    pb_free_cells (ec_sq np) - 1 \<le> pb_free_cells (ec_sq np'))"
proof (cases "ctimer_expired Ts_Timer np")
  case True
  with leader_runs [OF inv room] burns on show ?thesis by (auto simp: ec_timesynch_network_def steady_def elim!: returns_mono)
next
  case False
  with inv on show ?thesis by (simp add: ec_timesynch_network_def same_node_def)
qed

text \<open>The path that the node announces when it burns.\<close>

definition burning_path :: "node_properties \<Rightarrow> neighbor_node \<Rightarrow> neighbor_node_best_path" where
  "burning_path np n = \<lparr>bp_metric = uint16_to_uint8 (neighbor_node_metric n + (1000 + neighbor_node_distance n +
       uint8_to_uint16 (np_current_sensors_metric np))),
     bp_points_to = nn_addr n, bp_hops = neighbor_node_hops n + 1\<rparr>"

lemma burning_announcement:
  assumes inv: "node_inv np" and room: "0 < pb_free_cells (ec_sq np)" and burns: "np_is_burning np"
    and bpn: "np_bpn np = Some (Table_Node i)" "(i, n) \<in> set (entries (ec_ns np))" and set: "ec_ns_set np"
  shows "returns (broadcast_best_path np) (\<lambda>np'. node_inv np' \<and> same_node np np' \<and>
    sent_last MSG_TYPE_NEIGHBOR_DATA (BEST_PATH_UPDATE_PACKET # best_path_bytes (burning_path np n)) np np')"
proof -
  have "get_data (ec_ns np) i = Inr n"
    by (rule get_data_entry [OF ns_wfD(1) [OF node_invD(4) [OF inv]] bpn(2)])
  then have "best_neighbor_bp_to_our_bp np = Inr (burning_path np n)"
    using bpn(1) burns by (simp add: best_neighbor_bp_to_our_bp_def bpn_node_def node_at_def weigh_metrics_def
        weigh_distance_def burning_path_def neighbor_node_addr_def)
  moreover have "items (ec_ns np) \<noteq> []" using bpn(2) by (auto simp: items_def)
  moreover have "length (BEST_PATH_UPDATE_PACKET # best_path_bytes (burning_path np n)) \<le> 24"
    by (simp add: best_path_bytes_def)
  ultimately show ?thesis
    by (auto simp: broadcast_best_path_def intro!: returns_mono [OF broadcast_own_ns_returns [OF inv room _ set]])
qed

lemma burning_node:
  assumes inv: "node_inv np"
  obtains np1 where "blinking_init (set_burning True np) = Inr np1" and "node_inv np1" and "np_is_burning np1"
    and "np_is_blinking np1" and "np_emergency_coords np1 = np_emergency_coords np"
    and "np_coordinate_node np1 = np_coordinate_node np" and "ec_sq np1 = ec_sq np" and "ec_ns np1 = ec_ns np"
    and "np_bpn np1 = np_bpn np" and "ec_ns_set np1 = ec_ns_set np" and "ec_ts_is_on np1 = ec_ts_is_on np"
    and "np_current_sensors_metric np1 = np_current_sensors_metric np"
proof -
  let ?np1 = "(set_burning True np)\<lparr>np_is_blinking := True\<rparr>"
  have b: "blinking_init (set_burning True np) = Inr ?np1"
    by (cases "np_leds np") (simp add: blinking_init_def blinking_update_def set_burning_def leds_red_def leds_blue_def)
  have "node_inv ?np1" using inv by (simp add: set_burning_keeps node_inv_fields)
  then show thesis
    using that [OF b] by (cases "np_leds np") (simp add: set_burning_def leds_red_def leds_blue_def)
qed

text \<open>The alarm itself: the packet for everybody, and the clock.\<close>

lemma alarm_packets:
  assumes inv: "node_inv np" and room: "3 \<le> pb_free_cells (ec_sq np)" and ready: "np_is_burning np" "ec_ts_is_on np"
    and len: "length d \<le> 24"
  obtains np1 np2 where "broadcast_own d np = Inr np1" and "ec_timesynch_network ec_cb np1 = Inr np2" and "node_inv np2"
    and "same_node np np2" and "0 < pb_free_cells (ec_sq np2)"
    and "\<exists>p k u. lane_view np2 MSG_TYPE_BROADCAST_DATA = lane_view np MSG_TYPE_BROADCAST_DATA @ [(p, of_nat (length d), k, u)] \<and>
      take (length d) (drop 7 p) = d"
    and "lane_view np2 MSG_TYPE_NEIGHBOR_DATA = lane_view np MSG_TYPE_NEIGHBOR_DATA"
proof -
  have room': "0 < pb_free_cells (ec_sq np)" using room by simp
  obtain np1 where np1: "broadcast_own d np = Inr np1" "node_inv np1" "same_node np np1"
    "sent_last MSG_TYPE_BROADCAST_DATA d np np1" "pb_free_cells (ec_sq np1) = pb_free_cells (ec_sq np) - 1"
    "ec_ts_is_on np1 = ec_ts_is_on np"
    by (rule returnsE [OF broadcast_own_returns [OF inv room' len]]) (elim conjE, rule that, assumption+)
  have s1: "np_is_burning np1" "ec_ts_is_on np1" "0 < pb_free_cells (ec_sq np1)"
    using np1(3,5,6) ready room by (simp_all add: same_node_def)
  obtain np2 where np2: "ec_timesynch_network ec_cb np1 = Inr np2" "node_inv np2" "same_node np1 np2"
    "\<forall>u < 7. u \<noteq> MSG_TYPE_TIMESYNCH_DATA \<longrightarrow> lane_view np2 u = lane_view np1 u"
    "pb_free_cells (ec_sq np1) - 1 \<le> pb_free_cells (ec_sq np2)"
    by (rule returnsE [OF network_runs [OF np1(2) s1(3,1,2)]]) (elim conjE, rule that, assumption+)
  have "0 < pb_free_cells (ec_sq np2)" using np2(5) np1(5) room by simp
  moreover have "lane_view np2 MSG_TYPE_NEIGHBOR_DATA = lane_view np MSG_TYPE_NEIGHBOR_DATA"
    "lane_view np2 MSG_TYPE_BROADCAST_DATA = lane_view np1 MSG_TYPE_BROADCAST_DATA"
    using np2(4) np1(4) by (simp_all add: sent_last_def msg_type_defs)
  ultimately show thesis
    using that [OF np1(1) np2(1,2) same_node_trans [OF np1(3) np2(3)]] np1(4) by (simp add: sent_last_def)
qed

text \<open>
  C12: A node that senses a fire raises the alarm: if it knows its way and is not burning yet, it
  burns and blinks, its own place is among the fires it knows (unless it knows ten already), one
  broadcast with its place is queued for the whole network, and one packet is queued for the
  neighbors that makes the way through the node longer by 1000 and the sensor's value.
\<close>

theorem fire_raises_the_alarm:
  assumes inv: "node_inv np" and room: "3 \<le> pb_free_cells (ec_sq np)" and calm: "\<not> np_is_burning np"
    and bpn: "np_bpn np = Some (Table_Node i)" "(i, n) \<in> set (entries (ec_ns np))"
    and ready: "ec_ns_set np" "ec_ts_is_on np"
  shows "returns (emergency_sensed np) (\<lambda>np'. node_inv np' \<and> np_is_burning np' \<and> np_is_blinking np' \<and>
     (length (items (np_emergency_coords np)) < 10 \<longrightarrow> np_coordinate_node np \<in> set (items (np_emergency_coords np'))) \<and>
     (\<exists>p k u. lane_view np' MSG_TYPE_BROADCAST_DATA = lane_view np MSG_TYPE_BROADCAST_DATA @ [(p, 5, k, u)] \<and>
        take 5 (drop 7 p) = EMERGENCY_PACKET # coordinate_bytes (np_coordinate_node np)) \<and>
     (\<exists>p k u. lane_view np' MSG_TYPE_NEIGHBOR_DATA = lane_view np MSG_TYPE_NEIGHBOR_DATA @ [(p, 6, k, u)] \<and>
        take 6 (drop 7 p) = BEST_PATH_UPDATE_PACKET # best_path_bytes (burning_path np n)))"
proof -
  obtain np1 where np1: "blinking_init (set_burning True np) = Inr np1" "node_inv np1" "np_is_burning np1"
    "np_is_blinking np1" "np_emergency_coords np1 = np_emergency_coords np" "np_coordinate_node np1 = np_coordinate_node np"
    "ec_sq np1 = ec_sq np" "ec_ns np1 = ec_ns np" "np_bpn np1 = np_bpn np" "ec_ns_set np1 = ec_ns_set np"
    "ec_ts_is_on np1 = ec_ts_is_on np" "np_current_sensors_metric np1 = np_current_sensors_metric np"
    using burning_node [OF inv] .
  obtain q where q: "add_coordinate_as_burning (np_coordinate_node np) np1 = Inr (np1\<lparr>np_emergency_coords := q\<rparr>)"
    "node_inv (np1\<lparr>np_emergency_coords := q\<rparr>)"
    "items q = (if np_coordinate_node np \<in> set (items (np_emergency_coords np1)) \<or> length (items (np_emergency_coords np1)) = 10
       then items (np_emergency_coords np1) else np_coordinate_node np # items (np_emergency_coords np1))"
    using add_fire_returns [OF np1(2), of "np_coordinate_node np"] unfolding returns_def by blast
  have place: "length (items (np_emergency_coords np)) < 10 \<Longrightarrow> np_coordinate_node np \<in> set (items q)"
    using q(3) np1(5) by auto
  let ?np2 = "np1\<lparr>np_emergency_coords := q\<rparr>"
  let ?fire = "EMERGENCY_PACKET # coordinate_bytes (np_coordinate_node np)"
  have len: "length ?fire = 5" "length ?fire \<le> 24" by (simp_all add: coordinate_bytes_def)
  have s2: "3 \<le> pb_free_cells (ec_sq ?np2)" "np_is_burning ?np2" "ec_ts_is_on ?np2" using room ready(2) np1(3,7,11) by simp_all
  obtain np3 np4 where np4: "broadcast_own ?fire ?np2 = Inr np3" "ec_timesynch_network ec_cb np3 = Inr np4" "node_inv np4"
    "same_node ?np2 np4" "0 < pb_free_cells (ec_sq np4)"
    "\<exists>p k u. lane_view np4 MSG_TYPE_BROADCAST_DATA = lane_view ?np2 MSG_TYPE_BROADCAST_DATA @ [(p, of_nat (length ?fire), k, u)] \<and>
      take (length ?fire) (drop 7 p) = ?fire"
    "lane_view np4 MSG_TYPE_NEIGHBOR_DATA = lane_view ?np2 MSG_TYPE_NEIGHBOR_DATA"
    using alarm_packets [OF q(2) s2 len(2)] .
  have s4: "np_is_burning np4" "np_bpn np4 = Some (Table_Node i)" "(i, n) \<in> set (entries (ec_ns np4))" "ec_ns_set np4"
    using np4(4) np1(3,8-10) bpn ready(1) by (simp_all add: same_node_def)
  obtain np5 where np5: "broadcast_best_path np4 = Inr np5" "node_inv np5" "same_node np4 np5"
    "sent_last MSG_TYPE_NEIGHBOR_DATA (BEST_PATH_UPDATE_PACKET # best_path_bytes (burning_path np4 n)) np4 np5"
    by (rule returnsE [OF burning_announcement [OF np4(3,5) s4]]) (elim conjE, rule that, assumption+)
  have path: "burning_path np4 n = burning_path np n" "length (best_path_bytes (burning_path np n)) = 5"
    using np4(4) np1(12) by (simp_all add: burning_path_def same_node_def best_path_bytes_def)
  have run: "emergency_sensed np = Inr np5"
    using np1(1,6) q(1) np4(1,2) np5(1) calm bpn(1) by (simp add: emergency_sensed_def send_emergency_packet_def)
  have lanes: "lane_view ?np2 u = lane_view np u" for u by (simp add: lane_view_def np1(7))
  have "lane_view np5 MSG_TYPE_BROADCAST_DATA = lane_view np4 MSG_TYPE_BROADCAST_DATA"
    using np5(4) by (simp add: sent_last_def msg_type_defs)
  with np4(6) have fire: "\<exists>p k u. lane_view np5 MSG_TYPE_BROADCAST_DATA = lane_view np MSG_TYPE_BROADCAST_DATA @ [(p, 5, k, u)] \<and>
        take 5 (drop 7 p) = ?fire" using len(1) lanes by simp
  have announced: "\<exists>p k u. lane_view np5 MSG_TYPE_NEIGHBOR_DATA = lane_view np MSG_TYPE_NEIGHBOR_DATA @ [(p, 6, k, u)] \<and>
        take 6 (drop 7 p) = BEST_PATH_UPDATE_PACKET # best_path_bytes (burning_path np n)"
    using np5(4) np4(7) lanes path by (auto simp: sent_last_def)
  show ?thesis
    using run np5(2) same_node_trans [OF np4(4) np5(3)] np1(3,4) place fire announced by (auto simp: same_node_def)
qed

lemma alarm_witness:
  "\<exists>np np'. node_inv np \<and> \<not> np_is_burning np \<and> emergency_sensed np = Inr np' \<and> np_is_burning np' \<and>
     length (lane_view np' MSG_TYPE_BROADCAST_DATA) = Suc (length (lane_view np MSG_TYPE_BROADCAST_DATA))"
proof -
  let ?s = "ec_timesynch_on deployed"
  have ns: "ec_ns ?s = ec_ns deployed" "ec_ns_set ?s = ec_ns_set deployed" by (simp_all add: ec_timesynch_on_def)
  have "neighbor_addrs (ec_ns deployed) \<noteq> []" using deployed_connection(4) by simp
  then obtain i n where e: "(i, n) \<in> set (entries (ec_ns ?s))"
    unfolding ns by (cases "entries (ec_ns deployed)") (auto simp: neighbor_addrs_def items_def)
  let ?np = "?s\<lparr>np_bpn := Some (Table_Node i)\<rparr>"
  have np: "node_inv ?np" "3 \<le> pb_free_cells (ec_sq ?np)" "\<not> np_is_burning ?np" "ec_ns_set ?np" "ec_ts_is_on ?np"
    using started_facts(1-3) deployed_connection(3) deployed_facts(2) ns(2)
    by (simp_all add: node_inv_fields set_up_def ec_timesynch_on_def)
  have "returns (emergency_sensed ?np) (\<lambda>np'. np_is_burning np' \<and>
     length (lane_view np' MSG_TYPE_BROADCAST_DATA) = Suc (length (lane_view ?np MSG_TYPE_BROADCAST_DATA)))"
    by (rule returns_mono [OF fire_raises_the_alarm [OF np(1-3) _ _ np(4,5)], of i n]) (use e in auto)
  with np(1,3) show ?thesis unfolding returns_def by blast
qed

end
