(* ===== verification/Start_Spec.thy ===== *)
theory Start_Spec
  imports Emergency_Spec
begin

text \<open>
  The start of the exit paths: what an exit node does with the packet that asks for it, and with a
  second one.
\<close>

text \<open>What the connection's own work keeps of an exit node.\<close>

definition same_exit :: "node_properties \<Rightarrow> node_properties \<Rightarrow> bool" where
  "same_exit np np' \<longleftrightarrow> np_is_exit_node np' = np_is_exit_node np \<and> np_exit_node np' = np_exit_node np \<and>
     np_has_sent_node_info np' = np_has_sent_node_info np \<and> np_is_sink_node np' = np_is_sink_node np \<and>
     np_is_burning np' = np_is_burning np \<and> np_coordinate_node np' = np_coordinate_node np"

lemma internal_same_exit: "ec_internal np np' \<Longrightarrow> same_exit np np'"
  by (cases np, cases np') (simp add: same_exit_def ec_internal_def)

lemma own_ns_same_exit:
  assumes "node_inv np" and "broadcast_own_ns data np = Inr np'"
  shows "same_exit np np'"
proof -
  have "node_inv (next_seqno np)" using assms(1) by (simp add: next_seqno_def node_inv_fields)
  then have "ec_internal (next_seqno np) np'"
    using assms(2) ec_reliable_broadcast_ns_internal [OF node_invD(1)] by (simp add: broadcast_own_ns_def)
  then show ?thesis using internal_same_exit [of "next_seqno np" np'] by (simp add: same_exit_def next_seqno_def)
qed

lemma forward_ns_returns:
  assumes inv: "node_inv np" and room: "0 < pb_free_cells (ec_sq np)" and ns: "ec_ns_set np" "items (ec_ns np) \<noteq> []"
    and len: "length data \<le> 24"
  shows "returns (forward_broadcast_ns o' h n data (of_nat (length data)) np) (\<lambda>np'. node_inv np' \<and> same_node np np' \<and>
     same_exit np np' \<and> sent_last MSG_TYPE_NEIGHBOR_DATA data np np' \<and>
     pb_free_cells (ec_sq np') = pb_free_cells (ec_sq np) - 1)"
proof -
  have l: "unat (of_nat (length data) :: byte) \<le> 24" "unat (of_nat (length data) :: byte) \<le> length data"
    using len by (simp_all add: unsigned_of_nat take_bit_nat_eq_self)
  have same: "same_exit np np'" if "forward_broadcast_ns o' h n data (of_nat (length data)) np = Inr np'" for np'
    using that internal_same_exit [OF ec_reliable_broadcast_ns_internal [OF node_invD(1) [OF inv]]]
    by (simp add: forward_broadcast_ns_def)
  from ec_reliable_broadcast_ns_calls [OF ec_invD(1) [OF node_invD(1) [OF inv]] room ns(1) l, of o' "ec_node_addr np" "h + 1" n]
  obtain np' where f: "forward_broadcast_ns o' h n data (of_nat (length data)) np = Inr np'"
    and c: "calls MSG_TYPE_NEIGHBOR_DATA (header_bytes (init_broadcast_packet 0 (h + 1) o' (ec_node_addr np) n))
       (init_broadcast_packet 0 (h + 1) o' (ec_node_addr np) n) data (of_nat (length data)) (Some (ec_ns np)) np np'"
    using ns(2) by (auto simp: forward_broadcast_ns_def returns_def Let_def)
  from calls_sent_last [OF inv c len] same [OF f] show ?thesis by (simp add: f)
qed

text \<open>The path of an exit node: no distance to go, no node on the way.\<close>

definition exit_path :: "node_properties \<Rightarrow> neighbor_node_best_path" where
  "exit_path np = \<lparr>bp_metric = (0, 0), bp_points_to = ec_node_addr np, bp_hops = 0\<rparr>"

definition is_exit :: "node_properties \<Rightarrow> bool" where
  "is_exit np \<longleftrightarrow> np_is_exit_node np \<and> nn_bp (np_exit_node np) = exit_node_bp (ec_node_addr np) \<and>
     nn_addr (np_exit_node np) = ec_node_addr np \<and> nn_distance (np_exit_node np) = (0, 0)"

lemma zero_metric: "uint8_to_uint16 (0, 0) = 0" "uint16_to_uint8 0 = (0, 0)"
  by (simp_all add: uint8_to_uint16_def uint16_to_uint8_def)

lemma exit_announcement:
  assumes "is_exit np" and "\<not> np_is_burning np" and "np_bpn np = Some Exit_Node"
  shows "best_neighbor_bp_to_our_bp np = Inr (exit_path np)"
  using assms by (simp add: best_neighbor_bp_to_our_bp_def bpn_node_def node_at_def is_exit_def exit_path_def
      exit_node_bp_def neighbor_node_metric_def neighbor_node_distance_def neighbor_node_addr_def neighbor_node_hops_def
      weigh_metrics_def weigh_distance_def zero_metric)

lemma node_info_of_exit:
  assumes inv: "node_inv np" and room: "0 < pb_free_cells (ec_sq np)" and ns: "ec_ns_set np" "items (ec_ns np) \<noteq> []"
    and exit: "is_exit np" "\<not> np_is_burning np"
  shows "returns (update_bpn_and_send_node_info np) (\<lambda>np'. node_inv np' \<and> same_exit np np' \<and> np_bpn np' = Some Exit_Node \<and>
     sent_last MSG_TYPE_NEIGHBOR_DATA
       (NODE_INFO_PACKET # coordinate_bytes (np_coordinate_node np) @ best_path_bytes (exit_path np)) np np')"
proof -
  obtain q where q: "find_best_exit_path_neighbor np = Inr (np\<lparr>ec_ns := q\<rparr>, Exit_Node)" "ns_wf q"
    "entries q = entries (ec_ns np)"
    using find_best_returns [OF node_invD(4) [OF inv]] exit(1) by (auto simp: returns_def best_of_def is_exit_def)
  let ?n = "np\<lparr>ec_ns := q, np_bpn := Some Exit_Node\<rparr>"
  let ?d = "NODE_INFO_PACKET # coordinate_bytes (np_coordinate_node np) @ best_path_bytes (exit_path np)"
  have n: "node_inv ?n" using node_inv_fields(1) [OF node_inv_ns [OF inv q(2)]] .
  have bp: "best_neighbor_bp_to_our_bp ?n = Inr (exit_path np)"
    using exit_announcement [of ?n] exit by (simp add: is_exit_def exit_path_def)
  have len: "length ?d \<le> 24" by (simp add: coordinate_bytes_def best_path_bytes_def)
  have ns': "ec_ns_set ?n" "items (ec_ns ?n) \<noteq> []" "0 < pb_free_cells (ec_sq ?n)"
    using ns q(3) room by (simp_all add: items_def)
  obtain np' where np': "broadcast_own_ns ?d ?n = Inr np'" "node_inv np'" "same_node ?n np'"
    "sent_last MSG_TYPE_NEIGHBOR_DATA ?d ?n np'"
    using broadcast_own_ns_returns [OF n ns'(3) len ns'(1,2)] unfolding returns_def by blast
  have "update_bpn_and_send_node_info np = Inr np'"
    using q(1) bp np'(1) by (simp add: update_bpn_and_send_node_info_def Let_def)
  moreover have "same_exit np np'" using own_ns_same_exit [OF n np'(1)] by (simp add: same_exit_def)
  ultimately show ?thesis using np' by (simp add: same_node_def sent_last_def lane_view_def)
qed

lemma start_stops_later:
  assumes inv: "node_inv np" and exit: "np_is_exit_node np" "np_has_sent_node_info np" "\<not> np_is_sink_node np"
  shows "\<exists>f. ec_broadcasts_recv np o' s h n (INITIALIZE_BEST_PATHS_PACKET # rest) l = Inl f"
proof -
  have "\<exists>f. bindR r initialize_best_path_packet_handler = Inl f" if "ensures r (same_exit np)" for r
    using that exit by (cases r) (auto simp: ensures_def same_exit_def initialize_best_path_packet_handler_def
        ec_timesynch_on_def Let_def)
  moreover have "ensures (forward_broadcast_ns o' h n (INITIALIZE_BEST_PATHS_PACKET # rest) l np) (same_exit np)"
    using ec_reliable_broadcast_ns_internal [OF node_invD(1) [OF inv]] internal_same_exit
    by (auto simp: ensures_def forward_broadcast_ns_def)
  ultimately show ?thesis
    using exit(3) by (simp add: ec_broadcasts_recv_def packet_type_def read_mem_def regular_broadcast_recv_def packet_type_defs)
qed

text \<open>
  C27: The exit paths start at an exit node, once. Asked for the first time, the node passes the
  request on, and announces to its neighbors its place and a path of metric 0 that ends at itself.
  A second request, whoever sends it, ends in a failure.
\<close>

theorem exit_node_starts_once:
  assumes inv: "node_inv np" and room: "2 \<le> pb_free_cells (ec_sq np)" and ns: "ec_ns_set np" "items (ec_ns np) \<noteq> []"
    and exit: "is_exit np" "\<not> np_is_burning np" and state: "\<not> np_is_sink_node np" "\<not> np_has_sent_node_info np"
  shows "returns (ec_broadcasts_recv np o' s h n [INITIALIZE_BEST_PATHS_PACKET] 1) (\<lambda>np'. node_inv np' \<and>
     np_bpn np' = Some Exit_Node \<and> np_has_sent_node_info np' \<and>
     (\<exists>p1 n1 u1 p2 l2 n2 u2. lane_view np' MSG_TYPE_NEIGHBOR_DATA =
          lane_view np MSG_TYPE_NEIGHBOR_DATA @ [(p1, 1, n1, u1), (p2, l2, n2, u2)] \<and>
        p1 ! 7 = INITIALIZE_BEST_PATHS_PACKET \<and>
        take 10 (drop 7 p2) = NODE_INFO_PACKET # coordinate_bytes (np_coordinate_node np) @ best_path_bytes (exit_path np)) \<and>
     (\<forall>o2 s2 h2 n2 rest l2. \<exists>f. ec_broadcasts_recv np' o2 s2 h2 n2 (INITIALIZE_BEST_PATHS_PACKET # rest) l2 = Inl f))"
proof -
  obtain np1 where f: "forward_broadcast_ns o' h n [INITIALIZE_BEST_PATHS_PACKET] 1 np = Inr np1" "node_inv np1"
    "same_node np np1" "same_exit np np1" "sent_last MSG_TYPE_NEIGHBOR_DATA [INITIALIZE_BEST_PATHS_PACKET] np np1"
    "pb_free_cells (ec_sq np1) = pb_free_cells (ec_sq np) - 1"
    using forward_ns_returns [OF inv _ ns, of "[INITIALIZE_BEST_PATHS_PACKET]" o' h n] room by (auto simp: returns_def)
  define m where "m = (if np_is_reset_mode (ec_timesynch_on np1)
      then (ec_timesynch_on np1)\<lparr>np_is_reset_mode := False\<rparr> else ec_timesynch_on np1)"
  have m: "node_inv m" "ec_ns_set m" "items (ec_ns m) \<noteq> []" "0 < pb_free_cells (ec_sq m)" "is_exit m" "\<not> np_is_burning m"
    using timesynch_on_keeps [OF f(2)] node_inv_fields(11) f(3,4,6) ns room exit
    by (simp_all add: m_def ec_timesynch_on_def same_node_def same_exit_def items_def is_exit_def)
  have m': "lane_view m = lane_view np1" "exit_path m = exit_path np" "np_coordinate_node m = np_coordinate_node np"
    "\<not> np_has_sent_node_info m" "np_is_exit_node m" "\<not> np_is_sink_node m"
    using f(3,4) exit(1) state by (auto simp: m_def ec_timesynch_on_def same_node_def same_exit_def exit_path_def is_exit_def lane_view_def)
  obtain np2 where i: "update_bpn_and_send_node_info m = Inr np2" "node_inv np2" "same_exit m np2" "np_bpn np2 = Some Exit_Node"
    "sent_last MSG_TYPE_NEIGHBOR_DATA
       (NODE_INFO_PACKET # coordinate_bytes (np_coordinate_node np) @ best_path_bytes (exit_path np)) m np2"
    using node_info_of_exit [OF m(1) m(4) m(2,3) m(5,6)] m'(2,3) unfolding returns_def by metis
  let ?np' = "np2\<lparr>np_has_sent_node_info := True\<rparr>"
  have "initialize_best_path_packet_handler np1 = Inr ?np'"
    using i(1) m'(4,5) by (simp only: initialize_best_path_packet_handler_def Let_def m_def [symmetric]) simp
  then have run: "ec_broadcasts_recv np o' s h n [INITIALIZE_BEST_PATHS_PACKET] 1 = Inr ?np'"
    using f(1) state(1) by (simp add: ec_broadcasts_recv_def packet_type_def read_mem_def regular_broadcast_recv_def packet_type_defs)
  have inv': "node_inv ?np'" and ex': "np_is_exit_node ?np'" "np_has_sent_node_info ?np'" "\<not> np_is_sink_node ?np'"
    using i(2,3) m'(5,6) by (simp_all add: node_inv_fields same_exit_def)
  obtain p1 n1 u1 where p1: "lane_view np1 MSG_TYPE_NEIGHBOR_DATA = lane_view np MSG_TYPE_NEIGHBOR_DATA @ [(p1, 1, n1, u1)]"
    "take 1 (drop 7 p1) = [INITIALIZE_BEST_PATHS_PACKET]"
    using f(5) by (auto simp: sent_last_def)
  obtain p2 l2 n2 u2 where p2: "lane_view np2 MSG_TYPE_NEIGHBOR_DATA = lane_view m MSG_TYPE_NEIGHBOR_DATA @ [(p2, l2, n2, u2)]"
    "take 10 (drop 7 p2) = NODE_INFO_PACKET # coordinate_bytes (np_coordinate_node np) @ best_path_bytes (exit_path np)"
    using i(5) by (auto simp: sent_last_def coordinate_bytes_def best_path_bytes_def)
  have "p1 ! 7 = INITIALIZE_BEST_PATHS_PACKET"
    using p1(2) by (cases "drop 7 p1") (auto simp: nth_via_drop)
  moreover have "lane_view ?np' MSG_TYPE_NEIGHBOR_DATA = lane_view np MSG_TYPE_NEIGHBOR_DATA @ [(p1, 1, n1, u1), (p2, l2, n2, u2)]"
    using p1(1) p2(1) m'(1) by (simp add: lane_view_def)
  ultimately show ?thesis
    using inv' ex' i(4) p2(2) start_stops_later [OF inv' ex'] unfolding run returns_Inr by simp
qed

definition exit_deployed :: node_properties where
  "exit_deployed = deployed\<lparr>np_is_exit_node := True,
     np_exit_node := neighbor_node_zero\<lparr>nn_addr := (2, 0), nn_distance := (0, 0), nn_bp := exit_node_bp (2, 0)\<rparr>\<rparr>"

lemma exit_deployed_facts:
  "node_inv exit_deployed" "2 \<le> pb_free_cells (ec_sq exit_deployed)" "ec_ns_set exit_deployed"
  "items (ec_ns exit_deployed) \<noteq> []" "is_exit exit_deployed" "\<not> np_is_burning exit_deployed"
  "\<not> np_is_sink_node exit_deployed" "\<not> np_has_sent_node_info exit_deployed"
  using deployed_connection(2-4) deployed_facts(2) node_inv_fields(18) [OF deployed_facts(1)]
  by (auto simp: exit_deployed_def is_exit_def set_up_def cooja_packet_def neighbor_addrs_def)

lemma exit_node_witness:
  "returns (ec_broadcasts_recv exit_deployed (9, 0) (1, 0) 0 5 [INITIALIZE_BEST_PATHS_PACKET] 1) (\<lambda>np'.
     np_bpn np' = Some Exit_Node \<and> (\<exists>f. ec_broadcasts_recv np' (9, 0) (1, 0) 0 6 [INITIALIZE_BEST_PATHS_PACKET] 1 = Inl f))"
  by (rule returns_mono [OF exit_node_starts_once [OF exit_deployed_facts]]) auto

end
