(* ===== verification/Path_Spec.thy ===== *)
theory Path_Spec
  imports Liveness_Spec
begin

text \<open>
  Exit paths: the neighbor that a node chooses, the metric it announces, and what becomes of both on
  16-bit words; the blinking that shows the path; the fires a node knows of.
\<close>

subsection \<open>The best neighbor\<close>

text \<open>A neighbor through which an exit may be reached, and the length of that path.\<close>

definition usable :: "rimeaddr \<Rightarrow> neighbor_node \<Rightarrow> bool" where
  "usable me n \<longleftrightarrow> bp_points_to (nn_bp n) \<noteq> me \<and> neighbor_node_metric n \<noteq> METRIC_T_MAX \<and> neighbor_node_hops n < 7"

definition path_length :: "neighbor_node \<Rightarrow> metric_t" where
  "path_length n = neighbor_node_distance n + neighbor_node_metric n"

text \<open>The best of the neighbors seen so far.\<close>

fun best_so_far :: "rimeaddr \<Rightarrow> (nat \<times> neighbor_node) list \<Rightarrow> node_ptr option \<times> metric_t \<Rightarrow> bool" where
  "best_so_far me es (None, m) = (m = METRIC_T_MAX \<and> (\<forall>(i, n) \<in> set es. usable me n \<longrightarrow> path_length n = METRIC_T_MAX))"
| "best_so_far me es (Some p, m) = (\<exists>i n. p = Table_Node i \<and> (i, n) \<in> set es \<and> usable me n \<and> m = path_length n \<and>
     m \<noteq> METRIC_T_MAX \<and> (\<forall>(j, k) \<in> set es. usable me k \<longrightarrow> m \<le> path_length k))"

lemma metric_max: "m \<le> METRIC_T_MAX"
  using unat_u16_less [of m] by (simp add: METRIC_T_MAX_def word_le_nat_alt)

lemma consider_neighbor_eq:
  "consider_neighbor me i n s = (if usable me n \<and> path_length n < snd s then (Some (Table_Node i), path_length n) else s)"
  by (auto simp: consider_neighbor_def usable_def path_length_def weigh_distance_def Let_def
      neighbor_node_points_to_us_def MAX_NUMBER_OF_HOPS_TO_EXIT_def)

lemma consider_best:
  assumes "best_so_far me es s" shows "best_so_far me (es @ [(i, n)]) (consider_neighbor me i n s)"
proof -
  note c = consider_neighbor_eq [of me i n s]
  show ?thesis
  proof (cases "usable me n \<and> path_length n < snd s")
    case True
    have "path_length n \<le> path_length k" if "(j, k) \<in> set es" "usable me k" for j k
      using assms that True metric_max [of "path_length n"] by (cases "(me, es, s)" rule: best_so_far.cases) fastforce+
    with True c metric_max [of "snd s"] show ?thesis by (auto simp: not_le dest: less_le_trans)
  next
    case False
    then have le: "usable me n \<Longrightarrow> snd s \<le> path_length n" by simp
    have s: "consider_neighbor me i n s = s" using c False by simp
    show ?thesis
    proof (cases "fst s")
      case None
      with assms le metric_max [of "path_length n"] show ?thesis
        unfolding s by (cases s) (auto intro: antisym)
    next
      case (Some p)
      with assms le show ?thesis unfolding s by (cases s) force
    qed
  qed
qed

lemma fold_best:
  "best_so_far me es s \<Longrightarrow> best_so_far me (es @ fs) (fold (\<lambda>(i, n). consider_neighbor me i n) fs s)"
proof (induction fs arbitrary: es s)
  case (Cons f fs)
  obtain i n where f: "f = (i, n)" by (cases f)
  from Cons.IH [OF consider_best [OF Cons.prems, of i n]] show ?case by (simp add: f)
qed simp

text \<open>
  C15: The neighbor that a node chooses for its way to an exit lies on a shortest path: it does not
  lead back to the node, has a metric, is at most six hops from an exit, and no other neighbor with
  these properties has a smaller sum of distance and metric. Only if there is none, the node points
  to nowhere.
\<close>

theorem best_neighbor_is_nearest:
  assumes "ns_wf (ec_ns np)" and "\<not> np_is_exit_node np"
  shows "\<exists>np' best. find_best_exit_path_neighbor np = Inr (np', best) \<and> entries (ec_ns np') = entries (ec_ns np) \<and>
    (case best of
       Table_Node i \<Rightarrow> \<exists>n. (i, n) \<in> set (entries (ec_ns np)) \<and> usable (ec_node_addr np) n \<and>
         (\<forall>(j, k) \<in> set (entries (ec_ns np)). usable (ec_node_addr np) k \<longrightarrow> path_length n \<le> path_length k)
     | Max_Node \<Rightarrow> \<forall>(j, k) \<in> set (entries (ec_ns np)). usable (ec_node_addr np) k \<longrightarrow> path_length k = METRIC_T_MAX
     | Exit_Node \<Rightarrow> False)"
proof -
  let ?es = "entries (ec_ns np)"
  let ?s = "fold (\<lambda>(i, n). consider_neighbor (ec_node_addr np) i n) ?es (None, METRIC_T_MAX)"
  have best: "best_so_far (ec_node_addr np) ?es ?s"
    using fold_best [of "ec_node_addr np" "[]" "(None, METRIC_T_MAX)" ?es] by simp
  obtain np' where r: "find_best_exit_path_neighbor np = Inr (np', best_of np)" "entries (ec_ns np') = ?es"
    using find_best_returns [OF assms(1)] by (auto simp: returns_def)
  have "best_of np = (case fst ?s of None \<Rightarrow> Max_Node | Some b \<Rightarrow> b)"
    using assms(2) by (simp add: best_of_def)
  with r best show ?thesis
    by (cases "(ec_node_addr np, ?es, ?s)" rule: best_so_far.cases) auto
qed

lemma best_neighbor_witness:
  "\<exists>np' best. find_best_exit_path_neighbor deployed = Inr (np', best) \<and> entries (ec_ns np') = entries (ec_ns deployed)"
  using best_neighbor_is_nearest [of deployed] deployed_connection(1) deployed_facts(2)
  by (auto simp: ec_wfD set_up_def cooja_packet_def)

subsection \<open>The metric that is announced\<close>

text \<open>
  The path that a node announces is its best neighbor's path made longer: one hop more, through that
  neighbor, and the metric is the sum of the neighbor's metric and distance and, on a burning node, of
  1000 and the sensor's value, modulo 65536.
\<close>

lemma our_best_path:
  assumes "np_bpn np = Some p" and "node_at p np = Inr n"
  obtains bp where "best_neighbor_bp_to_our_bp np = Inr bp" and "bp_points_to bp = nn_addr n"
    and "bp_hops bp = neighbor_node_hops n + 1"
    and "unat (uint8_to_uint16 (bp_metric bp)) =
       (unat (neighbor_node_metric n) + unat (neighbor_node_distance n) +
        (if np_is_burning np then 1000 + unat (uint8_to_uint16 (np_current_sensors_metric np)) else 0)) mod 65536"
proof -
  let ?m = "neighbor_node_metric n + weigh_metrics np (neighbor_node_distance n)"
  have "unat ?m = (unat (neighbor_node_metric n) + unat (neighbor_node_distance n) +
      (if np_is_burning np then 1000 + unat (uint8_to_uint16 (np_current_sensors_metric np)) else 0)) mod 65536"
  proof (cases "np_is_burning np")
    case True
    have "?m = (neighbor_node_metric n + neighbor_node_distance n) + (1000 + uint8_to_uint16 (np_current_sensors_metric np))"
      using True by (simp add: weigh_metrics_def weigh_distance_def)
    then show ?thesis using True by (simp add: unat_word_ariths mod_simps add.assoc)
  qed (simp add: weigh_metrics_def weigh_distance_def unat_word_ariths)
  with that assms show thesis
    by (simp add: best_neighbor_bp_to_our_bp_def bpn_node_def neighbor_node_addr_def)
qed

text \<open>
  C38: A burning node without a path announces a short one: the metric that means \<open>no path\<close> is
  increased and wraps around, so that every neighbor takes the node for a way out, with a metric
  that is 999 more than the value of the sensor.
\<close>

theorem burning_dead_end_announces_a_path:
  assumes "np_bpn np = Some Max_Node" and "neighbor_node_metric (np_max_node np) = METRIC_T_MAX"
    and "neighbor_node_distance (np_max_node np) = 0" and "np_is_burning np"
    and "uint8_to_uint16 (np_current_sensors_metric np) < 64000"
  shows "\<exists>bp. best_neighbor_bp_to_our_bp np = Inr bp \<and>
     unat (uint8_to_uint16 (bp_metric bp)) = 999 + unat (uint8_to_uint16 (np_current_sensors_metric np)) \<and>
     uint8_to_uint16 (bp_metric bp) \<noteq> METRIC_T_MAX"
proof -
  let ?v = "uint8_to_uint16 (np_current_sensors_metric np)"
  define bp where "bp = \<lparr>bp_metric = uint16_to_uint8 (0xFFFF + (1000 + ?v)), bp_points_to = neighbor_node_addr (np_max_node np),
      bp_hops = neighbor_node_hops (np_max_node np) + 1\<rparr>"
  have "best_neighbor_bp_to_our_bp np = Inr bp"
    using assms by (simp add: best_neighbor_bp_to_our_bp_def bpn_node_def weigh_metrics_def weigh_distance_def
        METRIC_T_MAX_def node_at_def bp_def)
  moreover have v: "unat (uint8_to_uint16 (bp_metric bp)) = 999 + unat ?v"
    using assms(5) by (simp add: bp_def unat_word_ariths word_less_nat_alt)
  moreover have "uint8_to_uint16 (bp_metric bp) \<noteq> METRIC_T_MAX"
    using v assms(5) by (auto simp: METRIC_T_MAX_def word_less_nat_alt)
  ultimately show ?thesis by blast
qed

definition dead_end :: node_properties where
  "dead_end = booted\<lparr>np_bpn := Some Max_Node, np_is_burning := True,
     np_max_node := neighbor_node_set_best_path neighbor_node_zero neighbor_node_best_path_max,
     np_current_sensors_metric := uint16_to_uint8 450\<rparr>"

lemma dead_end_facts:
  "neighbor_node_metric (np_max_node dead_end) = METRIC_T_MAX" "neighbor_node_distance (np_max_node dead_end) = 0"
  by (simp_all add: dead_end_def neighbor_node_metric_def neighbor_node_distance_def neighbor_node_set_best_path_def
      neighbor_node_zero_def neighbor_node_best_path_max_def METRIC_T_MAX_def uint8_to_uint16_def)

lemma dead_end_witness:
  "\<exists>bp. best_neighbor_bp_to_our_bp dead_end = Inr bp \<and> unat (uint8_to_uint16 (bp_metric bp)) = 1449"
  using burning_dead_end_announces_a_path [OF _ dead_end_facts] by (auto simp: dead_end_def)

definition next_door :: neighbor_node where
  "next_door = neighbor_node_set_best_path (new_neighbor (1, 0)) \<lparr>bp_metric = (0, 0x40), bp_points_to = (1, 0), bp_hops = 0\<rparr>"

definition far_away :: neighbor_node where
  "far_away = neighbor_node_set_best_path ((new_neighbor (3, 0))\<lparr>nn_distance := (0x10, 0)\<rparr>)
     \<lparr>bp_metric = (0xF0, 0x10), bp_points_to = (4, 0), bp_hops = 3\<rparr>"

text \<open>
  The sum of distance and metric is taken on 16 bits, too: of two neighbors, one exit next door
  (distance 0, metric 0x40) and one 0x1000 away with metric 0xF010, the second is chosen, since its
  sum wraps around to 0x10.
\<close>

lemma long_way_wraps_around:
  "fst (consider_neighbor (2, 0) 1 far_away (consider_neighbor (2, 0) 0 next_door (None, METRIC_T_MAX))) = Some (Table_Node 1)"
  by code_simp

subsection \<open>Blinking\<close>

definition blinks :: "node_properties \<Rightarrow> bool" where
  "blinks np \<longleftrightarrow> np_is_blinking np \<and> \<not> np_is_burning np \<and> (\<exists>p n. np_bpn np = Some p \<and> node_at p np = Inr n)"

lemma node_at_cong: "ec_ns np' = ec_ns np \<Longrightarrow> np_exit_node np' = np_exit_node np \<Longrightarrow> np_max_node np' = np_max_node np
    \<Longrightarrow> node_at p np' = node_at p np"
  by (cases p) (simp_all add: node_at_def)

lemma unat_blink_state: "unat ((w + 1) mod BLINKING_SEQUENCE_LENGTH) = (unat w + 1) mod 8"
proof -
  have "unat (w + 1) mod 8 = (unat w + 1) mod 65536 mod 8" by (simp add: unat_word_ariths)
  also have "\<dots> = (unat w + 1) mod 8" by (rule mod_mod_cancel) simp
  finally show ?thesis by (simp add: BLINKING_SEQUENCE_LENGTH_def unat_mod_distrib)
qed

lemma blink_step:
  assumes "blinks np"
  shows "returns (blink np) (\<lambda>np'. blinks np' \<and> unat (np_blinking_state np') = (unat (np_blinking_state np) + 1) mod 8 \<and>
    np_next_wakeup np' = np_next_wakeup np + 4096 \<and> np_rt np' = Some (np_next_wakeup np'))"
proof -
  obtain p n where p: "np_bpn np = Some p" "node_at p np = Inr n" using assms by (auto simp: blinks_def)
  obtain r g b where l: "np_leds np = (r, g, b)" by (cases "np_leds np")
  define m where "m = (if neighbor_node_metric n < MAX_ALLOWED_METRIC
      then if np_blinking_state np = ON then leds_blue True np
           else if OFF_1 \<le> np_blinking_state np \<and> np_blinking_state np \<le> OFF_7 then leds_blue False np else np
      else leds_blue True np)"
  have m: "ec_ns m = ec_ns np" "np_exit_node m = np_exit_node np" "np_max_node m = np_max_node np" "np_bpn m = np_bpn np"
    "np_is_blinking m = np_is_blinking np" "np_is_burning m = np_is_burning np" "np_next_wakeup m = np_next_wakeup np"
    "np_blinking_state m = np_blinking_state np"
    using l by (simp_all add: m_def leds_blue_def)
  have "blink np = Inr (m\<lparr>np_next_wakeup := np_next_wakeup np + 4096, np_rt := Some (np_next_wakeup np + 4096),
      np_blinking_state := (np_blinking_state np + 1) mod BLINKING_SEQUENCE_LENGTH\<rparr>)"
    using assms p m by (simp add: blinks_def blink_def bpn_node_def Let_def rtimer_set_def m_def [symmetric]
        BLINKING_SEQUENCE_SWITCH_TIME_def)
  moreover have "node_at p (m\<lparr>np_next_wakeup := np_next_wakeup np + 4096, np_rt := Some (np_next_wakeup np + 4096),
      np_blinking_state := (np_blinking_state np + 1) mod BLINKING_SEQUENCE_LENGTH\<rparr>) = Inr n"
    by (rule trans [OF node_at_cong p(2)]) (simp_all add: m)
  ultimately show ?thesis
    using assms p m by (auto simp: blinks_def unat_blink_state)
qed

text \<open>
  The light repeats itself: on a node that is blinking and knows its best neighbor, the
  interrupt never fails, and after \<open>k\<close> interrupts the sequence is \<open>k\<close> states further, counted
  modulo eight, the next interrupt is set \<open>k\<close> eighths of a cycle later, and the timer is armed.
\<close>

theorem blinking_goes_round:
  assumes "np_is_blinking np" and "\<not> np_is_burning np" and "np_bpn np = Some p" and "node_at p np = Inr n"
  shows "returns (repeatedly (Suc k) blink np) (\<lambda>np'. unat (np_blinking_state np') = (unat (np_blinking_state np) + Suc k) mod 8 \<and>
    np_next_wakeup np' = np_next_wakeup np + of_nat (Suc k) * 4096 \<and> np_rt np' = Some (np_next_wakeup np'))"
proof -
  have "blinks np" using assms by (auto simp: blinks_def)
  then show ?thesis
  proof (induction k arbitrary: np)
    case 0
    from blink_step [OF 0] show ?case by (auto simp: returns_def)
  next
    case (Suc k)
    from blink_step [OF Suc.prems] obtain np1 where b: "blink np = Inr np1" "blinks np1"
      "unat (np_blinking_state np1) = (unat (np_blinking_state np) + 1) mod 8"
      "np_next_wakeup np1 = np_next_wakeup np + 4096" by (auto simp: returns_def)
    have state: "(unat (np_blinking_state np1) + Suc k) mod 8 = (unat (np_blinking_state np) + Suc (Suc k)) mod 8"
      using mod_add_left_eq [of "unat (np_blinking_state np) + 1" 8 "Suc k"] by (simp add: b(3))
    have wakeup: "np_next_wakeup np1 + of_nat (Suc k) * 4096 = np_next_wakeup np + of_nat (Suc (Suc k)) * 4096"
      by (simp add: b(4) algebra_simps)
    show ?case
      unfolding repeatedly.simps(2) [of "Suc k"] b(1) bindR.simps
      using Suc.IH [OF b(2)] unfolding state wakeup .
  qed
qed

lemma blinking_witness:
  "returns (repeatedly 8 blink (booted\<lparr>np_is_blinking := True, np_bpn := Some Exit_Node, np_is_burning := False, np_blinking_state := 3\<rparr>))
     (\<lambda>np'. np_blinking_state np' = 3)"
proof -
  let ?np = "booted\<lparr>np_is_blinking := True, np_bpn := Some Exit_Node, np_is_burning := False, np_blinking_state := 3\<rparr>"
  have "Suc 7 = 8" by simp
  from blinking_goes_round [of ?np Exit_Node "np_exit_node booted" 7, unfolded this] show ?thesis
    by (auto simp: node_at_def word_unat_eq_iff elim!: returns_mono)
qed

end
