(* ===== verification/Routes_Spec.thy ===== *)
theory Routes_Spec
  imports Start_Spec Path_Spec
begin

text \<open>
  The paths of a whole network. Every node only knows its neighbors and what they announced; here
  the choices of all nodes are put together, and the routes that they form are followed to the exits.
\<close>

subsection \<open>Networks that have settled\<close>

type_synonym network = "rimeaddr \<rightharpoonup> node_properties"

text \<open>
  The state after all announcements have arrived: every node has chosen its best neighbor, and
  what its table says of a neighbor with a path is what that neighbor would announce now. A node
  without a path does not burn. Theory \<open>Network_Spec\<close> shows that networks settle, and \<open>Learning_Spec\<close>
  when a single node does not follow its neighbors' announcements.
\<close>

definition up_to_date :: "network \<Rightarrow> neighbor_node \<Rightarrow> bool" where
  "up_to_date net n \<longleftrightarrow> neighbor_node_metric n = METRIC_T_MAX \<or>
     (\<exists>nb. net (nn_addr n) = Some nb \<and> best_neighbor_bp_to_our_bp nb = Inr (nn_bp n))"

definition settled_node :: "network \<Rightarrow> rimeaddr \<Rightarrow> node_properties \<Rightarrow> bool" where
  "settled_node net a np \<longleftrightarrow> ec_node_addr np = a \<and> ns_wf (ec_ns np) \<and> np_bpn np = Some (best_of np) \<and>
     (np_is_exit_node np \<longrightarrow> is_exit np) \<and>
     (best_of np = Max_Node \<longrightarrow> \<not> np_is_burning np \<and> neighbor_node_metric (np_max_node np) = METRIC_T_MAX \<and>
        neighbor_node_distance (np_max_node np) = 0) \<and>
     (\<forall>n \<in> set (items (ec_ns np)). up_to_date net n)"

definition settled :: "network \<Rightarrow> bool" where
  "settled net \<longleftrightarrow> (\<forall>a np. net a = Some np \<longrightarrow> settled_node net a np)"

subsection \<open>Routes\<close>

text \<open>What a burning node adds to the length of a path.\<close>

definition fire_penalty :: "node_properties \<Rightarrow> nat" where
  "fire_penalty np = (if np_is_burning np then 1000 + unat (uint8_to_uint16 (np_current_sensors_metric np)) else 0)"

text \<open>From node to node along the best neighbors, with the true length of the way.\<close>

inductive route :: "network \<Rightarrow> rimeaddr \<Rightarrow> rimeaddr list \<Rightarrow> nat \<Rightarrow> bool" for net where
  at_exit: "net a = Some np \<Longrightarrow> np_is_exit_node np \<Longrightarrow> np_bpn np = Some Exit_Node \<Longrightarrow> route net a [a] (fire_penalty np)"
| hop: "net a = Some np \<Longrightarrow> np_bpn np = Some (Table_Node i) \<Longrightarrow> node_at (Table_Node i) np = Inr n \<Longrightarrow>
    route net (nn_addr n) r c \<Longrightarrow> route net a (a # r) (c + unat (neighbor_node_distance n) + fire_penalty np)"

inductive_cases routeE: "route net a r c"

lemma route_unique: "route net a r c \<Longrightarrow> route net a r' c' \<Longrightarrow> r' = r"
proof (induction arbitrary: r' c' rule: route.induct)
  case (at_exit a np)
  from at_exit.prems show ?case by (rule routeE) (use at_exit.hyps in \<open>simp_all\<close>)
next
  case (hop a np i n r c)
  from hop.prems show ?case
  proof (rule routeE)
    fix np2 j n2 r2 c2
    assume r': "r' = a # r2" and "net a = Some np2" "np_bpn np2 = Some (Table_Node j)"
      "node_at (Table_Node j) np2 = Inr n2" "route net (nn_addr n2) r2 c2"
    with hop.hyps have "route net (nn_addr n) r2 c2" by simp
    from hop.IH [OF this] r' show ?thesis by simp
  qed (use hop.hyps in \<open>simp\<close>)
qed

lemma route_from_inside: "route net a r c \<Longrightarrow> b \<in> set r \<Longrightarrow> \<exists>r' c'. route net b r' c' \<and> length r' \<le> length r"
proof (induction rule: route.induct)
  case (at_exit a np)
  then have "b = a" by simp
  with route.at_exit [of net, OF at_exit.hyps] show ?case by blast
next
  case (hop a np i n r c)
  show ?case
  proof (cases "b = a")
    case True
    with route.hop [OF hop.hyps] show ?thesis by blast
  next
    case False
    with hop.prems have "b \<in> set r" by simp
    from hop.IH [OF this] show ?thesis by (metis le_SucI length_Cons)
  qed
qed

text \<open>The next node is determined by the one before, so a route that ends never comes back.\<close>

lemma route_distinct: "route net a r c \<Longrightarrow> distinct r"
proof (induction rule: route.induct)
  case (hop a np i n r c)
  have "a \<notin> set r"
  proof
    assume "a \<in> set r"
    then obtain r' c' where "route net a r' c'" "length r' \<le> length r"
      using route_from_inside [OF hop.hyps(4)] by blast
    with route_unique [OF route.hop [OF hop.hyps]] show False by fastforce
  qed
  with hop.IH show ?case by simp
qed simp

text \<open>The neighbor chosen from the table.\<close>

lemma best_of_table:
  assumes "best_of np = Table_Node i"
  obtains n where "(i, n) \<in> set (entries (ec_ns np))" and "usable (ec_node_addr np) n"
proof -
  let ?s = "fold (\<lambda>(i, n). consider_neighbor (ec_node_addr np) i n) (entries (ec_ns np)) (None, METRIC_T_MAX)"
  have b: "best_so_far (ec_node_addr np) (entries (ec_ns np)) ?s"
    using fold_best [of "ec_node_addr np" "[]" "(None, METRIC_T_MAX)" "entries (ec_ns np)"] by simp
  have "fst ?s = Some (Table_Node i)" using assms by (auto simp: best_of_def split: if_splits option.splits)
  with b that show thesis by (cases ?s) auto
qed

lemma best_of_exit: "best_of np = Exit_Node \<Longrightarrow> np_is_exit_node np"
proof (rule ccontr)
  assume e: "best_of np = Exit_Node" "\<not> np_is_exit_node np"
  let ?s = "fold (\<lambda>(i, n). consider_neighbor (ec_node_addr np) i n) (entries (ec_ns np)) (None, METRIC_T_MAX)"
  have "best_so_far (ec_node_addr np) (entries (ec_ns np)) ?s"
    using fold_best [of "ec_node_addr np" "[]" "(None, METRIC_T_MAX)" "entries (ec_ns np)"] by simp
  moreover have "fst ?s = Some Exit_Node" using e by (auto simp: best_of_def split: option.splits)
  ultimately show False by (cases ?s) auto
qed

lemma settledD:
  assumes "settled net" and "net a = Some np"
  shows "ec_node_addr np = a" "ns_wf (ec_ns np)" "np_bpn np = Some (best_of np)" "np_is_exit_node np \<Longrightarrow> is_exit np"
    "best_of np = Max_Node \<Longrightarrow> \<not> np_is_burning np \<and> neighbor_node_metric (np_max_node np) = METRIC_T_MAX \<and>
       neighbor_node_distance (np_max_node np) = 0"
    "n \<in> set (items (ec_ns np)) \<Longrightarrow> up_to_date net n"
proof -
  have "settled_node net a np" using assms unfolding settled_def by blast
  then show "ec_node_addr np = a" "ns_wf (ec_ns np)" "np_bpn np = Some (best_of np)" "np_is_exit_node np \<Longrightarrow> is_exit np"
    "best_of np = Max_Node \<Longrightarrow> \<not> np_is_burning np \<and> neighbor_node_metric (np_max_node np) = METRIC_T_MAX \<and>
       neighbor_node_distance (np_max_node np) = 0"
    "n \<in> set (items (ec_ns np)) \<Longrightarrow> up_to_date net n"
    unfolding settled_node_def by blast+
qed

lemma no_way_out_announces_none:
  assumes "settled net" and "net a = Some np" and "best_of np = Max_Node" and "best_neighbor_bp_to_our_bp np = Inr bp"
  shows "uint8_to_uint16 (bp_metric bp) = METRIC_T_MAX"
  using settledD(3,5) [OF assms(1,2)] assms(3,4)
  by (auto simp: best_neighbor_bp_to_our_bp_def bpn_node_def node_at_def weigh_metrics_def weigh_distance_def)

text \<open>The route of a node with a path, by induction on the hops that it announces.\<close>

lemma settled_route:
  assumes "settled net" and "net a = Some np" and "best_of np \<noteq> Max_Node"
    and "best_neighbor_bp_to_our_bp np = Inr bp" and "unat (bp_hops bp) = k"
  shows "k \<le> 7 \<and> (\<exists>r c. route net a r c \<and> length r = Suc k \<and> unat (uint8_to_uint16 (bp_metric bp)) = c mod 65536)"
  using assms(2-5)
proof (induction k arbitrary: a np bp rule: less_induct)
  case (less k)
  note s = settledD [OF assms(1) less.prems(1)]
  show ?case
  proof (cases "best_of np")
    case Exit_Node
    have e: "np_is_exit_node np" using best_of_exit [OF Exit_Node] .
    note ex = s(4) [OF e]
    have "node_at Exit_Node np = Inr (np_exit_node np)" by (simp add: node_at_def)
    then obtain bp' where b: "best_neighbor_bp_to_our_bp np = Inr bp'" "bp_hops bp' = neighbor_node_hops (np_exit_node np) + 1"
      "unat (uint8_to_uint16 (bp_metric bp')) = (unat (neighbor_node_metric (np_exit_node np)) +
         unat (neighbor_node_distance (np_exit_node np)) + fire_penalty np) mod 65536"
      using our_best_path [of np Exit_Node] s(3) Exit_Node unfolding fire_penalty_def by metis
    have z: "bp_hops bp = 0" "unat (uint8_to_uint16 (bp_metric bp)) = fire_penalty np mod 65536"
      using b less.prems(3) ex by (auto simp: is_exit_def exit_node_bp_def neighbor_node_hops_def neighbor_node_metric_def
          neighbor_node_distance_def zero_metric)
    have "route net a [a] (fire_penalty np)"
      by (rule route.at_exit [of net, OF less.prems(1) e]) (simp add: s(3) Exit_Node)
    with z less.prems(4) show ?thesis by (auto intro!: exI [of _ "[a]"])
  next
    case (Table_Node i)
    obtain n where n: "(i, n) \<in> set (entries (ec_ns np))" "usable (ec_node_addr np) n" using best_of_table [OF Table_Node] .
    have at: "node_at (Table_Node i) np = Inr n"
      using get_data_entry [OF ns_wfD(1) [OF s(2)] n(1)] by (simp add: node_at_def)
    have bpn: "np_bpn np = Some (Table_Node i)" using s(3) Table_Node by simp
    obtain bp' where "best_neighbor_bp_to_our_bp np = Inr bp'" "bp_hops bp' = neighbor_node_hops n + 1"
      "unat (uint8_to_uint16 (bp_metric bp')) =
         (unat (neighbor_node_metric n) + unat (neighbor_node_distance n) + fire_penalty np) mod 65536"
      using our_best_path [OF bpn at] unfolding fire_penalty_def by metis
    with less.prems(3) have b: "bp_hops bp = neighbor_node_hops n + 1" "unat (uint8_to_uint16 (bp_metric bp)) =
         (unat (neighbor_node_metric n) + unat (neighbor_node_distance n) + fire_penalty np) mod 65536" by simp_all
    have few: "unat (neighbor_node_hops n) < 7" using n(2) by (simp add: usable_def word_less_nat_alt)
    have k: "k = Suc (unat (neighbor_node_hops n))"
      using b(1) few less.prems(4) by (simp add: unat_word_ariths)
    have m: "neighbor_node_metric n \<noteq> METRIC_T_MAX" using n(2) by (simp add: usable_def)
    have "n \<in> set (items (ec_ns np))" using n(1) by (force simp: items_def)
    from s(6) [OF this] m obtain nb where nb: "net (nn_addr n) = Some nb" "best_neighbor_bp_to_our_bp nb = Inr (nn_bp n)"
      by (auto simp: up_to_date_def)
    have way: "best_of nb \<noteq> Max_Node"
      using no_way_out_announces_none [OF assms(1) nb(1) _ nb(2)] m by (auto simp: neighbor_node_metric_def)
    obtain r c where r: "route net (nn_addr n) r c" "length r = k" "unat (neighbor_node_metric n) = c mod 65536"
      using less.IH [OF _ nb(1) way nb(2) refl] k by (auto simp: neighbor_node_hops_def neighbor_node_metric_def)
    have "route net a (a # r) (c + unat (neighbor_node_distance n) + fire_penalty np)"
      by (rule route.hop [OF less.prems(1) bpn at r(1)])
    moreover have "unat (uint8_to_uint16 (bp_metric bp)) = (c + unat (neighbor_node_distance n) + fire_penalty np) mod 65536"
      using b(2) r(3) by (simp add: mod_simps add.assoc)
    ultimately show ?thesis using r(2) k few by (intro conjI exI [of _ "a # r"] exI) simp_all
  qed (use less.prems(2) in \<open>simp\<close>)
qed

text \<open>
  C8: The best neighbors lead out of the building. When a network has settled, the pointers to the
  best neighbors form, from every node that has one, a route to an exit: it never visits a node
  twice, it is at most seven hops long and has as many as the node announces, and the metric that
  the node announces is the length of this route, distances and fires added up, modulo 65536.
\<close>

theorem best_neighbors_lead_to_an_exit:
  assumes "settled net" and "net a = Some np" and "np_bpn np \<noteq> Some Max_Node"
  shows "\<exists>bp r c. best_neighbor_bp_to_our_bp np = Inr bp \<and> route net a r c \<and> distinct r \<and>
     length r = Suc (unat (bp_hops bp)) \<and> unat (bp_hops bp) \<le> 7 \<and> unat (uint8_to_uint16 (bp_metric bp)) = c mod 65536"
proof -
  note s = settledD [OF assms(1,2)]
  have way: "best_of np \<noteq> Max_Node" using assms(3) s(3) by simp
  obtain n where n: "node_at (best_of np) np = Inr n"
  proof (cases "best_of np")
    case (Table_Node i)
    then obtain n where "(i, n) \<in> set (entries (ec_ns np))" using best_of_table by metis
    then have "node_at (best_of np) np = Inr n"
      using get_data_entry [OF ns_wfD(1) [OF s(2)]] Table_Node by (simp add: node_at_def)
    then show thesis by (rule that)
  qed (use that in \<open>simp_all add: node_at_def\<close>)
  obtain bp where bp: "best_neighbor_bp_to_our_bp np = Inr bp" using our_best_path [OF s(3) n] by metis
  from settled_route [OF assms(1,2) way bp refl] bp show ?thesis using route_distinct by blast
qed

text \<open>A corridor: an exit, a node next to it, and a node that only reaches the exit through the other.\<close>

definition corridor_node :: "rimeaddr \<Rightarrow> neighbor_node \<Rightarrow> node_properties" where
  "corridor_node a n =
     (let np = booted\<lparr>ec_node_addr := a, ec_ns := fst (projr (queue_buffer_push_front (ec_ns booted) n)),
        np_is_exit_node := False, np_is_burning := False\<rparr>
      in np\<lparr>np_bpn := Some (best_of np)\<rparr>)"

definition corridor_exit :: node_properties where
  "corridor_exit = booted\<lparr>ec_node_addr := (1, 0), np_is_exit_node := True, np_is_burning := False, np_bpn := Some Exit_Node,
     np_exit_node := neighbor_node_zero\<lparr>nn_addr := (1, 0), nn_bp := exit_node_bp (1, 0)\<rparr>\<rparr>"

definition door :: neighbor_node where
  "door = (new_neighbor (1, 0))\<lparr>nn_distance := (0, 4),
     nn_bp := \<lparr>bp_metric = (0, 0), bp_points_to = (1, 0), bp_hops = 0\<rparr>\<rparr>"

definition passage :: neighbor_node where
  "passage = (new_neighbor (2, 0))\<lparr>nn_distance := (0, 3),
     nn_bp := \<lparr>bp_metric = (0, 4), bp_points_to = (1, 0), bp_hops = 1\<rparr>\<rparr>"

definition corridor :: network where
  "corridor = [(1, 0) \<mapsto> corridor_exit, (2, 0) \<mapsto> corridor_node (2, 0) door, (3, 0) \<mapsto> corridor_node (3, 0) passage]"

lemma corridor_node_facts:
  assumes "usable a n" and "path_length n < METRIC_T_MAX"
  shows "ec_node_addr (corridor_node a n) = a" "ns_wf (ec_ns (corridor_node a n))"
    "items (ec_ns (corridor_node a n)) = [n]" "\<not> np_is_exit_node (corridor_node a n)"
    "\<not> np_is_burning (corridor_node a n)" "np_bpn (corridor_node a n) = Some (best_of (corridor_node a n))"
    "\<exists>i. best_of (corridor_node a n) = Table_Node i \<and> node_at (Table_Node i) (corridor_node a n) = Inr n"
proof -
  have ns: "ns_wf (ec_ns booted)" using node_invD(4) [OF booted_facts(1)] .
  obtain q k where q: "queue_buffer_push_front (ec_ns booted) n = Inr (q, k)" "qb_wf q" "items q = [n]" "capacity q = 8"
    using sq.push_front_returns [of "ec_ns booted" n] ns booted_facts(4)
    by (auto simp: ns_wf_def items_def returns_def)
  obtain i where e: "entries q = [(i, n)]" using q(3) by (auto simp: items_def)
  define c where "c = booted\<lparr>ec_node_addr := a, ec_ns := q, np_is_exit_node := False, np_is_burning := False\<rparr>"
  have c: "corridor_node a n = c\<lparr>np_bpn := Some (best_of c)\<rparr>" by (simp add: corridor_node_def c_def q(1) Let_def)
  have step: "consider_neighbor a i n (None, METRIC_T_MAX) = (Some (Table_Node i), path_length n)"
    using assms by (simp add: consider_neighbor_def usable_def path_length_def weigh_distance_def Let_def
        neighbor_node_points_to_us_def MAX_NUMBER_OF_HOPS_TO_EXIT_def)
  then have b: "best_of c = Table_Node i" "best_of (c\<lparr>np_bpn := Some (best_of c)\<rparr>) = Table_Node i"
    by (simp_all add: best_of_def c_def e)
  have g: "get_data q i = Inr n" using get_data_entry [OF q(2)] e by simp
  show "ec_node_addr (corridor_node a n) = a" "ns_wf (ec_ns (corridor_node a n))"
    "items (ec_ns (corridor_node a n)) = [n]" "\<not> np_is_exit_node (corridor_node a n)"
    "\<not> np_is_burning (corridor_node a n)" "np_bpn (corridor_node a n) = Some (best_of (corridor_node a n))"
    using q b by (simp_all add: c) (simp_all add: c_def ns_wf_def)
  show "\<exists>i. best_of (corridor_node a n) = Table_Node i \<and> node_at (Table_Node i) (corridor_node a n) = Inr n"
    using b(2) g by (simp add: c) (simp add: c_def node_at_def)
qed

lemma corridor_usable: "usable (2, 0) door" "path_length door < METRIC_T_MAX" "usable (3, 0) passage" "path_length passage < METRIC_T_MAX"
  by (simp_all add: usable_def path_length_def door_def passage_def neighbor_node_metric_def neighbor_node_hops_def
      neighbor_node_distance_def METRIC_T_MAX_def uint8_to_uint16_def)

lemma corridor_exit_facts: "is_exit corridor_exit" "best_neighbor_bp_to_our_bp corridor_exit = Inr (nn_bp door)"
  "settled_node net (1, 0) corridor_exit"
proof -
  show e: "is_exit corridor_exit" by (simp add: corridor_exit_def is_exit_def neighbor_node_zero_def)
  show "best_neighbor_bp_to_our_bp corridor_exit = Inr (nn_bp door)"
    using exit_announcement [OF e] by (simp add: corridor_exit_def exit_path_def door_def)
  show "settled_node net (1, 0) corridor_exit"
    using e node_invD(4) [OF booted_facts(1)] booted_facts(4)
    by (simp add: settled_node_def corridor_exit_def best_of_def)
qed

lemma corridor_passage: "best_neighbor_bp_to_our_bp (corridor_node (2, 0) door) = Inr (nn_bp passage)"
proof -
  note f = corridor_node_facts [OF corridor_usable(1,2)]
  obtain i where i: "best_of (corridor_node (2, 0) door) = Table_Node i"
    "node_at (Table_Node i) (corridor_node (2, 0) door) = Inr door" using f(7) by blast
  moreover have "uint16_to_uint8 (uint8_to_uint16 (0, 4)) = (0, 4)" by code_simp
  ultimately show ?thesis
    using f(5,6) by (simp add: best_neighbor_bp_to_our_bp_def bpn_node_def weigh_metrics_def weigh_distance_def
        passage_def) (simp add: door_def neighbor_node_metric_def neighbor_node_distance_def neighbor_node_addr_def neighbor_node_hops_def
        zero_metric)
qed

lemma corridor_settled: "settled corridor"
proof -
  have "settled_node corridor (2, 0) (corridor_node (2, 0) door)"
    using corridor_node_facts [OF corridor_usable(1,2)] corridor_exit_facts(2)
    by (auto simp: settled_node_def up_to_date_def corridor_def) (simp_all add: door_def)
  moreover have "settled_node corridor (3, 0) (corridor_node (3, 0) passage)"
    using corridor_node_facts [OF corridor_usable(3,4)] corridor_passage
    by (auto simp: settled_node_def up_to_date_def corridor_def) (simp_all add: passage_def)
  ultimately show ?thesis
    using corridor_exit_facts(3) by (simp add: settled_def) (simp add: corridor_def)
qed

lemma corridor_witness: "\<exists>r c. route corridor (3, 0) r c \<and> distinct r \<and> length r \<le> 8"
proof -
  have "np_bpn (corridor_node (3, 0) passage) \<noteq> Some Max_Node"
    using corridor_node_facts(6,7) [OF corridor_usable(3,4)] by auto
  moreover have "corridor (3, 0) = Some (corridor_node (3, 0) passage)" by (simp add: corridor_def)
  ultimately show ?thesis
    using best_neighbors_lead_to_an_exit [OF corridor_settled] by fastforce
qed

end
