(* ===== verification/Shortest_Spec.thy ===== *)
theory Shortest_Spec
  imports Routes_Spec
begin

text \<open>
  What the exit paths are for: in a settled network whose nodes are up to date with all their
  neighbors, the route along the best neighbors is a shortest way out.
\<close>

text \<open>Any way from node to neighbor that ends at an exit, with its length.\<close>

inductive walk :: "network \<Rightarrow> rimeaddr \<Rightarrow> rimeaddr list \<Rightarrow> nat \<Rightarrow> bool" for net where
  arrived: "net a = Some np \<Longrightarrow> np_is_exit_node np \<Longrightarrow> walk net a [a] (fire_penalty np)"
| move: "net a = Some np \<Longrightarrow> n \<in> set (items (ec_ns np)) \<Longrightarrow> walk net (nn_addr n) w c \<Longrightarrow>
    walk net a (a # w) (c + unat (neighbor_node_distance n) + fire_penalty np)"

text \<open>Every node knows what its neighbors announce, and the numbers have room on 16 bits and in seven hops.\<close>

definition informed :: "network \<Rightarrow> bool" where
  "informed net \<longleftrightarrow> (\<forall>a np nb. \<forall>n \<in> set (items (ec_ns np)). net a = Some np \<longrightarrow> net (nn_addr n) = Some nb \<longrightarrow>
     best_neighbor_bp_to_our_bp nb = Inr (nn_bp n))"

definition roomy :: "network \<Rightarrow> bool" where
  "roomy net \<longleftrightarrow> (\<forall>a np. net a = Some np \<longrightarrow> fire_penalty np < 65535 \<and>
     (\<forall>n \<in> set (items (ec_ns np)). neighbor_node_metric n \<noteq> METRIC_T_MAX \<longrightarrow> neighbor_node_hops n < 7 \<and>
        unat (neighbor_node_metric n) + unat (neighbor_node_distance n) + fire_penalty np < 65535))"

lemma roomyD:
  assumes "roomy net" and "net a = Some np"
  shows "fire_penalty np < 65535"
    and "n \<in> set (items (ec_ns np)) \<Longrightarrow> neighbor_node_metric n \<noteq> METRIC_T_MAX \<Longrightarrow> neighbor_node_hops n < 7 \<and>
      unat (neighbor_node_metric n) + unat (neighbor_node_distance n) + fire_penalty np < 65535"
  using assms unfolding roomy_def by blast+

lemma item_entry: "n \<in> set (items q) \<longleftrightarrow> (\<exists>i. (i, n) \<in> set (entries q))"
  by (force simp: items_def)

text \<open>The choice of the loop over the neighbors, for tables whose sums do not wrap around.\<close>

lemma chosen_is_nearest:
  assumes "(j, k) \<in> set (entries (ec_ns np))" and "usable (ec_node_addr np) k" and "path_length k \<noteq> METRIC_T_MAX"
    and "\<not> np_is_exit_node np"
  obtains i n where "best_of np = Table_Node i" and "(i, n) \<in> set (entries (ec_ns np))" and "usable (ec_node_addr np) n"
    and "path_length n \<le> path_length k"
proof -
  let ?s = "fold (\<lambda>(i, n). consider_neighbor (ec_node_addr np) i n) (entries (ec_ns np)) (None, METRIC_T_MAX)"
  have b: "best_so_far (ec_node_addr np) (entries (ec_ns np)) ?s"
    using fold_best [of "ec_node_addr np" "[]" "(None, METRIC_T_MAX)" "entries (ec_ns np)"] by simp
  show thesis
  proof (cases "fst ?s")
    case None
    with b assms(1-3) show thesis by (cases ?s) auto
  next
    case (Some p)
    with b assms(1,2) obtain i n where "p = Table_Node i" "(i, n) \<in> set (entries (ec_ns np))" "usable (ec_node_addr np) n"
      "path_length n \<le> path_length k" by (cases ?s) auto
    with that Some assms(4) show thesis by (simp add: best_of_def)
  qed
qed

lemma path_length_exact:
  assumes "roomy net" and "net a = Some np" and "n \<in> set (items (ec_ns np))" and "neighbor_node_metric n \<noteq> METRIC_T_MAX"
  shows "unat (path_length n) = unat (neighbor_node_metric n) + unat (neighbor_node_distance n)" and "path_length n \<noteq> METRIC_T_MAX"
proof -
  have room: "unat (neighbor_node_metric n) + unat (neighbor_node_distance n) < 65535"
    using roomyD(2) [OF assms] by simp
  have "unat (path_length n) = (unat (neighbor_node_distance n) + unat (neighbor_node_metric n)) mod 65536"
    unfolding path_length_def by (simp add: unat_word_ariths)
  with room have u: "unat (path_length n) = unat (neighbor_node_metric n) + unat (neighbor_node_distance n)" by simp
  then show "unat (path_length n) = unat (neighbor_node_metric n) + unat (neighbor_node_distance n)" .
  have "unat METRIC_T_MAX = 65535" by (simp add: METRIC_T_MAX_def)
  with u room show "path_length n \<noteq> METRIC_T_MAX" by (metis less_irrefl)
qed

text \<open>What a node with a way out announces, without any wrapping.\<close>

lemma exit_announces:
  assumes "settled net" and "roomy net" and "net a = Some np" and "np_is_exit_node np"
  obtains bp where "best_neighbor_bp_to_our_bp np = Inr bp" and "best_of np = Exit_Node" and "bp_points_to bp = a"
    and "unat (uint8_to_uint16 (bp_metric bp)) = fire_penalty np"
proof -
  note s = settledD [OF assms(1,3)]
  have e: "best_of np = Exit_Node" using assms(4) by (simp add: best_of_def)
  have "node_at Exit_Node np = Inr (np_exit_node np)" by (simp add: node_at_def)
  then obtain bp where "best_neighbor_bp_to_our_bp np = Inr bp" "bp_points_to bp = nn_addr (np_exit_node np)"
    "unat (uint8_to_uint16 (bp_metric bp)) = (unat (neighbor_node_metric (np_exit_node np)) +
       unat (neighbor_node_distance (np_exit_node np)) + fire_penalty np) mod 65536"
    using our_best_path [of np Exit_Node] s(3) e unfolding fire_penalty_def by metis
  with that e s(1) s(4) [OF assms(4)] roomyD(1) [OF assms(2,3)] show thesis
    by (simp add: is_exit_def exit_node_bp_def neighbor_node_metric_def neighbor_node_distance_def zero_metric)
qed

lemma table_announces:
  assumes "settled net" and "roomy net" and "net a = Some np" and "best_of np = Table_Node i" and "(i, n) \<in> set (entries (ec_ns np))"
    and "usable a n"
  obtains bp where "best_neighbor_bp_to_our_bp np = Inr bp" and "bp_points_to bp = nn_addr n"
    and "unat (uint8_to_uint16 (bp_metric bp)) = unat (neighbor_node_metric n) + unat (neighbor_node_distance n) + fire_penalty np"
proof -
  note s = settledD [OF assms(1,3)]
  have "node_at (Table_Node i) np = Inr n"
    using get_data_entry [OF ns_wfD(1) [OF s(2)] assms(5)] by (simp add: node_at_def)
  then obtain bp where "best_neighbor_bp_to_our_bp np = Inr bp" "bp_points_to bp = nn_addr n"
    "unat (uint8_to_uint16 (bp_metric bp)) = (unat (neighbor_node_metric n) +
       unat (neighbor_node_distance n) + fire_penalty np) mod 65536"
    using our_best_path [of np "Table_Node i"] s(3) assms(4) unfolding fire_penalty_def by metis
  moreover have "unat (neighbor_node_metric n) + unat (neighbor_node_distance n) + fire_penalty np < 65535"
    using roomyD(2) [OF assms(2,3)] assms(5,6) item_entry by (metis usable_def)
  ultimately show thesis using that by simp
qed

text \<open>The metric that a node announces is at most the length of any walk.\<close>

lemma announced_is_least:
  assumes "settled net" and "informed net" and "roomy net" and "walk net a w c"
  shows "\<exists>np bp. net a = Some np \<and> best_neighbor_bp_to_our_bp np = Inr bp \<and> best_of np \<noteq> Max_Node \<and>
    unat (uint8_to_uint16 (bp_metric bp)) \<le> c \<and> uint8_to_uint16 (bp_metric bp) \<noteq> METRIC_T_MAX"
  using assms(4)
proof (induction rule: walk.induct)
  case (arrived a np)
  obtain bp where "best_neighbor_bp_to_our_bp np = Inr bp" "best_of np = Exit_Node"
    "unat (uint8_to_uint16 (bp_metric bp)) = fire_penalty np"
    using exit_announces [OF assms(1,3) arrived] by metis
  with arrived roomyD(1) [OF assms(3) arrived(1)] show ?case by (auto simp: METRIC_T_MAX_def)
next
  case (move a np n w c)
  obtain nb bpb where nb: "net (nn_addr n) = Some nb" "best_neighbor_bp_to_our_bp nb = Inr bpb" "best_of nb \<noteq> Max_Node"
    "unat (uint8_to_uint16 (bp_metric bpb)) \<le> c" "uint8_to_uint16 (bp_metric bpb) \<noteq> METRIC_T_MAX" using move.IH by blast
  have n: "nn_bp n = bpb" using assms(2) move.hyps(1,2) nb(1,2) unfolding informed_def by fastforce
  then have m: "neighbor_node_metric n \<noteq> METRIC_T_MAX" "unat (neighbor_node_metric n) \<le> c"
    using nb(4,5) by (simp_all add: neighbor_node_metric_def)
  note s = settledD [OF assms(1) move.hyps(1)]
  consider (at_door) "np_is_exit_node np" | (backward) "\<not> np_is_exit_node np" "bp_points_to bpb = a"
    | (onward) "\<not> np_is_exit_node np" "bp_points_to bpb \<noteq> a" by blast
  then show ?case
  proof cases
    case at_door
    obtain bp where "best_neighbor_bp_to_our_bp np = Inr bp" "best_of np = Exit_Node"
      "unat (uint8_to_uint16 (bp_metric bp)) = fire_penalty np"
      using exit_announces [OF assms(1,3) move.hyps(1) at_door] by metis
    with move.hyps(1) roomyD(1) [OF assms(3) move.hyps(1)] show ?thesis by (auto simp: METRIC_T_MAX_def)
  next
    case onward
    then have u: "usable (ec_node_addr np) n"
      using m roomyD(2) [OF assms(3) move.hyps(1,2)] n s(1) by (simp add: usable_def)
    obtain j where j: "(j, n) \<in> set (entries (ec_ns np))" using move.hyps(2) item_entry by metis
    obtain i k where k: "best_of np = Table_Node i" "(i, k) \<in> set (entries (ec_ns np))" "usable a k" "path_length k \<le> path_length n"
      using chosen_is_nearest [OF j u path_length_exact(2) [OF assms(3) move.hyps(1,2) m(1)] onward(1)] s(1) by metis
    obtain bp where bp: "best_neighbor_bp_to_our_bp np = Inr bp"
      "unat (uint8_to_uint16 (bp_metric bp)) = unat (neighbor_node_metric k) + unat (neighbor_node_distance k) + fire_penalty np"
      using table_announces [OF assms(1,3) move.hyps(1) k(1-3)] by metis
    have ki: "k \<in> set (items (ec_ns np))" "neighbor_node_metric k \<noteq> METRIC_T_MAX"
      using k(2,3) item_entry [of k] by (blast, simp add: usable_def)
    have "unat (neighbor_node_metric k) + unat (neighbor_node_distance k) \<le> unat (neighbor_node_metric n) + unat (neighbor_node_distance n)"
      using k(4) path_length_exact(1) [OF assms(3) move.hyps(1,2) m(1)] path_length_exact(1) [OF assms(3) move.hyps(1) ki]
      by (simp add: word_le_nat_alt)
    with bp m(2) move.hyps(1) k(1) roomyD(2) [OF assms(3) move.hyps(1) ki] show ?thesis by (auto simp: METRIC_T_MAX_def)
  next
    case backward
    have "\<not> np_is_exit_node nb"
    proof
      assume e: "np_is_exit_node nb"
      obtain bp where "best_neighbor_bp_to_our_bp nb = Inr bp" "bp_points_to bp = nn_addr n"
        using exit_announces [OF assms(1,3) nb(1) e] by metis
      with nb(1,2) backward move.hyps(1) e show False by simp
    qed
    then obtain i where i: "best_of nb = Table_Node i" using nb(3) best_of_exit by (cases "best_of nb") auto
    obtain k where k: "(i, k) \<in> set (entries (ec_ns nb))" "usable (nn_addr n) k"
      using best_of_table [OF i] settledD(1) [OF assms(1) nb(1)] by metis
    obtain bp where bp: "best_neighbor_bp_to_our_bp nb = Inr bp" "bp_points_to bp = nn_addr k"
      "unat (uint8_to_uint16 (bp_metric bp)) = unat (neighbor_node_metric k) + unat (neighbor_node_distance k) + fire_penalty nb"
      using table_announces [OF assms(1,3) nb(1) i k] .
    have ka: "nn_addr k = a" "unat (neighbor_node_metric k) \<le> c" "neighbor_node_metric k \<noteq> METRIC_T_MAX"
      using bp nb(2,4) backward(2) k(2) by (auto simp: usable_def)
    have "best_neighbor_bp_to_our_bp np = Inr (nn_bp k)"
      using assms(2) nb(1) k(1) ka(1) move.hyps(1) item_entry unfolding informed_def by metis
    moreover from this have "best_of np \<noteq> Max_Node"
      using no_way_out_announces_none [OF assms(1) move.hyps(1)] ka(3) by (auto simp: neighbor_node_metric_def)
    ultimately show ?thesis
      using move.hyps(1) ka(2,3) by (auto simp: neighbor_node_metric_def intro: trans_le_add1)
  qed
qed

text \<open>A route is a walk, and as long as is announced, exactly.\<close>

lemma chosen_node:
  assumes "settled net" and "net a = Some np" and "np_bpn np = Some (Table_Node i)" and "node_at (Table_Node i) np = Inr n"
  shows "best_of np = Table_Node i" and "(i, n) \<in> set (entries (ec_ns np))" and "usable a n"
proof -
  note s = settledD [OF assms(1,2)]
  show b: "best_of np = Table_Node i" using s(3) assms(3) by simp
  obtain k where k: "(i, k) \<in> set (entries (ec_ns np))" "usable a k" using best_of_table [OF b] s(1) by metis
  moreover have "k = n" using get_data_entry [OF ns_wfD(1) [OF s(2)] k(1)] assms(4) by (simp add: node_at_def)
  ultimately show "(i, n) \<in> set (entries (ec_ns np))" "usable a n" by simp_all
qed

lemma route_walk:
  assumes "settled net" and "route net a r c" shows "walk net a r c"
  using assms(2)
proof (induction rule: route.induct)
  case (at_exit a np)
  from at_exit(1,2) show ?case by (rule walk.arrived)
next
  case (hop a np i n r c)
  have "n \<in> set (items (ec_ns np))" using chosen_node(2) [OF assms(1) hop.hyps(1-3)] item_entry by metis
  from walk.move [OF hop.hyps(1) this hop.IH] show ?case .
qed

lemma route_exact:
  assumes "settled net" and "informed net" and "roomy net" and "route net a r c"
  shows "\<exists>np bp. net a = Some np \<and> best_neighbor_bp_to_our_bp np = Inr bp \<and> unat (uint8_to_uint16 (bp_metric bp)) = c"
  using assms(4)
proof (induction rule: route.induct)
  case (at_exit a np)
  then show ?case using exit_announces [OF assms(1,3) at_exit(1,2)] by metis
next
  case (hop a np i n r c)
  note ch = chosen_node [OF assms(1) hop.hyps(1-3)]
  obtain bp where bp: "best_neighbor_bp_to_our_bp np = Inr bp"
    "unat (uint8_to_uint16 (bp_metric bp)) = unat (neighbor_node_metric n) + unat (neighbor_node_distance n) + fire_penalty np"
    using table_announces [OF assms(1,3) hop.hyps(1) ch] by metis
  obtain nb bpb where nb: "net (nn_addr n) = Some nb" "best_neighbor_bp_to_our_bp nb = Inr bpb" "unat (uint8_to_uint16 (bp_metric bpb)) = c"
    using hop.IH by blast
  have "n \<in> set (items (ec_ns np))" using ch(2) item_entry by metis
  then have "nn_bp n = bpb" using assms(2) hop.hyps(1) nb(1,2) unfolding informed_def by fastforce
  with bp nb(3) hop.hyps(1) show ?case by (simp add: neighbor_node_metric_def)
qed

text \<open>
  The best neighbors lead the shortest way out. In a settled network whose nodes know what all
  their neighbors announce, and whose metrics have room on 16 bits, a node from which any walk leads
  to an exit has a route along the best neighbors, and this route is a walk that is not longer than
  any other, distances and fires added up.
\<close>

theorem best_neighbors_lead_the_shortest_way:
  assumes "settled net" and "informed net" and "roomy net" and "walk net a w c"
  shows "\<exists>r l. route net a r l \<and> walk net a r l \<and> (\<forall>w' c'. walk net a w' c' \<longrightarrow> l \<le> c')"
proof -
  obtain np bp where np: "net a = Some np" "best_neighbor_bp_to_our_bp np = Inr bp" "best_of np \<noteq> Max_Node"
    using announced_is_least [OF assms] by blast
  obtain r l where r: "route net a r l" using settled_route [OF assms(1) np(1,3,2) refl] by blast
  have l: "unat (uint8_to_uint16 (bp_metric bp)) = l" using route_exact [OF assms(1-3) r] np(1,2) by auto
  have "l \<le> c'" if "walk net a w' c'" for w' c'
    using announced_is_least [OF assms(1-3) that] np(1,2) l by auto
  with r route_walk [OF assms(1) r] show ?thesis by blast
qed

text \<open>In the corridor the way out of the last room is seven units long.\<close>

lemma corridor_nodes:
  "corridor (1, 0) = Some corridor_exit" "corridor (2, 0) = Some (corridor_node (2, 0) door)"
  "corridor (3, 0) = Some (corridor_node (3, 0) passage)"
  "corridor a = Some np \<Longrightarrow> np = corridor_exit \<or> np = corridor_node (2, 0) door \<or> np = corridor_node (3, 0) passage"
  by (auto simp: corridor_def split: if_splits)

lemma corridor_tables:
  "items (ec_ns corridor_exit) = []" "items (ec_ns (corridor_node (2, 0) door)) = [door]"
  "items (ec_ns (corridor_node (3, 0) passage)) = [passage]" "fire_penalty corridor_exit = 0"
  "fire_penalty (corridor_node (2, 0) door) = 0" "fire_penalty (corridor_node (3, 0) passage) = 0"
  using corridor_node_facts(3,5) [OF corridor_usable(1,2)] corridor_node_facts(3,5) [OF corridor_usable(3,4)] booted_facts(4)
  by (simp_all add: fire_penalty_def corridor_exit_def)

lemma corridor_numbers:
  "nn_addr door = (1, 0)" "nn_addr passage = (2, 0)" "unat (neighbor_node_distance door) = 4" "unat (neighbor_node_distance passage) = 3"
  "unat (neighbor_node_metric door) = 0" "unat (neighbor_node_metric passage) = 4" "neighbor_node_hops door < 7" "neighbor_node_hops passage < 7"
  by (simp_all add: door_def passage_def neighbor_node_distance_def neighbor_node_metric_def neighbor_node_hops_def uint8_to_uint16_def)

lemma corridor_good: "informed corridor" "roomy corridor" "walk corridor (3, 0) [(3, 0), (2, 0), (1, 0)] 7"
proof -
  show "informed corridor" unfolding informed_def
    using corridor_nodes(4) corridor_exit_facts(2) corridor_passage corridor_nodes(1,2) corridor_numbers(1,2)
    by (fastforce simp: corridor_tables)
  show "roomy corridor" unfolding roomy_def
    using corridor_nodes(4) corridor_numbers(3-8) by (fastforce simp: corridor_tables)
  have "np_is_exit_node corridor_exit" by (simp add: corridor_exit_def)
  from walk.arrived [of corridor, OF corridor_nodes(1) this]
  have "walk corridor (nn_addr door) [(1, 0)] 0" by (simp add: corridor_tables corridor_numbers)
  from walk.move [of corridor, OF corridor_nodes(2) _ this]
  have "walk corridor (nn_addr passage) [(2, 0), (1, 0)] 4" by (simp add: corridor_tables corridor_numbers)
  from walk.move [of corridor, OF corridor_nodes(3) _ this]
  show "walk corridor (3, 0) [(3, 0), (2, 0), (1, 0)] 7" by (simp add: corridor_tables corridor_numbers)
qed

lemma shortest_way_witness: "\<exists>r l. route corridor (3, 0) r l \<and> l \<le> 7"
  using best_neighbors_lead_the_shortest_way [OF corridor_settled corridor_good] corridor_good(3) by blast

end
