(* ===== verification/Learning_Spec.thy ===== *)
theory Learning_Spec
  imports Routes_Spec
begin

text \<open>
  How a network settles: what a node learns from a neighbor's announcement, when it changes its own
  choice, and when it passes its new path on.
\<close>

subsection \<open>Writing an announcement into the table\<close>

text \<open>The table with a new entry in slot \<open>i\<close>.\<close>

definition with_entry :: "nat \<Rightarrow> 'b \<Rightarrow> (nat \<times> 'b) list \<Rightarrow> (nat \<times> 'b) list" where
  "with_entry i x es = map (\<lambda>e. if fst e = i then (i, x) else e) es"

lemma with_entry_set: "(i, n) \<in> set es \<Longrightarrow> (j, k) \<in> set (with_entry i x es) \<longleftrightarrow> (if j = i then k = x else (j, k) \<in> set es)"
  by (force simp: with_entry_def)

lemma entries_update:
  assumes "used_slots q' = used_slots q" and "payload q' = (payload q)[i := x]" and "i < length (payload q)"
  shows "entries q' = with_entry i x (entries q)"
  using assms by (auto simp: entries_def with_entry_def nth_list_update)

lemma entries_bound: "qb_wf q \<Longrightarrow> (i, x) \<in> set (entries q) \<Longrightarrow> i < length (pool q)"
  by (erule qb_wfE) (auto simp: entries_lists dest: qb_lists_bound)

lemma change_node_returns:
  assumes inv: "node_inv np" and i: "(i, n) \<in> set (entries (ec_ns np))"
  shows "returns (change_node i f np) (\<lambda>np'. \<exists>q. np' = np\<lparr>ec_ns := q\<rparr> \<and> node_inv np' \<and>
    entries q = with_entry i (f n) (entries (ec_ns np)))"
proof -
  note ns = ns_wfD(1) [OF node_invD(4) [OF inv]]
  have b: "i < length (pool (ec_ns np))" using entries_bound [OF ns i] .
  obtain q where q: "set_data (ec_ns np) i (f n) = Inr q" "qb_wf q" "used_slots q = used_slots (ec_ns np)"
    "payload q = (payload (ec_ns np))[i := f n]" "frame (ec_ns np) q" "length (pool q) = length (pool (ec_ns np))"
    using set_data_wf [OF ns b, of "f n"] .
  have "ns_wf q" using q(2,5) node_invD(4) [OF inv] by (simp add: ns_wf_def frame_def capacity_def)
  with entries_update [OF q(3,4)] b node_inv_ns [OF inv] q(1) get_data_entry [OF ns i] show ?thesis
    by (auto simp: change_node_def payload_def intro!: exI [of _ q])
qed

lemma best_path_read: "read_best_path (x # best_path_bytes bp @ rest) 1 = Inr bp"
  by (cases bp) (simp add: read_best_path_def read_mem_def best_path_bytes_def best_path_at_def addr_bytes_def addr_at_def)

subsection \<open>The choice of the best neighbor\<close>

text \<open>The pointer to the best neighbor points into the table, or to one of the two special nodes.\<close>

definition in_table :: "node_ptr \<Rightarrow> node_properties \<Rightarrow> bool" where
  "in_table p np \<longleftrightarrow> (\<forall>i. p = Table_Node i \<longrightarrow> (\<exists>n. (i, n) \<in> set (entries (ec_ns np))))"

text \<open>Nodes that agree in all that the choice of a path depends on.\<close>

definition same_table :: "node_properties \<Rightarrow> node_properties \<Rightarrow> bool" where
  "same_table np np' \<longleftrightarrow> entries (ec_ns np') = entries (ec_ns np) \<and> ec_node_addr np' = ec_node_addr np \<and>
     np_is_exit_node np' = np_is_exit_node np \<and> np_exit_node np' = np_exit_node np \<and> np_max_node np' = np_max_node np \<and>
     np_is_burning np' = np_is_burning np \<and> np_current_sensors_metric np' = np_current_sensors_metric np"

lemma same_table_trans: "same_table np np1 \<Longrightarrow> same_table np1 np2 \<Longrightarrow> same_table np np2"
  by (simp add: same_table_def)

lemma same_table_best: "same_table np np' \<Longrightarrow> best_of np' = best_of np"
  by (simp add: same_table_def best_of_def)

lemma same_table_in: "same_table np np' \<Longrightarrow> in_table p np' = in_table p np"
  by (simp add: same_table_def in_table_def)

lemma node_in_table:
  assumes "node_inv np" and "in_table p np"
  obtains n where "node_at p np = Inr n" and "\<And>i. p = Table_Node i \<Longrightarrow> (i, n) \<in> set (entries (ec_ns np))"
proof (cases p)
  case (Table_Node i)
  with assms(2) obtain n where "(i, n) \<in> set (entries (ec_ns np))" by (auto simp: in_table_def)
  with that [of n] get_data_entry [OF ns_wfD(1) [OF node_invD(4) [OF assms(1)]]] Table_Node show thesis
    by (simp add: node_at_def)
qed (use that in \<open>simp_all add: node_at_def\<close>)

lemma same_table_node:
  assumes "node_inv np" and "node_inv np'" and "same_table np np'" and "in_table p np"
  shows "node_at p np' = node_at p np"
proof -
  obtain n where n: "node_at p np = Inr n" "\<And>i. p = Table_Node i \<Longrightarrow> (i, n) \<in> set (entries (ec_ns np))"
    using node_in_table [OF assms(1,4)] by blast
  then show ?thesis
    using assms(3) get_data_entry [OF ns_wfD(1) [OF node_invD(4) [OF assms(2)]]]
    by (cases p) (auto simp: node_at_def same_table_def)
qed

lemma same_table_path:
  assumes "node_inv np" and "node_inv np'" and "same_table np np'" and "np_bpn np = Some p" and "np_bpn np' = Some p" and "in_table p np"
  shows "best_neighbor_bp_to_our_bp np' = best_neighbor_bp_to_our_bp np"
  using same_table_node [OF assms(1-3,6)] assms(3-5)
  by (simp add: best_neighbor_bp_to_our_bp_def bpn_node_def weigh_metrics_def same_table_def cong: if_cong)

lemma best_in_table: "in_table (best_of np) np"
proof (cases "best_of np")
  case (Table_Node i)
  then show ?thesis using best_of_table [OF Table_Node] by (metis in_table_def node_ptr.inject)
qed (simp_all add: in_table_def)

lemma internal_same_table: "ec_internal np np' \<Longrightarrow> same_table np np'"
  by (cases np, cases np') (simp add: same_table_def ec_internal_def)

text \<open>What makes a node take its new best neighbor and announce it.\<close>

definition choice_changes :: "node_ptr option \<Rightarrow> node_properties \<Rightarrow> bool" where
  "choice_changes sender np \<longleftrightarrow> (case np_bpn np of
       None \<Rightarrow> True
     | Some old \<Rightarrow> neighbor_node_metric (projr (node_at (best_of np) np)) < neighbor_node_metric (projr (node_at old np)) \<or>
         sender = Some (best_of np) \<or> old \<noteq> Max_Node \<and> best_of np = Max_Node)"

lemma announce_best:
  assumes inv: "node_inv np" and room: "0 < pb_free_cells (ec_sq np)" and ns: "ec_ns_set np" "items (ec_ns np) \<noteq> []"
    and bpn: "np_bpn np = Some p" "in_table p np"
  shows "returns (broadcast_best_path np) (\<lambda>np'. node_inv np' \<and> same_table np np' \<and> same_node np np' \<and>
    (\<exists>our. best_neighbor_bp_to_our_bp np' = Inr our \<and>
       sent_last MSG_TYPE_NEIGHBOR_DATA (BEST_PATH_UPDATE_PACKET # best_path_bytes our) np np'))"
proof -
  obtain n where n: "node_at p np = Inr n" using node_in_table [OF inv bpn(2)] by metis
  obtain our where our: "best_neighbor_bp_to_our_bp np = Inr our" using our_best_path [OF bpn(1) n] by metis
  let ?d = "BEST_PATH_UPDATE_PACKET # best_path_bytes our"
  have "length ?d \<le> 24" by (simp add: best_path_bytes_def)
  from broadcast_own_ns_returns [OF inv room this ns]
  obtain np' where r: "broadcast_own_ns ?d np = Inr np'" "node_inv np'" "same_node np np'" "sent_last MSG_TYPE_NEIGHBOR_DATA ?d np np'"
    unfolding returns_def by blast
  have "node_inv (next_seqno np)" using inv by (simp add: next_seqno_def node_inv_fields)
  then have "ec_internal (next_seqno np) np'"
    using r(1) ec_reliable_broadcast_ns_internal [OF node_invD(1)] by (simp add: broadcast_own_ns_def)
  from internal_same_table [OF this] have t: "same_table np np'" by (simp add: same_table_def next_seqno_def)
  have "np_bpn np' = Some p" using r(3) bpn(1) by (simp add: same_node_def)
  from same_table_path [OF inv r(2) t bpn(1) this bpn(2)] our r t show ?thesis by (simp add: broadcast_best_path_def)
qed

lemma update_choice:
  assumes inv: "node_inv np" and room: "0 < pb_free_cells (ec_sq np)" and ns: "ec_ns_set np" "items (ec_ns np) \<noteq> []"
    and old: "\<And>p. np_bpn np = Some p \<Longrightarrow> in_table p np"
  shows "returns (update_bpn_and_broadcast_new_path_if_changed sender np) (\<lambda>(np', changed). node_inv np' \<and> same_table np np' \<and>
    changed = choice_changes sender np \<and>
    (if changed then np_bpn np' = Some (best_of np) \<and> (\<exists>our. best_neighbor_bp_to_our_bp np' = Inr our \<and>
        sent_last MSG_TYPE_NEIGHBOR_DATA (BEST_PATH_UPDATE_PACKET # best_path_bytes our) np np')
     else np_bpn np' = np_bpn np \<and> lane_view np' = lane_view np))"
proof -
  obtain q where q: "find_best_exit_path_neighbor np = Inr (np\<lparr>ec_ns := q\<rparr>, best_of np)" "ns_wf q" "entries q = entries (ec_ns np)"
    using find_best_returns [OF node_invD(4) [OF inv]] unfolding returns_def by auto
  let ?n = "np\<lparr>ec_ns := q\<rparr>" and ?b = "best_of np"
  let ?m = "?n\<lparr>np_bpn := Some ?b\<rparr>"
  have n: "node_inv ?n" "same_table np ?n" using node_inv_ns [OF inv q(2)] q(3) by (simp_all add: same_table_def)
  have m: "node_inv ?m" "same_table np ?m" using node_inv_fields(1) [OF n(1)] q(3) by (simp_all add: same_table_def)
  have b: "in_table ?b ?m" using best_in_table [of np] same_table_in [OF m(2)] by simp
  have ns': "0 < pb_free_cells (ec_sq ?m)" "ec_ns_set ?m" "items (ec_ns ?m) \<noteq> []" using room ns q(3) by (simp_all add: items_def)
  have "np_bpn ?m = Some ?b" by simp
  from announce_best [OF m(1) ns' this b]
  obtain np' our where a: "broadcast_best_path ?m = Inr np'" "node_inv np'" "same_table ?m np'" "same_node ?m np'"
    "best_neighbor_bp_to_our_bp np' = Inr our" "sent_last MSG_TYPE_NEIGHBOR_DATA (BEST_PATH_UPDATE_PACKET # best_path_bytes our) ?m np'"
    unfolding returns_def by blast
  have lanes: "lane_view ?m = lane_view np" "lane_view ?n = lane_view np" by (simp_all add: lane_view_def fun_eq_iff)
  have sent: "sent_last MSG_TYPE_NEIGHBOR_DATA (BEST_PATH_UPDATE_PACKET # best_path_bytes our) np np'"
    using a(6) by (simp add: sent_last_def lanes(1))
  have bpn': "np_bpn np' = Some ?b" using a(4) by (simp add: same_node_def)
  note t = same_table_trans [OF m(2) a(3)]
  obtain nb where nb: "node_at ?b ?n = Inr nb" "node_at ?b np = Inr nb"
    using node_in_table [OF inv best_in_table] same_table_node [OF inv n(1,2) best_in_table] by metis
  show ?thesis
  proof (cases "np_bpn np")
    case None
    then have "update_bpn_and_broadcast_new_path_if_changed sender np = Inr (np', True)"
      using q(1) a(1) by (simp add: update_bpn_and_broadcast_new_path_if_changed_def)
    with None a(2,5) t sent bpn' show ?thesis by (auto simp: choice_changes_def)
  next
    case (Some p)
    obtain no where no: "node_at p ?n = Inr no" "node_at p np = Inr no"
      using node_in_table [OF inv old [OF Some]] same_table_node [OF inv n(1,2) old [OF Some]] by metis
    have "update_bpn_and_broadcast_new_path_if_changed sender np =
        (if choice_changes sender np then Inr (np', True) else Inr (?n, False))"
      using q(1) a(1) nb no Some
      by (cases "best_of np") (simp_all add: update_bpn_and_broadcast_new_path_if_changed_def choice_changes_def Let_def)
    with a(2,5) t sent bpn' n lanes(2) show ?thesis by auto
  qed
qed

lemma blinking_update_fields:
  assumes inv: "node_inv np" and bpn: "np_bpn np = Some p" "in_table p np"
  obtains w t s where "blinking_update np = Inr (np\<lparr>np_next_wakeup := w, np_rt := t, np_blinking_state := s\<rparr>)"
proof -
  obtain n where n: "node_at p np = Inr n" using node_in_table [OF inv bpn(2)] by metis
  have at: "node_at p (np\<lparr>np_next_wakeup := w, np_rt := Some w\<rparr>) = Inr n" for w
    using n by (cases p) (simp_all add: node_at_def)
  have "\<exists>w t s. blinking_update np = Inr (np\<lparr>np_next_wakeup := w, np_rt := t, np_blinking_state := s\<rparr>)"
  proof (cases "np_is_blinking np \<and> \<not> np_is_burning np")
    case True
    with bpn(1) at show ?thesis by (simp add: blinking_update_def Let_def rtimer_set_def bpn_node_def) blast
  next
    case False
    then have "blinking_update np = Inr (np\<lparr>np_next_wakeup := np_next_wakeup np, np_rt := np_rt np, np_blinking_state := np_blinking_state np\<rparr>)"
      by (auto simp: blinking_update_def)
    then show ?thesis by blast
  qed
  with that show thesis by blast
qed

lemma blinking_update_runs:
  assumes inv: "node_inv np" and bpn: "np_bpn np = Some p" "in_table p np"
  shows "returns (blinking_update np) (\<lambda>np'. node_inv np' \<and> same_table np np' \<and> np_bpn np' = np_bpn np \<and> lane_view np' = lane_view np)"
proof -
  obtain w t s where "blinking_update np = Inr (np\<lparr>np_next_wakeup := w, np_rt := t, np_blinking_state := s\<rparr>)"
    using blinking_update_fields [OF assms] .
  with inv show ?thesis by (simp add: same_table_def node_inv_fields lane_view_def fun_eq_iff)
qed

lemma best_path_update_runs:
  assumes inv: "node_inv np" and room: "0 < pb_free_cells (ec_sq np)" and ns: "ec_ns_set np"
    and sender: "neighbors_find_neighbor_node (ec_ns np) sender = Inr (Some i)" "(i, n) \<in> set (entries (ec_ns np))"
    and old: "\<And>p. np_bpn np = Some p \<Longrightarrow> in_table p np"
  obtains m np' where "best_path_update_recv sender (BEST_PATH_UPDATE_PACKET # best_path_bytes bp @ rest) np = Inr np'"
    and "node_inv m" and "entries (ec_ns m) = with_entry i (n\<lparr>nn_bp := bp\<rparr>) (entries (ec_ns np))" and "np_bpn m = np_bpn np"
    and "ec_node_addr m = ec_node_addr np" and "np_max_node m = np_max_node np" and "np_is_exit_node m = np_is_exit_node np"
    and "node_inv np'" and "same_table m np'"
    and "if choice_changes (Some (Table_Node i)) m then np_bpn np' = Some (best_of m) \<and>
        (\<exists>our. best_neighbor_bp_to_our_bp np' = Inr our \<and>
           sent_last MSG_TYPE_NEIGHBOR_DATA (BEST_PATH_UPDATE_PACKET # best_path_bytes our) np np')
      else np_bpn np' = np_bpn np \<and> lane_view np' = lane_view np"
proof -
  obtain q where q: "change_node i (\<lambda>n. neighbor_node_set_best_path n bp) np = Inr (np\<lparr>ec_ns := q\<rparr>)" "node_inv (np\<lparr>ec_ns := q\<rparr>)"
    "entries q = with_entry i (n\<lparr>nn_bp := bp\<rparr>) (entries (ec_ns np))"
    using change_node_returns [OF inv sender(2), of "\<lambda>n. neighbor_node_set_best_path n bp"]
    unfolding returns_def neighbor_node_set_best_path_def by blast
  let ?m = "np\<lparr>ec_ns := q\<rparr>"
  have m: "0 < pb_free_cells (ec_sq ?m)" "ec_ns_set ?m" "items (ec_ns ?m) \<noteq> []"
    using room ns sender(2) q(3) by (auto simp: items_def with_entry_def)
  have old': "in_table p ?m" if "np_bpn ?m = Some p" for p
    using old [of p] that by (auto simp: in_table_def q(3) with_entry_set [OF sender(2)])
  obtain np1 c where u: "update_bpn_and_broadcast_new_path_if_changed (Some (Table_Node i)) ?m = Inr (np1, c)"
    "node_inv np1" "same_table ?m np1" "c = choice_changes (Some (Table_Node i)) ?m"
    "if c then np_bpn np1 = Some (best_of ?m) \<and> (\<exists>our. best_neighbor_bp_to_our_bp np1 = Inr our \<and>
        sent_last MSG_TYPE_NEIGHBOR_DATA (BEST_PATH_UPDATE_PACKET # best_path_bytes our) ?m np1)
     else np_bpn np1 = np_bpn ?m \<and> lane_view np1 = lane_view ?m"
    using update_choice [OF q(2) m old', of "Some (Table_Node i)"] unfolding returns_def by auto
  have read: "read_best_path (BEST_PATH_UPDATE_PACKET # best_path_bytes bp @ rest) 1 = Inr bp" by (rule best_path_read)
  have lanes: "lane_view ?m = lane_view np" by (simp add: lane_view_def fun_eq_iff)
  have run: "best_path_update_recv sender (BEST_PATH_UPDATE_PACKET # best_path_bytes bp @ rest) np =
      (if c then blinking_update np1 else Inr np1)"
    using sender(1) q(1) u(1) read by (simp add: best_path_update_recv_def sender_node_def)
  show thesis
  proof (cases c)
    case False
    with u lanes run that [of np1 ?m] q(2,3) show thesis by simp
  next
    case True
    have "in_table (best_of ?m) np1" using best_in_table same_table_in [OF u(3)] by blast
    moreover have b1: "np_bpn np1 = Some (best_of ?m)" using u(5) True by simp
    ultimately obtain np' where b: "blinking_update np1 = Inr np'" "node_inv np'" "same_table np1 np'" "np_bpn np' = np_bpn np1"
      "lane_view np' = lane_view np1"
      using blinking_update_runs [OF u(2)] unfolding returns_def by blast
    have "best_neighbor_bp_to_our_bp np' = best_neighbor_bp_to_our_bp np1"
      using same_table_path [OF u(2) b(2,3) b1 _ \<open>in_table (best_of ?m) np1\<close>] b(4) b1 by simp
    with that [of np' ?m] True u b lanes run q(2,3) same_table_trans [OF u(3) b(3)] show thesis by (simp add: sent_last_def)
  qed
qed

subsection \<open>Learning\<close>




text \<open>
  C37: A longer way is kept in silence. When the best neighbor announces a path that makes the way
  through it longer than the way through another neighbor, or that is no way out at all, but its
  metric is not above that of the other neighbor, then the node keeps its choice, and tells nobody
  that its path has changed.
\<close>

theorem longer_way_is_kept:
  assumes inv: "node_inv np" and room: "0 < pb_free_cells (ec_sq np)" and ns: "ec_ns_set np"
    and sender: "neighbors_find_neighbor_node (ec_ns np) sender = Inr (Some i)" "(i, n) \<in> set (entries (ec_ns np))"
    and old: "np_bpn np = Some (Table_Node i)"
    and better: "(j, k) \<in> set (entries (ec_ns np))" "j \<noteq> i" "\<not> np_is_exit_node np" "usable (ec_node_addr np) k"
      "path_length k < METRIC_T_MAX" "uint8_to_uint16 (bp_metric bp) \<le> neighbor_node_metric k"
    and only: "\<forall>(l, x) \<in> set (entries (ec_ns np)). l \<noteq> i \<longrightarrow> l \<noteq> j \<longrightarrow> \<not> usable (ec_node_addr np) x"
    and longer: "usable (ec_node_addr np) (n\<lparr>nn_bp := bp\<rparr>) \<Longrightarrow> path_length k < path_length (n\<lparr>nn_bp := bp\<rparr>)"
  shows "\<exists>np'. best_path_update_recv sender (BEST_PATH_UPDATE_PACKET # best_path_bytes bp @ rest) np = Inr np' \<and>
     (i, n\<lparr>nn_bp := bp\<rparr>) \<in> set (entries (ec_ns np')) \<and> np_bpn np' = Some (Table_Node i) \<and> best_of np' = Table_Node j \<and>
     lane_view np' = lane_view np"
proof -
  have old': "in_table p np" if "np_bpn np = Some p" for p using old sender(2) that by (auto simp: in_table_def)
  obtain m np' where r: "best_path_update_recv sender (BEST_PATH_UPDATE_PACKET # best_path_bytes bp @ rest) np = Inr np'"
    "node_inv m" "entries (ec_ns m) = with_entry i (n\<lparr>nn_bp := bp\<rparr>) (entries (ec_ns np))" "np_bpn m = np_bpn np"
    "ec_node_addr m = ec_node_addr np" "np_is_exit_node m = np_is_exit_node np" "same_table m np'"
    "if choice_changes (Some (Table_Node i)) m then np_bpn np' = Some (best_of m) \<and>
        (\<exists>our. best_neighbor_bp_to_our_bp np' = Inr our \<and>
           sent_last MSG_TYPE_NEIGHBOR_DATA (BEST_PATH_UPDATE_PACKET # best_path_bytes our) np np')
      else np_bpn np' = np_bpn np \<and> lane_view np' = lane_view np"
    using best_path_update_runs [OF inv room ns sender old', of bp rest] by blast
  have mem: "(l, x) \<in> set (entries (ec_ns m)) \<longleftrightarrow> (if l = i then x = n\<lparr>nn_bp := bp\<rparr> else (l, x) \<in> set (entries (ec_ns np)))" for l x
    by (simp add: r(3) with_entry_set [OF sender(2)])
  have kj: "(j, k) \<in> set (entries (ec_ns m))" "(i, n\<lparr>nn_bp := bp\<rparr>) \<in> set (entries (ec_ns m))" using better(1,2) mem by simp_all
  have "best_of m = Table_Node j"
  proof -
    have b: "best_so_far (ec_node_addr np) (entries (ec_ns m)) (fold (\<lambda>(i, n). consider_neighbor (ec_node_addr np) i n) (entries (ec_ns m)) (None, METRIC_T_MAX))"
      using fold_best [of "ec_node_addr np" "[]" "(None, METRIC_T_MAX)" "entries (ec_ns m)"] by simp
    let ?s = "fold (\<lambda>(i, n). consider_neighbor (ec_node_addr np) i n) (entries (ec_ns m)) (None, METRIC_T_MAX)"
    obtain l x where l: "fst ?s = Some (Table_Node l)" "(l, x) \<in> set (entries (ec_ns m))" "usable (ec_node_addr np) x"
      "path_length x \<le> path_length k"
      using b kj(1) better(4,5) by (cases ?s rule: prod.exhaust; cases "fst ?s") fastforce+
    have "l = j"
    proof (rule ccontr)
      assume "l \<noteq> j"
      then have "l = i" using l(2,3) only mem [of l x] by (cases "l = i") auto
      with l(2) mem [of l x] have "x = n\<lparr>nn_bp := bp\<rparr>" by simp
      with l(3,4) longer show False by simp
    qed
    with l(1) better(3) show ?thesis by (simp add: best_of_def r(5,6))
  qed
  moreover have "node_at (Table_Node j) m = Inr k" "node_at (Table_Node i) m = Inr (n\<lparr>nn_bp := bp\<rparr>)"
    using kj get_data_entry [OF ns_wfD(1) [OF node_invD(4) [OF r(2)]]] by (simp_all add: node_at_def)
  ultimately have "\<not> choice_changes (Some (Table_Node i)) m"
    using old r(4) better(2,6) by (simp add: choice_changes_def neighbor_node_metric_def not_less)
  then show ?thesis
    using r(1,7,8) old kj(2) \<open>best_of m = Table_Node j\<close> same_table_best [OF r(7)] by (simp add: same_table_def)
qed

text \<open>A node between two ways out; the one that it has chosen gets a little longer.\<close>

definition near_way :: neighbor_node where
  "near_way = (new_neighbor (4, 0))\<lparr>nn_distance := (0, 1), nn_bp := \<lparr>bp_metric = (0, 10), bp_points_to = (9, 0), bp_hops = 1\<rparr>\<rparr>"

definition chosen_way :: neighbor_node where
  "chosen_way = (new_neighbor (3, 0))\<lparr>nn_distance := (0, 3), nn_bp := \<lparr>bp_metric = (0, 8), bp_points_to = (9, 0), bp_hops = 1\<rparr>\<rparr>"

lemma between_two_ways:
  obtains np i j where "node_inv np" and "pb_free_cells (ec_sq np) = 12" and "ec_ns_set np" and "np_bpn np = Some (Table_Node i)"
    and "entries (ec_ns np) = [(j, near_way), (i, chosen_way)]" and "i \<noteq> j" and "\<not> np_is_exit_node np" and "ec_node_addr np = (2, 0)"
proof -
  have ns: "ns_wf (ec_ns booted)" using node_invD(4) [OF booted_facts(1)] .
  obtain q1 r1 where q1: "queue_buffer_push_front (ec_ns booted) chosen_way = Inr (q1, r1)" "qb_wf q1" "items q1 = [chosen_way]" "capacity q1 = 8"
    using sq.push_front_returns [of "ec_ns booted" chosen_way] ns booted_facts(4) by (auto simp: ns_wf_def items_def returns_def)
  obtain q r where q: "queue_buffer_push_front q1 near_way = Inr (q, r)" "qb_wf q" "items q = [near_way, chosen_way]" "capacity q = 8"
    using sq.push_front_returns [of q1 near_way] q1(2-4) by (auto simp: items_def returns_def)
  obtain i j where e: "entries q = [(j, near_way), (i, chosen_way)]" using q(3) by (auto simp: items_def map_eq_Cons_conv)
  have "i \<noteq> j" using distinct_entries [OF q(2)] e by auto
  define np where "np = (ec_set_neighbors (booted\<lparr>ec_ns := q, np_is_exit_node := False, np_exit_node := neighbor_node_zero,
     ec_node_addr := (2, 0), np_coordinate_node := coordinate_null\<rparr>))\<lparr>np_bpn := Some (Table_Node i)\<rparr>"
  have "ns_wf q" using q(2,4) by (simp add: ns_wf_def)
  have "node_inv np" unfolding np_def
    by (intro node_inv_fields(1,21,17,18) node_inv_ns booted_facts(1) \<open>ns_wf q\<close>)
  then show thesis
    using that [of np i j] e \<open>i \<noteq> j\<close> booted_facts(2) by (simp add: np_def ec_set_neighbors_def)
qed

lemma longer_way_witness:
  "\<exists>np np' i j. np_bpn np = Some (Table_Node i) \<and> best_of np' = Table_Node j \<and> j \<noteq> i \<and> np_bpn np' = Some (Table_Node i) \<and>
     best_path_update_recv (3, 0) (BEST_PATH_UPDATE_PACKET #
       best_path_bytes \<lparr>bp_metric = (0, 10), bp_points_to = (9, 0), bp_hops = 2\<rparr>) np = Inr np'"
proof -
  let ?bp = "\<lparr>bp_metric = (0, 10), bp_points_to = (9, 0), bp_hops = 2\<rparr>"
  obtain np i j where np: "node_inv np" "pb_free_cells (ec_sq np) = 12" "ec_ns_set np" "np_bpn np = Some (Table_Node i)"
    "entries (ec_ns np) = [(j, near_way), (i, chosen_way)]" "i \<noteq> j" "\<not> np_is_exit_node np" "ec_node_addr np = (2, 0)"
    using between_two_ways .
  have room: "0 < pb_free_cells (ec_sq np)" using np(2) by simp
  have s: "neighbors_find_neighbor_node (ec_ns np) (3, 0) = Inr (Some i)" "(i, chosen_way) \<in> set (entries (ec_ns np))"
    using neighbors_find_eq [OF node_invD(4) [OF np(1)], of "(3, 0)"] by (simp_all add: np(5)) (simp add: near_way_def chosen_way_def)
  have j: "(j, near_way) \<in> set (entries (ec_ns np))" "j \<noteq> i" using np(5,6) by simp_all
  have numbers: "usable (ec_node_addr np) near_way" "path_length near_way < METRIC_T_MAX"
    "uint8_to_uint16 (bp_metric ?bp) \<le> neighbor_node_metric near_way" "path_length near_way < path_length (chosen_way\<lparr>nn_bp := ?bp\<rparr>)"
    by (simp_all add: np(8) usable_def path_length_def near_way_def chosen_way_def neighbor_node_metric_def neighbor_node_hops_def
        neighbor_node_distance_def METRIC_T_MAX_def uint8_to_uint16_def)
  have only: "\<forall>(l, x) \<in> set (entries (ec_ns np)). l \<noteq> i \<longrightarrow> l \<noteq> j \<longrightarrow> \<not> usable (ec_node_addr np) x" by (simp add: np(5))
  from longer_way_is_kept [OF np(1) room np(3) s np(4) j np(7) numbers(1-3) only numbers(4), where rest = "[]"] np(4) j(2)
  show ?thesis by auto
qed

end
