(* ===== verification/Network_Model.thy ===== *)
theory Network_Model
  imports Shortest_Spec Learning_Spec
begin

text \<open>
  A network of nodes with the announcements that travel between them. A node is the record of the
  program; between two nodes lies the list of the announcements that the one has queued for its
  neighbors and the other has not heard yet. The order is kept, since the lane of the neighbor data
  sends a packet until every neighbor has acknowledged it (theory \<open>Round_Spec\<close>) or it is given up
  (theory \<open>Liveness_Spec\<close>); that an announcement is given up is not part of this model. What a node does with
  an announcement is its callback \<open>ec_neighbors_recv\<close>.
\<close>

subsection \<open>What the announcements do not change\<close>

definition same_place :: "node_properties \<Rightarrow> node_properties \<Rightarrow> bool" where
  "same_place np np' \<longleftrightarrow> ec_node_addr np' = ec_node_addr np \<and> ec_ns_set np' = ec_ns_set np \<and>
     np_is_sink_node np' = np_is_sink_node np \<and> np_is_reset_mode np' = np_is_reset_mode np \<and>
     np_is_burning np' = np_is_burning np \<and> np_is_exit_node np' = np_is_exit_node np \<and>
     np_exit_node np' = np_exit_node np \<and> np_coordinate_node np' = np_coordinate_node np \<and>
     np_has_sent_node_info np' = np_has_sent_node_info np"

lemma same_place_refl: "same_place np np"
  by (simp add: same_place_def)

lemma same_place_trans: "same_place np np1 \<Longrightarrow> same_place np1 np2 \<Longrightarrow> same_place np np2"
  by (simp add: same_place_def)

lemma internal_same_place: "ec_internal np np' \<Longrightarrow> same_place np np'"
  by (cases np, cases np') (simp add: same_place_def ec_internal_def)

lemma own_ns_place:
  assumes "node_inv np" shows "ensures (broadcast_own_ns data np) (same_place np)"
proof -
  have "node_inv (next_seqno np)" using assms by (simp add: next_seqno_def node_inv_fields)
  then have "ec_internal (next_seqno np) np'" if "broadcast_own_ns data np = Inr np'" for np'
    using that ec_reliable_broadcast_ns_internal [OF node_invD(1)] by (simp add: broadcast_own_ns_def)
  moreover have "same_place (next_seqno np) = same_place np" by (simp add: fun_eq_iff same_place_def next_seqno_def)
  ultimately show ?thesis using internal_same_place [of "next_seqno np"] by (simp add: ensures_def)
qed

lemma find_best_place:
  assumes "node_inv np" shows "ensures (find_best_exit_path_neighbor np) (\<lambda>(np', _). node_inv np' \<and> same_place np np')"
  by (rule ensures_mono [OF ensures_returns [OF find_best_returns [OF node_invD(4) [OF assms]]]])
     (auto simp: same_place_def intro: node_inv_ns [OF assms])

lemma broadcast_best_path_place: "node_inv np \<Longrightarrow> ensures (broadcast_best_path np) (same_place np)"
  unfolding broadcast_best_path_def by (rule ensures_read) (rule own_ns_place)

lemma update_choice_place:
  assumes "node_inv np"
  shows "ensures (update_bpn_and_broadcast_new_path_if_changed sender np) (\<lambda>(np', _). same_place np np')"
proof -
  have a: "same_place np np'" if "node_inv n" "same_place np n" "broadcast_best_path (n\<lparr>np_bpn := b\<rparr>) = Inr np'" for n b np'
    using ensuresD [OF broadcast_best_path_place [OF node_inv_fields(1) [OF that(1)]] that(3)] that(2)
    by (simp add: same_place_def)
  show ?thesis
    unfolding update_bpn_and_broadcast_new_path_if_changed_def Let_def
    by (rule ensures_bindR [OF find_best_place [OF assms]])
       (auto intro!: ensures_pair ensures_option ensures_read ensures_if intro: a)
qed

lemma blinking_update_place: "ensures (blinking_update np) (same_place np)"
  unfolding blinking_update_def Let_def
  by (auto intro!: ensures_if ensures_read simp: same_place_def rtimer_set_def)

lemma send_info_place:
  assumes "node_inv np" shows "ensures (update_bpn_and_send_node_info np) (same_place np)"
proof -
  have a: "ensures (broadcast_own_ns d (n\<lparr>np_bpn := b\<rparr>)) (same_place np)" if "node_inv n" "same_place np n" for n b d
    by (rule ensures_mono [OF own_ns_place]) (use that in \<open>simp_all add: node_inv_fields same_place_def\<close>)
  show ?thesis
    unfolding update_bpn_and_send_node_info_def Let_def
    by (rule ensures_bindR [OF find_best_place [OF assms]]) (auto intro!: ensures_pair ensures_read a)
qed

lemma change_node_place:
  assumes "node_inv np" shows "ensures (change_node i f np) (\<lambda>np'. node_inv np' \<and> same_place np np')"
proof -
  have "ensures (change_node i f np) (same_place np)"
    unfolding change_node_def by (auto intro!: ensures_read simp: same_place_def)
  then show ?thesis using change_node_keeps [OF assms, of i f] by (simp add: ensures_def)
qed

lemma path_update_place:
  assumes "node_inv np" shows "ensures (best_path_update_recv sender d np) (same_place np)"
proof -
  have u: "ensures (bindR (update_bpn_and_broadcast_new_path_if_changed x n)
      (\<lambda>(np, changed). if changed then blinking_update np else Inr np)) (same_place np)"
    if "node_inv n \<and> same_place np n" for x n
    by (rule ensures_bindR [OF update_choice_place])
       (use that in \<open>auto intro!: ensures_if ensures_mono [OF blinking_update_place] elim: same_place_trans\<close>)
  show ?thesis
    unfolding best_path_update_recv_def
    by (rule ensures_read, rule ensures_read, rule ensures_bindR [OF change_node_place [OF assms]]) (rule u)
qed

subsection \<open>Announcements\<close>

text \<open>The two packets that carry a path, and the path in either of them.\<close>

definition path_packet :: "neighbor_node_best_path \<Rightarrow> bytes" where
  "path_packet bp = BEST_PATH_UPDATE_PACKET # best_path_bytes bp"

definition info_packet :: "coordinate \<Rightarrow> neighbor_node_best_path \<Rightarrow> bytes" where
  "info_packet co bp = NODE_INFO_PACKET # coordinate_bytes co @ best_path_bytes bp"

definition path_in :: "bytes \<Rightarrow> neighbor_node_best_path" where
  "path_in d = best_path_at d (length d - 5)"

lemma path_in_packet: "path_in (path_packet bp) = bp" "path_in (info_packet co bp) = bp"
  by (simp_all add: path_in_def path_packet_def info_packet_def best_path_at_def best_path_bytes_def addr_bytes_def
      coordinate_bytes_def addr_at_def)

lemma length_packets: "length (path_packet bp) = 6" "length (info_packet co bp) = 10"
  by (simp_all add: path_packet_def info_packet_def best_path_bytes_def addr_bytes_def coordinate_bytes_def)

lemma packet_types: "packet_type (path_packet bp @ rest) = Inr BEST_PATH_UPDATE_PACKET"
  "packet_type (info_packet co bp @ rest) = Inr NODE_INFO_PACKET"
  by (simp_all add: packet_type_def path_packet_def info_packet_def read_mem_def)

lemma info_read:
  "read_coordinate (info_packet co bp @ rest) (Suc 0) = Inr co" "read_best_path (info_packet co bp @ rest) 5 = Inr bp"
  by (simp_all add: read_coordinate_def read_best_path_def info_packet_def read_mem_def coordinate_bytes_def best_path_bytes_def
      coordinate_at_def best_path_at_def addr_bytes_def addr_at_def)

text \<open>The path that a node announces now, and the length of a path as a number.\<close>

definition own_path :: "node_properties \<Rightarrow> neighbor_node_best_path" where
  "own_path np = projr (best_neighbor_bp_to_our_bp np)"

definition path_metric :: "neighbor_node_best_path \<Rightarrow> nat" where
  "path_metric bp = unat (uint8_to_uint16 (bp_metric bp))"

text \<open>What a turn of the program adds to the lane of the neighbor data.\<close>

definition announced :: "node_properties \<Rightarrow> node_properties \<Rightarrow> bytes list" where
  "announced np np' = map (\<lambda>(p, l, _). take (unat l) (drop 7 p))
     (drop (length (lane_view np MSG_TYPE_NEIGHBOR_DATA)) (lane_view np' MSG_TYPE_NEIGHBOR_DATA))"

lemma announced_last: "sent_last MSG_TYPE_NEIGHBOR_DATA d np np' \<Longrightarrow> length d < 256 \<Longrightarrow> announced np np' = [d]"
  by (auto simp: sent_last_def announced_def unsigned_of_nat take_bit_nat_eq_self)

lemma announced_none: "lane_view np' = lane_view np \<Longrightarrow> announced np np' = []"
  by (simp add: announced_def)

subsection \<open>The network and its steps\<close>

record radio_network =
  net_nodes :: network
  net_air :: "rimeaddr \<Rightarrow> rimeaddr \<Rightarrow> bytes list"

text \<open>Node \<open>a\<close> has become \<open>np'\<close>; what it has queued meanwhile goes to each of its neighbors.\<close>

definition told :: "radio_network \<Rightarrow> rimeaddr \<Rightarrow> node_properties \<Rightarrow> node_properties \<Rightarrow> radio_network" where
  "told s a np np' = s\<lparr>net_nodes := (net_nodes s)(a \<mapsto> np'),
     net_air := (\<lambda>x y. if x = a \<and> y \<in> set (neighbor_addrs (ec_ns np)) then net_air s x y @ announced np np' else net_air s x y)\<rparr>"

text \<open>
  An exit with room in its sending queue starts when it is asked to; a node hears the oldest announcement of a neighbor, if its
  sending queue has room for three packets; and a node may do anything that leaves alone its table,
  its choice and its place, like sending packets, following the clock, or blinking.
\<close>

datatype net_event = Starts rimeaddr | Hears rimeaddr rimeaddr | Works rimeaddr

inductive net_step :: "net_event \<Rightarrow> radio_network \<Rightarrow> radio_network \<Rightarrow> bool" where
  starts: "net_nodes s a = Some np \<Longrightarrow> np_is_exit_node np \<Longrightarrow> 0 < pb_free_cells (ec_sq np) \<Longrightarrow>
    initialize_best_path_packet_handler np = Inr np' \<Longrightarrow> net_step (Starts a) s (told s a np np')"
| hears: "net_nodes s b = Some np \<Longrightarrow> net_air s a b = d # ds \<Longrightarrow> a \<in> set (neighbor_addrs (ec_ns np)) \<Longrightarrow>
    3 \<le> pb_free_cells (ec_sq np) \<Longrightarrow> ec_neighbors_recv np a a 0 n (d @ rest) (of_nat (length d)) = Inr np' \<Longrightarrow>
    net_step (Hears b a) s (told (s\<lparr>net_air := (net_air s)(a := (net_air s a)(b := ds))\<rparr>) b np np')"
| works: "net_nodes s a = Some np \<Longrightarrow> node_inv np' \<Longrightarrow> same_place np np' \<Longrightarrow> same_table np np' \<Longrightarrow>
    np_bpn np' = np_bpn np \<Longrightarrow> net_step (Works a) s (s\<lparr>net_nodes := (net_nodes s)(a \<mapsto> np')\<rparr>)"

inductive_cases net_stepE: "net_step e s s'"

end
