(* ===== verification/Network_Hearing.thy ===== *)
theory Network_Hearing
  imports Network_Model
begin

text \<open>
  What a node does with an announcement it hears, as far as the network sees it: the entry that
  changes in its table, its new choice, and what it announces itself.
\<close>

subsection \<open>Runs of the callback\<close>

lemma length_best_path: "length (best_path_bytes bp) = 5"
  by (simp add: best_path_bytes_def addr_bytes_def)

lemma sent_own_path:
  assumes "best_neighbor_bp_to_our_bp np' = Inr our" and "sent_last MSG_TYPE_NEIGHBOR_DATA (f our) np np'" and "length (f our) < 256"
  shows "announced np np' = [f (own_path np')]"
  using announced_last [OF assms(2,3)] assms(1) by (simp add: own_path_def)

lemma send_info_runs:
  assumes inv: "node_inv np" and room: "0 < pb_free_cells (ec_sq np)" and ns: "ec_ns_set np" "items (ec_ns np) \<noteq> []"
  shows "returns (update_bpn_and_send_node_info np) (\<lambda>np'. node_inv np' \<and> same_table np np' \<and> same_place np np' \<and>
    np_bpn np' = Some (best_of np) \<and> announced np np' = [info_packet (np_coordinate_node np) (own_path np')] \<and>
    pb_free_cells (ec_sq np') = pb_free_cells (ec_sq np) - 1)"
proof -
  obtain q where q: "find_best_exit_path_neighbor np = Inr (np\<lparr>ec_ns := q\<rparr>, best_of np)" "ns_wf q" "entries q = entries (ec_ns np)"
    using find_best_returns [OF node_invD(4) [OF inv]] unfolding returns_def by auto
  let ?b = "best_of np" and ?m = "np\<lparr>ec_ns := q, np_bpn := Some (best_of np)\<rparr>"
  have m: "node_inv ?m" "same_table np ?m" using node_inv_fields(1) [OF node_inv_ns [OF inv q(2)]] q(3) by (simp_all add: same_table_def)
  have b: "in_table ?b ?m" using best_in_table [of np] same_table_in [OF m(2)] by simp
  obtain n where "node_at ?b ?m = Inr n" using node_in_table [OF m(1) b] by metis
  then obtain our where our: "best_neighbor_bp_to_our_bp ?m = Inr our" using our_best_path [of ?m ?b n] by auto
  let ?d = "NODE_INFO_PACKET # coordinate_bytes (np_coordinate_node np) @ best_path_bytes our"
  have len: "length ?d \<le> 24" by (simp add: coordinate_bytes_def best_path_bytes_def)
  have ns': "0 < pb_free_cells (ec_sq ?m)" "ec_ns_set ?m" "items (ec_ns ?m) \<noteq> []" using room ns q(3) by (simp_all add: items_def)
  obtain np' where r: "broadcast_own_ns ?d ?m = Inr np'" "node_inv np'" "same_node ?m np'" "sent_last MSG_TYPE_NEIGHBOR_DATA ?d ?m np'"
    "pb_free_cells (ec_sq np') = pb_free_cells (ec_sq np) - 1"
    using broadcast_own_ns_returns [OF m(1) ns'(1) len ns'(2,3)] unfolding returns_def by auto
  have run: "update_bpn_and_send_node_info np = Inr np'"
    using q(1) our r(1) by (simp add: update_bpn_and_send_node_info_def Let_def)
  have "node_inv (next_seqno ?m)" using m(1) by (simp add: next_seqno_def node_inv_fields)
  then have "ec_internal (next_seqno ?m) np'"
    using r(1) ec_reliable_broadcast_ns_internal [OF node_invD(1)] by (simp add: broadcast_own_ns_def)
  from internal_same_table [OF this] have t: "same_table ?m np'" by (simp add: same_table_def next_seqno_def)
  have bpn: "np_bpn np' = Some ?b" using r(3) by (simp add: same_node_def)
  have "best_neighbor_bp_to_our_bp np' = Inr our" using same_table_path [OF m(1) r(2) t _ bpn b] our by simp
  moreover have "sent_last MSG_TYPE_NEIGHBOR_DATA (info_packet (np_coordinate_node np) our) np np'"
    using r(4) by (simp add: sent_last_def lane_view_def info_packet_def)
  ultimately have "announced np np' = [info_packet (np_coordinate_node np) (own_path np')]"
    by (rule sent_own_path) (simp add: length_packets)
  with r(2,5) bpn same_table_trans [OF m(2) t] ensuresD [OF send_info_place [OF inv] run] show ?thesis by (simp add: run)
qed

text \<open>The choice after a change of entry \<open>i\<close>, on a node that has already announced a path.\<close>

definition replies :: "nat \<Rightarrow> node_properties \<Rightarrow> node_properties \<Rightarrow> bool" where
  "replies i np np' \<longleftrightarrow> (\<exists>m. node_inv m \<and> same_table m np' \<and> np_bpn m = np_bpn np \<and>
     (if choice_changes (Some (Table_Node i)) m
      then np_bpn np' = Some (best_of np') \<and> announced np np' = [path_packet (own_path np')]
      else np_bpn np' = np_bpn np \<and> announced np np' = []))"

lemma path_packet_runs:
  assumes inv: "node_inv np" and room: "0 < pb_free_cells (ec_sq np)" and ns: "ec_ns_set np"
    and sender: "neighbors_find_neighbor_node (ec_ns np) sender = Inr (Some i)" "(i, n) \<in> set (entries (ec_ns np))"
    and old: "\<And>p. np_bpn np = Some p \<Longrightarrow> in_table p np" and mode: "\<not> np_is_reset_mode np" "\<not> np_is_sink_node np"
  shows "returns (ec_neighbors_recv np o' sender h k (path_packet bp @ rest) l) (\<lambda>np'. node_inv np' \<and> same_place np np' \<and>
     replies i np np' \<and> entries (ec_ns np') = with_entry i (n\<lparr>nn_bp := bp\<rparr>) (entries (ec_ns np)))"
proof -
  obtain m np' where r: "best_path_update_recv sender (BEST_PATH_UPDATE_PACKET # best_path_bytes bp @ rest) np = Inr np'"
    "node_inv m" "entries (ec_ns m) = with_entry i (n\<lparr>nn_bp := bp\<rparr>) (entries (ec_ns np))" "np_bpn m = np_bpn np" "node_inv np'"
    "same_table m np'" "if choice_changes (Some (Table_Node i)) m then np_bpn np' = Some (best_of m) \<and>
        (\<exists>our. best_neighbor_bp_to_our_bp np' = Inr our \<and>
           sent_last MSG_TYPE_NEIGHBOR_DATA (BEST_PATH_UPDATE_PACKET # best_path_bytes our) np np')
      else np_bpn np' = np_bpn np \<and> lane_view np' = lane_view np"
    using best_path_update_runs [OF inv room ns sender old, of bp rest] by blast
  have run: "ec_neighbors_recv np o' sender h k (path_packet bp @ rest) l = Inr np'"
    using packet_types(1) [of bp rest] mode r(1) by (simp add: ec_neighbors_recv_def) (simp add: path_packet_def)
  have "replies i np np'"
    unfolding replies_def
  proof (intro exI [of _ m] conjI)
    show "if choice_changes (Some (Table_Node i)) m
      then np_bpn np' = Some (best_of np') \<and> announced np np' = [path_packet (own_path np')]
      else np_bpn np' = np_bpn np \<and> announced np np' = []"
      using r(7) same_table_best [OF r(6)] announced_none [of np' np] sent_own_path [of np' _ path_packet np]
      by (auto simp: path_packet_def length_best_path)
  qed (use r in simp_all)
  moreover have "same_place np np'" using ensuresD [OF path_update_place [OF inv] r(1)] .
  ultimately show ?thesis using r(3,5,6) by (simp add: run same_table_def)
qed

text \<open>The entry of a neighbor that has told its place and its path.\<close>

definition informed_entry :: "node_properties \<Rightarrow> coordinate \<Rightarrow> neighbor_node_best_path \<Rightarrow> neighbor_node \<Rightarrow> neighbor_node" where
  "informed_entry np co bp n = n\<lparr>nn_coord := co,
     nn_distance := uint16_to_uint8 (coordinate_distance co (np_coordinate_node np)), nn_bp := bp\<rparr>"

lemma info_packet_runs:
  assumes inv: "node_inv np" and room: "0 < pb_free_cells (ec_sq np)" and ns: "ec_ns_set np"
    and sender: "neighbors_find_neighbor_node (ec_ns np) sender = Inr (Some i)" "(i, n) \<in> set (entries (ec_ns np))"
    and old: "\<And>p. np_bpn np = Some p \<Longrightarrow> in_table p np" and mode: "\<not> np_is_reset_mode np" "\<not> np_is_sink_node np"
  shows "returns (ec_neighbors_recv np o' sender h k (info_packet co bp @ rest) l) (\<lambda>np'. node_inv np' \<and>
     entries (ec_ns np') = with_entry i (informed_entry np co bp n) (entries (ec_ns np)) \<and>
     (if \<not> np_has_sent_node_info np
      then same_place (np\<lparr>np_has_sent_node_info := True\<rparr>) np' \<and> np_bpn np' = Some (best_of np') \<and>
        announced np np' = [info_packet (np_coordinate_node np) (own_path np')]
      else same_place np np' \<and>
        (if np_is_exit_node np then np_bpn np' = np_bpn np \<and> announced np np' = [] else replies i np np')))"
proof -
  let ?f = "\<lambda>n. neighbor_node_set_best_path (neighbor_node_set_coordinate (np_coordinate_node np) n co) bp"
  have f: "?f n = informed_entry np co bp n"
    by (simp add: neighbor_node_set_best_path_def neighbor_node_set_coordinate_def informed_entry_def)
  obtain q where q: "change_node i ?f np = Inr (np\<lparr>ec_ns := q\<rparr>)" "node_inv (np\<lparr>ec_ns := q\<rparr>)"
    "entries q = with_entry i (informed_entry np co bp n) (entries (ec_ns np))"
    using change_node_returns [OF inv sender(2), of ?f] unfolding returns_def f by blast
  let ?m = "np\<lparr>ec_ns := q\<rparr>"
  have m: "0 < pb_free_cells (ec_sq ?m)" "ec_ns_set ?m" "items (ec_ns ?m) \<noteq> []"
    using room ns sender(2) q(3) by (auto simp: items_def with_entry_def)
  have old': "in_table p ?m" if "np_bpn ?m = Some p" for p
    using old [of p] that by (auto simp: in_table_def q(3) with_entry_set [OF sender(2)])
  have lanes: "lane_view ?m = lane_view np" by (simp add: lane_view_def fun_eq_iff)
  have mp: "same_place np ?m" by (simp add: same_place_def)
  have info: "node_info_recv sender (info_packet co bp @ rest) np =
     (if \<not> np_has_sent_node_info np
      then bindR (update_bpn_and_send_node_info ?m) (\<lambda>np. Inr (np\<lparr>np_has_sent_node_info := True\<rparr>))
      else if \<not> np_is_exit_node np
      then bindR (update_bpn_and_broadcast_new_path_if_changed (Some (Table_Node i)) ?m) (\<lambda>(np, _). Inr np)
      else Inr ?m)"
    using sender(1) q(1) by (simp add: node_info_recv_def sender_node_def info_read)
  have run: "ec_neighbors_recv np o' sender h k (info_packet co bp @ rest) l = node_info_recv sender (info_packet co bp @ rest) np"
    using packet_types(2) [of co bp rest] mode by (simp add: ec_neighbors_recv_def packet_type_defs)
  consider (fresh) "\<not> np_has_sent_node_info np" | (exit) "np_has_sent_node_info np" "np_is_exit_node np"
    | (inner) "np_has_sent_node_info np" "\<not> np_is_exit_node np" by blast
  then show ?thesis
  proof cases
    case fresh
    obtain np1 where r: "update_bpn_and_send_node_info ?m = Inr np1" "node_inv np1" "same_table ?m np1" "same_place ?m np1"
      "np_bpn np1 = Some (best_of ?m)" "announced ?m np1 = [info_packet (np_coordinate_node np) (own_path np1)]"
      using send_info_runs [OF q(2) m] unfolding returns_def by auto
    let ?np' = "np1\<lparr>np_has_sent_node_info := True\<rparr>"
    have "own_path ?np' = own_path np1"
      by (simp add: own_path_def best_neighbor_bp_to_our_bp_def bpn_node_def weigh_metrics_def node_at_def cong: node_ptr.case_cong option.case_cong if_cong)
    moreover have "announced np ?np' = announced ?m np1" by (simp add: announced_def lane_view_def)
    moreover have "same_table np1 ?np'" by (simp add: same_table_def)
    then have "best_of ?np' = best_of ?m" using same_table_best [OF r(3)] same_table_best [of np1 ?np'] by metis
    moreover have "same_place (np\<lparr>np_has_sent_node_info := True\<rparr>) ?np'" using r(4) by (simp add: same_place_def)
    moreover have "node_inv ?np'" using r(2) by (simp add: node_inv_fields)
    ultimately show ?thesis using fresh r q(3) unfolding run info by (simp add: same_table_def)
  next
    case exit
    with q mp lanes show ?thesis unfolding run info by (simp add: announced_def)
  next
    case inner
    obtain np1 c where u: "update_bpn_and_broadcast_new_path_if_changed (Some (Table_Node i)) ?m = Inr (np1, c)"
      "node_inv np1" "same_table ?m np1" "c = choice_changes (Some (Table_Node i)) ?m"
      "if c then np_bpn np1 = Some (best_of ?m) \<and> (\<exists>our. best_neighbor_bp_to_our_bp np1 = Inr our \<and>
          sent_last MSG_TYPE_NEIGHBOR_DATA (BEST_PATH_UPDATE_PACKET # best_path_bytes our) ?m np1)
       else np_bpn np1 = np_bpn ?m \<and> lane_view np1 = lane_view ?m"
      using update_choice [OF q(2) m old', of "Some (Table_Node i)"] unfolding returns_def by auto
    have "replies i np np1"
      unfolding replies_def
    proof (intro exI [of _ ?m] conjI)
      show "if choice_changes (Some (Table_Node i)) ?m
        then np_bpn np1 = Some (best_of np1) \<and> announced np np1 = [path_packet (own_path np1)]
        else np_bpn np1 = np_bpn np \<and> announced np np1 = []"
        using u(4,5) same_table_best [OF u(3)] announced_none [of np1 np] sent_own_path [of np1 _ path_packet np]
        by (auto simp: path_packet_def length_best_path lanes sent_last_def)
    qed (use q(2) u(3) in simp_all)
    moreover have "same_place np np1"
      using ensuresD [OF update_choice_place [OF q(2)] u(1)] same_place_trans [OF mp] by simp
    ultimately show ?thesis using inner u(1,2,3) q(3) unfolding run info by (simp add: same_table_def)
  qed
qed

subsection \<open>The nearest neighbor after a change\<close>

text \<open>The loop takes the first of the neighbors with the shortest way.\<close>

definition first_best :: "rimeaddr \<Rightarrow> (nat \<times> neighbor_node) list \<Rightarrow> nat \<Rightarrow> neighbor_node \<Rightarrow> bool" where
  "first_best me es j n \<longleftrightarrow> (\<exists>xs ys. es = xs @ (j, n) # ys \<and> usable me n \<and> path_length n < METRIC_T_MAX \<and>
     (\<forall>(k, x) \<in> set xs. usable me x \<longrightarrow> path_length n < path_length x) \<and>
     (\<forall>(k, x) \<in> set ys. usable me x \<longrightarrow> path_length n \<le> path_length x))"

lemma first_bestE:
  assumes "first_best me es j n"
  obtains xs ys where "es = xs @ (j, n) # ys" and "usable me n" and "path_length n < METRIC_T_MAX"
    and "\<forall>(k, x) \<in> set xs. usable me x \<longrightarrow> path_length n < path_length x"
    and "\<forall>(k, x) \<in> set ys. usable me x \<longrightarrow> path_length n \<le> path_length x"
  using assms unfolding first_best_def by (elim exE conjE)

lemma first_bestI:
  "usable me n \<Longrightarrow> path_length n < METRIC_T_MAX \<Longrightarrow> \<forall>(k, x) \<in> set xs. usable me x \<longrightarrow> path_length n < path_length x \<Longrightarrow>
   \<forall>(k, x) \<in> set ys. usable me x \<longrightarrow> path_length n \<le> path_length x \<Longrightarrow> first_best me (xs @ (j, n) # ys) j n"
  unfolding first_best_def by (intro exI [of _ xs] exI [of _ ys] conjI refl)

abbreviation nearest :: "rimeaddr \<Rightarrow> (nat \<times> neighbor_node) list \<Rightarrow> node_ptr option \<times> metric_t \<Rightarrow> node_ptr option \<times> metric_t" where
  "nearest me \<equiv> fold (\<lambda>(i, n). consider_neighbor me i n)"

lemma nearest_above:
  "\<forall>(k, x) \<in> set xs. usable me x \<longrightarrow> l < path_length x \<Longrightarrow> l < snd s \<Longrightarrow> l < snd (nearest me xs s)"
  by (induction xs arbitrary: s) (auto simp: consider_neighbor_eq)

lemma nearest_stays: "\<forall>(k, x) \<in> set ys. usable me x \<longrightarrow> snd s \<le> path_length x \<Longrightarrow> nearest me ys s = s"
  by (induction ys) (auto simp: consider_neighbor_eq)

lemma nearest_first:
  assumes "first_best me es j n"
  shows "nearest me es (None, METRIC_T_MAX) = (Some (Table_Node j), path_length n)"
proof -
  obtain xs ys where es: "es = xs @ (j, n) # ys" "usable me n" "path_length n < METRIC_T_MAX"
    "\<forall>(k, x) \<in> set xs. usable me x \<longrightarrow> path_length n < path_length x"
    "\<forall>(k, x) \<in> set ys. usable me x \<longrightarrow> path_length n \<le> path_length x" using assms by (rule first_bestE)
  have "path_length n < snd (nearest me xs (None, METRIC_T_MAX))" using nearest_above [OF es(4)] es(3) by simp
  with es show ?thesis using nearest_stays [of ys me "(Some (Table_Node j), path_length n)"]
    by (simp add: consider_neighbor_eq)
qed

lemma first_nearest:
  "(case nearest me es (None, METRIC_T_MAX) of (None, m) \<Rightarrow> m = METRIC_T_MAX
    | (Some p, m) \<Rightarrow> \<exists>j n. p = Table_Node j \<and> m = path_length n \<and> first_best me es j n) \<and>
   (\<forall>(k, x) \<in> set es. usable me x \<longrightarrow> snd (nearest me es (None, METRIC_T_MAX)) \<le> path_length x)"
proof (induction es rule: rev_induct)
  case (snoc e es)
  obtain i x where e: "e = (i, x)" by (cases e)
  define s where "s = nearest me es (None, METRIC_T_MAX)"
  note IH = snoc [folded s_def]
  have s': "nearest me (es @ [e]) (None, METRIC_T_MAX) = consider_neighbor me i x s" by (simp add: e s_def)
  have le: "snd s \<le> path_length y" if "(k, y) \<in> set es" "usable me y" for k y using IH that by auto
  show ?case
  proof (cases "usable me x \<and> path_length x < snd s")
    case True
    have less: "path_length x < path_length y" if "(k, y) \<in> set es" "usable me y" for k y
      using True le [OF that] by (meson less_le_trans)
    have "path_length x < METRIC_T_MAX" using True metric_max [of "snd s"] by (meson less_le_trans)
    with True less have "first_best me (es @ [(i, x)]) i x" by (auto intro!: first_bestI [of me x es "[]"])
    with True less show ?thesis unfolding s' by (auto simp: consider_neighbor_eq e intro: less_imp_le)
  next
    case False
    have "first_best me (es @ [(i, x)]) j n" if f: "first_best me es j n" "snd s = path_length n" for j n
    proof -
      obtain xs ys where "es = xs @ (j, n) # ys" "usable me n" "path_length n < METRIC_T_MAX"
        "\<forall>(k, x) \<in> set xs. usable me x \<longrightarrow> path_length n < path_length x"
        "\<forall>(k, x) \<in> set ys. usable me x \<longrightarrow> path_length n \<le> path_length x" using f(1) by (rule first_bestE)
      with False f(2) show ?thesis using first_bestI [of me n xs "ys @ [(i, x)]" j] by (auto simp: not_less)
    qed
    with False IH show ?thesis
      unfolding s' by (cases s rule: prod.exhaust) (auto simp: consider_neighbor_eq e split: option.splits)
  qed
qed simp

lemma best_of_iff:
  assumes "\<not> np_is_exit_node np"
  shows "best_of np = Table_Node j \<longleftrightarrow> (\<exists>n. first_best (ec_node_addr np) (entries (ec_ns np)) j n)"
proof -
  let ?s = "nearest (ec_node_addr np) (entries (ec_ns np)) (None, METRIC_T_MAX)"
  show ?thesis
  proof
    assume "best_of np = Table_Node j"
    then have "fst ?s = Some (Table_Node j)" using assms by (auto simp: best_of_def split: option.splits)
    with first_nearest [of "ec_node_addr np" "entries (ec_ns np)"] show "\<exists>n. first_best (ec_node_addr np) (entries (ec_ns np)) j n"
      by (cases ?s) auto
  next
    assume "\<exists>n. first_best (ec_node_addr np) (entries (ec_ns np)) j n"
    then show "best_of np = Table_Node j" using assms nearest_first by (fastforce simp: best_of_def)
  qed
qed

lemma with_entry_split:
  assumes "distinct (map fst (us @ (i, n) # vs))"
  shows "with_entry i x (us @ (i, n) # vs) = us @ (i, x) # vs"
proof -
  have "map (\<lambda>e. if fst e = i then (i, x) else e) es = es" if "i \<notin> set (map fst es)" for es
    using that by (induction es) auto
  with assms show ?thesis by (simp add: with_entry_def)
qed

text \<open>The entry of one neighbor changes: then either the choice stays, or it falls on this neighbor.\<close>

lemma first_best_improves:
  assumes "distinct (map fst es)" and "first_best me es i n" and "usable me x" and "path_length x \<le> path_length n"
  shows "first_best me (with_entry i x es) i x"
proof -
  obtain xs ys where "es = xs @ (i, n) # ys" "path_length n < METRIC_T_MAX"
    "\<forall>(k, x) \<in> set xs. usable me x \<longrightarrow> path_length n < path_length x"
    "\<forall>(k, x) \<in> set ys. usable me x \<longrightarrow> path_length n \<le> path_length x" using assms(2) by (rule first_bestE)
  moreover from this have "with_entry i x es = xs @ (i, x) # ys" using assms(1) with_entry_split by simp
  ultimately show ?thesis using assms(3,4) by (auto intro!: first_bestI)
qed

lemma first_best_after:
  assumes "distinct (map fst es)" and "first_best me es j nj" and "(i, n) \<in> set es" and "i \<noteq> j"
  shows "first_best me (with_entry i x es) j nj \<or>
    usable me x \<and> path_length x \<le> path_length nj \<and> first_best me (with_entry i x es) i x"
proof -
  obtain xs ys where es: "es = xs @ (j, nj) # ys" "usable me nj" "path_length nj < METRIC_T_MAX"
    "\<forall>(k, x) \<in> set xs. usable me x \<longrightarrow> path_length nj < path_length x"
    "\<forall>(k, x) \<in> set ys. usable me x \<longrightarrow> path_length nj \<le> path_length x" using assms(2) by (rule first_bestE)
  consider "(i, n) \<in> set xs" | "(i, n) \<in> set ys" using assms(3,4) es(1) by auto
  then show ?thesis
  proof cases
    case 1
    then obtain us vs where u: "xs = us @ (i, n) # vs" by (auto simp: in_set_conv_decomp)
    have w: "with_entry i x es = us @ (i, x) # vs @ (j, nj) # ys"
      using assms(1) with_entry_split [of us i n "vs @ (j, nj) # ys" x] by (simp add: es(1) u)
    show ?thesis
    proof (cases "usable me x \<and> path_length x \<le> path_length nj")
      case True
      with es u have "first_best me (with_entry i x es) i x" unfolding w by (intro first_bestI) fastforce+
      with True show ?thesis by blast
    next
      case False
      with es u have "first_best me (with_entry i x es) j nj"
        unfolding w using first_bestI [of me nj "us @ (i, x) # vs" ys j] by fastforce
      then show ?thesis ..
    qed
  next
    case 2
    then obtain us vs where u: "ys = us @ (i, n) # vs" by (auto simp: in_set_conv_decomp)
    have w: "with_entry i x es = xs @ (j, nj) # us @ (i, x) # vs"
      using assms(1) with_entry_split [of "xs @ (j, nj) # us" i n vs x] by (simp add: es(1) u)
    show ?thesis
    proof (cases "usable me x \<and> path_length x < path_length nj")
      case True
      with es u have "first_best me (with_entry i x es) i x"
        unfolding w using first_bestI [of me x "xs @ (j, nj) # us" vs i] by fastforce
      with True show ?thesis by (simp add: less_imp_le)
    next
      case False
      with es u have "first_best me (with_entry i x es) j nj" unfolding w by (intro first_bestI) fastforce+
      then show ?thesis ..
    qed
  qed
qed

subsection \<open>Standing nodes\<close>

text \<open>A regular node in its place, that does not burn, with its neighbors; an exit has been set up as one.\<close>

definition standing :: "rimeaddr \<Rightarrow> node_properties \<Rightarrow> bool" where
  "standing a np \<longleftrightarrow> node_inv np \<and> ec_node_addr np = a \<and> ec_ns_set np \<and> items (ec_ns np) \<noteq> [] \<and>
     distinct (neighbor_addrs (ec_ns np)) \<and> \<not> np_is_sink_node np \<and> \<not> np_is_reset_mode np \<and> \<not> np_is_burning np \<and>
     (np_is_exit_node np \<longrightarrow> is_exit np)"

lemma standingD:
  assumes "standing a np"
  shows "node_inv np" "ec_node_addr np = a" "ec_ns_set np" "items (ec_ns np) \<noteq> []" "distinct (neighbor_addrs (ec_ns np))"
    "\<not> np_is_sink_node np" "\<not> np_is_reset_mode np" "\<not> np_is_burning np" "np_is_exit_node np \<Longrightarrow> is_exit np"
    "qb_wf (ec_ns np)" "distinct (map fst (entries (ec_ns np)))"
  using assms distinct_entries [OF ns_wfD(1) [OF node_invD(4)], of np] ns_wfD(1) [OF node_invD(4), of np]
  by (simp_all add: standing_def map_fst_entries)

lemma standing_place:
  assumes "standing a np" and "node_inv np'" and "same_place np np'" and "neighbor_addrs (ec_ns np') = neighbor_addrs (ec_ns np)"
  shows "standing a np'"
proof -
  have "items (ec_ns np') \<noteq> []" using assms(1,4) by (auto simp: standing_def neighbor_addrs_def)
  with assms show ?thesis by (simp add: standing_def same_place_def is_exit_def)
qed

text \<open>The choice of such a node: none before its first announcement, the nearest neighbor or the exit afterwards.\<close>

definition silent :: "neighbor_node \<Rightarrow> bool" where
  "silent n \<longleftrightarrow> neighbor_node_metric n = METRIC_T_MAX"

definition has_chosen :: "node_properties \<Rightarrow> bool" where
  "has_chosen np \<longleftrightarrow> (if np_has_sent_node_info np then np_bpn np = Some (best_of np) \<and> best_of np \<noteq> Max_Node
     else np_bpn np = None \<and> (\<forall>n \<in> set (items (ec_ns np)). silent n))"

text \<open>The path through a neighbor.\<close>

definition via :: "neighbor_node \<Rightarrow> neighbor_node_best_path" where
  "via n = \<lparr>bp_metric = uint16_to_uint8 (path_length n), bp_points_to = nn_addr n, bp_hops = neighbor_node_hops n + 1\<rparr>"

lemma via_metric: "path_metric (via n) = unat (path_length n)"
  by (simp add: path_metric_def via_def)

lemma own_path_via:
  assumes "standing a np" and "np_bpn np = Some (Table_Node j)" and "(j, n) \<in> set (entries (ec_ns np))"
  shows "best_neighbor_bp_to_our_bp np = Inr (via n)" and "own_path np = via n"
proof -
  show "best_neighbor_bp_to_our_bp np = Inr (via n)"
    using assms(2) get_data_entry [OF standingD(10) [OF assms(1)] assms(3)] standingD(8) [OF assms(1)]
    by (simp add: best_neighbor_bp_to_our_bp_def bpn_node_def node_at_def via_def path_length_def weigh_metrics_def
        weigh_distance_def neighbor_node_addr_def add.commute)
  then show "own_path np = via n" by (simp add: own_path_def)
qed

lemma own_path_exit:
  assumes "standing a np" and "np_is_exit_node np" and "np_bpn np = Some Exit_Node"
  shows "best_neighbor_bp_to_our_bp np = Inr (exit_path np)" and "own_path np = exit_path np"
  using exit_announcement [OF standingD(9) [OF assms(1,2)] standingD(8) [OF assms(1)] assms(3)]
  by (simp_all add: own_path_def)

lemma chosen_first:
  assumes "standing a np" and "\<not> np_is_exit_node np" and "best_of np \<noteq> Max_Node"
  obtains j n where "best_of np = Table_Node j" and "first_best a (entries (ec_ns np)) j n" and "(j, n) \<in> set (entries (ec_ns np))"
    and "usable a n"
proof -
  obtain j where j: "best_of np = Table_Node j"
    using assms(2,3) best_of_exit [of np] by (cases "best_of np") auto
  then obtain n where n: "first_best a (entries (ec_ns np)) j n" using best_of_iff [OF assms(2)] standingD(2) [OF assms(1)] by auto
  then show thesis using that [OF j n] by (auto elim!: first_bestE)
qed

text \<open>
  A node that hears from a neighbor keeps its choice and says nothing, or it chooses this neighbor
  and announces a path that is not longer than before.
\<close>

lemma replies_choice:
  assumes st: "standing a np" "standing a np'" and place: "same_place np np'" and ch: "has_chosen np" "np_has_sent_node_info np"
    and r: "replies i np np'" and e: "entries (ec_ns np') = with_entry i x (entries (ec_ns np))" "(i, n) \<in> set (entries (ec_ns np))"
    and better: "best_of np = Table_Node i \<Longrightarrow> usable a x \<and> path_length x \<le> path_length n"
  shows "has_chosen np' \<and> (announced np np' = [] \<and> own_path np' = own_path np \<or>
    announced np np' = [path_packet (own_path np')] \<and> \<not> np_is_exit_node np \<and> own_path np' = via x \<and> usable a x \<and>
      path_metric (via x) \<le> path_metric (own_path np) \<and> path_length x < METRIC_T_MAX)"
proof -
  obtain m where m: "node_inv m" "same_table m np'" "np_bpn m = np_bpn np"
    "if choice_changes (Some (Table_Node i)) m then np_bpn np' = Some (best_of np') \<and> announced np np' = [path_packet (own_path np')]
     else np_bpn np' = np_bpn np \<and> announced np np' = []" using r unfolding replies_def by blast
  have b: "np_bpn np = Some (best_of np)" "best_of np \<noteq> Max_Node" using ch by (simp_all add: has_chosen_def)
  have same: "np_is_exit_node np' = np_is_exit_node np" "np_has_sent_node_info np' = np_has_sent_node_info np"
    using place by (simp_all add: same_place_def)
  have bm: "best_of np' = best_of m" using same_table_best [OF m(2)] .
  have keep: "has_chosen np' \<and> announced np np' = [] \<and> np_bpn np' = np_bpn np"
    if "best_of np' = best_of np" "best_of np \<noteq> Table_Node i"
  proof -
    have "\<not> choice_changes (Some (Table_Node i)) m"
      using that b m(3) by (simp add: choice_changes_def flip: bm)
    with m(4) b that(1) ch(2) same show ?thesis by (simp add: has_chosen_def)
  qed
  show ?thesis
  proof (cases "np_is_exit_node np")
    case True
    then have "best_of np = Exit_Node" "best_of np' = Exit_Node" using same by (simp_all add: best_of_def)
    with keep b own_path_exit(2) [OF st(1) True] own_path_exit(2) [OF st(2)] True same st place show ?thesis
      by (simp add: exit_path_def same_place_def)
  next
    case False
    note no_exit = this
    obtain j nj where j: "best_of np = Table_Node j" "first_best a (entries (ec_ns np)) j nj" "(j, nj) \<in> set (entries (ec_ns np))" "usable a nj"
      using chosen_first [OF st(1) False b(2)] .
    have own: "own_path np = via nj" using own_path_via(2) [OF st(1) _ j(3)] b(1) j(1) by simp
    note d = standingD(11) [OF st(1)]
    have best': "best_of np' = Table_Node k \<longleftrightarrow> (\<exists>n. first_best a (with_entry i x (entries (ec_ns np))) k n)" for k
      using best_of_iff [of np' k] False same(1) standingD(2) [OF st(2)] e(1) by simp
    have new: ?thesis if f: "first_best a (with_entry i x (entries (ec_ns np))) i x" and le: "path_length x \<le> path_length nj"
    proof -
      have bi: "best_of np' = Table_Node i" using f best' by blast
      then have "choice_changes (Some (Table_Node i)) m" using m(3) b(1) bm by (simp add: choice_changes_def)
      with m(4) have a: "np_bpn np' = Some (Table_Node i)" "announced np np' = [path_packet (own_path np')]" using bi by simp_all
      have "(i, x) \<in> set (entries (ec_ns np'))" using e with_entry_set [OF e(2)] by simp
      from own_path_via(2) [OF st(2) a(1) this] have "own_path np' = via x" .
      moreover have "usable a x" "path_length x < METRIC_T_MAX" using f by (auto elim: first_bestE)
      ultimately show ?thesis
        using a bi ch(2) same no_exit le own by (simp add: has_chosen_def via_metric word_le_nat_alt)
    qed
    show ?thesis
    proof (cases "i = j")
      case True
      then have "nj = n" using j(3) e(2) d by (meson eq_key_imp_eq_value)
      with True j better first_best_improves [OF d, of a i n x] new show ?thesis by simp
    next
      case False
      from first_best_after [OF d j(2) e(2) this, of x] show ?thesis
      proof
        assume "first_best a (with_entry i x (entries (ec_ns np))) j nj"
        then have bj: "best_of np' = best_of np" using best' j(1) by auto
        with keep False j(1) have k: "has_chosen np'" "announced np np' = []" "np_bpn np' = Some (Table_Node j)"
          using b(1) by auto
        have "(j, nj) \<in> set (entries (ec_ns np'))" using e(1) with_entry_set [OF e(2)] j(3) False by simp
        from own_path_via(2) [OF st(2) k(3) this] k own show ?thesis by simp
      qed (use new in blast)
    qed
  qed
qed

end
