(* ===== verification/Network_Laws.thy ===== *)
theory Network_Laws
  imports Network_Hearing
begin

text \<open>
  What holds in a network while the announcements spread: on every link, what the receiver knows,
  followed by what is on the way, are paths that the sender has announced, each not longer than the
  one before, and the last one is the path that the sender has now.
\<close>

subsection \<open>Paths and links\<close>

text \<open>At most six hops, none of them longer than 9000: so nothing wraps around on 16 bits.\<close>

definition short_path :: "neighbor_node_best_path \<Rightarrow> bool" where
  "short_path bp \<longleftrightarrow> bp_hops bp < 7 \<and> path_metric bp \<le> 9000 * unat (bp_hops bp)"

text \<open>
  A path that node \<open>a\<close> has announced: the nodes on it are different, and each of them announces a
  shorter path now.
\<close>

definition chained :: "network \<Rightarrow> rimeaddr \<Rightarrow> neighbor_node_best_path \<Rightarrow> bool" where
  "chained net a q \<longleftrightarrow> path_metric q \<le> 9000 * unat (bp_hops q) \<and>
     (\<exists>r. distinct (a # r) \<and> length r = unat (bp_hops q) \<and> bp_points_to q = hd (r @ [a]) \<and>
     (\<forall>c \<in> set r. \<exists>nc. net c = Some nc \<and> np_has_sent_node_info nc \<and> path_metric (own_path nc) < path_metric q))"

definition backed :: "network \<Rightarrow> rimeaddr \<Rightarrow> neighbor_node_best_path \<Rightarrow> bool" where
  "backed net a q \<longleftrightarrow> short_path q \<and> chained net a q"

lemma backed_iff: "backed net a q \<longleftrightarrow> bp_hops q < 7 \<and> chained net a q"
  by (auto simp: backed_def chained_def short_path_def)

lemma backedD: "backed net a q \<Longrightarrow> short_path q"
  by (simp add: backed_def)

lemma short_pathD:
  assumes "short_path q" shows "bp_hops q < 7" "unat (bp_hops q) \<le> 6" "path_metric q \<le> 54000"
    "uint8_to_uint16 (bp_metric q) \<noteq> METRIC_T_MAX"
proof -
  show h: "bp_hops q < 7" "unat (bp_hops q) \<le> 6" using assms by (auto simp: short_path_def word_less_nat_alt)
  then show m: "path_metric q \<le> 54000" using assms by (simp add: short_path_def)
  then show "uint8_to_uint16 (bp_metric q) \<noteq> METRIC_T_MAX" by (auto simp: path_metric_def METRIC_T_MAX_def)
qed

text \<open>A node may go on to a shorter path.\<close>

definition shortens :: "node_properties \<Rightarrow> node_properties \<Rightarrow> bool" where
  "shortens np np' \<longleftrightarrow> (np_has_sent_node_info np \<longrightarrow>
     np_has_sent_node_info np' \<and> path_metric (own_path np') \<le> path_metric (own_path np))"

lemma chained_mono:
  assumes "chained net a q" and "net b = Some np" and "shortens np np'"
  shows "chained (net(b \<mapsto> np')) a q"
proof -
  obtain r where r: "path_metric q \<le> 9000 * unat (bp_hops q)" "distinct (a # r)" "length r = unat (bp_hops q)" "bp_points_to q = hd (r @ [a])"
    "\<forall>c \<in> set r. \<exists>nc. net c = Some nc \<and> np_has_sent_node_info nc \<and> path_metric (own_path nc) < path_metric q"
    using assms(1) unfolding chained_def by blast
  have "\<forall>c \<in> set r. \<exists>nc. (net(b \<mapsto> np')) c = Some nc \<and> np_has_sent_node_info nc \<and> path_metric (own_path nc) < path_metric q"
    using r(5) assms(2,3) unfolding shortens_def by (auto intro: le_less_trans)
  with r(1-4) show ?thesis unfolding chained_def by blast
qed

lemma backed_mono: "backed net a q \<Longrightarrow> net b = Some np \<Longrightarrow> shortens np np' \<Longrightarrow> backed (net(b \<mapsto> np')) a q"
  by (simp add: backed_def chained_mono)

lemma backed_all_mono:
  assumes "list_all (backed net a) qs" and "net b = Some np" and "shortens np np'"
  shows "list_all (backed (net(b \<mapsto> np')) a) qs"
  using assms(1) backed_mono [where net = net, OF _ assms(2,3)] by (simp add: list_all_iff)

definition place_distance :: "node_properties \<Rightarrow> node_properties \<Rightarrow> u16" where
  "place_distance na nb = coordinate_distance (np_coordinate_node na) (np_coordinate_node nb)"

text \<open>What a node has heard of a neighbor, and will hear, in order.\<close>

definition heard :: "neighbor_node \<Rightarrow> bytes list \<Rightarrow> neighbor_node_best_path list" where
  "heard n ds = (if silent n then [] else [nn_bp n]) @ map path_in ds"

definition announcement_of :: "node_properties \<Rightarrow> bytes \<Rightarrow> bool" where
  "announcement_of na d \<longleftrightarrow> (\<exists>q. d = path_packet q \<or> d = info_packet (np_coordinate_node na) q)"

lemma announcement_cong: "np_coordinate_node np' = np_coordinate_node np \<Longrightarrow> announcement_of np' = announcement_of np"
  by (simp add: announcement_of_def fun_eq_iff)

definition link_ok :: "network \<Rightarrow> rimeaddr \<Rightarrow> bytes list \<Rightarrow> node_properties \<Rightarrow> neighbor_node \<Rightarrow> bool" where
  "link_ok net a ds nb n \<longleftrightarrow> (case net a of
       Some na \<Rightarrow>
         if np_has_sent_node_info na
         then list_all (announcement_of na) ds \<and>
           (silent n \<longrightarrow> ds \<noteq> [] \<and> (\<exists>q. hd ds = info_packet (np_coordinate_node na) q)) \<and>
           (\<not> silent n \<longrightarrow> nn_distance n = uint16_to_uint8 (place_distance na nb)) \<and>
           list_all (backed net a) (heard n ds) \<and>
           sorted_wrt (\<lambda>p q. path_metric q \<le> path_metric p) (heard n ds) \<and>
           last (heard n ds) = own_path na
         else ds = [] \<and> silent n
     | None \<Rightarrow> ds = [] \<and> silent n)"

lemma link_okD:
  assumes "link_ok net a ds nb n" and "net a = Some na" and "np_has_sent_node_info na"
  shows "list_all (announcement_of na) ds" "silent n \<Longrightarrow> ds \<noteq> [] \<and> (\<exists>q. hd ds = info_packet (np_coordinate_node na) q)"
    "\<not> silent n \<Longrightarrow> nn_distance n = uint16_to_uint8 (place_distance na nb)" "list_all (backed net a) (heard n ds)"
    "sorted_wrt (\<lambda>p q. path_metric q \<le> path_metric p) (heard n ds)" "last (heard n ds) = own_path na" "heard n ds \<noteq> []"
  using assms by (auto simp: link_ok_def heard_def)

lemma link_ok_sent:
  assumes "link_ok net a ds nb n" and "ds \<noteq> [] \<or> \<not> silent n"
  obtains na where "net a = Some na" and "np_has_sent_node_info na"
  using assms by (auto simp: link_ok_def split: option.splits if_splits)

lemma link_ok_place: "np_coordinate_node nb' = np_coordinate_node nb \<Longrightarrow> link_ok net a ds nb' n = link_ok net a ds nb n"
  by (simp add: link_ok_def place_distance_def cong: option.case_cong)

lemma link_ok_silent:
  assumes "link_ok net a ds nb n" and "net b = Some np" and "shortens np np'" and "a \<noteq> b"
  shows "link_ok (net(b \<mapsto> np')) a ds nb n"
proof (cases "net a")
  case (Some na)
  with assms(1,4) backed_all_mono [where net = net, OF _ assms(2,3)] show ?thesis by (auto simp: link_ok_def split: if_splits)
qed (use assms(1,4) in \<open>simp add: link_ok_def\<close>)

text \<open>The sender of a link announces something new, or nothing.\<close>

definition speaks :: "(neighbor_node_best_path \<Rightarrow> bool) \<Rightarrow> node_properties \<Rightarrow> node_properties \<Rightarrow> bytes list \<Rightarrow> bool" where
  "speaks P np np' ms \<longleftrightarrow> np_coordinate_node np' = np_coordinate_node np \<and> shortens np np' \<and>
     (ms = [] \<and> np_has_sent_node_info np' = np_has_sent_node_info np \<and> (np_has_sent_node_info np \<longrightarrow> own_path np' = own_path np) \<or>
      (\<exists>d. ms = [d] \<and> np_has_sent_node_info np' \<and> path_in d = own_path np' \<and> announcement_of np' d \<and>
        (\<not> np_has_sent_node_info np \<longrightarrow> d = info_packet (np_coordinate_node np') (own_path np')) \<and> P (own_path np')))"

lemma link_ok_speaks:
  assumes "link_ok net b ds nb n" and "net b = Some np" and "speaks (backed (net(b \<mapsto> np')) b) np np' ms"
  shows "link_ok (net(b \<mapsto> np')) b (ds @ ms) nb n"
proof (cases "ms = []")
  case True
  with assms(3) have s: "shortens np np'" "np_has_sent_node_info np' = np_has_sent_node_info np" "np_has_sent_node_info np \<Longrightarrow> own_path np' = own_path np"
    "np_coordinate_node np' = np_coordinate_node np" by (auto simp: speaks_def)
  note a = announcement_cong [OF s(4)]
  with True assms(1,2) s backed_all_mono [where net = net, OF _ assms(2) s(1)] show ?thesis by (auto simp: link_ok_def place_distance_def split: if_splits)
next
  case False
  with assms(3) obtain d where d: "ms = [d]" "np_has_sent_node_info np'" "path_in d = own_path np'" "announcement_of np' d"
    "\<not> np_has_sent_node_info np \<Longrightarrow> d = info_packet (np_coordinate_node np') (own_path np')" "backed (net(b \<mapsto> np')) b (own_path np')"
    "np_coordinate_node np' = np_coordinate_node np" "shortens np np'" by (auto simp: speaks_def)
  show ?thesis
  proof (cases "np_has_sent_node_info np")
    case True
    note l = link_okD [OF assms(1,2) True]
    have h: "heard n (ds @ [d]) = heard n ds @ [own_path np']" by (simp add: heard_def d(3))
    have "path_metric (own_path np') \<le> path_metric q" if "q \<in> set (heard n ds)" for q
    proof -
      have "path_metric (own_path np) \<le> path_metric q"
        using l(5-7) that by (cases "heard n ds" rule: rev_cases) (auto simp: sorted_wrt_append)
      moreover have "path_metric (own_path np') \<le> path_metric (own_path np)" using d(8) True by (simp add: shortens_def)
      ultimately show ?thesis by simp
    qed
    moreover have "list_all (backed (net(b \<mapsto> np')) b) (heard n ds)"
      using backed_all_mono [where net = net, OF l(4) assms(2) d(8)] .
    moreover have "list_all (announcement_of np') ds" using l(1) announcement_cong [OF d(7)] by simp
    ultimately show ?thesis using l d by (auto simp: link_ok_def h sorted_wrt_append place_distance_def)
  next
    case False
    then have "ds = []" "silent n" using assms(1,2) by (simp_all add: link_ok_def)
    with d False show ?thesis by (auto simp: link_ok_def heard_def)
  qed
qed

text \<open>The receiver of a link hears the oldest announcement.\<close>

definition hears_as :: "node_properties \<Rightarrow> neighbor_node \<Rightarrow> bytes \<Rightarrow> neighbor_node \<Rightarrow> bool" where
  "hears_as nb n d x \<longleftrightarrow> nn_addr x = nn_addr n \<and> nn_bp x = path_in d \<and>
     (nn_distance x = nn_distance n \<and> length d = 6 \<or>
      (\<exists>co q. d = info_packet co q \<and> nn_distance x = uint16_to_uint8 (coordinate_distance co (np_coordinate_node nb))))"

lemma link_ok_hears:
  assumes "link_ok net a (d # ds) nb n" and "hears_as nb n d x"
  obtains na where "net a = Some na" and "np_has_sent_node_info na" and "link_ok net a ds nb x" and "backed net a (nn_bp x)"
    and "nn_distance x = uint16_to_uint8 (place_distance na nb)" and "path_metric (own_path na) \<le> path_metric (nn_bp x)"
    and "\<not> silent n \<Longrightarrow> path_metric (nn_bp x) \<le> path_metric (nn_bp n) \<and> nn_distance x = nn_distance n"
proof -
  obtain na where na: "net a = Some na" "np_has_sent_node_info na" using link_ok_sent [OF assms(1)] by blast
  note l = link_okD [OF assms(1) na]
  have x: "nn_bp x = path_in d" using assms(2) by (simp add: hears_as_def)
  have b: "backed net a (nn_bp x)" using l(4) x by (simp add: heard_def)
  have loud: "\<not> silent x" unfolding silent_def neighbor_node_metric_def by (rule short_pathD(4) [OF backedD [OF b]])
  have h: "heard x ds = nn_bp x # map path_in ds" using loud by (simp add: heard_def)
  have hn: "heard n (d # ds) = (if silent n then [] else [nn_bp n]) @ heard x ds" by (simp add: heard_def x loud)
  have dist: "nn_distance x = uint16_to_uint8 (place_distance na nb)"
  proof (cases "length d = 6")
    case True
    then have "\<not> silent n" using l(2) by (auto simp: length_packets)
    with True assms(2) l(3) show ?thesis by (auto simp: hears_as_def length_packets)
  next
    case False
    with assms(2) obtain co q where i: "d = info_packet co q"
      "nn_distance x = uint16_to_uint8 (coordinate_distance co (np_coordinate_node nb))" by (auto simp: hears_as_def)
    from l(1) obtain q' where "d = path_packet q' \<or> d = info_packet (np_coordinate_node na) q'" by (auto simp: announcement_of_def)
    then have "d = info_packet (np_coordinate_node na) q'" using False by (auto simp: length_packets)
    with i(1) have "co = np_coordinate_node na"
      by (cases co, cases "np_coordinate_node na") (auto simp: info_packet_def coordinate_bytes_def prod_eq_iff)
    with i(2) show ?thesis by (simp add: place_distance_def)
  qed
  have "path_metric (own_path na) \<le> path_metric (nn_bp x)"
  proof -
    have "sorted_wrt (\<lambda>p q. path_metric q \<le> path_metric p) (nn_bp x # map path_in ds)" "last (nn_bp x # map path_in ds) = own_path na"
      using l(5,6) by (simp_all add: hn h sorted_wrt_append)
    then show ?thesis using last_in_set [of "map path_in ds"] by (auto split: if_splits)
  qed
  moreover have "link_ok net a ds nb x"
    using na l loud dist by (simp add: link_ok_def hn h sorted_wrt_append)
  moreover have "\<not> silent n \<Longrightarrow> path_metric (nn_bp x) \<le> path_metric (nn_bp n) \<and> nn_distance x = nn_distance n"
    using l(3,5) dist by (simp add: hn h)
  ultimately show thesis using that na b dist by blast
qed

subsection \<open>The invariant of the network\<close>

text \<open>
  The nodes stand in their places. Neighbors know each other, and are apart, but not farther than 9000.
\<close>

definition in_place :: "network \<Rightarrow> bool" where
  "in_place net \<longleftrightarrow> (\<forall>a np. net a = Some np \<longrightarrow> standing a np) \<and>
     (\<forall>a na b nb. net a = Some na \<longrightarrow> net b = Some nb \<longrightarrow> a \<in> set (neighbor_addrs (ec_ns nb)) \<longrightarrow>
        b \<in> set (neighbor_addrs (ec_ns na)) \<and> 0 < place_distance na nb \<and> place_distance na nb \<le> 9000)"

lemma in_placeD:
  assumes "in_place net"
  shows "net a = Some np \<Longrightarrow> standing a np"
    and "net a = Some na \<Longrightarrow> net b = Some nb \<Longrightarrow> a \<in> set (neighbor_addrs (ec_ns nb)) \<Longrightarrow>
      b \<in> set (neighbor_addrs (ec_ns na)) \<and> 0 < place_distance na nb \<and> place_distance na nb \<le> 9000"
  using assms unfolding in_place_def by blast+

lemma not_own_neighbor: "in_place net \<Longrightarrow> net a = Some np \<Longrightarrow> a \<notin> set (neighbor_addrs (ec_ns np))"
  using in_placeD(2) [of net a np a np] by (auto simp: place_distance_def coordinate_distance_self)

lemma in_place_update:
  assumes "in_place net" and "net b = Some np" and "standing b np'" and "neighbor_addrs (ec_ns np') = neighbor_addrs (ec_ns np)"
    and "np_coordinate_node np' = np_coordinate_node np"
  shows "in_place (net(b \<mapsto> np'))"
proof -
  have p: "place_distance na np' = place_distance na np" "place_distance np' na = place_distance np na" for na
    using assms(5) by (simp_all add: place_distance_def)
  have pp: "place_distance np' np' = place_distance np np" using assms(5) by (simp add: place_distance_def)
  show ?thesis
    using assms(1-4) in_placeD(2) [OF assms(1)] p pp not_own_neighbor [OF assms(1,2)] unfolding in_place_def
    by (auto split: if_splits)
qed

definition node_ok :: "radio_network \<Rightarrow> rimeaddr \<Rightarrow> node_properties \<Rightarrow> bool" where
  "node_ok s a np \<longleftrightarrow> has_chosen np \<and> (np_has_sent_node_info np \<longrightarrow> backed (net_nodes s) a (own_path np)) \<and>
     (\<forall>n \<in> set (items (ec_ns np)). link_ok (net_nodes s) (nn_addr n) (net_air s (nn_addr n) a) np n)"

definition spreading :: "radio_network \<Rightarrow> bool" where
  "spreading s \<longleftrightarrow> in_place (net_nodes s) \<and> (\<forall>a np. net_nodes s a = Some np \<longrightarrow> node_ok s a np)"

lemma spreadingD:
  assumes "spreading s" and "net_nodes s a = Some np"
  shows "standing a np" "has_chosen np" "np_has_sent_node_info np \<Longrightarrow> backed (net_nodes s) a (own_path np)"
    "n \<in> set (items (ec_ns np)) \<Longrightarrow> link_ok (net_nodes s) (nn_addr n) (net_air s (nn_addr n) a) np n"
proof -
  have "in_place (net_nodes s)" "node_ok s a np" using assms unfolding spreading_def by blast+
  then show "standing a np" "has_chosen np" "np_has_sent_node_info np \<Longrightarrow> backed (net_nodes s) a (own_path np)"
    "n \<in> set (items (ec_ns np)) \<Longrightarrow> link_ok (net_nodes s) (nn_addr n) (net_air s (nn_addr n) a) np n"
    using in_placeD(1) assms(2) unfolding node_ok_def by blast+
qed

text \<open>One node moves on: what its table says must be right for the links that lead to it.\<close>

lemma spreading_update:
  assumes inv: "spreading s" and np: "net_nodes s b = Some np" and st: "standing b np'" and ch: "has_chosen np'"
    and addrs: "neighbor_addrs (ec_ns np') = neighbor_addrs (ec_ns np)"
    and ms: "speaks (backed ((net_nodes s)(b \<mapsto> np')) b) np np' ms"
    and table: "\<And>n. n \<in> set (items (ec_ns np')) \<Longrightarrow> link_ok (net_nodes s) (nn_addr n) (air (nn_addr n) b) np n"
    and air: "\<And>x y. y \<noteq> b \<Longrightarrow> air x y = net_air s x y"
    and s': "net_nodes s' = (net_nodes s)(b \<mapsto> np')"
      "\<And>x y. net_air s' x y = (if x = b \<and> y \<in> set (neighbor_addrs (ec_ns np)) then air x y @ ms else air x y)"
  shows "spreading s'"
proof -
  have place: "in_place (net_nodes s)" using inv by (simp add: spreading_def)
  have co: "np_coordinate_node np' = np_coordinate_node np" and sh: "shortens np np'" using ms by (simp_all add: speaks_def)
  have "node_ok s' y ny" if y: "net_nodes s' y = Some ny" for y ny
  proof (cases "y = b")
    case True
    then have ny: "ny = np'" using y s'(1) by simp
    have "backed (net_nodes s') b (own_path np')" if "np_has_sent_node_info np'"
      using that ms spreadingD(3) [OF inv np] backed_mono [where net = "net_nodes s", OF _ np sh, of b "own_path np"] by (auto simp: speaks_def s'(1))
    moreover have "link_ok (net_nodes s') (nn_addr n) (net_air s' (nn_addr n) b) np' n" if n: "n \<in> set (items (ec_ns np'))" for n
    proof -
      have "nn_addr n \<in> set (neighbor_addrs (ec_ns np'))" using n by (simp add: neighbor_addrs_def)
      then have "nn_addr n \<noteq> b" using not_own_neighbor [OF place np] addrs by auto
      with link_ok_silent [OF table [OF n] np sh] link_ok_place [OF co] show ?thesis by (simp add: s')
    qed
    ultimately show ?thesis using ch True ny by (simp add: node_ok_def)
  next
    case False
    then have ny: "net_nodes s y = Some ny" using y s'(1) by simp
    have "link_ok (net_nodes s') (nn_addr n) (net_air s' (nn_addr n) y) ny n" if n: "n \<in> set (items (ec_ns ny))" for n
    proof (cases "nn_addr n = b")
      case True
      have "b \<in> set (neighbor_addrs (ec_ns ny))" using n True by (auto simp: neighbor_addrs_def)
      then have "y \<in> set (neighbor_addrs (ec_ns np))" using in_placeD(2) [OF place np ny] by simp
      with link_ok_speaks [where net = "net_nodes s", OF _ np ms, of "net_air s b y" ny n] spreadingD(4) [OF inv ny n] True False show ?thesis
        by (simp add: s' air)
    next
      case oth: False
      with link_ok_silent [OF spreadingD(4) [OF inv ny n] np sh] False show ?thesis by (simp add: s' air)
    qed
    with spreadingD(2,3) [OF inv ny] backed_mono [where net = "net_nodes s", OF _ np sh, of y "own_path ny"] show ?thesis
      by (simp add: node_ok_def s'(1))
  qed
  with in_place_update [OF place np st addrs co] show ?thesis unfolding spreading_def s'(1) by blast
qed

end
