(* ===== verification/Network_Steps.thy ===== *)
theory Network_Steps
  imports Network_Laws
begin

text \<open>
  Every step keeps the invariant of the network, and no announcement stops a node that hears it.
\<close>

subsection \<open>What is heard\<close>

lemma entry_of_sender:
  assumes st: "standing b np" and nb: "a \<in> set (neighbor_addrs (ec_ns np))"
  obtains i n where "neighbors_find_neighbor_node (ec_ns np) a = Inr (Some i)" and "(i, n) \<in> set (entries (ec_ns np))"
    and "nn_addr n = a" and "\<And>k y. (k, y) \<in> set (entries (ec_ns np)) \<Longrightarrow> nn_addr y = a \<Longrightarrow> k = i \<and> y = n"
proof -
  let ?es = "entries (ec_ns np)"
  obtain e where "e \<in> set ?es" "nn_addr (snd e) = a" using nb by (auto simp: neighbor_addrs_def items_def)
  then have "List.find (\<lambda>e. nn_addr (snd e) = a) ?es \<noteq> None" unfolding find_None by blast
  then obtain i n where f: "List.find (\<lambda>e. nn_addr (snd e) = a) ?es = Some (i, n)" by auto
  have n: "(i, n) \<in> set ?es" "nn_addr n = a" using find_Some_in [OF f] by simp_all
  have "distinct (map (\<lambda>e. nn_addr (snd e)) ?es)" using standingD(5) [OF st] by (simp add: neighbor_addrs_def items_def comp_def)
  then have u: "e = (i, n)" if "e \<in> set ?es" "nn_addr (snd e) = a" for e
    using that n inj_onD [of "\<lambda>e. nn_addr (snd e)" "set ?es" e "(i, n)"] by (simp add: distinct_map)
  have "neighbors_find_neighbor_node (ec_ns np) a = Inr (Some i)"
    using neighbors_find_eq [OF node_invD(4) [OF standingD(1) [OF st]], of a] f by simp
  moreover have "k = i \<and> y = n" if "(k, y) \<in> set ?es" "nn_addr y = a" for k y using u [of "(k, y)"] that by simp
  ultimately show thesis using that n by blast
qed

lemma entry_length:
  assumes "nn_distance x = uint16_to_uint8 (place_distance na nb)" and "place_distance na nb \<le> 9000" and "short_path (nn_bp x)"
  shows "unat (path_length x) = path_metric (nn_bp x) + unat (place_distance na nb)" and "path_length x < METRIC_T_MAX"
proof -
  have d: "unat (place_distance na nb) \<le> 9000" using assms(2) by (simp add: word_le_nat_alt)
  have "unat (path_length x) = (unat (place_distance na nb) + path_metric (nn_bp x)) mod 65536"
    by (simp add: path_length_def neighbor_node_distance_def assms(1) neighbor_node_metric_def path_metric_def unat_word_ariths)
  with d short_pathD(3) [OF assms(3)] show u: "unat (path_length x) = path_metric (nn_bp x) + unat (place_distance na nb)" by simp
  then show "path_length x < METRIC_T_MAX" using d short_pathD(3) [OF assms(3)] by (simp add: word_less_nat_alt METRIC_T_MAX_def)
qed

text \<open>A path that leads back to the node that hears it is longer than its own.\<close>

lemma chained_back:
  assumes "chained net a q" and "bp_points_to q = b" and "a \<noteq> b" and "net b = Some np"
  shows "np_has_sent_node_info np \<and> path_metric (own_path np) < path_metric q"
proof -
  obtain r where r: "bp_points_to q = hd (r @ [a])"
    "\<forall>c \<in> set r. \<exists>nc. net c = Some nc \<and> np_has_sent_node_info nc \<and> path_metric (own_path nc) < path_metric q"
    using assms(1) unfolding chained_def by blast
  with assms(2,3) have "b \<in> set r" by (cases r) auto
  with r(2) assms(4) show ?thesis by auto
qed

lemma news_usable:
  assumes "backed net a (nn_bp x)" and "a \<noteq> b" and "net b = Some np"
    and "np_has_sent_node_info np \<Longrightarrow> path_metric (nn_bp x) \<le> path_metric (own_path np)"
  shows "usable b x"
proof -
  have "short_path (nn_bp x)" "chained net a (nn_bp x)" using assms(1) by (simp_all add: backed_def)
  with short_pathD(1,4) chained_back [of net a "nn_bp x" b np] assms(2-4) show ?thesis
    by (fastforce simp: usable_def neighbor_node_metric_def neighbor_node_hops_def)
qed

text \<open>The path through a neighbor, when its own path was heard.\<close>

lemma chained_via:
  assumes q: "backed net a (nn_bp x)" and x: "nn_addr x = a" "nn_distance x = uint16_to_uint8 (place_distance na nb)"
    and d: "0 < place_distance na nb" "place_distance na nb \<le> 9000"
    and na: "net a = Some na" "np_has_sent_node_info na" "path_metric (own_path na) \<le> path_metric (nn_bp x)"
    and b: "a \<noteq> b" "net b = Some np" "np_has_sent_node_info np \<Longrightarrow> path_metric (nn_bp x) \<le> path_metric (own_path np)"
  shows "chained (net(b \<mapsto> np')) b (via x)"
proof -
  have s: "short_path (nn_bp x)" using q by (simp add: backed_def)
  obtain r where r: "distinct (a # r)" "length r = unat (bp_hops (nn_bp x))"
    "\<forall>c \<in> set r. \<exists>nc. net c = Some nc \<and> np_has_sent_node_info nc \<and> path_metric (own_path nc) < path_metric (nn_bp x)"
    using q unfolding backed_def chained_def by blast
  have d': "0 < unat (place_distance na nb)" "unat (place_distance na nb) \<le> 9000"
    using d by (simp_all add: word_le_nat_alt unat_gt_0 word_neq_0_conv)
  have m: "path_metric (via x) = path_metric (nn_bp x) + unat (place_distance na nb)"
    using entry_length(1) [OF x(2) d(2) s] by (simp add: via_metric)
  have h: "unat (bp_hops (via x)) = Suc (unat (bp_hops (nn_bp x)))"
    using short_pathD(2) [OF s] by (simp add: via_def neighbor_node_hops_def unat_word_ariths)
  have "b \<notin> set r"
  proof
    assume "b \<in> set r"
    with r(3) b(2) have "np_has_sent_node_info np" "path_metric (own_path np) < path_metric (nn_bp x)" by auto
    with b(3) show False by simp
  qed
  then have "distinct (b # a # r)" using r(1) b(1) by auto
  moreover have "\<exists>nc. (net(b \<mapsto> np')) c = Some nc \<and> np_has_sent_node_info nc \<and> path_metric (own_path nc) < path_metric (via x)"
    if "c \<in> set (a # r)" for c
    using that r(3) na m d'(1) \<open>b \<notin> set r\<close> b(1) by fastforce
  moreover have "path_metric (via x) \<le> 9000 * unat (bp_hops (via x))" using m h d'(2) s by (simp add: short_path_def)
  ultimately show ?thesis unfolding chained_def
    by (intro conjI exI [of _ "a # r"]) (use r(2) h x(1) in \<open>simp_all add: via_def\<close>)
qed

lemma chained_exit:
  assumes "standing b np'" and "np_is_exit_node np'" and "np_bpn np' = Some Exit_Node"
  shows "chained net b (own_path np')" and "bp_hops (own_path np') = 0" and "path_metric (own_path np') = 0"
  using own_path_exit(2) [OF assms] standingD(2) [OF assms(1)]
  by (simp_all add: chained_def exit_path_def path_metric_def zero_metric)

subsection \<open>A node that hears an announcement\<close>

text \<open>What a node may do in one turn; \<open>air\<close> is what is on the way when it has taken its message.\<close>

definition moves :: "radio_network \<Rightarrow> rimeaddr \<Rightarrow> node_properties \<Rightarrow> node_properties
    \<Rightarrow> (rimeaddr \<Rightarrow> rimeaddr \<Rightarrow> bytes list) \<Rightarrow> bool" where
  "moves s b np np' air \<longleftrightarrow> standing b np' \<and> has_chosen np' \<and> np_is_exit_node np' = np_is_exit_node np \<and>
     neighbor_addrs (ec_ns np') = neighbor_addrs (ec_ns np) \<and> speaks (chained ((net_nodes s)(b \<mapsto> np')) b) np np' (announced np np') \<and>
     (\<forall>n \<in> set (items (ec_ns np')). link_ok (net_nodes s) (nn_addr n) (air (nn_addr n) b) np n)"

lemma moves_spreading:
  assumes inv: "spreading s" and np: "net_nodes s b = Some np" and m: "moves s b np np' air"
    and few: "np_has_sent_node_info np' \<Longrightarrow> bp_hops (own_path np') < 7"
    and air: "\<And>x y. y \<noteq> b \<Longrightarrow> air x y = net_air s x y"
  shows "spreading (told (s\<lparr>net_air := air\<rparr>) b np np')"
proof -
  have "speaks (backed ((net_nodes s)(b \<mapsto> np')) b) np np' (announced np np')"
    using m few by (auto simp: moves_def speaks_def backed_iff)
  with m show ?thesis
    by (intro spreading_update [OF inv np _ _ _ _ _ air, where np' = np' and ms = "announced np np'"])
       (auto simp: moves_def told_def)
qed

lemma with_entry_addrs:
  assumes "(i, n) \<in> set (entries q)" and "distinct (map fst (entries q))" and "nn_addr x = nn_addr n"
    and "entries q' = with_entry i x (entries q)"
  shows "neighbor_addrs q' = neighbor_addrs q"
proof -
  have "nn_addr (snd (if fst e = i then (i, x) else e)) = nn_addr (snd e)" if "e \<in> set (entries q)" for e
    using that assms(1-3) eq_key_imp_eq_value [of "entries q" i n "snd e"] by (cases e) auto
  then show ?thesis by (simp add: neighbor_addrs_def items_def assms(4) with_entry_def)
qed

text \<open>The table after the news of neighbor \<open>a\<close>.\<close>

lemma table_after:
  assumes inv: "spreading s" and np: "net_nodes s b = Some np" and air: "net_air s a b = d # ds"
    and n: "(i, n) \<in> set (entries (ec_ns np))" "nn_addr n = a"
    and only: "\<And>k y. (k, y) \<in> set (entries (ec_ns np)) \<Longrightarrow> nn_addr y = a \<Longrightarrow> k = i \<and> y = n"
    and x: "link_ok (net_nodes s) a ds np x" "nn_addr x = a"
    and e: "entries (ec_ns np') = with_entry i x (entries (ec_ns np))" and m: "m \<in> set (items (ec_ns np'))"
  shows "link_ok (net_nodes s) (nn_addr m) (((net_air s)(a := (net_air s a)(b := ds))) (nn_addr m) b) np m"
proof -
  obtain k where k: "(k, m) \<in> set (entries (ec_ns np'))" using m item_entry by metis
  show ?thesis
  proof (cases "k = i")
    case True
    then have "m = x" using k e with_entry_set [OF n(1)] by auto
    with x show ?thesis by simp
  next
    case False
    then have km: "(k, m) \<in> set (entries (ec_ns np))" using k e with_entry_set [OF n(1)] by auto
    with only False have "nn_addr m \<noteq> a" by blast
    moreover have "m \<in> set (items (ec_ns np))" using km item_entry by metis
    ultimately show ?thesis using spreadingD(4) [OF inv np] by simp
  qed
qed

text \<open>The first news of all: the node starts, too.\<close>

lemma first_news:
  assumes inv: "spreading s" and np: "net_nodes s b = Some np" "\<not> np_has_sent_node_info np"
    and n: "(i, n) \<in> set (entries (ec_ns np))" and x: "usable b x" "path_length x < METRIC_T_MAX"
    and st: "standing b np'" and place: "same_place (np\<lparr>np_has_sent_node_info := True\<rparr>) np'"
    and e: "entries (ec_ns np') = with_entry i x (entries (ec_ns np))" and bpn: "np_bpn np' = Some (best_of np')"
  shows "has_chosen np' \<and> (if np_is_exit_node np' then np_bpn np' = Some Exit_Node else own_path np' = via x)"
proof (cases "np_is_exit_node np'")
  case True
  then have "best_of np' = Exit_Node" by (simp add: best_of_def)
  with True bpn place show ?thesis by (simp add: has_chosen_def same_place_def)
next
  case False
  note d = standingD(11) [OF spreadingD(1) [OF inv np(1)]]
  have quiet: "\<not> usable b y" if "(k, y) \<in> set (entries (ec_ns np))" for k y
  proof -
    have "y \<in> set (items (ec_ns np))" using that item_entry by metis
    then have "silent y" using spreadingD(2) [OF inv np(1)] np(2) by (simp add: has_chosen_def)
    then show ?thesis by (simp add: silent_def usable_def)
  qed
  obtain us vs where u: "entries (ec_ns np) = us @ (i, n) # vs" using n by (auto simp: in_set_conv_decomp)
  then have w: "entries (ec_ns np') = us @ (i, x) # vs" using e d with_entry_split [of us i n vs x] by simp
  have "first_best b (entries (ec_ns np')) i x"
    unfolding w by (rule first_bestI) (use x quiet u in fastforce)+
  then have b: "best_of np' = Table_Node i" using best_of_iff [OF False] standingD(2) [OF st] by auto
  moreover have "(i, x) \<in> set (entries (ec_ns np'))" by (simp add: w)
  ultimately show ?thesis
    using own_path_via(2) [OF st] bpn place False by (auto simp: has_chosen_def same_place_def)
qed

text \<open>News of the neighbor that a node has chosen only make it better.\<close>

lemma better_news:
  assumes inv: "spreading s" and np: "net_nodes s b = Some np" "np_has_sent_node_info np"
    and n: "(i, n) \<in> set (entries (ec_ns np))" "best_of np = Table_Node i" "a \<noteq> b"
    and l: "link_ok (net_nodes s) a ds np n" "net_nodes s a = Some na" "place_distance na np \<le> 9000"
    and x: "backed (net_nodes s) a (nn_bp x)" "nn_distance x = uint16_to_uint8 (place_distance na np)"
    and less: "\<not> silent n \<Longrightarrow> path_metric (nn_bp x) \<le> path_metric (nn_bp n) \<and> nn_distance x = nn_distance n"
  shows "usable b x \<and> path_length x \<le> path_length n"
proof -
  note st = spreadingD(1) [OF inv np(1)]
  have ch: "np_bpn np = Some (Table_Node i)" using spreadingD(2) [OF inv np(1)] np(2) n(2) by (simp add: has_chosen_def)
  have own: "own_path np = via n" using own_path_via(2) [OF st ch n(1)] .
  have "usable b n"
    using best_of_table [OF n(2)] eq_key_imp_eq_value [OF standingD(11) [OF st] n(1)] standingD(2) [OF st] by metis
  then have loud: "\<not> silent n" by (simp add: usable_def silent_def)
  obtain nc where "net_nodes s a = Some nc" "np_has_sent_node_info nc" using link_ok_sent [OF l(1)] loud by blast
  then have "list_all (backed (net_nodes s) a) (heard n ds)" using link_okD(4) [OF l(1)] by simp
  then have sn: "short_path (nn_bp n)" using loud by (simp add: heard_def backed_def)
  have sx: "short_path (nn_bp x)" using x(1) by (simp add: backed_def)
  have un: "unat (path_length n) = path_metric (nn_bp n) + unat (place_distance na np)"
    using entry_length(1) [OF _ l(3) sn] x(2) less loud by simp
  have ux: "unat (path_length x) = path_metric (nn_bp x) + unat (place_distance na np)" using entry_length(1) [OF x(2) l(3) sx] .
  have "path_metric (nn_bp x) \<le> path_metric (own_path np)" using own un less loud by (simp add: via_metric)
  then have "usable b x" using news_usable [OF x(1) n(3) np(1)] by blast
  with un ux less loud show ?thesis by (simp add: word_le_nat_alt)
qed

text \<open>A node takes the news \<open>x\<close> of its neighbor in slot \<open>i\<close>.\<close>

definition takes_news :: "nat \<Rightarrow> neighbor_node \<Rightarrow> node_properties \<Rightarrow> node_properties \<Rightarrow> bool" where
  "takes_news i x np np' \<longleftrightarrow> node_inv np' \<and> entries (ec_ns np') = with_entry i x (entries (ec_ns np)) \<and>
     (if \<not> np_has_sent_node_info np
      then same_place (np\<lparr>np_has_sent_node_info := True\<rparr>) np' \<and> np_bpn np' = Some (best_of np') \<and>
        announced np np' = [info_packet (np_coordinate_node np) (own_path np')]
      else same_place np np' \<and> (np_is_exit_node np \<and> np_bpn np' = np_bpn np \<and> announced np np' = [] \<or> replies i np np'))"

lemma news_heard:
  assumes st: "standing b np" and ch: "has_chosen np" and room: "0 < pb_free_cells (ec_sq np)"
    and n: "neighbors_find_neighbor_node (ec_ns np) a = Inr (Some i)" "(i, n) \<in> set (entries (ec_ns np))"
    and d: "announcement_of na d" and fresh: "\<not> np_has_sent_node_info np \<Longrightarrow> \<exists>q. d = info_packet (np_coordinate_node na) q"
  shows "returns (ec_neighbors_recv np o' a h k (d @ rest) l) (\<lambda>np'. \<exists>x. hears_as np n d x \<and> takes_news i x np np')"
proof -
  have old: "in_table p np" if "np_bpn np = Some p" for p
    using that ch best_in_table [of np] by (auto simp: has_chosen_def split: if_splits)
  note runs = standingD(1) [OF st] room standingD(3) [OF st] n old standingD(7,6) [OF st]
  show ?thesis
  proof (cases "\<exists>q. d = info_packet (np_coordinate_node na) q")
    case True
    then obtain q where q: "d = info_packet (np_coordinate_node na) q" ..
    then have "hears_as np n d (informed_entry np (np_coordinate_node na) q n)"
      by (auto simp: hears_as_def informed_entry_def path_in_packet)
    then show ?thesis unfolding q
      by (intro returns_mono [OF info_packet_runs [OF runs]] exI conjI)
         (auto simp: takes_news_def split: if_splits)
  next
    case False
    with d obtain q where q: "d = path_packet q" by (auto simp: announcement_of_def)
    then have "hears_as np n d (n\<lparr>nn_bp := q\<rparr>)" by (simp add: hears_as_def path_in_packet length_packets)
    with fresh False show ?thesis unfolding q
      by (intro returns_mono [OF path_packet_runs [OF runs]] exI conjI) (auto simp: takes_news_def)
  qed
qed

lemma takes_standing:
  assumes st: "standing b np" and t: "takes_news i x np np'" and n: "(i, n) \<in> set (entries (ec_ns np))" "nn_addr x = nn_addr n"
  shows "standing b np'" and "neighbor_addrs (ec_ns np') = neighbor_addrs (ec_ns np)"
proof -
  show a: "neighbor_addrs (ec_ns np') = neighbor_addrs (ec_ns np)"
    using with_entry_addrs [OF n(1) standingD(11) [OF st] n(2)] t by (simp add: takes_news_def)
  have "standing b (np\<lparr>np_has_sent_node_info := f\<rparr>)" for f
    using st by (simp add: standing_def node_inv_fields is_exit_def)
  moreover have "same_place (if np_has_sent_node_info np then np else np\<lparr>np_has_sent_node_info := True\<rparr>) np'" "node_inv np'"
    using t by (auto simp: takes_news_def)
  ultimately show "standing b np'"
    using standing_place [of b "if np_has_sent_node_info np then np else np\<lparr>np_has_sent_node_info := True\<rparr>" np'] st a
    by (auto split: if_splits)
qed

lemma takes_exit: "takes_news i x np np' \<Longrightarrow> np_is_exit_node np' = np_is_exit_node np"
  by (auto simp: takes_news_def same_place_def split: if_splits)

text \<open>A node that takes news as good as those it has chosen for makes a move.\<close>

lemma news_moves:
  assumes st: "standing b np" "standing b np'" and ch: "has_chosen np" and t: "takes_news i x np np'"
    and n: "(i, n) \<in> set (entries (ec_ns np))"
    and first: "\<not> np_has_sent_node_info np \<Longrightarrow>
      has_chosen np' \<and> (if np_is_exit_node np' then np_bpn np' = Some Exit_Node else own_path np' = via x)"
    and better: "np_has_sent_node_info np \<Longrightarrow> best_of np = Table_Node i \<Longrightarrow> usable b x \<and> path_length x \<le> path_length n"
    and via: "(np_has_sent_node_info np \<Longrightarrow> path_metric (nn_bp x) \<le> path_metric (own_path np)) \<Longrightarrow>
      chained (net(b \<mapsto> np')) b (via x)"
    and longer: "path_metric (nn_bp x) < path_metric (via x)"
  shows "has_chosen np' \<and> speaks (chained (net(b \<mapsto> np')) b) np np' (announced np np') \<and>
    (announced np np' \<noteq> [] \<and> np_has_sent_node_info np \<longrightarrow> path_metric (nn_bp x) < path_metric (own_path np'))"
proof (cases "np_has_sent_node_info np")
  case False
  with t have p: "same_place (np\<lparr>np_has_sent_node_info := True\<rparr>) np'"
    "announced np np' = [info_packet (np_coordinate_node np) (own_path np')]" by (auto simp: takes_news_def)
  have "chained (net(b \<mapsto> np')) b (own_path np')"
    using first [OF False] False via chained_exit(1) [OF st(2)] by (auto split: if_splits)
  with p first [OF False] False show ?thesis
    by (auto simp: speaks_def shortens_def same_place_def path_in_packet announcement_of_def)
next
  case True
  then have p: "same_place np np'" "entries (ec_ns np') = with_entry i x (entries (ec_ns np))" using t by (auto simp: takes_news_def)
  have s: "np_coordinate_node np' = np_coordinate_node np" "np_has_sent_node_info np'" using p(1) True by (simp_all add: same_place_def)
  have c: "has_chosen np' \<and> (announced np np' = [] \<and> own_path np' = own_path np \<or>
    announced np np' = [path_packet (own_path np')] \<and> \<not> np_is_exit_node np \<and> own_path np' = via x \<and> usable b x \<and>
      path_metric (via x) \<le> path_metric (own_path np) \<and> path_length x < METRIC_T_MAX)"
  proof (cases "replies i np np'")
    case r: True
    from replies_choice [OF st p(1) ch True r p(2) n] better [OF True] show ?thesis by blast
  next
    case False
    then have e: "np_is_exit_node np" "np_bpn np' = np_bpn np" "announced np np' = []" using t True by (auto simp: takes_news_def)
    have "np_bpn np = Some Exit_Node" "best_of np' = Exit_Node" "np_is_exit_node np'"
      using e(1) ch True p(1) by (auto simp: has_chosen_def best_of_def same_place_def)
    with e s own_path_exit(2) [OF st(1) e(1)] own_path_exit(2) [OF st(2)] p(1) show ?thesis
      by (simp add: has_chosen_def exit_path_def same_place_def)
  qed
  show ?thesis
  proof (cases "announced np np' = []")
    case True
    with c s show ?thesis by (simp add: speaks_def shortens_def \<open>np_has_sent_node_info np\<close>)
  next
    case False
    with c have v: "announced np np' = [path_packet (own_path np')]" "own_path np' = via x" "path_metric (via x) \<le> path_metric (own_path np)"
      by auto
    then have "chained (net(b \<mapsto> np')) b (via x)" using via longer by simp
    with v c s longer True show ?thesis by (auto simp: speaks_def shortens_def path_in_packet announcement_of_def)
  qed
qed

lemma hears_moves:
  assumes inv: "spreading s" and np: "net_nodes s b = Some np" and air: "net_air s a b = d # ds"
    and nb: "a \<in> set (neighbor_addrs (ec_ns np))" and room: "0 < pb_free_cells (ec_sq np)"
  shows "returns (ec_neighbors_recv np o' a h k (d @ rest) l) (\<lambda>np'. moves s b np np' ((net_air s)(a := (net_air s a)(b := ds))) \<and>
     (announced np np' \<noteq> [] \<and> np_has_sent_node_info np \<longrightarrow> path_metric (path_in d) < path_metric (own_path np')))"
proof -
  note st = spreadingD(1) [OF inv np] and ch = spreadingD(2) [OF inv np]
  have place: "in_place (net_nodes s)" using inv by (simp add: spreading_def)
  obtain i n where n: "neighbors_find_neighbor_node (ec_ns np) a = Inr (Some i)" "(i, n) \<in> set (entries (ec_ns np))" "nn_addr n = a"
    "\<And>k y. (k, y) \<in> set (entries (ec_ns np)) \<Longrightarrow> nn_addr y = a \<Longrightarrow> k = i \<and> y = n" using entry_of_sender [OF st nb] by blast
  have ni: "n \<in> set (items (ec_ns np))" using n(2) item_entry by metis
  from spreadingD(4) [OF inv np this] n(3) air have link: "link_ok (net_nodes s) a (d # ds) np n" by simp
  have ab: "a \<noteq> b" using not_own_neighbor [OF place np] nb by auto
  obtain na where na: "net_nodes s a = Some na" "np_has_sent_node_info na" using link_ok_sent [OF link] by blast
  have dist: "0 < place_distance na np" "place_distance na np \<le> 9000" using in_placeD(2) [OF place na(1) np nb] by simp_all
  have d: "announcement_of na d" "\<not> np_has_sent_node_info np \<Longrightarrow> \<exists>q. d = info_packet (np_coordinate_node na) q"
    using link_okD(1,2) [OF link na] ch ni by (auto simp: has_chosen_def)
  show ?thesis
  proof (rule returns_mono [OF news_heard [OF st ch room n(1,2) d]], assumption, elim exE conjE)
    fix np' x
    assume as: "hears_as np n d x" and t: "takes_news i x np np'"
    from as have xa: "nn_addr x = a" "nn_bp x = path_in d" using n(3) by (simp_all add: hears_as_def)
    obtain na' where "net_nodes s a = Some na'" and x: "link_ok (net_nodes s) a ds np x" "backed (net_nodes s) a (nn_bp x)"
      "nn_distance x = uint16_to_uint8 (place_distance na' np)" "path_metric (own_path na') \<le> path_metric (nn_bp x)"
      "\<not> silent n \<Longrightarrow> path_metric (nn_bp x) \<le> path_metric (nn_bp n) \<and> nn_distance x = nn_distance n"
      using link_ok_hears [OF link as] by metis
    with na have nax: "na' = na" by simp
    note x = x [unfolded nax]
    have len: "unat (path_length x) = path_metric (nn_bp x) + unat (place_distance na np)" "path_length x < METRIC_T_MAX"
      using entry_length [OF x(3) dist(2) backedD [OF x(2)]] .
    have longer: "path_metric (nn_bp x) < path_metric (via x)" using len(1) dist(1) by (simp add: via_metric word_less_nat_alt)
    have st': "standing b np'" and addrs: "neighbor_addrs (ec_ns np') = neighbor_addrs (ec_ns np)"
      using takes_standing [OF st t n(2)] xa(1) n(3) by simp_all
    have e: "entries (ec_ns np') = with_entry i x (entries (ec_ns np))" using t by (simp add: takes_news_def)
    have first: "has_chosen np' \<and> (if np_is_exit_node np' then np_bpn np' = Some Exit_Node else own_path np' = via x)"
      if f: "\<not> np_has_sent_node_info np"
      using first_news [OF inv np f n(2) news_usable [OF x(2) ab np] len(2) st' _ e] f t by (auto simp: takes_news_def)
    have better: "usable b x \<and> path_length x \<le> path_length n" if "np_has_sent_node_info np" "best_of np = Table_Node i"
      using better_news [OF inv np that(1) n(2) that(2) ab link na(1) dist(2) x(2,3,5)] .
    have "has_chosen np' \<and> speaks (chained ((net_nodes s)(b \<mapsto> np')) b) np np' (announced np np') \<and>
        (announced np np' \<noteq> [] \<and> np_has_sent_node_info np \<longrightarrow> path_metric (nn_bp x) < path_metric (own_path np'))"
      by (rule news_moves [OF st st' ch t n(2) first better chained_via [OF x(2) xa(1) x(3) dist na x(4) ab np] longer])
    moreover have "link_ok (net_nodes s) (nn_addr m) (((net_air s)(a := (net_air s a)(b := ds))) (nn_addr m) b) np m"
      if "m \<in> set (items (ec_ns np'))" for m
      using table_after [OF inv np air n(2,3) n(4) x(1) xa(1) e that] .
    ultimately show "moves s b np np' ((net_air s)(a := (net_air s a)(b := ds))) \<and>
        (announced np np' \<noteq> [] \<and> np_has_sent_node_info np \<longrightarrow> path_metric (path_in d) < path_metric (own_path np'))"
      using st' addrs takes_exit [OF t] unfolding moves_def xa(2) by blast
  qed
qed

subsection \<open>Every step\<close>

lemma starts_moves:
  assumes inv: "spreading s" and np: "net_nodes s a = Some np" "np_is_exit_node np" and room: "0 < pb_free_cells (ec_sq np)"
  shows "if np_has_sent_node_info np then \<exists>f. initialize_best_path_packet_handler np = Inl f
    else returns (initialize_best_path_packet_handler np) (\<lambda>np'. moves s a np np' (net_air s) \<and> np_has_sent_node_info np' \<and>
      pb_free_cells (ec_sq np') = pb_free_cells (ec_sq np) - 1)"
proof -
  note st = spreadingD(1) [OF inv np(1)]
  define m where "m = ec_timesynch_on np"
  have m: "node_inv m" "ec_ns_set m" "items (ec_ns m) \<noteq> []" "0 < pb_free_cells (ec_sq m)"
    using timesynch_on_keeps [OF standingD(1) [OF st]] standingD(3,4) [OF st] room by (simp_all add: m_def ec_timesynch_on_def)
  have m': "same_place np m" "entries (ec_ns m) = entries (ec_ns np)" "lane_view m = lane_view np" "\<not> np_is_reset_mode m"
    "np_is_exit_node m" "np_has_sent_node_info m = np_has_sent_node_info np" "np_coordinate_node m = np_coordinate_node np"
    using standingD(7) [OF st] np(2) by (simp_all add: m_def ec_timesynch_on_def same_place_def lane_view_def fun_eq_iff)
  have init: "initialize_best_path_packet_handler np = bindR (assertR (\<not> np_has_sent_node_info m)) (\<lambda>_.
      bindR (update_bpn_and_send_node_info m) (\<lambda>np. Inr (np\<lparr>np_has_sent_node_info := True\<rparr>)))"
    unfolding initialize_best_path_packet_handler_def m_def [symmetric] Let_def using m'(4,5) by simp
  show ?thesis
  proof (cases "np_has_sent_node_info np")
    case True
    then show ?thesis by (simp add: init m'(6) assertR_def)
  next
    case False
    obtain np1 where r: "update_bpn_and_send_node_info m = Inr np1" "node_inv np1" "same_table m np1" "same_place m np1"
      "np_bpn np1 = Some (best_of m)" "announced m np1 = [info_packet (np_coordinate_node m) (own_path np1)]"
      "pb_free_cells (ec_sq np1) = pb_free_cells (ec_sq np) - 1"
      using send_info_runs [OF m(1,4,2,3)] unfolding returns_def by (auto simp: m_def ec_timesynch_on_def)
    let ?np' = "np1\<lparr>np_has_sent_node_info := True\<rparr>"
    have e: "entries (ec_ns ?np') = entries (ec_ns np)" using r(3) m'(2) by (simp add: same_table_def)
    have addrs: "neighbor_addrs (ec_ns ?np') = neighbor_addrs (ec_ns np)" and its: "items (ec_ns ?np') = items (ec_ns np)"
      using e by (simp_all add: neighbor_addrs_def items_def)
    have pl: "same_place (np\<lparr>np_has_sent_node_info := True\<rparr>) ?np'" using r(4) m'(1) by (simp add: same_place_def)
    have "standing a (np\<lparr>np_has_sent_node_info := True\<rparr>)" using st by (simp add: standing_def node_inv_fields is_exit_def)
    then have st': "standing a ?np'" using standing_place [OF _ _ pl] r(2) addrs by (simp add: node_inv_fields)
    have bpn: "np_bpn ?np' = Some Exit_Node" "np_is_exit_node ?np'" using r(5) m'(5) r(4) by (simp_all add: best_of_def same_place_def)
    have ch: "has_chosen ?np'" using bpn by (simp add: has_chosen_def best_of_def)
    have own: "own_path np1 = own_path ?np'"
      by (simp add: own_path_def best_neighbor_bp_to_our_bp_def bpn_node_def weigh_metrics_def node_at_def cong: node_ptr.case_cong option.case_cong if_cong)
    have "announced np ?np' = [info_packet (np_coordinate_node np) (own_path ?np')]"
      using r(6) m'(3,7) own by (simp add: announced_def lane_view_def)
    then have "speaks (chained ((net_nodes s)(a \<mapsto> ?np')) a) np ?np' (announced np ?np')"
      using False chained_exit(1) [OF st' bpn(2,1)] pl
      by (auto simp: speaks_def shortens_def same_place_def path_in_packet announcement_of_def)
    moreover have "\<forall>n \<in> set (items (ec_ns ?np')). link_ok (net_nodes s) (nn_addr n) (net_air s (nn_addr n) a) np n"
      using spreadingD(4) [OF inv np(1)] its by simp
    moreover have "np_is_exit_node ?np' = np_is_exit_node np" using bpn(2) np(2) by simp
    ultimately have "moves s a np ?np' (net_air s)" using st' ch addrs unfolding moves_def by blast
    with False r(7) show ?thesis by (simp add: init m'(6) r(1))
  qed
qed

lemma works_own:
  assumes ch: "has_chosen np" "np_has_sent_node_info np" and inv: "node_inv np" "node_inv np'"
    and same: "same_table np np'" "np_bpn np' = np_bpn np"
  shows "own_path np' = own_path np"
  using same_table_path [OF inv same(1) _ _ best_in_table [of np]] ch same(2) by (simp add: own_path_def has_chosen_def)

lemma works_spreading:
  assumes inv: "spreading s" and np: "net_nodes s a = Some np" and w: "node_inv np'" "same_place np np'" "same_table np np'" "np_bpn np' = np_bpn np"
  shows "spreading (s\<lparr>net_nodes := (net_nodes s)(a \<mapsto> np')\<rparr>)"
proof -
  note st = spreadingD(1) [OF inv np] and ch = spreadingD(2) [OF inv np]
  have own: "np_has_sent_node_info np \<Longrightarrow> own_path np' = own_path np"
    using works_own [OF ch _ standingD(1) [OF st] w(1,3,4)] .
  have e: "entries (ec_ns np') = entries (ec_ns np)" using w(3) by (simp add: same_table_def)
  then have t: "neighbor_addrs (ec_ns np') = neighbor_addrs (ec_ns np)" "items (ec_ns np') = items (ec_ns np)"
    by (simp_all add: neighbor_addrs_def items_def)
  have "speaks (backed ((net_nodes s)(a \<mapsto> np')) a) np np' []"
    using own w(2) by (simp add: speaks_def shortens_def same_place_def)
  moreover have "has_chosen np'" using ch w(2,4) same_table_best [OF w(3)] t by (simp add: has_chosen_def same_place_def)
  ultimately show ?thesis
    by (intro spreading_update [OF inv np standing_place [OF st w(1,2) t(1)], where air = "net_air s" and ms = "[]"])
       (simp_all add: t spreadingD(4) [OF inv np])
qed

text \<open>No node that has started is more than six hops from an exit.\<close>

definition few_hops :: "radio_network \<Rightarrow> bool" where
  "few_hops s \<longleftrightarrow> (\<forall>a np. net_nodes s a = Some np \<longrightarrow> np_has_sent_node_info np \<longrightarrow> bp_hops (own_path np) < 7)"

lemma few_hopsD: "few_hops s \<Longrightarrow> net_nodes s a = Some np \<Longrightarrow> np_has_sent_node_info np \<Longrightarrow> bp_hops (own_path np) < 7"
  unfolding few_hops_def by blast

lemma told_simps [simp]:
  "net_nodes (told s b np np') = (net_nodes s)(b \<mapsto> np')"
  "net_air (told s b np np') x y = (if x = b \<and> y \<in> set (neighbor_addrs (ec_ns np)) then net_air s x y @ announced np np' else net_air s x y)"
  by (simp_all add: told_def)

lemma step_spreading:
  assumes inv: "spreading s" and step: "net_step e s s'" and few: "few_hops s'"
  shows "spreading s'"
  using step
proof (cases rule: net_step.cases)
  case (starts a np np')
  have m: "moves s a np np' (net_air s)"
    using starts_moves [OF inv starts(3,4,5)] starts(6) by (auto split: if_splits)
  have "spreading (told (s\<lparr>net_air := net_air s\<rparr>) a np np')"
    by (rule moves_spreading [OF inv starts(3) m]) (use few_hopsD [OF few, of a np'] starts(2) in simp_all)
  then show ?thesis using starts(2) by simp
next
  case (hears b np a d ds n rest np')
  let ?air = "(net_air s)(a := (net_air s a)(b := ds))"
  have "0 < pb_free_cells (ec_sq np)" using hears(6) by simp
  from hears_moves [OF inv hears(3-5) this, of a 0 n rest "of_nat (length d)"] hears(7) have m: "moves s b np np' ?air" by simp
  have "spreading (told (s\<lparr>net_air := ?air\<rparr>) b np np')"
    by (rule moves_spreading [OF inv hears(3) m]) (use few_hopsD [OF few, of b np'] hears(2) in simp_all)
  then show ?thesis using hears(2) by simp
next
  case (works a np np')
  then show ?thesis using works_spreading [OF inv] by simp
qed

subsection \<open>Runs\<close>

text \<open>A run on which no path gets too long.\<close>

inductive net_run :: "radio_network \<Rightarrow> radio_network \<Rightarrow> bool" for s0 where
  here: "net_run s0 s0"
| more: "net_run s0 s \<Longrightarrow> net_step e s s' \<Longrightarrow> few_hops s' \<Longrightarrow> net_run s0 s'"

text \<open>A network that has been set up, before the exit paths are started.\<close>

definition dormant :: "radio_network \<Rightarrow> bool" where
  "dormant s \<longleftrightarrow> in_place (net_nodes s) \<and> (\<forall>a np. net_nodes s a = Some np \<longrightarrow> \<not> np_has_sent_node_info np \<and> np_bpn np = None \<and>
     (\<forall>n \<in> set (items (ec_ns np)). silent n)) \<and> (\<forall>a b. net_air s a b = [])"

lemma dormant_spreading:
  assumes "dormant s" shows "spreading s"
proof -
  have quiet: "\<not> np_has_sent_node_info np \<and> np_bpn np = None \<and> (\<forall>n \<in> set (items (ec_ns np)). silent n)"
    if "net_nodes s a = Some np" for a np using assms that unfolding dormant_def by blast
  have air: "net_air s a b = []" for a b using assms unfolding dormant_def by blast
  have "node_ok s a np" if "net_nodes s a = Some np" for a np
    using quiet [OF that] quiet by (auto simp: node_ok_def has_chosen_def link_ok_def air split: option.splits)
  then show ?thesis using assms unfolding spreading_def dormant_def by blast
qed

lemma run_spreading: "net_run s0 s \<Longrightarrow> spreading s0 \<Longrightarrow> spreading s"
  by (induction rule: net_run.induct) (blast intro: step_spreading)+

text \<open>The steps do not change who the nodes are, nor who their neighbors are.\<close>

lemma step_nodes:
  assumes inv: "spreading s" and step: "net_step e s s'"
  shows "dom (net_nodes s') = dom (net_nodes s)"
  using step by (cases rule: net_step.cases) auto

text \<open>
  In a network of at most seven nodes no path gets too long: the nodes on a path that is announced
  are different.
\<close>

lemma chained_few:
  assumes "chained net b q" and "net b \<noteq> None" and "card (dom net) \<le> 7"
  shows "bp_hops q < 7"
proof -
  obtain r where r: "distinct (b # r)" "length r = unat (bp_hops q)" "\<forall>c \<in> set r. \<exists>nc. net c = Some nc"
    using assms(1) unfolding chained_def by blast
  have "set (b # r) \<subseteq> dom net" using r(3) assms(2) by auto
  moreover have "finite (dom net)" using finite_subset [OF subset_UNIV] by auto
  ultimately have "card (set (b # r)) \<le> 7" using card_mono assms(3) order_trans by blast
  then have "Suc (length r) \<le> 7" using distinct_card [OF r(1)] by simp
  with r(2) show ?thesis by (simp add: word_less_nat_alt)
qed

lemma moves_few:
  assumes inv: "spreading s" and np: "net_nodes s b = Some np" and m: "moves s b np np' air" and few: "card (dom (net_nodes s)) \<le> 7"
    and sent: "np_has_sent_node_info np'"
  shows "bp_hops (own_path np') < 7"
proof -
  have sp: "speaks (chained ((net_nodes s)(b \<mapsto> np')) b) np np' (announced np np')" using m by (simp add: moves_def)
  have "dom ((net_nodes s)(b \<mapsto> np')) = dom (net_nodes s)" using np by auto
  then have c: "bp_hops (own_path np') < 7" if "chained ((net_nodes s)(b \<mapsto> np')) b (own_path np')"
    using chained_few [OF that] few by simp
  have "np_has_sent_node_info np \<Longrightarrow> bp_hops (own_path np) < 7"
    using short_pathD(1) [OF backedD [OF spreadingD(3) [OF inv np]]] .
  with sp sent c show ?thesis by (auto simp: speaks_def)
qed

lemma step_few:
  assumes inv: "spreading s" and few: "card (dom (net_nodes s)) \<le> 7" "few_hops s" and step: "net_step e s s'"
  shows "few_hops s'"
  using step
proof (cases rule: net_step.cases)
  case (starts a np np')
  have m: "moves s a np np' (net_air s)"
    using starts_moves [OF inv starts(3,4,5)] starts(6) by (auto split: if_splits)
  with moves_few [OF inv starts(3) m few(1)] few(2) starts(2) show ?thesis by (auto simp: few_hops_def)
next
  case (hears b np a d ds n rest np')
  have "0 < pb_free_cells (ec_sq np)" using hears(6) by simp
  from hears_moves [OF inv hears(3-5) this, of a 0 n rest "of_nat (length d)"] hears(7)
  have m: "moves s b np np' ((net_air s)(a := (net_air s a)(b := ds)))" by simp
  with moves_few [OF inv hears(3) m few(1)] few(2) hears(2) show ?thesis by (auto simp: few_hops_def)
next
  case (works a np np')
  have "bp_hops (own_path np') < 7" if "np_has_sent_node_info np'"
    using works_own [OF spreadingD(2) [OF inv works(3)] _ standingD(1) [OF spreadingD(1) [OF inv works(3)]] works(4,6,7)]
      few_hopsD [OF few(2) works(3)] that works(5) by (simp add: same_place_def)
  with few(2) works(2) show ?thesis by (auto simp: few_hops_def)
qed

end
