(* ===== verification/Network_Quiet.thy ===== *)
theory Network_Quiet
  imports Network_Steps
begin

text \<open>
  A network in which nothing is on the way between neighbors has settled: theories \<open>Routes_Spec\<close> and
  \<open>Shortest_Spec\<close> apply to it.
\<close>

subsection \<open>Quiet networks have settled\<close>

text \<open>The nodes that have started; nothing is on the way between neighbors.\<close>

definition started :: "network \<Rightarrow> network" where
  "started net = (\<lambda>a. case net a of None \<Rightarrow> None | Some np \<Rightarrow> if np_has_sent_node_info np then Some np else None)"

lemma started_iff: "started net a = Some np \<longleftrightarrow> net a = Some np \<and> np_has_sent_node_info np"
  by (auto simp: started_def split: option.splits)

definition quiet :: "radio_network \<Rightarrow> bool" where
  "quiet s \<longleftrightarrow> (\<forall>a b nb. net_nodes s b = Some nb \<longrightarrow> a \<in> set (neighbor_addrs (ec_ns nb)) \<longrightarrow> net_air s a b = [])"

lemma own_path_returns:
  assumes "standing a np" and "has_chosen np" and "np_has_sent_node_info np"
  shows "best_neighbor_bp_to_our_bp np = Inr (own_path np)"
proof -
  obtain n where "node_at (best_of np) np = Inr n" using node_in_table [OF standingD(1) [OF assms(1)] best_in_table] by metis
  moreover have "np_bpn np = Some (best_of np)" using assms(2,3) by (simp add: has_chosen_def)
  ultimately obtain bp where "best_neighbor_bp_to_our_bp np = Inr bp" using our_best_path by metis
  then show ?thesis by (simp add: own_path_def)
qed

lemma quiet_link:
  assumes inv: "spreading s" and q: "quiet s" and np: "net_nodes s a = Some np" and n: "n \<in> set (items (ec_ns np))"
  shows "link_ok (net_nodes s) (nn_addr n) [] np n"
proof -
  have "nn_addr n \<in> set (neighbor_addrs (ec_ns np))" using n by (simp add: neighbor_addrs_def)
  with q np have "net_air s (nn_addr n) a = []" unfolding quiet_def by blast
  with spreadingD(4) [OF inv np n] show ?thesis by simp
qed

lemma quiet_entry:
  assumes inv: "spreading s" and q: "quiet s" and np: "net_nodes s a = Some np" and n: "n \<in> set (items (ec_ns np))"
  shows "silent n \<Longrightarrow> started (net_nodes s) (nn_addr n) = None"
    and "\<not> silent n \<Longrightarrow> \<exists>nb. started (net_nodes s) (nn_addr n) = Some nb \<and> best_neighbor_bp_to_our_bp nb = Inr (nn_bp n) \<and>
      short_path (nn_bp n) \<and> unat (neighbor_node_distance n) \<le> 9000"
proof -
  note l = quiet_link [OF assms]
  show "silent n \<Longrightarrow> started (net_nodes s) (nn_addr n) = None"
    using l by (auto simp: link_ok_def started_def split: option.splits if_splits)
  assume loud: "\<not> silent n"
  then obtain nb where nb: "net_nodes s (nn_addr n) = Some nb" "np_has_sent_node_info nb" using link_ok_sent [OF l] by blast
  note d = link_okD [OF l nb]
  have "nn_addr n \<in> set (neighbor_addrs (ec_ns np))" using n by (simp add: neighbor_addrs_def)
  then have "place_distance nb np \<le> 9000" using in_placeD(2) [OF _ nb(1) np] inv by (simp add: spreading_def)
  then have "unat (neighbor_node_distance n) \<le> 9000" using d(3) loud by (simp add: neighbor_node_distance_def word_le_nat_alt)
  moreover have "own_path nb = nn_bp n" "short_path (nn_bp n)" using d(4,6) loud by (simp_all add: heard_def backed_def)
  ultimately show "\<exists>nb. started (net_nodes s) (nn_addr n) = Some nb \<and> best_neighbor_bp_to_our_bp nb = Inr (nn_bp n) \<and>
      short_path (nn_bp n) \<and> unat (neighbor_node_distance n) \<le> 9000"
    using nb own_path_returns [OF spreadingD(1,2) [OF inv nb(1)] nb(2)] by (auto simp: started_iff)
qed

lemma spreading_settled:
  assumes inv: "spreading s" and q: "quiet s"
  shows "settled (started (net_nodes s))" and "informed (started (net_nodes s))" and "roomy (started (net_nodes s))"
proof -
  let ?net = "started (net_nodes s)"
  note entry = quiet_entry [OF inv q]
  have "settled_node ?net a np" if "?net a = Some np" for a np
  proof -
    have np: "net_nodes s a = Some np" "np_has_sent_node_info np" using that by (simp_all add: started_iff)
    note st = spreadingD(1) [OF inv np(1)] and ch = spreadingD(2) [OF inv np(1)]
    have "up_to_date ?net n" if "n \<in> set (items (ec_ns np))" for n
      using entry(2) [OF np(1) that] by (auto simp: up_to_date_def silent_def)
    with st ch np(2) node_invD(4) [OF standingD(1) [OF st]] show ?thesis
      by (simp add: settled_node_def standing_def has_chosen_def)
  qed
  then show "settled ?net" unfolding settled_def by blast
  have "best_neighbor_bp_to_our_bp nb = Inr (nn_bp n)"
    if "?net a = Some np" "n \<in> set (items (ec_ns np))" "?net (nn_addr n) = Some nb" for a np n nb
    using entry(1,2) [of a np n] that by (auto simp: started_iff)
  then show "informed ?net" unfolding informed_def by blast
  have "fire_penalty np = 0 \<and> (neighbor_node_metric n \<noteq> METRIC_T_MAX \<longrightarrow> neighbor_node_hops n < 7 \<and>
      unat (neighbor_node_metric n) + unat (neighbor_node_distance n) < 65535)"
    if "?net a = Some np" "n \<in> set (items (ec_ns np))" for a np n
    using entry(2) [of a np n] that standingD(8) [OF spreadingD(1) [OF inv, of a np]] short_pathD(1,3) [of "nn_bp n"]
    by (auto simp: started_iff fire_penalty_def silent_def neighbor_node_hops_def neighbor_node_metric_def path_metric_def)
  moreover have "fire_penalty np = 0" if "?net a = Some np" for a np
    using that standingD(8) [OF spreadingD(1) [OF inv, of a np]] by (simp add: started_iff fire_penalty_def)
  ultimately show "roomy ?net" unfolding roomy_def by fastforce
qed

text \<open>The start reaches every node from which an exit can be reached.\<close>

lemma neighbor_started:
  assumes inv: "spreading s" and q: "quiet s" and np: "net_nodes s a = Some np" and n: "n \<in> set (items (ec_ns np))"
    and nb: "started (net_nodes s) (nn_addr n) = Some nb"
  shows "np_has_sent_node_info np"
proof -
  have "\<not> silent n" using quiet_entry(1) [OF inv q np n] nb by auto
  with spreadingD(2) [OF inv np] n show ?thesis by (auto simp: has_chosen_def split: if_splits)
qed

definition exits_started :: "radio_network \<Rightarrow> bool" where
  "exits_started s \<longleftrightarrow> (\<forall>a np. net_nodes s a = Some np \<longrightarrow> np_is_exit_node np \<longrightarrow> np_has_sent_node_info np)"

lemma walk_started:
  assumes inv: "spreading s" and q: "quiet s" and ex: "exits_started s"
    and w: "walk (net_nodes s) a w c"
  shows "walk (started (net_nodes s)) a w c"
  using w
proof (induction rule: walk.induct)
  case (arrived a np)
  then have "np_has_sent_node_info np" using ex unfolding exits_started_def by blast
  with arrived show ?case by (intro walk.arrived) (simp_all add: started_iff)
next
  case (move a np n w c)
  from move.IH obtain nb where nb: "started (net_nodes s) (nn_addr n) = Some nb" by (cases rule: walk.cases) auto
  have "started (net_nodes s) a = Some np"
    using neighbor_started [OF inv q move.hyps(1,2) nb] move.hyps(1) by (simp add: started_iff)
  from walk.move [OF this move.hyps(2) move.IH] show ?case .
qed

lemma started_walk: "walk (started net) a w c \<Longrightarrow> walk net a w c"
  by (induction rule: walk.induct) (auto simp: started_iff intro: walk.intros)

lemma started_route: "route (started net) a r c \<Longrightarrow> route net a r c"
  by (induction rule: route.induct) (auto simp: started_iff intro: route.intros)

end
