(* ===== verification/Network_Ends.thy ===== *)
theory Network_Ends
  imports Network_Quiet
begin

text \<open>
  Why announcements come to an end: every one that is on the way can be heard, and with each the
  paths get shorter, or longer ones are on the way, which can cause less.
\<close>

subsection \<open>Progress\<close>

lemma hears_possible:
  assumes inv: "spreading s" and np: "net_nodes s b = Some np" "a \<in> set (neighbor_addrs (ec_ns np))"
    and air: "net_air s a b = d # ds" and room: "3 \<le> pb_free_cells (ec_sq np)"
  obtains np' where "ec_neighbors_recv np a a 0 n (d @ rest) (of_nat (length d)) = Inr np'"
    and "moves s b np np' ((net_air s)(a := (net_air s a)(b := ds)))"
    and "announced np np' \<noteq> [] \<and> np_has_sent_node_info np \<longrightarrow> path_metric (path_in d) < path_metric (own_path np')"
    and "net_step (Hears b a) s (told (s\<lparr>net_air := (net_air s)(a := (net_air s a)(b := ds))\<rparr>) b np np')"
proof -
  have "0 < pb_free_cells (ec_sq np)" using room by simp
  from hears_moves [OF inv np(1) air np(2) this, of a 0 n rest "of_nat (length d)"]
  obtain np' where np': "ec_neighbors_recv np a a 0 n (d @ rest) (of_nat (length d)) = Inr np'"
    "moves s b np np' ((net_air s)(a := (net_air s a)(b := ds)))"
    "announced np np' \<noteq> [] \<and> np_has_sent_node_info np \<longrightarrow> path_metric (path_in d) < path_metric (own_path np')"
    unfolding returns_def by blast
  from that [OF this] net_step.hears [OF np(1) air np(2) room np'(1)] show thesis by blast
qed

subsection \<open>Termination\<close>

text \<open>What a node may still save, and what the announcements on the way may still cause.\<close>

definition rank :: "node_properties option \<Rightarrow> nat" where
  "rank x = (case x of Some np \<Rightarrow> if np_has_sent_node_info np then path_metric (own_path np) else 65536 | None \<Rightarrow> 0)"

definition ranks :: "network \<Rightarrow> nat" where
  "ranks net = (\<Sum>a\<in>UNIV. rank (net a))"

definition weight :: "bytes \<Rightarrow> nat" where
  "weight d = 65536 - path_metric (path_in d)"

definition load :: "(rimeaddr \<Rightarrow> rimeaddr \<Rightarrow> bytes list) \<Rightarrow> nat multiset" where
  "load air = (\<Sum>p\<in>UNIV. mset (map weight (air (fst p) (snd p))))"

definition pending :: "radio_network \<Rightarrow> nat \<times> nat multiset" where
  "pending s = (ranks (net_nodes s), load (net_air s))"

abbreviation pending_order :: "((nat \<times> nat multiset) \<times> (nat \<times> nat multiset)) set" where
  "pending_order \<equiv> less_than <*lex*> mult less_than"

lemma wf_pending: "wf pending_order"
  by (intro wf_lex_prod wf_less_than wf_mult)

lemma path_metric_bound: "path_metric q < 65536"
  using unat_u16_less by (simp add: path_metric_def)

lemma ranks_update: "ranks (net(a \<mapsto> np)) + rank (net a) = ranks net + rank (Some np)"
proof -
  have "ranks f = rank (f a) + (\<Sum>x\<in>UNIV - {a}. rank (f x))" for f :: network
    unfolding ranks_def by (rule sum.remove) simp_all
  then show ?thesis by simp
qed

lemma load_take:
  assumes "air a b = d # ds"
  shows "load air = add_mset (weight d) (load (air(a := (air a)(b := ds))))"
proof -
  have r: "load f = mset (map weight (f a b)) + (\<Sum>p\<in>UNIV - {(a, b)}. mset (map weight (f (fst p) (snd p))))" for f
    unfolding load_def by (subst sum.remove [of _ "(a, b)"]) simp_all
  have "(\<Sum>p\<in>UNIV - {(a, b)}. mset (map weight ((air(a := (air a)(b := ds))) (fst p) (snd p)))) =
      (\<Sum>p\<in>UNIV - {(a, b)}. mset (map weight (air (fst p) (snd p))))" by (rule sum.cong) auto
  with assms show ?thesis using r [of air] r [of "air(a := (air a)(b := ds))"] by simp
qed

lemma load_told:
  "load (\<lambda>x y. if x = b \<and> y \<in> A then air x y @ ms else air x y) =
    load air + (\<Sum>p\<in>UNIV. if fst p = b \<and> snd p \<in> A then mset (map weight ms) else {#})"
  unfolding load_def sum.distrib [symmetric] by (rule sum.cong) auto

lemma moves_rank:
  assumes "moves s b np np' air"
  shows "rank (Some np') \<le> rank (Some np)"
    and "announced np np' \<noteq> [] \<Longrightarrow> \<not> np_has_sent_node_info np \<Longrightarrow> rank (Some np') < rank (Some np)"
  using assms path_metric_bound [of "own_path np'"] by (auto simp: moves_def speaks_def shortens_def rank_def)

lemma hears_pending:
  assumes np: "net_nodes s b = Some np" and air: "net_air s a b = d # ds"
    and m: "moves s b np np' ((net_air s)(a := (net_air s a)(b := ds)))"
    and longer: "announced np np' \<noteq> [] \<and> np_has_sent_node_info np \<longrightarrow> path_metric (path_in d) < path_metric (own_path np')"
  shows "(pending (told (s\<lparr>net_air := (net_air s)(a := (net_air s a)(b := ds))\<rparr>) b np np'), pending s) \<in> pending_order"
proof -
  let ?air = "(net_air s)(a := (net_air s a)(b := ds))" and ?A = "set (neighbor_addrs (ec_ns np))"
  let ?K = "\<Sum>p\<in>UNIV. if fst p = b \<and> snd p \<in> ?A then mset (map weight (announced np np')) else {#}"
  have nodes: "ranks ((net_nodes s)(b \<mapsto> np')) + rank (Some np) = ranks (net_nodes s) + rank (Some np')"
    using ranks_update [of "net_nodes s" b np'] np by simp
  have air': "load (net_air (told (s\<lparr>net_air := ?air\<rparr>) b np np')) = load ?air + ?K"
    unfolding told_def using load_told [of b ?A ?air "announced np np'"] by (simp cong: if_cong)
  have old: "load (net_air s) = load ?air + {#weight d#}" using load_take [of "net_air s" a b d ds] air by simp
  show ?thesis
  proof (cases "rank (Some np') < rank (Some np)")
    case True
    with nodes show ?thesis by (simp add: pending_def)
  next
    case False
    then have r: "rank (Some np') = rank (Some np)" using moves_rank(1) [OF m] by simp
    have "weight k < weight d" if k: "k \<in> set (announced np np')" for k
    proof -
      have "announced np np' \<noteq> []" using k by auto
      then have "np_has_sent_node_info np" using moves_rank(2) [OF m] False by blast
      with longer \<open>announced np np' \<noteq> []\<close> have "path_metric (path_in d) < path_metric (own_path np')" by blast
      moreover have "path_in k = own_path np'" using m k by (auto simp: moves_def speaks_def)
      ultimately show ?thesis using path_metric_bound [of "own_path np'"] by (simp add: weight_def)
    qed
    then have "\<forall>k \<in># ?K. \<exists>j \<in># {#weight d#}. (k, j) \<in> less_than"
      by (auto simp: set_mset_sum split: if_splits)
    from one_step_implies_mult [OF _ this, of "load ?air"]
    have "(load ?air + ?K, load (net_air s)) \<in> mult less_than" unfolding old by simp
    with nodes r show ?thesis unfolding pending_def air' by simp
  qed
qed

lemma step_pending:
  assumes inv: "spreading s" and step: "net_step e s s'"
  shows "if \<exists>a. e = Works a then pending s' = pending s else (pending s', pending s) \<in> pending_order"
  using step
proof (cases rule: net_step.cases)
  case (starts a np np')
  have m: "moves s a np np' (net_air s)" "np_has_sent_node_info np'" "\<not> np_has_sent_node_info np"
    using starts_moves [OF inv starts(3,4,5)] starts(6) by (auto split: if_splits)
  have "rank (Some np') < rank (Some np)" using m(2,3) path_metric_bound [of "own_path np'"] by (simp add: rank_def)
  with starts(1-3) ranks_update [of "net_nodes s" a np'] show ?thesis by (simp add: pending_def)
next
  case (hears b np a d ds n rest np')
  have "0 < pb_free_cells (ec_sq np)" using hears(6) by simp
  from hears_moves [OF inv hears(3-5) this, of a 0 n rest "of_nat (length d)"] hears(7)
  have m: "moves s b np np' ((net_air s)(a := (net_air s a)(b := ds)))"
    "announced np np' \<noteq> [] \<and> np_has_sent_node_info np \<longrightarrow> path_metric (path_in d) < path_metric (own_path np')" by simp_all
  from hears_pending [OF hears(3,4) m] show ?thesis using hears(1,2) by simp
next
  case (works a np np')
  have "np_has_sent_node_info np \<Longrightarrow> own_path np' = own_path np"
    using works_own [OF spreadingD(2) [OF inv works(3)] _ standingD(1) [OF spreadingD(1) [OF inv works(3)]] works(4,6,7)] .
  then have "rank (Some np') = rank (Some np)" using works(5) by (simp add: rank_def same_place_def)
  with works(1-3) ranks_update [of "net_nodes s" a np'] show ?thesis by (simp add: pending_def)
qed

text \<open>A sequence that never goes up in a well-founded order goes down only finitely often.\<close>

lemma goes_down_finitely:
  assumes wf: "wf r" and step: "\<And>i. (f (Suc i), f i) \<in> r \<or> f (Suc i) = f i"
  shows "\<exists>k. \<forall>i \<ge> k. f (Suc i) = f i"
proof -
  obtain z where z: "z \<in> range f" "\<And>y. (y, z) \<in> r \<Longrightarrow> y \<notin> range f"
    using wfE_min [OF wf, of "f 0" "range f"] by (metis rangeI)
  then obtain k where k: "z = f k" by blast
  have "f i = z" if "k \<le> i" for i
    using that
  proof (induction rule: dec_induct)
    case (step i)
    from assms(2) [of i] step.IH z(2) show ?case by (metis rangeI)
  qed (simp add: k)
  then have "\<forall>i \<ge> k. f (Suc i) = f i" by simp
  then show ?thesis ..
qed

end
