(* ===== verification/Example_Network.thy ===== *)
theory Example_Network
  imports Network_Ends
begin

text \<open>Two rooms, one of them with an exit, and the run on which they find it.\<close>

definition room_node :: "rimeaddr \<Rightarrow> byte \<Rightarrow> rimeaddr \<Rightarrow> bool \<Rightarrow> node_properties" where
  "room_node a y b ex = ec_set_neighbors (booted\<lparr>ec_ns := fst (projr (queue_buffer_push_front (ec_ns booted) (new_neighbor b))),
     ec_node_addr := a, np_coordinate_node := \<lparr>cx = (0, 0), cy = (0, y)\<rparr>, np_is_exit_node := ex,
     np_exit_node := neighbor_node_zero\<lparr>nn_addr := a, nn_distance := (0, 0), nn_bp := exit_node_bp a\<rparr>, np_is_sink_node := False,
     np_is_burning := False, np_is_reset_mode := False, np_has_sent_node_info := False\<rparr>)"

lemma room_node_facts:
  "standing a (room_node a y b ex)" "items (ec_ns (room_node a y b ex)) = [new_neighbor b]" "np_bpn (room_node a y b ex) = None"
  "\<not> np_has_sent_node_info (room_node a y b ex)" "np_is_exit_node (room_node a y b ex) = ex"
  "np_coordinate_node (room_node a y b ex) = \<lparr>cx = (0, 0), cy = (0, y)\<rparr>" "pb_free_cells (ec_sq (room_node a y b ex)) = 12"
proof -
  have ns: "ns_wf (ec_ns booted)" using node_invD(4) [OF booted_facts(1)] .
  obtain q r where q: "queue_buffer_push_front (ec_ns booted) (new_neighbor b) = Inr (q, r)" "qb_wf q" "items q = [new_neighbor b]" "capacity q = 8"
    using sq.push_front_returns [of "ec_ns booted" "new_neighbor b"] ns booted_facts(4) by (auto simp: ns_wf_def items_def returns_def)
  have "ns_wf q" using q(2,4) by (simp add: ns_wf_def)
  define e where "e = neighbor_node_zero\<lparr>nn_addr := a, nn_distance := (0, 0), nn_bp := exit_node_bp a\<rparr>"
  have eq: "room_node a y b ex = ec_set_neighbors (booted\<lparr>ec_ns := q, ec_node_addr := a, np_coordinate_node := \<lparr>cx = (0, 0), cy = (0, y)\<rparr>,
     np_is_exit_node := ex, np_exit_node := e, np_is_sink_node := False, np_is_burning := False, np_is_reset_mode := False,
     np_has_sent_node_info := False\<rparr>)" by (simp add: room_node_def q(1) e_def)
  have "node_inv (room_node a y b ex)" unfolding eq
    by (intro node_inv_fields(21,10,11,8,12,18,17) node_inv_ns booted_facts(1) \<open>ns_wf q\<close>)
  moreover have "ex \<Longrightarrow> is_exit (room_node a y b ex)" unfolding eq by (simp add: ec_set_neighbors_def is_exit_def e_def)
  ultimately show "standing a (room_node a y b ex)"
    unfolding standing_def by (auto simp: eq ec_set_neighbors_def q(3) neighbor_addrs_def)
  show "items (ec_ns (room_node a y b ex)) = [new_neighbor b]" "np_bpn (room_node a y b ex) = None"
    "\<not> np_has_sent_node_info (room_node a y b ex)" "np_is_exit_node (room_node a y b ex) = ex"
    "np_coordinate_node (room_node a y b ex) = \<lparr>cx = (0, 0), cy = (0, y)\<rparr>" "pb_free_cells (ec_sq (room_node a y b ex)) = 12"
    using q(3) booted_facts(2) booted_flags(2) by (simp_all add: eq ec_set_neighbors_def)
qed

definition two_rooms :: radio_network where
  "two_rooms = \<lparr>net_nodes = [(1, 0) \<mapsto> room_node (1, 0) 0 (2, 0) True, (2, 0) \<mapsto> room_node (2, 0) 4 (1, 0) False],
     net_air = (\<lambda>_ _. [])\<rparr>"

lemma two_rooms_nodes: "net_nodes two_rooms a = Some np \<longleftrightarrow>
    a = (1, 0) \<and> np = room_node (1, 0) 0 (2, 0) True \<or> a = (2, 0) \<and> np = room_node (2, 0) 4 (1, 0) False"
  by (auto simp: two_rooms_def)

lemma room_addrs: "neighbor_addrs (ec_ns (room_node a y b ex)) = [b]"
  by (simp add: neighbor_addrs_def room_node_facts(2) new_neighbor_simps)

lemma two_rooms_dormant: "dormant two_rooms"
proof -
  have "coordinate_distance \<lparr>cx = (0, 0), cy = (0, 0)\<rparr> \<lparr>cx = (0, 0), cy = (0, 4)\<rparr> = 4"
    "coordinate_distance \<lparr>cx = (0, 0), cy = (0, 4)\<rparr> \<lparr>cx = (0, 0), cy = (0, 0)\<rparr> = 4" by code_simp+
  then have d: "place_distance (room_node a 0 b e) (room_node c 4 d f) = 4"
    "place_distance (room_node a 4 b e) (room_node c 0 d f) = 4" for a b c d e f
    by (simp_all add: place_distance_def room_node_facts(6))
  have "in_place (net_nodes two_rooms)"
    unfolding in_place_def by (auto simp: two_rooms_nodes room_addrs room_node_facts(1) d)
  moreover have "silent (new_neighbor b)" for b by (simp add: silent_def new_neighbor_simps)
  ultimately show ?thesis
    unfolding dormant_def by (auto simp: two_rooms_nodes room_node_facts) (simp add: two_rooms_def)
qed

subsection \<open>The run\<close>

lemma two_rooms_few: "card (dom (net_nodes two_rooms)) \<le> 7" "few_hops two_rooms"
proof -
  have "dom (net_nodes two_rooms) = {(1, 0), (2, 0)}" by (auto simp: two_rooms_def)
  then show "card (dom (net_nodes two_rooms)) \<le> 7" by simp
  show "few_hops two_rooms" by (auto simp: few_hops_def two_rooms_nodes room_node_facts(4))
qed

lemma sent_speaks:
  assumes "moves s b np np' air" and "np_has_sent_node_info np'" and "\<not> np_has_sent_node_info np"
  obtains d where "announced np np' = [d]"
  using assms by (auto simp: moves_def speaks_def)

text \<open>The exit starts, and the other node is told.\<close>

lemma two_rooms_start:
  obtains s1 p1 d where "net_step (Starts (1, 0)) two_rooms s1" and "net_nodes s1 (1, 0) = Some p1"
    and "net_nodes s1 (2, 0) = Some (room_node (2, 0) 4 (1, 0) False)" and "net_air s1 (1, 0) (2, 0) = [d]" and "net_air s1 (2, 0) (1, 0) = []"
    and "np_has_sent_node_info p1" and "np_is_exit_node p1" and "neighbor_addrs (ec_ns p1) = [(2, 0)]" and "pb_free_cells (ec_sq p1) = 11"
    and "spreading s1" and "few_hops s1" and "dom (net_nodes s1) = {(1, 0), (2, 0)}"
proof -
  let ?e = "room_node (1, 0) 0 (2, 0) True"
  note inv = dormant_spreading [OF two_rooms_dormant]
  have e: "net_nodes two_rooms (1, 0) = Some ?e" "np_is_exit_node ?e" "0 < pb_free_cells (ec_sq ?e)"
    by (simp_all add: two_rooms_nodes room_node_facts)
  obtain p1 where p1: "initialize_best_path_packet_handler ?e = Inr p1" "moves two_rooms (1, 0) ?e p1 (net_air two_rooms)"
    "np_has_sent_node_info p1" "pb_free_cells (ec_sq p1) = 11"
    using starts_moves [OF inv e] by (auto simp: room_node_facts(4,7) returns_def)
  obtain d where d: "announced ?e p1 = [d]" using sent_speaks [OF p1(2,3)] room_node_facts(4) by blast
  let ?s = "told two_rooms (1, 0) ?e p1"
  have step: "net_step (Starts (1, 0)) two_rooms ?s" by (rule net_step.starts [OF e p1(1)])
  note few = step_few [OF inv two_rooms_few step]
  show thesis
    by (rule that [OF step, of p1 d])
       (use p1 d few step_spreading [OF inv step few]
        in \<open>auto simp: moves_def room_addrs room_node_facts(5) two_rooms_def split: if_splits\<close>)
qed

lemma two_rooms_run:
  obtains s1 s2 s3 where "net_step (Starts (1, 0)) two_rooms s1" and "net_step (Hears (2, 0) (1, 0)) s1 s2"
    and "net_step (Hears (1, 0) (2, 0)) s2 s3" and "few_hops s1" and "few_hops s2" and "few_hops s3"
    and "quiet s3" and "exits_started s3" and "\<exists>w c. walk (net_nodes s3) (2, 0) w c"
proof -
  obtain s1 p1 d where s1: "net_step (Starts (1, 0)) two_rooms s1" "net_nodes s1 (1, 0) = Some p1"
    "net_nodes s1 (2, 0) = Some (room_node (2, 0) 4 (1, 0) False)" "net_air s1 (1, 0) (2, 0) = [d]" "net_air s1 (2, 0) (1, 0) = []"
    "np_has_sent_node_info p1" "np_is_exit_node p1" "neighbor_addrs (ec_ns p1) = [(2, 0)]" "pb_free_cells (ec_sq p1) = 11"
    "spreading s1" "few_hops s1" "dom (net_nodes s1) = {(1, 0), (2, 0)}" using two_rooms_start .
  let ?n = "room_node (2, 0) 4 (1, 0) False"
  have near: "(1, 0) \<in> set (neighbor_addrs (ec_ns ?n))" "3 \<le> pb_free_cells (ec_sq ?n)" by (simp_all add: room_addrs room_node_facts(7))
  obtain p2 where p2: "moves s1 (2, 0) ?n p2 ((net_air s1)((1, 0) := (net_air s1 (1, 0))((2, 0) := [])))"
    "net_step (Hears (2, 0) (1, 0)) s1 (told (s1\<lparr>net_air := (net_air s1)((1, 0) := (net_air s1 (1, 0))((2, 0) := []))\<rparr>) (2, 0) ?n p2)"
    using hears_possible [OF s1(10) s1(3) near(1) s1(4) near(2), of 0 "[]"] by metis
  define s2 where "s2 = told (s1\<lparr>net_air := (net_air s1)((1, 0) := (net_air s1 (1, 0))((2, 0) := []))\<rparr>) (2, 0) ?n p2"
  note step2 = p2(2) [folded s2_def]
  have c1: "card (dom (net_nodes s1)) \<le> 7" using s1(12) by simp
  note few2 = step_few [OF s1(10) c1 s1(11) step2]
  note inv2 = step_spreading [OF s1(10) step2 few2]
  have n2: "net_nodes s2 (1, 0) = Some p1" "net_nodes s2 (2, 0) = Some p2" "dom (net_nodes s2) = {(1, 0), (2, 0)}"
    using s1(2,12) by (auto simp: s2_def)
  have a2: "neighbor_addrs (ec_ns p2) = [(1, 0)]" using p2(1) by (simp add: moves_def room_addrs)
  have air2: "net_air s2 (1, 0) (2, 0) = []" "net_air s2 (2, 0) (1, 0) = announced ?n p2"
    using s1(5) by (simp_all add: s2_def room_addrs)
  obtain m where m: "m \<in> set (items (ec_ns p2))" "nn_addr m = (1, 0)" using a2 by (force simp: neighbor_addrs_def)
  have "\<not> silent m"
    using spreadingD(4) [OF inv2 n2(2) m(1)] n2(1) s1(6) air2(1) by (auto simp: m(2) link_ok_def)
  then have sent2: "np_has_sent_node_info p2" using spreadingD(2) [OF inv2 n2(2)] m(1) by (auto simp: has_chosen_def split: if_splits)
  then obtain d2 where "announced ?n p2 = [d2]" using sent_speaks [OF p2(1)] room_node_facts(4) by blast
  then have air21: "net_air s2 (2, 0) (1, 0) = [d2]" using air2(2) by simp
  have near3: "(2, 0) \<in> set (neighbor_addrs (ec_ns p1))" "3 \<le> pb_free_cells (ec_sq p1)" by (simp_all add: s1(8,9))
  obtain p3 where p3: "moves s2 (1, 0) p1 p3 ((net_air s2)((2, 0) := (net_air s2 (2, 0))((1, 0) := [])))"
    "announced p1 p3 \<noteq> [] \<and> np_has_sent_node_info p1 \<longrightarrow> path_metric (path_in d2) < path_metric (own_path p3)"
    "net_step (Hears (1, 0) (2, 0)) s2 (told (s2\<lparr>net_air := (net_air s2)((2, 0) := (net_air s2 (2, 0))((1, 0) := []))\<rparr>) (1, 0) p1 p3)"
    using hears_possible [OF inv2 n2(1) near3(1) air21 near3(2), of 0 "[]"] by metis
  define s3 where "s3 = told (s2\<lparr>net_air := (net_air s2)((2, 0) := (net_air s2 (2, 0))((1, 0) := []))\<rparr>) (1, 0) p1 p3"
  note step3 = p3(3) [folded s3_def]
  have c2: "card (dom (net_nodes s2)) \<le> 7" using n2(3) by simp
  have p3': "standing (1, 0) p3" "has_chosen p3" "np_is_exit_node p3" "neighbor_addrs (ec_ns p3) = [(2, 0)]" "np_has_sent_node_info p3"
    using p3(1) s1(6,7,8) by (auto simp: moves_def speaks_def shortens_def)
  then have "np_bpn p3 = Some Exit_Node" by (simp add: has_chosen_def best_of_def)
  then have silence: "announced p1 p3 = []" using p3(2) s1(6) chained_exit(3) [OF p3'(1,3)] by auto
  have n3: "net_nodes s3 b = Some np \<longleftrightarrow> b = (1, 0) \<and> np = p3 \<or> b = (2, 0) \<and> np = p2" for b np
    using n2 by (auto simp: s3_def dom_def)
  have "quiet s3" unfolding quiet_def by (auto simp: n3 p3'(4) a2) (simp_all add: s3_def silence air2(1) s1(8))
  moreover have "exits_started s3" unfolding exits_started_def by (auto simp: n3 p3'(5) sent2)
  moreover have "\<exists>w c. walk (net_nodes s3) (2, 0) w c"
  proof -
    have w: "walk (net_nodes s3) (1, 0) [(1, 0)] (fire_penalty p3)" using n3 p3'(3) by (intro walk.arrived) auto
    have "net_nodes s3 (2, 0) = Some p2" using n3 by blast
    from walk.move [OF this m(1) w [folded m(2)]] show ?thesis by blast
  qed
  ultimately show thesis
    using that [OF s1(1) step2 step3 s1(11) few2 step_few [OF inv2 c2 few2 step3]] by blast
qed

end
