(* ===== verification/Network_Spec.thy ===== *)
theory Network_Spec
  imports Example_Network
begin

text \<open>
  The exit paths of a network, from the first announcement on: the announcements are heard, they die
  out, and then the best neighbors of all nodes lead the shortest ways out.
\<close>

text \<open>
  C5: Announcements settle the network. From a network that has been set up, let exits start and nodes
  hear each other in any order, as long as no node is more than six hops from an exit. Whenever
  nothing is on the way any more, the nodes that have started form a settled network: each points to
  its best neighbor, every table says what the neighbors announce, and no sum of metrics wraps around.
\<close>

theorem announcements_settle_the_network:
  assumes "dormant s0" and "net_run s0 s" and "quiet s"
  shows "settled (started (net_nodes s)) \<and> informed (started (net_nodes s)) \<and> roomy (started (net_nodes s))"
  using spreading_settled [OF run_spreading [OF assms(2) dormant_spreading [OF assms(1)]] assms(3)] by blast

lemma network_settles_witness: "\<exists>s. net_run two_rooms s \<and> quiet s \<and> settled (started (net_nodes s)) \<and> started (net_nodes s) (2, 0) \<noteq> None"
proof -
  obtain s1 s2 s3 where r: "net_step (Starts (1, 0)) two_rooms s1" "net_step (Hears (2, 0) (1, 0)) s1 s2"
    "net_step (Hears (1, 0) (2, 0)) s2 s3" "few_hops s1" "few_hops s2" "few_hops s3" "quiet s3" "exits_started s3"
    "\<exists>w c. walk (net_nodes s3) (2, 0) w c" using two_rooms_run .
  have run: "net_run two_rooms s3" using r(1-6) by (blast intro: net_run.intros)
  obtain w c where "walk (net_nodes s3) (2, 0) w c" using r(9) by blast
  then have "walk (started (net_nodes s3)) (2, 0) w c"
    by (rule walk_started [OF run_spreading [OF run dormant_spreading [OF two_rooms_dormant]] r(7,8)])
  then have "started (net_nodes s3) (2, 0) \<noteq> None" by (cases rule: walk.cases) auto
  with announcements_settle_the_network [OF two_rooms_dormant run r(7)] run r(7) show ?thesis by blast
qed

text \<open>
  C4: The announcements find the shortest ways out. When, on such a run, all exits have started and
  nothing is on the way any more, then a node from which any walk leads to an exit has a route along
  the best neighbors, and this route is a walk to an exit that is not longer than any other.
\<close>

theorem announcements_find_the_shortest_ways:
  assumes "dormant s0" and "net_run s0 s" and "quiet s" and "exits_started s" and "walk (net_nodes s) a w c"
  shows "\<exists>r l. route (net_nodes s) a r l \<and> walk (net_nodes s) a r l \<and> (\<forall>w' c'. walk (net_nodes s) a w' c' \<longrightarrow> l \<le> c')"
proof -
  have inv: "spreading s" by (rule run_spreading [OF assms(2) dormant_spreading [OF assms(1)]])
  let ?net = "started (net_nodes s)"
  note start = walk_started [OF inv assms(3,4)]
  obtain r l where "route ?net a r l" "walk ?net a r l" "\<forall>w' c'. walk ?net a w' c' \<longrightarrow> l \<le> c'"
    using best_neighbors_lead_the_shortest_way [OF spreading_settled [OF inv assms(3)] start [OF assms(5)]] by blast
  then show ?thesis using started_route started_walk start by blast
qed

lemma shortest_ways_witness: "\<exists>s r l. net_run two_rooms s \<and> quiet s \<and> route (net_nodes s) (2, 0) r l"
proof -
  obtain s1 s2 s3 where r: "net_step (Starts (1, 0)) two_rooms s1" "net_step (Hears (2, 0) (1, 0)) s1 s2"
    "net_step (Hears (1, 0) (2, 0)) s2 s3" "few_hops s1" "few_hops s2" "few_hops s3" "quiet s3" "exits_started s3"
    "\<exists>w c. walk (net_nodes s3) (2, 0) w c" using two_rooms_run .
  have run: "net_run two_rooms s3" using r(1-6) by (blast intro: net_run.intros)
  from announcements_find_the_shortest_ways [OF two_rooms_dormant run r(7,8)] r(9) run r(7) show ?thesis by blast
qed

text \<open>
  C7: No announcement stops a node. On a run of the network, a node whose sending queue has room
  hears the oldest announcement of each neighbor without a failure, whatever lies behind it in memory.
\<close>

theorem announcements_are_heard:
  assumes "dormant s0" and "net_run s0 s" and "net_nodes s b = Some np" and "a \<in> set (neighbor_addrs (ec_ns np))"
    and "net_air s a b = d # ds" and "3 \<le> pb_free_cells (ec_sq np)"
  shows "\<exists>np'. ec_neighbors_recv np a a 0 n (d @ rest) (of_nat (length d)) = Inr np' \<and> node_inv np' \<and>
    net_step (Hears b a) s (told (s\<lparr>net_air := (net_air s)(a := (net_air s a)(b := ds))\<rparr>) b np np')"
proof -
  have inv: "spreading s" by (rule run_spreading [OF assms(2) dormant_spreading [OF assms(1)]])
  from hears_possible [OF inv assms(3-6), of n rest] show ?thesis
    by (metis moves_def standingD(1))
qed

lemma announcements_heard_witness:
  "\<exists>s s' d. net_run two_rooms s \<and> net_air s (1, 0) (2, 0) = [d] \<and> net_step (Hears (2, 0) (1, 0)) s s'"
proof -
  obtain s p1 d where s: "net_step (Starts (1, 0)) two_rooms s" "net_nodes s (2, 0) = Some (room_node (2, 0) 4 (1, 0) False)"
    "net_air s (1, 0) (2, 0) = [d]" "few_hops s" using two_rooms_start by metis
  have run: "net_run two_rooms s" using s(1,4) by (blast intro: net_run.intros)
  have "(1, 0) \<in> set (neighbor_addrs (ec_ns (room_node (2, 0) 4 (1, 0) False)))"
    "3 \<le> pb_free_cells (ec_sq (room_node (2, 0) 4 (1, 0) False))" by (simp_all add: room_addrs room_node_facts(7))
  from announcements_are_heard [OF two_rooms_dormant run s(2) this(1) s(3) this(2)] run s(3) show ?thesis by blast
qed

text \<open>
  C6: Announcements die out. In every infinite run of the network, from some step on no exit starts
  and nobody hears anything: the nodes only do what they do without announcements.
\<close>

theorem announcements_die_out:
  assumes "dormant (run 0)" and "\<And>i. net_step (ev i) (run i) (run (Suc i))" and "\<And>i. few_hops (run i)"
  shows "\<exists>k. \<forall>i \<ge> k. \<exists>a. ev i = Works a"
proof -
  have inv: "spreading (run i)" for i
    by (induction i) (use dormant_spreading [OF assms(1)] step_spreading assms(2,3) in blast)+
  note step = step_pending [OF inv assms(2)]
  have "(pending (run (Suc i)), pending (run i)) \<in> pending_order \<or> pending (run (Suc i)) = pending (run i)" for i
    using step [of i] by (auto split: if_splits)
  from goes_down_finitely [OF wf_pending, of "\<lambda>i. pending (run i)", OF this]
  obtain k where k: "\<forall>i \<ge> k. pending (run (Suc i)) = pending (run i)" by blast
  have "\<exists>a. ev i = Works a" if "k \<le> i" for i
    using step [of i] k that wf_not_sym [OF wf_pending, of "pending (run i)" "pending (run i)"] by (auto split: if_splits)
  then show ?thesis by blast
qed

text \<open>The run of the two rooms, after which the exit only works.\<close>

lemma announcements_end_witness:
  "\<exists>run ev. run 0 = two_rooms \<and> (\<forall>i. net_step (ev i) (run i) (run (Suc i))) \<and> ev 1 = Hears (2, 0) (1, 0) \<and>
     (\<exists>k. \<forall>i \<ge> k. \<exists>a. ev i = Works a)"
proof -
  obtain s1 s2 s3 where r: "net_step (Starts (1, 0)) two_rooms s1" "net_step (Hears (2, 0) (1, 0)) s1 s2"
    "net_step (Hears (1, 0) (2, 0)) s2 s3" "few_hops s1" "few_hops s2" "few_hops s3" "quiet s3" "exits_started s3"
    "\<exists>w c. walk (net_nodes s3) (2, 0) w c" using two_rooms_run .
  define run where "run i = [two_rooms, s1, s2, s3] ! min i 3" for i :: nat
  define ev where "ev i = [Starts (1, 0), Hears (2, 0) (1, 0), Hears (1, 0) (2, 0), Works (2, 0)] ! min i 3" for i :: nat
  have run: "net_run two_rooms s3" using r(1-6) by (blast intro: net_run.intros)
  note inv = run_spreading [OF run dormant_spreading [OF two_rooms_dormant]]
  obtain np where np: "net_nodes s3 (2, 0) = Some np" using r(9) by (auto elim: walk.cases)
  have "net_step (Works (2, 0)) s3 (s3\<lparr>net_nodes := (net_nodes s3)((2, 0) \<mapsto> np)\<rparr>)"
    by (rule net_step.works [OF np standingD(1) [OF spreadingD(1) [OF inv np]]]) (simp_all add: same_place_refl same_table_def)
  moreover have "s3\<lparr>net_nodes := (net_nodes s3)((2, 0) \<mapsto> np)\<rparr> = s3" using np by (cases s3) (simp add: fun_upd_idem)
  ultimately have works: "net_step (Works (2, 0)) s3 s3" by simp
  have cases: "i = 0 \<or> i = 1 \<or> i = 2 \<or> min i 3 = 3 \<and> min (Suc i) 3 = 3" for i :: nat by arith
  have step: "net_step (ev i) (run i) (run (Suc i))" for i
    using cases [of i] r(1-3) works by (auto simp: run_def ev_def)
  have few: "few_hops (run i)" for i
    using cases [of i] r(4-6) two_rooms_few(2) by (auto simp: run_def)
  have "dormant (run 0)" using two_rooms_dormant by (simp add: run_def)
  from announcements_die_out [of run ev, OF this step few] step show ?thesis
    by (intro exI [of _ run] exI [of _ ev]) (simp add: run_def ev_def)
qed

text \<open>
  C22: In a network of at most seven nodes no path gets too long, whatever happens and in whatever
  order: a path that is announced never leads through a node twice. So every run of it is one that
  finds the shortest ways.
\<close>

theorem small_networks_stay_short:
  assumes "dormant s0" and "card (dom (net_nodes s0)) \<le> 7" and "(\<lambda>s s'. \<exists>e. net_step e s s')\<^sup>*\<^sup>* s0 s"
  shows "net_run s0 s"
proof -
  have few0: "few_hops s0" using assms(1) unfolding few_hops_def dormant_def by blast
  have "net_run s0 s \<and> few_hops s \<and> dom (net_nodes s) = dom (net_nodes s0)"
    using assms(3)
  proof (induction rule: rtranclp_induct)
    case base
    then show ?case using few0 net_run.here by blast
  next
    case (step s s')
    then obtain e where e: "net_step e s s'" by blast
    have inv: "spreading s" using run_spreading [OF _ dormant_spreading [OF assms(1)]] step.IH by blast
    have "few_hops s'" using step_few [OF inv _ _ e] step.IH assms(2) by simp
    with step.IH e step_nodes [OF inv e] show ?case by (auto intro: net_run.more)
  qed
  then show ?thesis by blast
qed

lemma small_networks_witness: "\<exists>s. net_run two_rooms s \<and> quiet s \<and> s \<noteq> two_rooms"
proof -
  obtain s1 s2 s3 where r: "net_step (Starts (1, 0)) two_rooms s1" "net_step (Hears (2, 0) (1, 0)) s1 s2"
    "net_step (Hears (1, 0) (2, 0)) s2 s3" "few_hops s1" "few_hops s2" "few_hops s3" "quiet s3" "exits_started s3"
    "\<exists>w c. walk (net_nodes s3) (2, 0) w c" using two_rooms_run .
  let ?step = "\<lambda>s s'. \<exists>e. net_step e s s'"
  have "?step two_rooms s1" "?step s1 s2" "?step s2 s3" using r(1-3) by blast+
  then have "?step\<^sup>*\<^sup>* two_rooms s3"
    by (rule rtranclp.rtrancl_into_rtrancl [OF rtranclp.rtrancl_into_rtrancl [OF r_into_rtranclp]])
  from small_networks_stay_short [OF two_rooms_dormant two_rooms_few(1) this] have run: "net_run two_rooms s3" .
  have "s3 \<noteq> two_rooms"
    using r(8) by (auto simp: exits_started_def two_rooms_nodes room_node_facts(4,5))
  with run r(7) show ?thesis by blast
qed

end
