(* ===== verification/Leader_Spec.thy ===== *)
theory Leader_Spec
  imports Learning_Spec
begin

text \<open>
  The election of the clock's leader: what a node believes after any number of packets of the clock,
  from any leaders and in any order, while its timers fire, its light blinks and time passes.
\<close>

abbreviation leader_of :: "header \<Rightarrow> authority_t" where
  "leader_of p \<equiv> timesynch_rimeaddr_to_authority (hdr_originator p)"

abbreviation own_level :: "node_properties \<Rightarrow> authority_t" where
  "own_level np \<equiv> timesynch_rimeaddr_to_authority (ec_node_addr np)"

subsection \<open>The light\<close>

text \<open>A node that has to show the way knows one: if it blinks, its best neighbor is set.\<close>

definition can_blink :: "node_properties \<Rightarrow> bool" where
  "can_blink np \<longleftrightarrow> (np_is_blinking np \<and> \<not> np_is_burning np \<longrightarrow>
     (case np_bpn np of None \<Rightarrow> False | Some p \<Rightarrow> in_table p np))"

text \<open>Steps that change the light and its timer, or only the time.\<close>

definition lights_only :: "node_properties \<Rightarrow> node_properties \<Rightarrow> bool" where
  "lights_only np np' \<longleftrightarrow> (\<exists>w t s l k. np' = np\<lparr>np_next_wakeup := w, np_rt := t, np_blinking_state := s, np_leds := l, np_rtimer_now := k\<rparr>)"

lemma lights_only_refl: "lights_only np np"
  unfolding lights_only_def by (intro exI [of _ "np_next_wakeup np"] exI [of _ "np_rt np"] exI [of _ "np_blinking_state np"]
    exI [of _ "np_leds np"] exI [of _ "np_rtimer_now np"]) simp

text \<open>A node whose clock is on, with nothing in the way of its light.\<close>

definition keeps_time :: "node_properties \<Rightarrow> bool" where
  "keeps_time np \<longleftrightarrow> node_inv np \<and> ec_ts_is_on np \<and> can_blink np"

lemma lights_keep_time:
  assumes "lights_only np np'" and "keeps_time np"
  shows "keeps_time np'" "ec_node_addr np' = ec_node_addr np" "ec_sync np' = ec_sync np" "ec_sq np' = ec_sq np"
  using assms by (auto simp: lights_only_def keeps_time_def can_blink_def in_table_def node_inv_fields split: option.splits)

lemma internal_keeps_time:
  assumes "ec_internal np np'" and "ec_ts_is_on np' = ec_ts_is_on np" and "keeps_time np"
  shows "keeps_time np'" "ec_node_addr np' = ec_node_addr np"
proof -
  have "same_node np np'" by (rule internal_same_node [OF assms(1)])
  then show "keeps_time np'" "ec_node_addr np' = ec_node_addr np"
    using node_internal [OF _ assms(1)] assms(2,3)
    by (auto simp: same_node_def keeps_time_def can_blink_def in_table_def split: option.splits)
qed

lemma clock_callback:
  assumes "keeps_time np" obtains np' where "cb_timesynch ec_cb np = Inr np'" and "lights_only np np'"
proof (cases "np_is_blinking np \<and> \<not> np_is_burning np")
  case True
  then obtain p where "np_bpn np = Some p" "in_table p np"
    using assms by (auto simp: keeps_time_def can_blink_def split: option.splits)
  then obtain w t s where "blinking_update np = Inr (np\<lparr>np_next_wakeup := w, np_rt := t, np_blinking_state := s\<rparr>)"
    using blinking_update_fields assms unfolding keeps_time_def by metis
  moreover have "lights_only np (np\<lparr>np_next_wakeup := w, np_rt := t, np_blinking_state := s\<rparr>)"
    unfolding lights_only_def by (intro exI [of _ w] exI [of _ t] exI [of _ s] exI [of _ "np_leds np"] exI [of _ "np_rtimer_now np"]) simp
  ultimately show thesis using that by (simp add: ec_cb_def ec_timesynch_recv_def)
next
  case False
  then have "cb_timesynch ec_cb np = Inr np" by (auto simp: ec_cb_def ec_timesynch_recv_def blinking_update_def)
  then show thesis using that lights_only_refl by blast
qed

lemma blink_lights:
  assumes "keeps_time np" shows "returns (blink np) (lights_only np)"
proof (cases "np_is_blinking np \<and> \<not> np_is_burning np")
  case True
  then obtain p where p: "np_bpn np = Some p" "in_table p np"
    using assms by (auto simp: keeps_time_def can_blink_def split: option.splits)
  then obtain n where "bpn_node np = Inr n"
    using node_in_table assms unfolding keeps_time_def bpn_node_def by (metis option.simps(5))
  with True show ?thesis
    by (cases np) (auto simp: blink_def Let_def leds_blue_def rtimer_set_def lights_only_def split: prod.splits)
next
  case False
  then show ?thesis using lights_only_refl by (auto simp: blink_def)
qed

subsection \<open>The events of the clock\<close>

text \<open>
  What happens to the clock: packets of the clock arrive, lanes send, the light blinks, time passes.
  A packet of the clock finds a free cell in the sending queue, without which the node stops. The
  timer that waits for the next packet of the leader fires only when the node leads itself: then it
  is time for its own next packet; otherwise the node would have lost its leader.
\<close>

fun clock_event :: "node_event \<Rightarrow> node_properties \<Rightarrow> bool" where
  "clock_event (Connection_Event (Timesynch_Frame fr)) np = (0 < pb_free_cells (ec_sq np) \<and>
     (case read_header fr of
        Inr p \<Rightarrow> IS_PACKET_FLAG_SET p TIMESYNCH \<and> leader_of p < AUTHORITY_LEVEL_MAX
      | Inl _ \<Rightarrow> False))"
| "clock_event (Connection_Event (Timer_Fires tm ok)) np = (tm = Ts_Timer \<longrightarrow>
     authority_level (ec_sync np) = own_level np \<and> 0 < pb_free_cells (ec_sq np))"
| "clock_event Real_Time_Timer np = True"
| "clock_event (Time_Passes t) np = True"
| "clock_event ev np = False"

fun clock_run :: "node_event list \<Rightarrow> node_properties \<Rightarrow> bool" where
  "clock_run [] np = True"
| "clock_run (ev # evs) np = (clock_event ev np \<and>
     (case node_handle ev np of Inr np' \<Rightarrow> clock_run evs np' | Inl _ \<Rightarrow> True))"

text \<open>The leaders that packets of the clock name.\<close>

fun leaders_heard :: "node_event list \<Rightarrow> authority_t list" where
  "leaders_heard [] = []"
| "leaders_heard (Connection_Event (Timesynch_Frame fr) # evs) = leader_of (header_of fr) # leaders_heard evs"
| "leaders_heard (ev # evs) = leaders_heard evs"

lemma hear_one:
  assumes np: "keeps_time np" and room: "0 < pb_free_cells (ec_sq np)" and p: "read_header fr = Inr p"
    and flag: "IS_PACKET_FLAG_SET p TIMESYNCH"
  shows "returns (timesynch_recv ec_cb fr np) (\<lambda>np'. keeps_time np' \<and> ec_node_addr np' = ec_node_addr np \<and>
    pb_free_cells (ec_sq np) - 1 \<le> pb_free_cells (ec_sq np') \<and>
    authority_level (ec_sync np') = (if leader_of p < authority_level (ec_sync np)
      then min (own_level np) (leader_of p) else authority_level (ec_sync np)))"
proof -
  let ?level = "authority_level (ec_sync np)"
  have inv: "node_inv np" and on: "ec_ts_is_on np" using np by (simp_all add: keeps_time_def)
  have light: "returns (cb_timesynch ec_cb np1) (\<lambda>np'. keeps_time np' \<and> ec_node_addr np' = ec_node_addr np1 \<and>
      pb_free_cells (ec_sq np') = pb_free_cells (ec_sq np1) \<and> authority_level (ec_sync np') = authority_level (ec_sync np1))"
    if k: "keeps_time np1" for np1
  proof -
    obtain np2 where c: "cb_timesynch ec_cb np1 = Inr np2" "lights_only np1 np2" using clock_callback [OF k] .
    from lights_keep_time [OF c(2) k] show ?thesis by (simp add: c(1))
  qed
  have passed_on: ?thesis if "timesynch_recv ec_cb fr np = cb_timesynch ec_cb np1" "keeps_time np1" "ec_node_addr np1 = ec_node_addr np"
      "pb_free_cells (ec_sq np) - 1 \<le> pb_free_cells (ec_sq np1)"
      "authority_level (ec_sync np1) = (if leader_of p < ?level then min (own_level np) (leader_of p) else ?level)" for np1
    using returns_mono [OF light [OF that(2)]] that by simp
  consider (lower) "leader_of p < ?level" "\<not> own_level np < leader_of p" | (mine) "leader_of p < ?level" "own_level np < leader_of p"
    | (again) "leader_of p = ?level" "seqno_newer (hdr_seqno p) (authority_seqno (ec_sync np))"
    | (old) "\<not> leader_of p < ?level" "leader_of p = ?level \<longrightarrow> \<not> seqno_newer (hdr_seqno p) (authority_seqno (ec_sync np))" by blast
  then show ?thesis
  proof cases
    case lower
    obtain np1 where f: "forward_timesynch p (np\<lparr>ec_sync := set_authority_seqno (set_authority_level (ec_sync np) (leader_of p))
        (hdr_seqno p)\<rparr>) = Inr np1" "ec_internal np np1" "authority_level (ec_sync np1) = leader_of p"
      "ec_ts_is_on np1 = ec_ts_is_on np" "pb_free_cells (ec_sq np1) = pb_free_cells (ec_sq np) - 1"
      using forward_runs [OF inv room] by metis
    show ?thesis
      by (rule passed_on [OF _ internal_keeps_time [OF f(2,4) np]])
         (use on lower flag p f in \<open>auto simp: timesynch_recv_def Let_def min_def\<close>)
  next
    case mine
    obtain np1 where l: "timesynch_as_leader ec_cb np = cb_timesynch ec_cb np1" "ec_internal np np1"
      "authority_level (ec_sync np1) = own_level np" "ec_ts_is_on np1 = ec_ts_is_on np"
      "pb_free_cells (ec_sq np1) = pb_free_cells (ec_sq np) - 1" using leader_queues [OF inv room] by metis
    note k1 = internal_keeps_time [OF l(2,4) np]
    obtain np2 where c2: "cb_timesynch ec_cb np1 = Inr np2" "lights_only np1 np2" using clock_callback [OF k1(1)] .
    note k2 = lights_keep_time [OF c2(2) k1(1)]
    show ?thesis
      by (rule passed_on [of np2]) (use on mine flag p l c2(1) k1 k2 in \<open>simp_all add: timesynch_recv_def Let_def min_absorb1 less_imp_le\<close>)
  next
    case again
    have e: "set_authority_level (ec_sync np) ?level = ec_sync np" by (simp add: set_authority_level_def)
    obtain np1 where f: "forward_timesynch p (np\<lparr>ec_sync := set_authority_seqno (ec_sync np) (hdr_seqno p)\<rparr>) = Inr np1"
      "ec_internal np np1" "authority_level (ec_sync np1) = ?level"
      "ec_ts_is_on np1 = ec_ts_is_on np" "pb_free_cells (ec_sq np1) = pb_free_cells (ec_sq np) - 1"
      using forward_runs [OF inv room, of p ?level "hdr_seqno p"] unfolding e by metis
    show ?thesis
      by (rule passed_on [OF _ internal_keeps_time [OF f(2,4) np]])
         (use on again flag p f in \<open>simp_all add: timesynch_recv_def Let_def\<close>)
  next
    case old
    then consider "timesynch_recv ec_cb fr np = cb_timesynch ec_cb np" | "timesynch_recv ec_cb fr np = Inr np"
      using on flag p
      by (cases "leader_of p = ?level"; cases "hdr_seqno p = authority_seqno (ec_sync np)") (simp_all add: timesynch_recv_def Let_def)
    then show ?thesis by cases (use passed_on np old in \<open>simp_all\<close>)
  qed
qed

text \<open>Events other than timers that send.\<close>

definition sends_nothing :: "node_event \<Rightarrow> bool" where
  "sends_nothing ev \<longleftrightarrow> (case ev of Connection_Event (Timer_Fires tm ok) \<Rightarrow> False | _ \<Rightarrow> True)"

lemma clock_step:
  assumes np: "keeps_time np" and ev: "clock_event ev np"
  shows "returns (node_handle ev np) (\<lambda>np'. keeps_time np' \<and> ec_node_addr np' = ec_node_addr np \<and>
    (sends_nothing ev \<longrightarrow> pb_free_cells (ec_sq np) - 1 \<le> pb_free_cells (ec_sq np')) \<and>
    authority_level (ec_sync np') = (case leaders_heard [ev] of
      [l] \<Rightarrow> if l < authority_level (ec_sync np) then min (own_level np) l else authority_level (ec_sync np)
    | _ \<Rightarrow> authority_level (ec_sync np)))"
  using ev
proof (cases "(ev, np)" rule: clock_event.cases)
  case (1 fr np')
  with ev obtain p where p: "read_header fr = Inr p" "IS_PACKET_FLAG_SET p TIMESYNCH" "0 < pb_free_cells (ec_sq np)"
    by (auto split: sum.splits)
  then have "header_of fr = p" by (auto simp: read_header_def split: if_splits)
  with hear_one [OF np p(3,1,2)] 1 show ?thesis by (auto simp: node_handle_def ec_handle_def elim!: returns_mono)
next
  case (2 tm ok np')
  have inv: "node_inv np" using np by (simp add: keeps_time_def)
  show ?thesis
  proof (cases "tm = Ts_Timer")
    case True
    let ?np = "ctimer_stop Ts_Timer np"
    have s: "ec_internal np ?np" by (rule stop_ts_internal [OF node_invD(1) [OF inv]])
    have e: "ec_ts_is_on ?np = ec_ts_is_on np" "ec_sync ?np = ec_sync np" "ec_sq ?np = ec_sq np" "ec_node_addr ?np = ec_node_addr np"
      by (simp_all add: ctimer_stop_def)
    have room: "0 < pb_free_cells (ec_sq ?np)" and lead: "authority_level (ec_sync np) = own_level np" using ev 2 True e by simp_all
    obtain np1 where l: "timesynch_as_leader ec_cb ?np = cb_timesynch ec_cb np1" "ec_internal ?np np1"
      "authority_level (ec_sync np1) = own_level ?np" "ec_ts_is_on np1 = ec_ts_is_on ?np"
      using leader_queues [OF node_internal [OF inv s] room] by metis
    note k1 = internal_keeps_time [OF ec_internal_trans [OF s l(2)] _ np, unfolded l(4), OF e(1)]
    obtain np2 where c: "cb_timesynch ec_cb np1 = Inr np2" "lights_only np1 np2" using clock_callback [OF k1(1)] .
    from lights_keep_time [OF c(2) k1(1)] k1 l(1,3) c(1) lead e(4) 2 True show ?thesis
      by (simp add: node_handle_def ec_handle_def timer_fires_def sends_nothing_def)
  next
    case False
    obtain np1 where t: "timer_fires ec_cb ok tm np = Inr np1" "ec_frame (ctimer_stop tm np) np1"
      using data_timer_returns [OF ec_invD(1) [OF node_invD(1) [OF inv]] False] by metis
    have "ec_ts_is_on np1 = ec_ts_is_on np" "ec_sync np1 = ec_sync np" using t(2) by (simp_all add: ec_frame_def ctimer_stop_def)
    with internal_keeps_time [OF timer_fires_internal [OF node_invD(1) [OF inv] False t(1)] _ np] t(1) 2
    show ?thesis by (simp add: node_handle_def ec_handle_def sends_nothing_def)
  qed
next
  case (3 np')
  have l: "lights_only np (np\<lparr>np_rt := None\<rparr>)"
    unfolding lights_only_def by (intro exI [of _ "np_next_wakeup np"] exI [of _ None] exI [of _ "np_blinking_state np"]
      exI [of _ "np_leds np"] exI [of _ "np_rtimer_now np"]) simp
  note k = lights_keep_time [OF l np]
  have "returns (blink (np\<lparr>np_rt := None\<rparr>)) (\<lambda>np'. keeps_time np' \<and> ec_node_addr np' = ec_node_addr np \<and> ec_sync np' = ec_sync np \<and> ec_sq np' = ec_sq np)"
    by (rule returns_mono [OF blink_lights [OF k(1)]]) (use lights_keep_time [OF _ k(1)] k in simp)
  with 3 show ?thesis by (auto simp: node_handle_def elim!: returns_mono)
next
  case (4 t np')
  have l: "lights_only np (np\<lparr>np_rtimer_now := t\<rparr>)"
    unfolding lights_only_def by (intro exI [of _ "np_next_wakeup np"] exI [of _ "np_rt np"] exI [of _ "np_blinking_state np"]
      exI [of _ "np_leds np"] exI [of _ t]) simp
  from lights_keep_time [OF l np] 4 show ?thesis by (simp add: node_handle_def)
qed simp_all

lemma leaders_heard_Cons: "leaders_heard (ev # evs) = leaders_heard [ev] @ leaders_heard evs"
  by (cases "ev # evs" rule: leaders_heard.cases) auto

lemma event_leaders:
  assumes "clock_event ev np"
  shows "leaders_heard [ev] = [] \<or> (\<exists>l. leaders_heard [ev] = [l] \<and> l < AUTHORITY_LEVEL_MAX)"
proof (cases "(ev, np)" rule: clock_event.cases)
  case (1 fr np')
  then obtain p where "read_header fr = Inr p" "leader_of p < AUTHORITY_LEVEL_MAX"
    using assms by (cases "read_header fr") auto
  with 1 show ?thesis by (auto simp: read_header_def split: if_splits)
qed simp_all

lemma clock_steps:
  assumes "keeps_time np" and "clock_run evs np"
    and "authority_level (ec_sync np) \<le> own_level np \<or> authority_level (ec_sync np) = AUTHORITY_LEVEL_MAX"
  shows "returns (node_handles evs np) (\<lambda>np'. keeps_time np' \<and> authority_level (ec_sync np') =
    (if leaders_heard evs = [] then authority_level (ec_sync np)
     else Min (insert (own_level np) (insert (authority_level (ec_sync np)) (set (leaders_heard evs))))))"
  using assms
proof (induction evs arbitrary: np)
  case (Cons ev evs)
  let ?level = "authority_level (ec_sync np)"
  have ev: "clock_event ev np" using Cons.prems(2) by simp
  obtain np1 where r: "node_handle ev np = Inr np1" "keeps_time np1" "ec_node_addr np1 = ec_node_addr np"
    "authority_level (ec_sync np1) = (case leaders_heard [ev] of [l] \<Rightarrow> if l < ?level then min (own_level np) l else ?level | _ \<Rightarrow> ?level)"
    using clock_step [OF Cons.prems(1) ev] unfolding returns_def by blast
  note split = leaders_heard_Cons [of ev evs]
  have run: "clock_run evs np1" using Cons.prems(2) r(1) by simp
  consider (other) "leaders_heard [ev] = []" | (heard) l where "leaders_heard [ev] = [l]" "l < AUTHORITY_LEVEL_MAX"
    using event_leaders [OF ev] by blast
  then show ?case
  proof cases
    case other
    with Cons.IH [OF r(2) run] Cons.prems(3) r show ?thesis by (cases "leaders_heard evs = []") (simp_all add: split)
  next
    case heard
    let ?low = "min (own_level np) (min ?level l)"
    have low: "authority_level (ec_sync np1) = ?low" "authority_level (ec_sync np1) \<le> own_level np1"
      using r(3,4) heard Cons.prems(3) by (auto simp: min_def)
    have "Min (insert (own_level np) (insert ?low (set (leaders_heard evs)))) =
        Min (insert (own_level np) (insert ?level (set (leaders_heard (ev # evs)))))"
      by (cases "set (leaders_heard evs) = {}") (simp_all add: split heard(1) min.assoc min.left_commute)
    moreover have "Min (insert (own_level np) (insert ?low (set (leaders_heard evs)))) = ?low"
      if "leaders_heard evs = []" using that by simp
    ultimately show ?thesis
      using Cons.IH [OF r(2) run disjI1 [OF low(2)]] r(1,3) low(1)
      by (cases "leaders_heard evs = []") (simp_all add: split heard(1))
  qed
qed simp

text \<open>
  C30: The lowest leader is elected. A node switches the clock on, and then hears packets of the clock,
  at least one, from any leaders, in any order and any number, while its lanes send, its light blinks and
  time passes (\<open>clock_run\<close>: every packet of the clock finds a free cell in the sending queue and names
  a leader below 255, the level of no leader; no other packets come in between; and the node does not lose its leader: the timer that waits for the leader's
  next packet fires only when the node leads itself). If the node is blinking, its best neighbor is set,
  unless it burns (\<open>can_blink\<close>). Then the node comes through without a failure and follows the lowest of
  the leaders that it has heard of and itself. So nodes that hear of the lowest node all follow it.
\<close>

theorem lowest_leader_is_elected:
  assumes "node_inv np" and "can_blink np" and "clock_run evs (ec_timesynch_on np)" and "leaders_heard evs \<noteq> []"
  shows "returns (node_handles evs (ec_timesynch_on np)) (\<lambda>np'. node_inv np' \<and>
    authority_level (ec_sync np') = Min (insert (own_level np) (set (leaders_heard evs))))"
proof -
  have "keeps_time (ec_timesynch_on np)"
    using timesynch_on_keeps [OF assms(1)] assms(2)
    by (simp add: keeps_time_def can_blink_def in_table_def ec_timesynch_on_def split: option.splits)
  moreover have "authority_level (ec_sync (ec_timesynch_on np)) = AUTHORITY_LEVEL_MAX" "own_level (ec_timesynch_on np) = own_level np"
    by (simp_all add: ec_timesynch_on_def set_authority_seqno_def set_authority_level_def)
  moreover have "Min (insert a (insert AUTHORITY_LEVEL_MAX S)) = Min (insert a S)" if "finite S" "S \<noteq> {}" for a and S :: "authority_t set"
  proof -
    have "(255 :: authority_t) = - 1" by simp
    then have "Min S \<le> AUTHORITY_LEVEL_MAX" unfolding AUTHORITY_LEVEL_MAX_def by (metis word_order.extremum)
    then have "min AUTHORITY_LEVEL_MAX (Min S) = Min S" by (rule min_absorb2)
    with that show ?thesis by simp
  qed
  ultimately show ?thesis
    using clock_steps [OF _ assms(3)] assms(4) by (auto simp: keeps_time_def elim!: returns_mono)
qed

text \<open>A run in which every packet finds room: no more packets than free cells, and only then the timers.\<close>

lemma clock_run_room:
  assumes "keeps_time np" and "length evs \<le> pb_free_cells (ec_sq np)" and "\<forall>ev \<in> set evs. sends_nothing ev"
    and "\<And>np' ev. ev \<in> set evs \<Longrightarrow> 0 < pb_free_cells (ec_sq np') \<Longrightarrow> clock_event ev np'"
  shows "clock_run evs np"
  using assms
proof (induction evs arbitrary: np)
  case (Cons ev evs)
  have ev: "clock_event ev np" by (rule Cons.prems(4)) (use Cons.prems(2) in simp_all)
  obtain np1 where r: "node_handle ev np = Inr np1" "keeps_time np1" "pb_free_cells (ec_sq np) - 1 \<le> pb_free_cells (ec_sq np1)"
    using clock_step [OF Cons.prems(1) ev] Cons.prems(3) by (auto simp: returns_def)
  have "clock_run evs np1" by (rule Cons.IH [OF r(2)]) (use Cons.prems r(3) in auto)
  with ev r(1) show ?case by simp
qed simp

lemma lowest_leader_witness:
  "returns (node_handles [Connection_Event (Timesynch_Frame (header_bytes (init_broadcast_packet TIMESYNCH 1 (7, 0) (3, 0) 4))),
      Time_Passes 700, Real_Time_Timer,
      Connection_Event (Timesynch_Frame (header_bytes (init_broadcast_packet TIMESYNCH 2 (1, 0) (3, 0) 9)))]
     (ec_timesynch_on deployed)) (\<lambda>np'. authority_level (ec_sync np') = 1)"
proof -
  let ?evs = "[Connection_Event (Timesynch_Frame (header_bytes (init_broadcast_packet TIMESYNCH 1 (7, 0) (3, 0) 4))),
      Time_Passes 700, Real_Time_Timer,
      Connection_Event (Timesynch_Frame (header_bytes (init_broadcast_packet TIMESYNCH 2 (1, 0) (3, 0) 9)))]"
  note hdr = init_broadcast_packet_def init_packet_def IS_PACKET_FLAG_SET_def packet_flag_defs timesynch_rimeaddr_to_authority_def
    AUTHORITY_LEVEL_MAX_def
  have d: "can_blink deployed" "own_level deployed = 2" using started_facts(5,6)
    by (simp_all add: can_blink_def ec_timesynch_on_def timesynch_rimeaddr_to_authority_def)
  have "keeps_time (ec_timesynch_on deployed)" using started_facts by (simp add: keeps_time_def can_blink_def)
  then have "clock_run ?evs (ec_timesynch_on deployed)"
    by (rule clock_run_room) (auto simp: started_facts(3) sends_nothing_def read_header_append [where rest = "[]", simplified] hdr)
  moreover have "leaders_heard ?evs = [7, 1]" by (simp add: header_of_bytes [where rest = "[]", simplified] hdr)
  ultimately show ?thesis
    using lowest_leader_is_elected [OF deployed_facts(1) d(1), of ?evs] d(2) by (auto elim!: returns_mono)
qed

end
