(* ===== verification/Alarm_Spec.thy ===== *)
theory Alarm_Spec
  imports Receiving_Spec Learning_Spec
begin

text \<open>
  How an alarm spreads: what a node does when the alarm of another one arrives, and that a second copy
  of the same alarm, by whatever way it comes, has no effect.
\<close>

definition alarm_header :: "rimeaddr \<Rightarrow> rimeaddr \<Rightarrow> byte \<Rightarrow> byte \<Rightarrow> header" where
  "alarm_header originator sender hops seqno = init_broadcast_packet 0 hops originator sender seqno"

text \<open>The frame of an alarm for a fire at \<open>co\<close>.\<close>

definition alarm_frame :: "rimeaddr \<Rightarrow> rimeaddr \<Rightarrow> byte \<Rightarrow> byte \<Rightarrow> coordinate \<Rightarrow> bytes" where
  "alarm_frame originator sender hops seqno co =
     header_bytes (alarm_header originator sender hops seqno) @ EMERGENCY_PACKET # coordinate_bytes co"

lemma length_alarm [simp]: "length (alarm_frame o' s h n co) = 12"
  by (simp add: alarm_frame_def coordinate_bytes_def)

lemma alarm_header_fields [simp]:
  "hdr_originator (alarm_header o' s h n) = o'" "hdr_sender (alarm_header o' s h n) = s" "hdr_hops (alarm_header o' s h n) = h"
  "hdr_seqno (alarm_header o' s h n) = n" "\<not> IS_PACKET_FLAG_SET (alarm_header o' s h n) ACK"
  by (simp_all add: alarm_header_def init_broadcast_packet_def init_packet_def IS_PACKET_FLAG_SET_def packet_flag_defs)

lemma alarm_arrives:
  "broadcast_recv cb (alarm_frame o' s h n co) 12 c =
     broadcast_data_received cb Kind_Broadcast (alarm_header o' s h n) (EMERGENCY_PACKET # coordinate_bytes co) 5 c"
proof -
  let ?fr = "alarm_frame o' s h n co"
  have "read_header ?fr = Inr (alarm_header o' s h n)" "drop 7 ?fr = EMERGENCY_PACKET # coordinate_bytes co"
    by (simp_all add: alarm_frame_def)
  moreover have "frame_for_us me (alarm_header o' s h n) ?fr 12 = Inr (Some (Kind_Broadcast, 7, 5))" for me
    by (simp add: frame_for_us_def alarm_header_def BROADCAST_PACKET_HDR_SIZE_def)
  ultimately show ?thesis by (simp add: broadcast_recv_def)
qed

lemma blinking_init_runs:
  assumes inv: "node_inv np" and bpn: "np_bpn np = Some p" "in_table p np"
  obtains b where "blinking_init np = Inr b" and "node_inv b" and "np_is_blinking b"
    and "np_emergency_coords b = np_emergency_coords np" and "ec_dq b = ec_dq np" and "lane_view b = lane_view np"
proof (cases "np_is_blinking np")
  case True
  with inv that [of np] show thesis by (simp add: blinking_init_def)
next
  case False
  let ?m = "np\<lparr>np_is_blinking := True\<rparr>"
  have m: "node_inv ?m" "np_bpn ?m = Some p" "in_table p ?m"
    using node_inv_fields(7) [OF inv] bpn by (simp_all add: in_table_def)
  obtain w t st where "blinking_update ?m = Inr (?m\<lparr>np_next_wakeup := w, np_rt := t, np_blinking_state := st\<rparr>)"
    using blinking_update_fields [OF m] by blast
  moreover have "node_inv (?m\<lparr>np_next_wakeup := w, np_rt := t, np_blinking_state := st\<rparr>)"
    by (intro node_inv_fields(4,5,6) m(1))
  moreover have "lane_view (?m\<lparr>np_next_wakeup := w, np_rt := t, np_blinking_state := st\<rparr>) = lane_view np"
    by (simp add: lane_view_def fun_eq_iff)
  ultimately show thesis
    using False that [of "?m\<lparr>np_next_wakeup := w, np_rt := t, np_blinking_state := st\<rparr>"] by (simp add: blinking_init_def)
qed

text \<open>The node's part: the fire is noted, the alarm passed on, and then the light is set to blink.\<close>

lemma alarm_forwarded:
  assumes inv: "node_inv np" and room: "0 < pb_free_cells (ec_sq np)" and state: "\<not> np_is_sink_node np" "\<not> np_is_reset_mode np"
  obtains np2 q k u where
    "ec_broadcasts_recv np o' s h n (EMERGENCY_PACKET # coordinate_bytes co) 5 = blinking_init np2" and "node_inv np2"
    and "same_table np np2" and "same_node (np\<lparr>np_emergency_coords := np_emergency_coords np2\<rparr>) np2"
    and "length (items (np_emergency_coords np)) < 10 \<longrightarrow> co \<in> set (items (np_emergency_coords np2))"
    and "slim (alarm_header o' s h n) \<in> set (items (ec_dq np2))"
    and "lane_view np2 MSG_TYPE_BROADCAST_DATA = lane_view np MSG_TYPE_BROADCAST_DATA @ [(q, 5, k, u)]"
    and "take 12 q = alarm_frame o' (ec_node_addr np) (h + 1) n co"
proof -
  let ?d = "EMERGENCY_PACKET # coordinate_bytes co"
  obtain q where q: "add_coordinate_as_burning co np = Inr (np\<lparr>np_emergency_coords := q\<rparr>)" "node_inv (np\<lparr>np_emergency_coords := q\<rparr>)"
    "length (items (np_emergency_coords np)) < 10 \<longrightarrow> co \<in> set (items q)"
    using add_fire_returns [OF inv, of co] unfolding returns_def by (metis list.set_intros(1) less_irrefl)
  let ?n1 = "np\<lparr>np_emergency_coords := q\<rparr>"
  have wf: "ec_wf ?n1" "0 < pb_free_cells (ec_sq ?n1)" "unat (5 :: byte) \<le> 24" "unat (5 :: byte) \<le> length ?d"
    using ec_invD(1) [OF node_invD(1) [OF q(2)]] room by (simp_all add: coordinate_bytes_def)
  let ?h = "init_broadcast_packet 0 (h + 1) o' (ec_node_addr np) n"
  obtain np2 where f: "ec_broadcast o' (ec_node_addr np) (h + 1) n ?d 5 ?n1 = Inr np2"
    "calls MSG_TYPE_BROADCAST_DATA (header_bytes ?h) ?h ?d 5 (conn_ns ?n1) ?n1 np2"
    using ec_broadcast_calls [OF wf, of o' "ec_node_addr np" "h + 1" n] by (auto simp: returns_def Let_def)
  note i = calls_internal [OF node_invD(1) [OF q(2)] f(2)]
  have more: "ec.more np2 = ec.more ?n1" using i by (simp add: ec_internal_def)
  have slim: "slim ?h = slim (alarm_header o' s h n)"
    by (simp add: slim_def) (simp add: init_broadcast_packet_def init_packet_def)
  have n2: "node_inv np2" "np_emergency_coords np2 = q" "same_table np np2" "slim ?h \<in> set (items (ec_dq np2))"
    using node_internal [OF q(2) i] more_coords [OF more] internal_same_table [OF i] f(2)
    by (simp_all add: same_table_def calls_def dq_after_def DUPE_QUEUE_LENGTH_def)
  obtain v where v: "appended (header_bytes ?h) ?d 5 (conn_ns ?n1) v"
    "lane_view np2 MSG_TYPE_BROADCAST_DATA = lane_view ?n1 MSG_TYPE_BROADCAST_DATA @ [v]"
    using f(2) unfolding calls_def queues_def sq_effect_def by blast
  obtain m l k u where m: "v = (m, l, k, u)" by (cases v)
  have lane: "lane_view np2 MSG_TYPE_BROADCAST_DATA = lane_view np MSG_TYPE_BROADCAST_DATA @ [(m, 5, k, u)]"
    "take 12 m = alarm_frame o' (ec_node_addr np) (h + 1) n co"
    using v by (simp_all add: m appended_def lane_view_def alarm_frame_def alarm_header_def coordinate_bytes_def)
  have "read_coordinate ?d 1 = Inr co" "packet_type ?d = Inr EMERGENCY_PACKET"
    by (cases co, simp_all add: read_coordinate_def packet_type_def read_mem_def coordinate_bytes_def coordinate_at_def)
  then have "ec_broadcasts_recv np o' s h n ?d 5 = blinking_init np2"
    using state q(1) f(1) by (simp add: ec_broadcasts_recv_def regular_broadcast_recv_def forward_broadcast_def)
  with that n2 internal_same_node [OF i] q(3) slim lane show thesis by simp
qed

lemma alarm_callback:
  assumes inv: "node_inv np" and room: "0 < pb_free_cells (ec_sq np)" and state: "\<not> np_is_sink_node np" "\<not> np_is_reset_mode np"
    and bpn: "np_bpn np = Some p" "in_table p np"
  shows "returns (ec_broadcasts_recv np o' s h n (EMERGENCY_PACKET # coordinate_bytes co) 5) (\<lambda>np'. node_inv np' \<and>
    np_is_blinking np' \<and> (length (items (np_emergency_coords np)) < 10 \<longrightarrow> co \<in> set (items (np_emergency_coords np'))) \<and>
    slim (alarm_header o' s h n) \<in> set (items (ec_dq np')) \<and>
    (\<exists>q k u. lane_view np' MSG_TYPE_BROADCAST_DATA = lane_view np MSG_TYPE_BROADCAST_DATA @ [(q, 5, k, u)] \<and>
       take 12 q = alarm_frame o' (ec_node_addr np) (h + 1) n co))"
proof -
  obtain np2 q k u where a: "ec_broadcasts_recv np o' s h n (EMERGENCY_PACKET # coordinate_bytes co) 5 = blinking_init np2"
    "node_inv np2" "same_table np np2" "same_node (np\<lparr>np_emergency_coords := np_emergency_coords np2\<rparr>) np2"
    "length (items (np_emergency_coords np)) < 10 \<longrightarrow> co \<in> set (items (np_emergency_coords np2))"
    "slim (alarm_header o' s h n) \<in> set (items (ec_dq np2))"
    "lane_view np2 MSG_TYPE_BROADCAST_DATA = lane_view np MSG_TYPE_BROADCAST_DATA @ [(q, 5, k, u)]"
    "take 12 q = alarm_frame o' (ec_node_addr np) (h + 1) n co"
    using alarm_forwarded [OF inv room state] .
  have "np_bpn np2 = Some p" "in_table p np2" using bpn a(4) same_table_in [OF a(3), of p] by (simp_all add: same_node_def)
  then obtain b where "blinking_init np2 = Inr b" "node_inv b" "np_is_blinking b" "np_emergency_coords b = np_emergency_coords np2"
    "ec_dq b = ec_dq np2" "lane_view b = lane_view np2"
    using blinking_init_runs [OF a(2)] by metis
  with a show ?thesis by simp
qed

lemma alarm_received:
  assumes inv: "node_inv np" and room: "3 \<le> pb_free_cells (ec_sq np)" and state: "\<not> np_is_sink_node np" "\<not> np_is_reset_mode np"
    and bpn: "np_bpn np = Some p" "in_table p np" and new: "\<lparr>sp_originator = o', sp_seqno = n\<rparr> \<notin> set (items (ec_dq np))"
  shows "\<exists>np'. broadcast_recv ec_cb (alarm_frame o' s h n co) 12 np = Inr np' \<and> node_inv np' \<and> np_is_blinking np' \<and>
     (length (items (np_emergency_coords np)) < 10 \<longrightarrow> co \<in> set (items (np_emergency_coords np'))) \<and>
     (\<exists>q k u. lane_view np' MSG_TYPE_BROADCAST_DATA = lane_view np MSG_TYPE_BROADCAST_DATA @ [(q, 5, k, u)] \<and>
        take 12 q = alarm_frame o' (ec_node_addr np) (h + 1) n co) \<and>
     (\<forall>s' h'. broadcast_recv ec_cb (alarm_frame o' s' h' n co) 12 np' = Inr np')"
proof -
  let ?h = "alarm_header o' s h n"
  note wf = ec_invD(1) [OF node_invD(1) [OF inv]]
  have "find_dupe ?h np = Inr None" using find_dupe_iff [OF wf, of ?h] new by (metis alarm_header_fields(1,4) slim_def)
  moreover have "packet_buffer_has_room_for_packets (ec_sq np) 3"
    using has_room_iff [OF sq_wfD(1) [OF ec_wfD(1) [OF wf]], of 3] room by simp
  moreover have "0 < pb_free_cells (ec_sq np)" using room by simp
  then obtain b where b: "ec_broadcasts_recv np o' s h n (EMERGENCY_PACKET # coordinate_bytes co) 5 = Inr b" "node_inv b"
    "np_is_blinking b" "length (items (np_emergency_coords np)) < 10 \<longrightarrow> co \<in> set (items (np_emergency_coords b))"
    "slim ?h \<in> set (items (ec_dq b))" and lane: "\<exists>q k u. lane_view b MSG_TYPE_BROADCAST_DATA = lane_view np MSG_TYPE_BROADCAST_DATA @ [(q, 5, k, u)] \<and>
       take 12 q = alarm_frame o' (ec_node_addr np) (h + 1) n co"
    using alarm_callback [OF inv _ state bpn, of o' s h n co] unfolding returns_def by blast
  note wfb = ec_invD(1) [OF node_invD(1) [OF b(2)]]
  have known: "\<exists>i. find_dupe (alarm_header o' s' h' n) b = Inr (Some i)" for s' h'
  proof -
    have "slim (alarm_header o' s' h' n) = slim ?h" by (simp add: slim_def)
    then show ?thesis using find_dupe_iff [OF wfb, of "alarm_header o' s' h' n"] b(5) by (metis not_None_eq)
  qed
  have store: "store_packet_for_dupe_checks ?h b = Inr b"
  proof -
    obtain i where "find_dupe ?h b = Inr (Some i)" using known [of s h] by blast
    then show ?thesis by (simp add: store_packet_for_dupe_checks_def)
  qed
  ultimately have "broadcast_recv ec_cb (alarm_frame o' s h n co) 12 np = Inr b"
    using b(1) store by (simp add: alarm_arrives broadcast_data_received_def ec_cb_def)
  moreover have "broadcast_recv ec_cb (alarm_frame o' s' h' n co) 12 b = Inr b" for s' h'
    using known [of s' h'] by (auto simp: alarm_arrives broadcast_data_received_def)
  ultimately show ?thesis using b(2-4) lane by blast
qed

text \<open>
  C14: An alarm spreads to every node once. When the alarm of another node arrives for the first time,
  the node blinks, knows of the fire (unless it knows ten already), and has queued the alarm for its
  own neighbors, as it was but with one hop more and itself as the sender. Any further copy of the
  alarm, whoever sent it and after however many hops, leaves the node exactly as it is.
\<close>

theorem alarm_spreads_once:
  assumes inv: "node_inv np" and room: "3 \<le> pb_free_cells (ec_sq np)" and state: "\<not> np_is_sink_node np" "\<not> np_is_reset_mode np"
    and bpn: "np_bpn np = Some p" "in_table p np" and new: "\<lparr>sp_originator = o', sp_seqno = n\<rparr> \<notin> set (items (ec_dq np))"
  shows "\<exists>np'. broadcast_recv ec_cb (alarm_frame o' s h n co) 12 np = Inr np' \<and> np_is_blinking np' \<and>
     (length (items (np_emergency_coords np)) < 10 \<longrightarrow> co \<in> set (items (np_emergency_coords np'))) \<and>
     (\<exists>q k u. lane_view np' MSG_TYPE_BROADCAST_DATA = lane_view np MSG_TYPE_BROADCAST_DATA @ [(q, 5, k, u)] \<and>
        take 12 q = alarm_frame o' (ec_node_addr np) (h + 1) n co) \<and>
     (\<forall>s' h'. broadcast_recv ec_cb (alarm_frame o' s' h' n co) 12 np' = Inr np')"
  using alarm_received [OF assms, of s h co] by blast

lemma alarm_spreads_witness:
  "\<exists>np' q k u. broadcast_recv ec_cb (alarm_frame (9, 0) (3, 0) 1 4 coordinate_null) 12 (deployed\<lparr>np_bpn := Some Max_Node\<rparr>) = Inr np' \<and>
     lane_view np' MSG_TYPE_BROADCAST_DATA = [(q, 5, k, u)] \<and> np_is_blinking np'"
proof -
  let ?np = "deployed\<lparr>np_bpn := Some Max_Node\<rparr>"
  have np: "node_inv ?np" "3 \<le> pb_free_cells (ec_sq ?np)" "\<not> np_is_sink_node ?np" "\<not> np_is_reset_mode ?np"
    "np_bpn ?np = Some Max_Node" "in_table Max_Node ?np" "\<lparr>sp_originator = (9, 0), sp_seqno = 4\<rparr> \<notin> set (items (ec_dq ?np))"
    using node_inv_fields(1) [OF deployed_facts(1)] deployed_connection(2,5) deployed_facts(2)
    by (simp_all add: set_up_def in_table_def)
  have "lane_view ?np MSG_TYPE_BROADCAST_DATA = []"
    using deployed_lanes [of MSG_TYPE_BROADCAST_DATA] by (simp add: lane_view_def msg_type_defs)
  with alarm_spreads_once [OF np, of "(3, 0)" 1 coordinate_null] show ?thesis by fastforce
qed

text \<open>
  A node that has no path yet, because the exit paths were not started, stops when an alarm arrives:
  it is to blink, but the place of its light in the sequence is read from its best neighbor.
\<close>

theorem alarm_without_paths_stops_the_node:
  assumes inv: "node_inv np" and room: "3 \<le> pb_free_cells (ec_sq np)" and state: "\<not> np_is_sink_node np" "\<not> np_is_reset_mode np"
    and dark: "np_bpn np = None" "\<not> np_is_blinking np" "\<not> np_is_burning np"
    and new: "\<lparr>sp_originator = o', sp_seqno = n\<rparr> \<notin> set (items (ec_dq np))"
  shows "broadcast_recv ec_cb (alarm_frame o' s h n co) 12 np = Inl Assert_Failed"
proof -
  let ?h = "alarm_header o' s h n"
  note wf = ec_invD(1) [OF node_invD(1) [OF inv]]
  have "find_dupe ?h np = Inr None" using find_dupe_iff [OF wf, of ?h] new by (metis alarm_header_fields(1,4) slim_def)
  moreover have "packet_buffer_has_room_for_packets (ec_sq np) 3"
    using has_room_iff [OF sq_wfD(1) [OF ec_wfD(1) [OF wf]], of 3] room by simp
  moreover have "0 < pb_free_cells (ec_sq np)" using room by simp
  then obtain np2 where "ec_broadcasts_recv np o' s h n (EMERGENCY_PACKET # coordinate_bytes co) 5 = blinking_init np2"
    "same_node (np\<lparr>np_emergency_coords := np_emergency_coords np2\<rparr>) np2"
    using alarm_forwarded [OF inv _ state] by metis
  moreover from this have "blinking_init np2 = Inl Assert_Failed"
    using dark by (simp add: same_node_def blinking_init_def blinking_update_def Let_def bpn_node_def rtimer_set_def)
  ultimately show ?thesis by (simp add: alarm_arrives broadcast_data_received_def ec_cb_def)
qed

subsection \<open>Along a chain of nodes\<close>

text \<open>
  A frame goes from node to node: each one receives it, its broadcast timer fires, and the frame that it
  sends is received by the next. The result is the last frame, and the nodes.
\<close>

fun relay :: "bytes \<Rightarrow> node_properties list \<Rightarrow> (bytes \<times> node_properties list) result" where
  "relay fr [] = Inr (fr, [])"
| "relay fr (np # nps) =
     bindR (broadcast_recv ec_cb fr (length fr) np) (\<lambda>np.
     bindR (timer_fires ec_cb True Broadcast_Data_Timer np) (\<lambda>np.
     bindR (relay (snd (snd (last (ec_sent np)))) nps) (\<lambda>(fr', nps').
     Inr (fr', np # nps'))))"

text \<open>A node that is at work, knows its way out, and has not heard of the alarm.\<close>

definition ready :: "rimeaddr \<Rightarrow> byte \<Rightarrow> node_properties \<Rightarrow> bool" where
  "ready o' n np \<longleftrightarrow> node_inv np \<and> 3 \<le> pb_free_cells (ec_sq np) \<and> \<not> np_is_sink_node np \<and> \<not> np_is_reset_mode np \<and>
     (\<exists>p. np_bpn np = Some p \<and> in_table p np) \<and> \<lparr>sp_originator = o', sp_seqno = n\<rparr> \<notin> set (items (ec_dq np)) \<and>
     lane_view np MSG_TYPE_BROADCAST_DATA = [] \<and> length (items (np_emergency_coords np)) < 10"

lemma alarm_is_sent_on:
  assumes "ec_wf np" and v: "lane_view np MSG_TYPE_BROADCAST_DATA = [(q, 5, k, u)]" and "take 12 q = fr"
  shows "returns (timer_fires ec_cb True Broadcast_Data_Timer np) (\<lambda>np'. snd (snd (last (ec_sent np'))) = fr \<and>
    np_is_blinking np' = np_is_blinking np \<and> np_emergency_coords np' = np_emergency_coords np)"
proof -
  let ?c = "ctimer_stop Broadcast_Data_Timer np"
  have l: "lane_view ?c MSG_TYPE_BROADCAST_DATA = [(q, 5, k, u)]" "ec.more ?c = ec.more np"
    using v by (simp_all add: ctimer_stop_def lane_view_def)
  obtain np' where r: "send_broadcast_data True ?c = Inr np'" "sends MSG_TYPE_BROADCAST_DATA [] [(Broadcast_Conn, None, fr)] ?c np'"
    using send_broadcast_data_sends [OF stop_wf [OF assms(1)], of True Broadcast_Data_Timer] l(1) assms(3) by (auto simp: returns_def)
  have m: "ec.more np' = ec.more np" "ec_sent np' = ec_sent ?c @ [(Broadcast_Conn, None, fr)]"
    using r(2) l(2) by (simp_all add: sends_def ec_frame_def)
  have "np_is_blinking np' = np_is_blinking np \<and> np_emergency_coords np' = np_emergency_coords np"
    using m(1) by (cases np, cases np') simp
  with r(1) m(2) show ?thesis by (simp add: timer_fires_def)
qed

lemma relay_step:
  assumes "ready o' n np"
  obtains np1 np2 where "broadcast_recv ec_cb (alarm_frame o' s h n co) 12 np = Inr np1"
    and "timer_fires ec_cb True Broadcast_Data_Timer np1 = Inr np2" and "np_is_blinking np2"
    and "co \<in> set (items (np_emergency_coords np2))" and "snd (snd (last (ec_sent np2))) = alarm_frame o' (ec_node_addr np) (h + 1) n co"
proof -
  obtain p where np: "node_inv np" "3 \<le> pb_free_cells (ec_sq np)" "\<not> np_is_sink_node np" "\<not> np_is_reset_mode np" "np_bpn np = Some p"
    "in_table p np" "\<lparr>sp_originator = o', sp_seqno = n\<rparr> \<notin> set (items (ec_dq np))" "lane_view np MSG_TYPE_BROADCAST_DATA = []"
    "length (items (np_emergency_coords np)) < 10" using assms by (auto simp: ready_def)
  obtain np1 q k u where r: "broadcast_recv ec_cb (alarm_frame o' s h n co) 12 np = Inr np1" "node_inv np1" "np_is_blinking np1"
    "co \<in> set (items (np_emergency_coords np1))" "lane_view np1 MSG_TYPE_BROADCAST_DATA = [(q, 5, k, u)]"
    "take 12 q = alarm_frame o' (ec_node_addr np) (h + 1) n co"
    using alarm_received [OF np(1-7), of s h co] np(8,9) by (metis append_Nil)
  from alarm_is_sent_on [OF ec_invD(1) [OF node_invD(1) [OF r(2)]] r(5,6)] that r(1,3,4) show thesis
    unfolding returns_def by metis
qed

text \<open>
  C13: The alarm reaches the end of every chain of nodes. An alarm that is sent along a chain of nodes
  that are at work and have not heard of it, each passing it on when its timer fires, arrives at every
  one of them: at the end all of them blink and know of the fire, and the alarm that leaves the last
  one is that of the first, with as many hops more as there are nodes.
\<close>

theorem alarm_reaches_the_end:
  assumes "list_all (ready o' n) nps"
  shows "\<exists>s' nps'. relay (alarm_frame o' s h n co) nps = Inr (alarm_frame o' s' (h + of_nat (length nps)) n co, nps') \<and>
     list_all (\<lambda>np. np_is_blinking np \<and> co \<in> set (items (np_emergency_coords np))) nps' \<and> length nps' = length nps"
  using assms
proof (induction nps arbitrary: s h)
  case (Cons np nps)
  obtain np1 np2 where r: "broadcast_recv ec_cb (alarm_frame o' s h n co) 12 np = Inr np1"
    "timer_fires ec_cb True Broadcast_Data_Timer np1 = Inr np2" "np_is_blinking np2"
    "co \<in> set (items (np_emergency_coords np2))" "snd (snd (last (ec_sent np2))) = alarm_frame o' (ec_node_addr np) (h + 1) n co"
    using relay_step [of o' n np s h co] Cons.prems by auto
  obtain s' nps' where ih: "relay (alarm_frame o' (ec_node_addr np) (h + 1) n co) nps =
      Inr (alarm_frame o' s' (h + 1 + of_nat (length nps)) n co, nps')"
    "list_all (\<lambda>np. np_is_blinking np \<and> co \<in> set (items (np_emergency_coords np))) nps'" "length nps' = length nps"
    using Cons.IH [of "ec_node_addr np" "h + 1"] Cons.prems by auto
  have hops: "h + of_nat (length (np # nps)) = h + 1 + of_nat (length nps)" by simp
  have "relay (alarm_frame o' s h n co) (np # nps) = Inr (alarm_frame o' s' (h + of_nat (length (np # nps))) n co, np2 # nps')"
    unfolding hops by (simp add: r(1,2,5) ih(1))
  moreover have "list_all (\<lambda>np. np_is_blinking np \<and> co \<in> set (items (np_emergency_coords np))) (np2 # nps')"
    using r(3,4) ih(2) by simp
  moreover have "length (np2 # nps') = length (np # nps)" using ih(3) by simp
  ultimately show ?case by blast
qed (simp del: split_paired_Ex, blast)

definition chain_node :: "byte \<Rightarrow> node_properties" where
  "chain_node a = deployed\<lparr>np_bpn := Some Max_Node, ec_node_addr := (a, 0), np_coordinate_node := coordinate_null\<rparr>"

lemma chain_node_ready: "ready (9, 0) 4 (chain_node a)"
proof -
  have "length (items (np_emergency_coords deployed)) < 10"
    using boot_returns [OF fresh_powered] booted_eq deployed_facts(3) by (auto simp: returns_def same_queues_def)
  moreover have "lane_view (chain_node a) MSG_TYPE_BROADCAST_DATA = []"
    using deployed_lanes [of MSG_TYPE_BROADCAST_DATA] by (simp add: chain_node_def lane_view_def msg_type_defs)
  moreover have "node_inv (chain_node a)"
    unfolding chain_node_def by (rule node_inv_fields(17) [OF node_inv_fields(1) [OF deployed_facts(1)]])
  ultimately show ?thesis
    using deployed_connection(2,5) deployed_facts(2) by (simp add: ready_def) (simp add: chain_node_def set_up_def in_table_def)
qed

lemma alarm_chain_witness:
  "\<exists>s' nps'. relay (alarm_frame (9, 0) (9, 0) 0 4 coordinate_null) (map chain_node [3, 4, 5]) =
       Inr (alarm_frame (9, 0) s' 3 4 coordinate_null, nps') \<and> length nps' = 3 \<and> list_all np_is_blinking nps'"
proof -
  have "list_all (ready (9, 0) 4) (map chain_node [3, 4, 5])" using chain_node_ready by simp
  from alarm_reaches_the_end [OF this, of "(9, 0)" 0 coordinate_null] show ?thesis by (fastforce simp: list_all_iff)
qed

end
