(* ===== verification/Keepalive_Spec.thy ===== *)
theory Keepalive_Spec
  imports Example_Nodes
begin

text \<open>
  The check for silent neighbors: it always ends, it removes only neighbors, and two of its
  properties that a node would rather not have.
\<close>

lemma begin_neighbors:
  assumes "ns_wf ns"
  obtains q where "neighbors_begin ns = (q, head_slot (entries ns))" and "ns_wf q" and "entries q = entries ns"
    and "iterator q = head_slot (entries ns)"
  using iq.first_eq [OF ns_wfD(1) [OF assms]] assms by (auto simp: neighbors_ops ns_wf_def)

lemma next_neighbor:
  assumes "ns_wf ns" and "entries ns = es @ (i, n) # fs" and "iterator ns = Some i"
  obtains q where "neighbors_next ns = Inr (q, head_slot fs)" and "ns_wf q" and "entries q = entries ns"
    and "iterator q = head_slot fs"
  using iq.step_returns [OF ns_wfD(1) [OF assms(1)] assms(2,3)] assms(1)
  by (auto simp: neighbors_ops ns_wf_def returns_def)

text \<open>
  C29: The loop that removes silent neighbors ends, although it starts again after every removal:
  the turns it is given suffice for every table. It leaves a well-formed node; it only removes
  neighbors; and if it does not ask for a new path, the table is as it was, or it is empty.
\<close>

theorem keepalive_loop_terminates:
  assumes "node_inv np"
  shows "returns (case neighbors_begin (ec_ns np) of (ns, nn) \<Rightarrow>
      keepalive_loop keepalive_fuel nn False (np\<lparr>ec_ns := ns\<rparr>))
    (\<lambda>(np', need). node_inv np' \<and> set (entries (ec_ns np')) \<subseteq> set (entries (ec_ns np)) \<and>
       (\<not> need \<longrightarrow> entries (ec_ns np') = [] \<or> entries (ec_ns np') = entries (ec_ns np)))"
proof -
  obtain q where q: "neighbors_begin (ec_ns np) = (q, head_slot (entries (ec_ns np)))" "ns_wf q"
    "entries q = entries (ec_ns np)" "iterator q = head_slot (entries (ec_ns np))"
    using begin_neighbors [OF node_invD(4) [OF assms]] .
  have "9 * length (entries q) + length (entries q) \<le> keepalive_fuel"
    using neighbors_size_le [OF q(2)] by (simp add: items_def keepalive_fuel_def)
  then show ?thesis
    using keepalive_loop_returns [OF node_inv_ns [OF assms q(2)], of "[]" "entries q" keepalive_fuel False] q
    by (auto simp: checked_def elim!: returns_mono)
qed

lemma keepalive_loop_witness:
  "returns (case neighbors_begin (ec_ns deployed) of (ns, nn) \<Rightarrow>
      keepalive_loop keepalive_fuel nn False (deployed\<lparr>ec_ns := ns\<rparr>)) (\<lambda>(np', need). node_inv np')"
  by (rule returns_mono [OF keepalive_loop_terminates [OF deployed_facts(1)]]) auto

subsection \<open>One silent neighbor\<close>

lemma remove_first:
  assumes "ns_wf ns" and "entries ns = (i, n) # es"
  obtains q where "neighbors_remove ns (neighbor_node_addr n) = Inr q" and "ns_wf q" and "entries q = es"
proof -
  have "fst e \<noteq> i" if "e \<in> set es" for e
    using sq.ents_distinct [OF ns_wfD(1) [OF assms(1)]] that assms(2) by force
  then have "filter (\<lambda>e. fst e \<noteq> i) es = es" by (simp add: filter_id_conv)
  then show thesis
    using that neighbors_remove_returns [OF assms(1), of "nn_addr n"] assms(2)
    by (auto simp: neighbor_node_addr_def returns_def)
qed

text \<open>
  C39: When a blinking node finds that its only neighbor, which leads its way to the exit, has gone
  silent, the check succeeds, but leaves the node blinking with no best neighbor: the next interrupt
  of the blinking timer runs into a failing assertion.
\<close>

theorem last_neighbor_gone_stops_the_node:
  assumes inv: "node_inv np" and ns: "entries (ec_ns np) = [(i, n)]" and silent: "nn_has_sent_keep_alive n = 0"
    and state: "np_bpn np = Some (Table_Node i)" "np_is_blinking np" "\<not> np_is_burning np"
  shows "\<exists>np'. keepalive_check np = Inr np' \<and> items (ec_ns np') = [] \<and> blink np' = Inl Assert_Failed"
proof -
  obtain q where q: "neighbors_begin (ec_ns np) = (q, Some i)" "ns_wf q" "entries q = [(i, n)]"
    using begin_neighbors [OF node_invD(4) [OF inv]] ns by (metis fst_conv head_slot_simps(2))
  obtain q1 where q1: "neighbors_remove q (neighbor_node_addr n) = Inr q1" "ns_wf q1" "entries q1 = []"
    using remove_first [OF q(2,3)] .
  obtain q2 where q2: "neighbors_begin q1 = (q2, None)" "ns_wf q2" "entries q2 = []"
    using begin_neighbors [OF q1(2)] q1(3) by (metis head_slot_simps(1))
  obtain q3 where q3: "clear_keep_alives q2 = Inr q3" "entries q3 = []"
    using clear_keep_alives_returns [OF q2(2)] q2(3) by (auto simp: returns_def)
  have d: "get_data q i = Inr n" by (rule get_data_entry [OF ns_wfD(1) [OF q(2)]]) (simp add: q(3))
  obtain fuel where f: "keepalive_fuel = Suc fuel" by (simp add: keepalive_fuel_def)
  have "keepalive_check np = Inr (np\<lparr>np_bpn := None, ec_ns := q3\<rparr>)"
    using state q(1) q1(1) q2(1) q3(1) d silent
    by (simp add: keepalive_check_def f neighbor_node_has_sent_keep_alive_def Let_def)
  moreover have "blink (np\<lparr>np_bpn := None, ec_ns := q3\<rparr>) = Inl Assert_Failed"
    using state by (simp add: blink_def bpn_node_def)
  ultimately show ?thesis using q3(2) by (auto simp: items_def)
qed

text \<open>A node set up with the given neighbors, all of which have been silent since the last check.\<close>

lemma silent_node:
  assumes "length as \<le> 8"
  obtains np where "node_inv np" and "\<not> np_is_burning np"
    and "map (\<lambda>(i, n). nn_addr n) (entries (ec_ns np)) = rev as"
    and "\<forall>(i, n) \<in> set (entries (ec_ns np)). nn_has_sent_keep_alive n = 0"
proof -
  let ?sp = "\<lparr>sp_new_addr = (5, 0), sp_new_coord = coordinate_null, sp_is_exit_node = 0, sp_neighbors = as\<rparr>"
  obtain np1 where np1: "node_inv np1" "set_up ?sp np1"
    using setup_parse_returns [OF booted_facts(1), of ?sp "[]" False] assms by (auto simp: returns_def)
  obtain ns where ns: "ns_wf ns" "entries ns = map (\<lambda>(i, n). (i, neighbor_node_set_has_sent_keep_alive n 0)) (entries (ec_ns np1))"
    using clear_keep_alives_returns [OF node_invD(4) [OF np1(1)]] by (auto simp: returns_def)
  have "map (\<lambda>(i, n). nn_addr n) (entries ns) = neighbor_addrs (ec_ns np1)"
    by (simp add: ns(2) neighbor_addrs_def items_def case_prod_beta neighbor_node_set_has_sent_keep_alive_def comp_def)
  also have "\<dots> = rev as" using np1(2) by (simp add: set_up_def)
  finally have addrs: "map (\<lambda>(i, n). nn_addr n) (entries ns) = rev as" .
  have "\<forall>(i, n) \<in> set (entries ns). nn_has_sent_keep_alive n = 0"
    by (auto simp: ns(2) neighbor_node_set_has_sent_keep_alive_def)
  with addrs that [of "np1\<lparr>ec_ns := ns\<rparr>"] node_inv_ns [OF np1(1) ns(1)] np1(2) show thesis
    by (simp add: set_up_def)
qed

lemma last_neighbor_witness:
  "\<exists>np np'. node_inv np \<and> np_is_blinking np \<and> keepalive_check np = Inr np' \<and> blink np' = Inl Assert_Failed"
proof -
  obtain np where np: "node_inv np" "\<not> np_is_burning np"
    "map (\<lambda>(i, n). nn_addr n) (entries (ec_ns np)) = rev [(7, 0)]"
    "\<forall>(i, n) \<in> set (entries (ec_ns np)). nn_has_sent_keep_alive n = 0"
    using silent_node [of "[(7, 0)]"] by auto
  then obtain i n where e: "entries (ec_ns np) = [(i, n)]" "nn_has_sent_keep_alive n = 0"
    by (cases "entries (ec_ns np)") auto
  let ?np = "np\<lparr>np_bpn := Some (Table_Node i), np_is_blinking := True\<rparr>"
  have inv: "node_inv ?np" using np(1) by (simp add: node_inv_fields)
  obtain np' where "keepalive_check ?np = Inr np'" "blink np' = Inl Assert_Failed"
    using last_neighbor_gone_stops_the_node [OF inv, of i n] e np(2) by auto
  with inv show ?thesis by (intro exI [of _ ?np] exI [of _ np']) simp
qed

text \<open>
  After a removal the next neighbor is not looked at: of two silent neighbors, the check removes
  the first and keeps the second, which then counts as silent again; it asks for a new path.
\<close>

theorem second_silent_neighbor_survives:
  assumes inv: "node_inv np" and ns: "entries (ec_ns np) = [(i, n), (j, m)]"
    and silent: "nn_has_sent_keep_alive n = 0" "nn_has_sent_keep_alive m = 0"
  shows "\<exists>np'. (case neighbors_begin (ec_ns np) of (ns, nn) \<Rightarrow>
       keepalive_loop keepalive_fuel nn False (np\<lparr>ec_ns := ns\<rparr>)) = Inr (np', True) \<and> entries (ec_ns np') = [(j, m)]"
proof -
  obtain q where q: "neighbors_begin (ec_ns np) = (q, Some i)" "ns_wf q" "entries q = [(i, n), (j, m)]"
    using begin_neighbors [OF node_invD(4) [OF inv]] ns by (metis fst_conv head_slot_simps(2))
  obtain q1 where q1: "neighbors_remove q (neighbor_node_addr n) = Inr q1" "ns_wf q1" "entries q1 = [(j, m)]"
    using remove_first [OF q(2,3)] .
  obtain q2 where q2: "neighbors_begin q1 = (q2, Some j)" "ns_wf q2" "entries q2 = [(j, m)]" "iterator q2 = Some j"
    using begin_neighbors [OF q1(2)] q1(3) by (metis fst_conv head_slot_simps(2))
  have e2: "entries q2 = [] @ (j, m) # []" using q2(3) by simp
  obtain q3 where q3: "neighbors_next q2 = Inr (q3, None)" "entries q3 = entries q2"
    using next_neighbor [OF q2(2) e2 q2(4)] by (metis head_slot_simps(1))
  have d: "get_data q i = Inr n" by (rule get_data_entry [OF ns_wfD(1) [OF q(2)]]) (simp add: q(3))
  obtain fuel where f: "keepalive_fuel = Suc fuel" by (simp add: keepalive_fuel_def)
  define np1 where "np1 = (if np_bpn np = Some (Table_Node i) then np\<lparr>np_bpn := None\<rparr> else np)"
  have "keepalive_loop keepalive_fuel (Some i) False (np\<lparr>ec_ns := q\<rparr>) = Inr (np1\<lparr>ec_ns := q3\<rparr>, True)"
    unfolding f keepalive_loop.simps(3)
    by (simp add: d silent(1) q1(1) q2(1) q3(1) neighbor_node_has_sent_keep_alive_def Let_def np1_def)
  then show ?thesis by (simp add: q(1) q3(2) q2(3))
qed

lemma second_silent_witness:
  "\<exists>np np' e. node_inv np \<and> length (entries (ec_ns np)) = 2 \<and> (case neighbors_begin (ec_ns np) of (ns, nn) \<Rightarrow>
       keepalive_loop keepalive_fuel nn False (np\<lparr>ec_ns := ns\<rparr>)) = Inr (np', True) \<and> entries (ec_ns np') = [e]"
proof -
  have "length [(7, 0), (4, 0) :: rimeaddr] \<le> 8" by simp
  from silent_node [OF this] obtain np where np: "node_inv np"
    "map (\<lambda>(i, n). nn_addr n) (entries (ec_ns np)) = rev [(7, 0), (4, 0)]"
    "\<forall>(i, n) \<in> set (entries (ec_ns np)). nn_has_sent_keep_alive n = 0" by blast
  from np(2) have "length (entries (ec_ns np)) = 2" by (metis length_map length_rev length_Cons list.size(3) numeral_2_eq_2)
  then obtain i n j m where e: "entries (ec_ns np) = [(i, n), (j, m)]"
    by (cases "entries (ec_ns np)"; cases "tl (entries (ec_ns np))") auto
  with np(3) have "nn_has_sent_keep_alive n = 0" "nn_has_sent_keep_alive m = 0" by auto
  from second_silent_neighbor_survives [OF np(1) e this] e np(1) show ?thesis by auto
qed

end
