(* ===== verification/Setup_Spec.thy ===== *)
theory Setup_Spec
  imports Example_Nodes
begin

text \<open>
  Setup: the command that the graphical interface writes and the packet the node makes of it, what
  the packet does to the node that receives it, and what is left after a reset. The numbers of the
  command are printed in decimal, as the interface does.
\<close>

subsection \<open>Numbers\<close>

definition digit_char :: "nat \<Rightarrow> char" where
  "digit_char d = char_of (48 + d)"

fun decimal :: "nat \<Rightarrow> string" where
  "decimal n = (if n < 10 then [digit_char n] else decimal (n div 10) @ [digit_char (n mod 10)])"

declare decimal.simps [simp del]

lemma digit_char_code: "d < 10 \<Longrightarrow> of_char (digit_char d) = (48 + of_nat d :: 'a :: linordered_semidom)"
proof -
  assume "d < 10"
  then have "of_char (char_of (48 + d) :: char) = (48 + d :: nat)" by (simp add: of_char_of)
  then show ?thesis unfolding digit_char_def by (metis of_nat_add of_nat_numeral of_nat_of_char)
qed

lemma digit_char_props: "d < 10 \<Longrightarrow> is_digit (digit_char d) \<and> \<not> is_space (digit_char d)"
  by (simp add: is_digit_def is_space_def digit_char_code)

lemma decimal_digits: "\<forall>c \<in> set (decimal n). is_digit c \<and> \<not> is_space c"
  by (induction n rule: decimal.induct) (subst decimal.simps, auto simp: digit_char_props)

lemma decimal_nonempty [simp]: "decimal n \<noteq> []"
  by (subst decimal.simps) simp

lemma digits_value_append:
  "\<forall>c \<in> set s. is_digit c \<Longrightarrow> digits_value acc (s @ t) = digits_value (digits_value acc s) t"
  by (induction s arbitrary: acc) auto

lemma digits_value_decimal: "digits_value 0 (decimal n) = int n"
proof (induction n rule: decimal.induct)
  case (1 n)
  show ?case
  proof (cases "n < 10")
    case True
    then show ?thesis by (subst decimal.simps) (simp add: digit_char_code digit_char_props)
  next
    case False
    have d: "\<forall>c \<in> set (decimal (n div 10)). is_digit c" using decimal_digits by blast
    have "digits_value 0 (decimal n) = 10 * int (n div 10) + int (n mod 10)"
      using False 1 digit_char_props [of "n mod 10"]
      by (subst decimal.simps) (simp add: digits_value_append [OF d] digit_char_code)
    then show ?thesis by (simp add: zdiv_int zmod_int)
  qed
qed

lemma digit_not: "is_digit c \<Longrightarrow> c \<noteq> CHR ''-'' \<and> c \<noteq> CHR ''+'' \<and> c \<noteq> CHR ''.'' \<and> c \<noteq> CHR '':''"
  by (auto simp: is_digit_def)

lemma atoi_decimal: "atoi (decimal n) = int n"
proof -
  obtain c t where ct: "decimal n = c # t" by (cases "decimal n") simp_all
  then have "is_digit c" "\<not> is_space c" using decimal_digits [of n] by auto
  with ct digits_value_decimal [of n] digit_not [of c] show ?thesis by (simp add: atoi_def)
qed

subsection \<open>Tokens\<close>

lemma strtok_decimal:
  assumes "d \<in> {CHR ''.'', CHR '':''}"
  shows "strtok d (decimal n @ d # r) = (Some (decimal n), r)" and "strtok d (decimal n) = (Some (decimal n), [])"
proof -
  have d: "c \<noteq> d" if "c \<in> set (decimal n)" for c
    using decimal_digits [of n] that assms digit_not [of c] by auto
  obtain c t where ct: "decimal n = c # t" by (cases "decimal n") simp_all
  have t: "takeWhile (\<lambda>c. c \<noteq> d) t = t" "dropWhile (\<lambda>c. c \<noteq> d) t = []"
    "takeWhile (\<lambda>c. c \<noteq> d) (t @ d # r) = t" "dropWhile (\<lambda>c. c \<noteq> d) (t @ d # r) = d # r"
    using d ct by (auto simp: takeWhile_append dropWhile_append)
  have "c \<noteq> d" using d ct by simp
  then show "strtok d (decimal n @ d # r) = (Some (decimal n), r)" "strtok d (decimal n) = (Some (decimal n), [])"
    by (simp_all add: strtok_def ct t)
qed

lemma token_decimal:
  "d \<in> {CHR ''.'', CHR '':''} \<Longrightarrow> token d (decimal n @ d # r) = Inr (int n, r)"
  "d \<in> {CHR ''.'', CHR '':''} \<Longrightarrow> token d (decimal n) = Inr (int n, [])"
  by (simp_all add: token_def strtok_decimal atoi_decimal)

subsection \<open>The command\<close>

definition pair_text :: "nat \<Rightarrow> nat \<Rightarrow> string" where
  "pair_text a b = decimal a @ ''.'' @ decimal b"

fun neighbors_text :: "rimeaddr list \<Rightarrow> string" where
  "neighbors_text [] = []"
| "neighbors_text [a] = pair_text (unat (fst a)) (unat (snd a))"
| "neighbors_text (a # as) = pair_text (unat (fst a)) (unat (snd a)) @ '':'' @ neighbors_text as"

definition setup_text :: "setup_packet \<Rightarrow> string" where
  "setup_text sp = ''send_setup_packet:'' @ pair_text (unat (fst (sp_new_addr sp))) (unat (snd (sp_new_addr sp))) @ '':'' @
     pair_text (unat (uint8_to_uint16 (cx (sp_new_coord sp)))) (unat (uint8_to_uint16 (cy (sp_new_coord sp)))) @ '':'' @
     decimal (unat (sp_is_exit_node sp)) @ '':'' @ neighbors_text (sp_neighbors sp)"

lemma of_int_unat [simp]: "of_int (int (unat w)) = w"
  by simp

lemma strtok_empty [simp]: "strtok d [] = (None, [])"
  by (simp add: strtok_def)

lemma parse_neighbors_text:
  "length as + length cs \<le> 8 \<Longrightarrow> length as < fuel \<Longrightarrow> parse_neighbors fuel (neighbors_text as) cs = Inr (cs @ as)"
proof (induction as arbitrary: fuel cs rule: neighbors_text.induct)
  case 1
  then show ?case by (cases fuel) simp_all
next
  case (2 a)
  then obtain f where f: "fuel = Suc f" "0 < f" by (cases fuel) auto
  then obtain g where g: "f = Suc g" by (cases f) auto
  have "\<not> unat MAX_NEIGHBORS \<le> length cs" using 2 by (simp add: MAX_NEIGHBORS_def)
  then show ?case
    by (simp add: f g pair_text_def strtok_decimal token_decimal atoi_decimal)
next
  case (3 a b as)
  then obtain f where f: "fuel = Suc f" by (cases fuel) auto
  have "\<not> unat MAX_NEIGHBORS \<le> length cs" using 3(2) by (simp add: MAX_NEIGHBORS_def)
  moreover have "parse_neighbors f (neighbors_text (b # as)) (cs @ [a]) = Inr ((cs @ [a]) @ b # as)"
    by (rule 3(1)) (use 3(2,3) f in simp_all)
  ultimately show ?case
    by (simp add: f pair_text_def strtok_decimal token_decimal atoi_decimal)
qed

lemma length_neighbors_text: "length as \<le> length (neighbors_text as)"
  by (induction as rule: neighbors_text.induct) (simp_all add: pair_text_def)

lemma strtok_name: "strtok (CHR '':'') (''send_setup_packet:'' @ r) = (Some ''send_setup_packet'', r)"
  by (simp add: strtok_def)

lemma parse_setup_text:
  assumes "sp_neighbors sp \<noteq> []" and "length (sp_neighbors sp) \<le> 8"
    and "uint8_to_uint16 (cx (sp_new_coord sp)) < 32768" and "uint8_to_uint16 (cy (sp_new_coord sp)) < 32768"
  shows "parse_setup_packet (setup_text sp) = Inr sp"
proof -
  have "parse_neighbors (Suc (length (neighbors_text (sp_neighbors sp)))) (neighbors_text (sp_neighbors sp)) [] =
      Inr (sp_neighbors sp)"
    using parse_neighbors_text [of "sp_neighbors sp" "[]"] assms(2) length_neighbors_text [of "sp_neighbors sp"]
    by (simp add: le_imp_less_Suc del: parse_neighbors.simps)
  with assms(1) show ?thesis
    unfolding parse_setup_packet_def setup_text_def strtok_name
    by (cases sp, cases "sp_new_coord sp") (simp add: pair_text_def token_decimal)
qed

text \<open>
  C25: The node understands the setup commands of the interface: for every setup packet with one to
  eight neighbors and coordinates that fit a signed 16-bit number, printing it as a command and
  parsing the command gives the packet back.
\<close>

theorem setup_command_roundtrip:
  assumes "sp_neighbors sp \<noteq> []" and "length (sp_neighbors sp) \<le> 8"
    and "uint8_to_uint16 (cx (sp_new_coord sp)) < 32768" and "uint8_to_uint16 (cy (sp_new_coord sp)) < 32768"
  shows "parse_setup_packet (setup_text sp) = Inr sp"
  by (rule parse_setup_text [OF assms])

lemma setup_command_witness:
  "parse_setup_packet (setup_text (cooja_packet 2 1 0 0 [1, 3, 6])) = Inr (cooja_packet 2 1 0 0 [1, 3, 6])"
  by (rule setup_command_roundtrip) (simp_all add: cooja_packet_def uint8_to_uint16_def)

subsection \<open>A setup packet with the largest number of neighbors\<close>

lemma buffer_packet_too_long:
  assumes wf: "pb_wf pb" and room: "length (entries (pbuffer pb)) < capacity (pbuffer pb)" and t: "t < 7"
    and ns: "\<forall>n. ns = Some n \<longrightarrow> ns_wf n" and long: "32 \<le> length hdr + unat data_len"
  shows "buffer_packet pb hdr data data_len ns t = Inl Assert_Failed"
proof -
  obtain pb1 i where a: "allocate_buffered_packet pb t = Inr (pb1, Some i)" "pb_wf pb1" "i < length (pool (pbuffer pb1))"
    using allocate_law [OF wf room t] by metis
  define bp where "bp = payload (pbuffer pb1) ! i"
  have c: "get_packet pb1 i = Inr bp" "cell_ok bp" using get_packet_used [OF a(2,3)] by (simp_all add: bp_def)
  obtain bp1 ns1 where u: "(case ns of
                  None \<Rightarrow> Inr (bp, None)
                | Some n \<Rightarrow>
                    bindR (queue_buffer_init (pool (unacked_ns bp)) (neighbors_size n)) (\<lambda>u.
                    bindR (copy_neighbors u n) (\<lambda>(u, n). Inr (bp\<lparr>unacked_ns := u\<rparr>, Some n)))) = Inr (bp1, ns1)"
    using unacked_list_returns [OF c(2) ns] by (auto simp: returns_def)
  show ?thesis
    using long by (simp add: buffer_packet_def a(1) c(1) u MAX_PACKET_SIZE_def)
qed

text \<open>
  A setup packet for a node with eight neighbors, which is as many as a node can have, is one
  byte too long for the packet buffer: the command that asks for it is understood, and then the node
  that should send the packet runs into a failing assertion.
\<close>

theorem eight_neighbors_cannot_be_sent:
  assumes "node_inv np" and "0 < pb_free_cells (ec_sq np)" and "length (sp_neighbors sp) = 8"
    and "uint8_to_uint16 (cx (sp_new_coord sp)) < 32768" and "uint8_to_uint16 (cy (sp_new_coord sp)) < 32768"
  shows "send_setup_packet (setup_text sp) np = Inl Assert_Failed"
proof -
  note wf = ec_wfD [OF ec_invD(1) [OF node_invD(1) [OF assms(1)]]]
  have room: "length (entries (pbuffer (ec_sq np))) < capacity (pbuffer (ec_sq np))"
    using assms(2) by (simp add: pb_free_cells_def)
  have ns: "\<forall>n. conn_ns (next_seqno np) = Some n \<longrightarrow> ns_wf n"
    using wf(4) by (simp add: conn_ns_def next_seqno_def)
  have long: "32 \<le> length (header_bytes h) + unat (of_nat (length (setup_bytes sp)) :: byte)" for h
    using assms(3) by simp
  have "buffer_packet (ec_sq (next_seqno np)) (header_bytes h) (setup_bytes sp) (of_nat (length (setup_bytes sp)))
      (conn_ns (next_seqno np)) MSG_TYPE_BROADCAST_DATA = Inl Assert_Failed" for h
    by (rule buffer_packet_too_long [OF _ _ _ ns long])
       (use sq_wfD(1) [OF wf(1)] room in \<open>simp_all add: next_seqno_def msg_type_defs\<close>)
  then have "broadcast_own (setup_bytes sp) np = Inl Assert_Failed"
    by (simp add: broadcast_own_def ec_broadcast_def Let_def sq_broadcast_ns_def sq_broadcast_def
        packet_buffer_broadcast_packet_def)
  moreover have "parse_setup_packet (setup_text sp) = Inr sp"
    by (rule parse_setup_text) (use assms(3-5) in auto)
  ultimately show ?thesis by (simp add: send_setup_packet_def)
qed

lemma eight_neighbors_witness:
  "send_setup_packet (setup_text (cooja_packet 2 1 0 0 [1, 3, 4, 5, 6, 7, 8, 9])) deployed = Inl Assert_Failed"
  by (rule eight_neighbors_cannot_be_sent [OF deployed_facts(1)])
     (simp_all add: deployed_connection(2) cooja_packet_def uint8_to_uint16_def)

subsection \<open>Setting up\<close>

text \<open>
  C26: A setup packet gives the node its address, its coordinate, its role and its neighbors, in the
  reverse of their order in the packet, clears the node's flags, and burns the packet to the flash;
  what is queued, remembered or known to burn stays as it is.
\<close>

theorem setup_packet_sets_the_node_up:
  assumes "node_inv np" and "length (sp_neighbors sp) \<le> 8"
  shows "returns (setup_parse (setup_bytes sp) False np) (\<lambda>np'. node_inv np' \<and>
     ec_node_addr np' = sp_new_addr sp \<and> np_coordinate_node np' = sp_new_coord sp \<and>
     np_is_exit_node np' = (sp_is_exit_node sp \<noteq> 0) \<and> neighbor_addrs (ec_ns np') = rev (sp_neighbors sp) \<and>
     \<not> np_is_blinking np' \<and> \<not> np_is_burning np' \<and> \<not> np_is_reset_mode np' \<and>
     ec_sq np' = ec_sq np \<and> ec_dq np' = ec_dq np \<and> np_emergency_coords np' = np_emergency_coords np \<and>
     node_properties_restore (length (setup_bytes sp)) (np_flash np') = Some (setup_bytes sp))"
  using setup_parse_returns [OF assms, of "[]" False] pread_burn [of "length (setup_bytes sp)" "setup_bytes sp" "np_flash np"]
  by (auto simp: set_up_def same_queues_def elim!: returns_mono)

lemma setup_packet_witness:
  "returns (setup_parse (setup_bytes (cooja_packet 3 1 1 0 [4, 2])) False deployed)
     (\<lambda>np. neighbor_addrs (ec_ns np) = [(2, 0), (4, 0)])"
  by (rule returns_mono [OF setup_packet_sets_the_node_up [OF deployed_facts(1)]]) (simp_all add: cooja_packet_def)

text \<open>A setup packet that lists more neighbors than a node can have stops the node.\<close>

lemma too_many_neighbors_stop_the_node:
  assumes "node_inv np" and "8 < length (sp_neighbors sp)" and "length (sp_neighbors sp) < 256"
  shows "setup_parse (setup_bytes sp) from_flash np = Inl Assert_Failed"
  using setup_parse_fails [OF assms, of "[]"] by simp

lemma too_many_neighbors_witness:
  "setup_parse (setup_bytes (cooja_packet 1 0 0 0 [2, 3, 4, 5, 6, 7, 8, 9, 10])) False deployed = Inl Assert_Failed"
  by (rule too_many_neighbors_stop_the_node [OF deployed_facts(1)]) (simp_all add: cooja_packet_def)

text \<open>
  C24: A node survives a reset: whatever happens to a node that was set up from a packet, as long as
  its flash keeps what the setup burned, the reset that the network can ask for gives it the
  identity, the role and the neighbors of that packet again, and puts it into reset mode.
\<close>

theorem reset_restores_the_setup:
  assumes "node_inv np" and "length (sp_neighbors sp) \<le> 8" and "setup_parse (setup_bytes sp) False np = Inr np1"
    and "node_inv np2" and "np_flash np2 = np_flash np1"
  shows "returns (reset_system_packet_handler np2) (\<lambda>np'. node_inv np' \<and>
     ec_node_addr np' = sp_new_addr sp \<and> np_coordinate_node np' = sp_new_coord sp \<and>
     np_is_exit_node np' = (sp_is_exit_node sp \<noteq> 0) \<and> neighbor_addrs (ec_ns np') = rev (sp_neighbors sp) \<and>
     np_is_reset_mode np' \<and> \<not> np_is_blinking np' \<and> \<not> np_is_burning np')"
proof -
  have "np_flash np2 = node_properties_burn (setup_bytes sp) (np_flash np)"
    using setup_parse_returns [OF assms(1,2), of "[]" False] assms(3,5) by simp
  from restore_setup_returns [OF assms(4,2) this] show ?thesis
    by (auto simp: reset_system_packet_handler_def returns_def set_up_def node_inv_fields)
qed

lemma reset_restores_witness:
  "returns (reset_system_packet_handler (deployed\<lparr>np_is_burning := True, np_bpn := Some Max_Node\<rparr>)) (\<lambda>np. ec_node_addr np = (2, 0) \<and> np_is_reset_mode np)"
proof -
  let ?sp = "cooja_packet 2 1 0 0 [1, 3, 6]"
  let ?np = "deployed\<lparr>np_is_burning := True, np_bpn := Some Max_Node\<rparr>"
  have n: "length (sp_neighbors ?sp) \<le> 8" by (simp add: cooja_packet_def)
  obtain np1 where np1: "setup_parse (setup_bytes ?sp) False booted = Inr np1"
    "np_flash np1 = node_properties_burn (setup_bytes ?sp) (np_flash booted)"
    using setup_parse_returns [OF booted_facts(1) n, of "[]" False] by (auto simp: returns_def)
  have "np_flash deployed = np_flash np1"
    using deployed_returns deployed_eq np1(2) by (auto simp: returns_def)
  with reset_restores_the_setup [OF booted_facts(1) n np1(1), of ?np] deployed_facts(1) show ?thesis
    by (auto simp: node_inv_fields cooja_packet_def elim!: returns_mono)
qed

subsection \<open>The simulated topology\<close>

definition topology :: "setup_packet list" where
  "topology = map (\<lambda>n. the (cooja_setup n)) [''1'', ''2'', ''3'', ''4'', ''5'', ''6'', ''7'', ''8'']"

text \<open>
  The simulated network is consistent: whenever one of its eight nodes names a neighbor, that
  node is set up, too, names the first one in turn, and is one step away from it.
\<close>

theorem simulated_neighbors_are_mutual:
  "list_all (\<lambda>sp. list_all (\<lambda>a. list_ex (\<lambda>sp'. sp_new_addr sp' = a \<and> sp_new_addr sp \<in> set (sp_neighbors sp') \<and>
       coordinate_distance (sp_new_coord sp) (sp_new_coord sp') = 1) topology) (sp_neighbors sp)) topology \<and>
   length (filter (\<lambda>sp. sp_is_exit_node sp \<noteq> 0) topology) = 2"
  by code_simp

end
