(* ===== verification/Report_Spec.thy ===== *)
theory Report_Spec
  imports Example_Nodes
begin

text \<open>
  Reports: the graphical interface asks the nodes for a report through the sink, every node answers
  through the mesh, and the sink prints what arrives.
\<close>

text \<open>What the mesh carries of the report that is queued for \<open>dest\<close>.\<close>

lemma queued_mesh_frame:
  assumes "appended (unicast_bytes (init_unicast_packet 0 0 a b s dest)) data l None v" and "unat l \<le> length data"
  shows "\<exists>h. mesh_frame v = (Meshdata_Conn, Some dest, h # take (unat l) data)"
proof -
  obtain p k n u where v: "v = (p, k, n, u)" by (cases v)
  let ?h = "unicast_bytes (init_unicast_packet 0 0 a b s dest)"
  have len: "length ?h = 9" by simp
  have p: "take (9 + unat l) p = ?h @ take (unat l) data" "length p = 39" "k = l"
    using assms(1) len by (simp_all add: v appended_def)
  then have "drop 9 (take (9 + unat l) p) = take (unat l) data" using len by simp
  then have d: "take (unat l) (drop 9 p) = take (unat l) data" by (simp add: drop_take add.commute)
  have "take 9 p = ?h" using p(1) len by (metis append_eq_conv_conj take_take min.absorb1 le_add1)
  moreover have "addr_at p 7 = addr_at (take 9 p) 7" by (simp add: addr_at_def)
  ultimately have "addr_at p 7 = dest"
    using unicast_destination [of "init_unicast_packet 0 0 a b s dest" "[]"] by (simp add: init_unicast_packet_def)
  with d p(3) show ?thesis by (simp add: v mesh_frame_def)
qed

text \<open>The line that the sink prints about a node.\<close>

definition report_line :: "node_properties \<Rightarrow> gui_line" where
  "report_line np = Gui_Node_Report_Packet (ec_node_addr np)
     (uint8_to_uint16 (cx (np_coordinate_node np))) (uint8_to_uint16 (cy (np_coordinate_node np)))
     (of_bool (np_is_burning np)) (of_bool (np_is_exit_node np))"

lemma sink_prints:
  "meshdata_recv ec_cb (ec_node_addr np) hops (h # node_report np) n sink =
     Inr (sink\<lparr>np_printed := np_printed sink @ [report_line np]\<rparr>)"
  by (simp add: meshdata_recv_def read_mem_def ec_cb_def ec_mesh_recv_def packet_type_def read_coordinate_def
      node_report_def node_report_bytes_def coordinate_bytes_def coordinate_at_def report_line_def MESH_PACKET_HDR_SIZE_def)

lemma report_request:
  assumes inv: "node_inv np" and room: "2 \<le> pb_free_cells (ec_sq np)"
    and len: "0 < unat l" "unat l \<le> 24" "unat l \<le> Suc (length rest)"
    and state: "\<not> np_is_reset_mode np" "\<not> np_is_sink_node np"
  shows "returns (ec_broadcasts_recv np gui s h n (EXTRACT_REPORT_PACKET # rest) l) (\<lambda>np'. ec_wf np' \<and>
     ec_sent np' = ec_sent np \<and>
     (\<exists>v k. mesh_frame v = (Meshdata_Conn, Some gui, k # node_report np) \<and> fst (snd (snd v)) = 0 \<and>
        lane_view np' MSG_TYPE_MESH_DATA = lane_view np MSG_TYPE_MESH_DATA @ [v]))"
proof -
  let ?data = "EXTRACT_REPORT_PACKET # rest" and ?r = "node_report np"
  note wf = ec_invD(1) [OF node_invD(1) [OF inv]]
  have room1: "0 < pb_free_cells (ec_sq np)" and len1: "unat l \<le> length ?data" using room len by simp_all
  obtain np1 where f: "forward_broadcast gui h n ?data l np = Inr np1" "ec_wf np1" "ec_sent np1 = ec_sent np"
    "pb_free_cells (ec_sq np1) = pb_free_cells (ec_sq np) - 1"
    "lane_view np1 MSG_TYPE_MESH_DATA = lane_view np MSG_TYPE_MESH_DATA"
    using ec_broadcast_calls [OF wf room1 len(2) len1, of gui "ec_node_addr np" "h + 1" n]
    by (auto simp: forward_broadcast_def returns_def Let_def calls_def queues_def ec_keep_def sq_effect_def msg_type_defs)
  have l7: "length ?r = 7" "unat (of_nat (length ?r) :: byte) = 7"
    by (simp_all add: node_report_def node_report_bytes_def coordinate_bytes_def)
  let ?np = "next_seqno np1"
  have wf2: "ec_wf ?np" and room2: "0 < pb_free_cells (ec_sq ?np)"
    using f(2,4) room by (simp_all add: next_seqno_def ec_wf_def)
  obtain np2 v where m: "ec_mesh gui (np_seqno np1) ?r (of_nat (length ?r)) ?np = Inr np2" "ec_wf np2"
    "ec_sent np2 = ec_sent np1" "lane_view np2 MSG_TYPE_MESH_DATA = lane_view ?np MSG_TYPE_MESH_DATA @ [v]"
    "appended (unicast_bytes (init_unicast_packet 0 0 rimeaddr_null rimeaddr_null (np_seqno np1) gui)) ?r
       (of_nat (length ?r)) None v"
    using ec_mesh_queues [OF wf2 room2, of "of_nat (length ?r)" ?r gui "np_seqno np1"] l7
    by (auto simp: returns_def queues_def ec_keep_def sq_effect_def next_seqno_def)
  have run: "ec_broadcasts_recv np gui s h n ?data l = Inr np2"
    using f(1) m(1) state
    by (simp add: ec_broadcasts_recv_def packet_type_def read_mem_def regular_broadcast_recv_def packet_type_defs Let_def)
  have zero: "fst (snd (snd v)) = 0" using m(5) by (auto simp: appended_def)
  obtain k where "mesh_frame v = (Meshdata_Conn, Some gui, k # ?r)"
    using queued_mesh_frame [OF m(5)] l7 by auto
  moreover have "lane_view np2 MSG_TYPE_MESH_DATA = lane_view np MSG_TYPE_MESH_DATA @ [v]"
    using m(4) f(5) by (simp add: next_seqno_def lane_view_def)
  moreover have "ec_sent np2 = ec_sent np" using m(3) f(3) by simp
  ultimately show ?thesis using run m(2) zero by (simp only: returns_Inr) blast
qed

text \<open>
  C28: A report reaches the graphical interface: a node that is asked for one, and whose lane to the
  mesh is empty, sends a single frame to the node that asked when the mesh accepts it; whatever node
  receives this frame from the mesh prints the address, the place, and whether the node burns and is
  an exit, exactly as they were when the request came.
\<close>

theorem report_is_printed:
  assumes inv: "node_inv np" and room: "2 \<le> pb_free_cells (ec_sq np)"
    and len: "0 < unat l" "unat l \<le> 24" "unat l \<le> Suc (length rest)"
    and state: "\<not> np_is_reset_mode np" "\<not> np_is_sink_node np" and lane: "lane_view np MSG_TYPE_MESH_DATA = []"
  shows "returns (bindR (ec_broadcasts_recv np gui s h n (EXTRACT_REPORT_PACKET # rest) l)
       (timer_fires ec_cb True Mesh_Data_Timer))
     (\<lambda>np'. lane_view np' MSG_TYPE_MESH_DATA = [] \<and>
        (\<exists>fr. ec_sent np' = ec_sent np @ [(Meshdata_Conn, Some gui, fr)] \<and>
          (\<forall>sink hops. meshdata_recv ec_cb (ec_node_addr np) hops fr (length fr) sink =
             Inr (sink\<lparr>np_printed := np_printed sink @ [report_line np]\<rparr>))))"
proof -
  obtain np1 v k where 1: "ec_broadcasts_recv np gui s h n (EXTRACT_REPORT_PACKET # rest) l = Inr np1" "ec_wf np1"
    "ec_sent np1 = ec_sent np" "mesh_frame v = (Meshdata_Conn, Some gui, k # node_report np)" "fst (snd (snd v)) = 0"
    "lane_view np1 MSG_TYPE_MESH_DATA = [v]"
    using report_request [OF inv room len state, of gui s h n] lane by (auto simp: returns_def)
  have live: "live MAX_TIMES_SENT [v] = [v]"
    using 1(5) by (cases v) (simp add: live_def MAX_TIMES_SENT_def)
  have "returns (timer_fires ec_cb True Mesh_Data_Timer np1)
      (\<lambda>np'. lane_view np' MSG_TYPE_MESH_DATA = [] \<and> ec_sent np' = ec_sent np1 @ [mesh_frame v])"
    using send_mesh_data_sends [OF stop_wf [OF 1(2)], of True Mesh_Data_Timer] 1(6) live
    by (auto simp: timer_fires_def ctimer_stop_def sends_def sq_effect_def Let_def elim!: returns_mono)
  then show ?thesis using 1(1,3,4) sink_prints [of np] by (auto simp: returns_def)
qed

lemma report_witness:
  "returns (bindR (ec_broadcasts_recv deployed (9, 0) (1, 0) 0 5 [EXTRACT_REPORT_PACKET] 1)
       (timer_fires ec_cb True Mesh_Data_Timer))
     (\<lambda>np'. \<exists>fr. ec_sent np' = ec_sent deployed @ [(Meshdata_Conn, Some (9, 0), fr)] \<and>
        meshdata_recv ec_cb (2, 0) 3 fr (length fr) booted =
          Inr (booted\<lparr>np_printed := np_printed booted @ [Gui_Node_Report_Packet (2, 0) 1 0 0 0]\<rparr>))"
proof -
  have lane: "lane_view deployed MSG_TYPE_MESH_DATA = []" by (rule deployed_lanes) (simp add: msg_type_defs)
  have room: "2 \<le> pb_free_cells (ec_sq deployed)" using deployed_connection(2) by simp
  have line: "report_line deployed = Gui_Node_Report_Packet (2, 0) 1 0 0 0" "ec_node_addr deployed = (2, 0)"
    using deployed_facts(2) by (simp_all add: set_up_def report_line_def cooja_packet_def uint8_to_uint16_def)
  have "\<not> np_is_reset_mode deployed" "\<not> np_is_sink_node deployed" using deployed_facts(2) by (simp_all add: set_up_def)
  from report_is_printed [OF deployed_facts(1) room _ _ _ this lane, of 1 "[]" "(9, 0)" "(1, 0)" 0 5] show ?thesis
    by (auto simp: line elim!: returns_mono)
qed

end
