(* ===== verification/Table_Spec.thy ===== *)
theory Table_Spec
  imports Example_Nodes
begin

text \<open>
  What the data structures promise their clients: the neighbor table is a list of addresses, the
  packet buffer is a set of queues that share their cells, the layouts of the packets can be read
  back, and the distance of two places is the Manhattan distance.
\<close>

subsection \<open>The neighbor table as a list\<close>

lemma remove_addr:
  "distinct (map fst es) \<Longrightarrow> List.find (\<lambda>e. nn_addr (snd e) = a) es = Some e \<Longrightarrow>
   map (\<lambda>e. nn_addr (snd e)) (filter (\<lambda>e'. fst e' \<noteq> fst e) es) = remove1 a (map (\<lambda>e. nn_addr (snd e)) es)"
proof (induction es)
  case (Cons f es)
  show ?case
  proof (cases "nn_addr (snd f) = a")
    case True
    have "fst e' \<noteq> fst f" if "e' \<in> set es" for e'
      using that Cons.prems(1) by (metis distinct.simps(2) image_eqI image_set list.simps(9))
    then have "filter (\<lambda>e'. fst e' \<noteq> fst f) es = es" by (simp add: filter_id_conv)
    with True Cons.prems(2) show ?thesis by auto
  next
    case False
    then have f: "List.find (\<lambda>e. nn_addr (snd e) = a) es = Some e" using Cons.prems(2) by simp
    then have "fst f \<noteq> fst e"
      using find_Some_in [OF f] Cons.prems(1) by (metis distinct.simps(2) image_eqI image_set list.simps(9))
    with Cons f False show ?thesis by simp
  qed
qed simp

lemma addrs_entries: "neighbor_addrs ns = map (\<lambda>e. nn_addr (snd e)) (entries ns)"
  by (simp add: neighbor_addrs_def items_def comp_def)

lemma remove_list:
  assumes "ns_wf ns"
  shows "returns (neighbors_remove ns a) (\<lambda>ns'. ns_wf ns' \<and> neighbor_addrs ns' = remove1 a (neighbor_addrs ns))"
proof (rule returns_mono [OF neighbors_remove_returns [OF assms]])
  fix ns' assume r: "ns_wf ns' \<and> entries ns' = (case List.find (\<lambda>e. nn_addr (snd e) = a) (entries ns) of
      None \<Rightarrow> entries ns | Some e \<Rightarrow> filter (\<lambda>e'. fst e' \<noteq> fst e) (entries ns))"
  show "ns_wf ns' \<and> neighbor_addrs ns' = remove1 a (neighbor_addrs ns)"
  proof (cases "List.find (\<lambda>e. nn_addr (snd e) = a) (entries ns)")
    case None
    then have "a \<notin> set (neighbor_addrs ns)" by (auto simp: find_None addrs_entries)
    with r None show ?thesis by (simp add: remove1_idem addrs_entries)
  next
    case (Some e)
    with r remove_addr [OF sq.ents_distinct [OF ns_wfD(1) [OF assms]] Some] show ?thesis
      by (simp add: addrs_entries)
  qed
qed

text \<open>
  C32: The neighbor table refines a list of at most eight addresses: adding puts an address in
  front, or fails an assertion when there are eight; removing takes the first occurrence out, if
  there is one; asking tells whether the address is in the list; clearing leaves nothing; and a
  pointer that finding returns leads to a node with that address.
\<close>

theorem neighbor_table_refines_list:
  assumes "ns_wf ns"
  shows "(if length (neighbor_addrs ns) < 8
      then returns (neighbors_add ns a) (\<lambda>ns'. ns_wf ns' \<and> neighbor_addrs ns' = a # neighbor_addrs ns)
      else neighbors_add ns a = Inl Assert_Failed) \<and>
    returns (neighbors_remove ns a) (\<lambda>ns'. ns_wf ns' \<and> neighbor_addrs ns' = remove1 a (neighbor_addrs ns)) \<and>
    neighbors_is_neighbor ns a = Inr (a \<in> set (neighbor_addrs ns)) \<and>
    returns (neighbors_clear ns) (\<lambda>ns'. ns_wf ns' \<and> neighbor_addrs ns' = []) \<and>
    returns (neighbors_find_neighbor_node ns a) (\<lambda>p. case p of
        None \<Rightarrow> a \<notin> set (neighbor_addrs ns)
      | Some i \<Rightarrow> returns (get_data ns i) (\<lambda>n. nn_addr n = a))"
proof -
  have len: "length (neighbor_addrs ns) = length (items ns)" by (simp add: neighbor_addrs_def)
  have add: "if length (neighbor_addrs ns) < 8
      then returns (neighbors_add ns a) (\<lambda>ns'. ns_wf ns' \<and> neighbor_addrs ns' = a # neighbor_addrs ns)
      else neighbors_add ns a = Inl Assert_Failed"
    using neighbors_add_room [OF assms, of a] neighbors_add_full [OF assms, of a] neighbors_size_le [OF assms]
    by (auto simp: len neighbor_addrs_def elim!: returns_mono)
  have find: "returns (neighbors_find_neighbor_node ns a) (\<lambda>p. case p of
        None \<Rightarrow> a \<notin> set (neighbor_addrs ns)
      | Some i \<Rightarrow> returns (get_data ns i) (\<lambda>n. nn_addr n = a))"
  proof (cases "List.find (\<lambda>e. nn_addr (snd e) = a) (entries ns)")
    case None
    then have "a \<notin> set (neighbor_addrs ns)" by (auto simp: find_None addrs_entries)
    with None show ?thesis by (simp add: neighbors_find_eq [OF assms])
  next
    case (Some e)
    have e: "(fst e, snd e) \<in> set (entries ns)" "nn_addr (snd e) = a" using find_Some_in [OF Some] by simp_all
    with Some get_data_entry [OF ns_wfD(1) [OF assms] e(1)] show ?thesis
      by (simp add: neighbors_find_eq [OF assms])
  qed
  have clear: "returns (neighbors_clear ns) (\<lambda>ns'. ns_wf ns' \<and> neighbor_addrs ns' = [])"
    by (rule returns_mono [OF neighbors_clear_returns [OF assms]]) (simp add: neighbor_addrs_def)
  from add remove_list [OF assms] neighbors_is_neighbor_eq [OF assms] clear find show ?thesis by blast
qed

lemma neighbor_table_witness:
  "returns (neighbors_remove (ec_ns deployed) (3, 0)) (\<lambda>ns. neighbor_addrs ns = [(6, 0), (1, 0)]) \<and>
   neighbors_is_neighbor (ec_ns deployed) (8, 0) = Inr False"
  using neighbor_table_refines_list [of "ec_ns deployed" "(3, 0)"] neighbor_table_refines_list [of "ec_ns deployed" "(8, 0)"]
    deployed_connection(4) ec_wfD(4) [OF deployed_connection(1)]
  by (auto elim!: returns_mono)

subsection \<open>The packet buffer\<close>

text \<open>What a cell holds for the lanes: the packet's memory in use and the receivers it waits for.\<close>

definition queued_packet :: "bytes \<Rightarrow> bytes \<Rightarrow> neighbors \<Rightarrow> buffered_packet \<Rightarrow> bool" where
  "queued_packet hdr data ns bp \<longleftrightarrow> take (length hdr + length data) (bp_p bp) = hdr @ data \<and>
     unat (bp_data_len bp) = length data \<and> times_sent bp = 0 \<and> items (unacked_ns bp) = rev (neighbor_addrs ns)"

text \<open>
  C31: The packet buffer is a set of first-in first-out queues over one pool of cells: as long as a
  cell is free and header and data are shorter than a packet, a packet is put at the end of the lane
  of its type, not sent yet, with its header, its data and its receivers; the packets before it and
  the other lanes stay as they are, and one more cell is in use.
\<close>

theorem packet_buffer_queues_packets:
  assumes "pb_wf pb" and "0 < pb_free_cells pb" and "t < 7" and "ns_wf ns"
    and "length data < 25"
  shows "returns (packet_buffer_broadcast_packet pb bp data (of_nat (length data)) (Some ns) t) (\<lambda>(pb', ns', i). i \<noteq> None \<and> pb_wf pb' \<and>
      (\<exists>ns1. ns' = Some ns1 \<and> entries ns1 = entries ns) \<and>
      (\<exists>q. lane_packets pb' t = lane_packets pb t @ [q] \<and> queued_packet (header_bytes bp) data ns q) \<and>
      (\<forall>u < 7. u \<noteq> t \<longrightarrow> lane_packets pb' u = lane_packets pb u) \<and> pb_free_cells pb' = pb_free_cells pb - 1)"
proof -
  have l: "unat (of_nat (length data) :: byte) = length data"
    using assms(5) by (simp add: unsigned_of_nat take_bit_nat_eq_self)
  have room: "length (entries (pbuffer pb)) < capacity (pbuffer pb)" using assms(2) by (simp add: pb_free_cells_def)
  have n: "\<forall>n. Some ns = Some n \<longrightarrow> ns_wf n" using assms(4) by simp
  have fits: "length (header_bytes bp) + unat (of_nat (length data) :: byte) < 32"
    "unat (of_nat (length data) :: byte) \<le> length data" using assms(5) l by simp_all
  have "length (used_slots q) = length (entries q)" for q :: "buffered_packet queue_buffer"
    by (simp add: entries_def)
  then have free: "pb_free_cells pb' = pb_free_cells pb - 1"
    if "used_slots (pbuffer pb') = i # used_slots (pbuffer pb)" "capacity (pbuffer pb') = capacity (pbuffer pb)" for pb' i
    using that by (metis pb_free_cells_def diff_Suc_1' diff_diff_left length_Cons plus_1_eq_Suc add.commute)
  show ?thesis
    unfolding packet_buffer_broadcast_packet_def
    by (rule returns_mono [OF buffer_packet_returns [OF assms(1) room assms(3) n fits]])
       (use l free in \<open>auto simp: filled_def queued_packet_def rel_option_iff split: option.splits\<close>)
qed

lemma packet_buffer_witness:
  "returns (packet_buffer_broadcast_packet (ec_sq deployed) (init_broadcast_packet 0 0 (2, 0) (2, 0) 1) [1, 2] 2
      (Some (ec_ns deployed)) MSG_TYPE_BROADCAST_DATA) (\<lambda>(pb, _, i). i \<noteq> None \<and> pb_free_cells pb = 11)"
proof -
  note wf = ec_wfD [OF deployed_connection(1)]
  have "returns (packet_buffer_broadcast_packet (ec_sq deployed) (init_broadcast_packet 0 0 (2, 0) (2, 0) 1) [1, 2]
      (of_nat (length [1, 2 :: byte])) (Some (ec_ns deployed)) MSG_TYPE_BROADCAST_DATA) (\<lambda>(pb, _, i). i \<noteq> None \<and> pb_free_cells pb = 11)"
    by (rule returns_mono [OF packet_buffer_queues_packets])
       (use sq_wfD(1) [OF wf(1)] wf(4) deployed_connection(2) in \<open>auto simp: msg_type_defs\<close>)
  then show ?thesis by simp
qed

text \<open>
  What packets look like in memory can be read back: the header of a frame, the destination
  of a unicast and the number of receivers of a multicast, and the two bytes of a 16-bit number,
  whatever follows in memory; distinct headers have distinct layouts.
\<close>

theorem layouts_can_be_read_back:
  "header_of (header_bytes h @ rest) = h \<and>
   header_of (unicast_bytes up @ rest) = up_hdr up \<and> addr_at (unicast_bytes up @ rest) 7 = up_destination up \<and>
   header_of (multicast_bytes mp @ rest) = mp_hdr mp \<and> (multicast_bytes mp @ rest) ! 7 = mp_num_ids mp \<and>
   uint8_to_uint16 (uint16_to_uint8 w) = w \<and> uint16_to_uint8 (uint8_to_uint16 b) = b \<and>
   (header_bytes h = header_bytes h') = (h = h')"
  by simp

text \<open>
  The distance of two coordinates is their Manhattan distance, computed on signed 32-bit
  numbers and cut to 16 bits; it is symmetric, zero from a place to itself, and exact as long as the
  Manhattan distance is below 65536.
\<close>

theorem distance_is_manhattan:
  "uint (coordinate_distance p q) = (\<bar>coord_val (cx p) - coord_val (cx q)\<bar> + \<bar>coord_val (cy p) - coord_val (cy q)\<bar>) mod 65536 \<and>
   coordinate_distance p q = coordinate_distance q p \<and> coordinate_distance p p = 0"
  using uint_coordinate_distance coordinate_distance_commute by simp

end
