(* ===== verification/Spec2Isabelle.thy ===== *)
theory Spec2Isabelle
  imports Queue_Refinement Queue_Unittest Emergency_Mac Sync_Test Tellstick Round_Spec Network_Spec Leader_Spec Alarm_Spec Keepalive_Spec Setup_Spec Report_Spec Table_Spec
begin

text \<open>
  Verification of the firmware of an indoor sensor network that leads people out of a burning
  building. The repository's directory \<open>src\<close> is written \<open>src/\<close> here: the firmware is in \<open>src/src/\<close>,
  below called by the file names only.

  The program. Every node runs \<open>main_reg_sensor.c\<close>. It learns its place, its neighbors and its role
  (ordinary, exit, sink) from a setup packet, which it burns to flash. When the exit paths are
  started, exit nodes announce a path of metric 0; every other node chooses the neighbor through
  which the way to an exit is shortest, and announces that path plus its own step. A node that
  senses a fire raises the alarm: all nodes synchronise their clocks and blink one after the other
  along the paths. Neighbors that stop sending keep-alives are removed. Below the node,
  \<open>emergency_net/emergency_conn.c\<close> sends packets: reliably to neighbors, with acknowledgements and
  retransmissions, by flooding, or through a mesh; and it elects the leader of the clock. Its packets
  wait in \<open>packet_buffer.c\<close>, seven queues in one block of cells of \<open>base/queue_buffer.c\<close>; the neighbor
  table, the duplicate history, the lists of unacknowledged neighbors and the list of fires are
  queue buffers too.

  What can go wrong in C is a value: a result is \<open>Inl\<close> of a fault (null dereference, access outside
  an object, failed \<open>ASSERT\<close>, a pointer walk with no end) or \<open>Inr\<close> of the new state. \<open>returns r P\<close>
  says that a run succeeds and its result satisfies \<open>P\<close>; \<open>ensures r P\<close> that \<open>P\<close> holds if it succeeds.
  Machine integers are words of their width; pointers into a block of cells are slot numbers.
  A global of the program is a field of one record (\<open>ec\<close>, extended by \<open>node_properties\<close>).

  Theories and code.
    \<^item> \<open>Prelude\<close>: results, faults, sequencing (\<open>bindR\<close>) and \<open>ASSERT\<close> of \<open>base/log.h\<close>.
    \<^item> \<open>Linked_Memory\<close>, \<open>Queue_Buffer\<close>, \<open>Queue_Interface\<close>: \<open>base/queue_buffer.c\<close>. The block of cells with
      its two linked lists is modelled cell by cell; \<open>qb_wf\<close> says that the lists are disjoint, cover the
      block and end. Locale \<open>slot_queue\<close>, and \<open>iterable_queue\<close>, which extends it, are the contract that
      the clients use, on lists of (slot, item) pairs; the queue buffer interprets both.
    \<^item> \<open>Coordinate\<close>: \<open>emergency_net/coordinate.c\<close>, \<open>base/util.h\<close>. \<open>Neighbors\<close>: \<open>neighbors.c\<close>,
      \<open>neighbor_node.h\<close>. \<open>Packet\<close>: \<open>packet.c\<close>, \<open>packet.h\<close>, with the bytes of every layout.
      \<open>Packet_Buffer\<close>: \<open>packet_buffer.c\<close>; a lane is one of its seven queues, and \<open>sq_wf\<close> the invariant.
    \<^item> \<open>Timesynch\<close>: \<open>timesynch.c\<close> and its glue: offsets of the clock, sampled from overheard frames and
      reduced to their median by the bubble sort \<open>bs\<close>.
    \<^item> \<open>Connection\<close> (state \<open>struct ec\<close>, timers, frame buffer), \<open>Emergency_Send\<close> (the timer callbacks),
      \<open>Emergency_Recv\<close> (receiving, the client's calls, the leader): \<open>emergency_conn.c\<close>. Their laws are in
      \<open>Connection_Laws\<close>, \<open>Send_Laws\<close>, \<open>Recv_Laws\<close>, \<open>Frame_Laws\<close> and \<open>Emergency_Steps\<close>, over what is seen of a
      connection: \<open>lane_view\<close> lists, for a lane, the packets with length, times sent and unacknowledged
      neighbors.
    \<^item> \<open>Emergency_Client\<close>: the events a connection handles, \<open>ec_handle\<close>, and locale \<open>ec_client\<close>, what a
      client owes it (its callbacks keep an invariant that contains the connection's). The sensor node
      is the client: the locale is interpreted on its callbacks \<open>ec_cb\<close> in \<open>Node_Laws\<close>.
    \<^item> \<open>Node_State\<close>, \<open>Node_Paths\<close>, \<open>Node_Handlers\<close>, \<open>Node_Commands\<close>, \<open>Node_Process\<close>: \<open>main_reg_sensor.c\<close>
      with \<open>base/node_properties.c\<close> and \<open>cooja_simulation2.impl\<close>, in the order of the file. \<open>Node_Laws\<close> has
      the invariant \<open>node_inv\<close>, \<open>Keepalive_Laws\<close> the loop over silent neighbors, \<open>Node_Setup\<close> setup and
      reboot, \<open>Node_Runs\<close> the step relation \<open>node_step\<close> and the \<open>reachable\<close> states.
    \<^item> \<open>Network_Model\<close>: many nodes and the announcements of paths between them, as the step relation
      \<open>net_step\<close> over a \<open>radio_network\<close>; the handlers are the program's own. \<open>Network_Hearing\<close> computes
      what a handler does with an announcement, \<open>Network_Laws\<close> has the invariant \<open>spreading\<close> (on every
      link, what the receiver holds is what the sender last said or is about to be told),
      \<open>Network_Steps\<close> shows that every step keeps it, \<open>Network_Quiet\<close> and \<open>Network_Ends\<close> what holds when
      no announcement is left, and that this happens.
    \<^item> \<open>Emergency_Mac\<close>: \<open>emergency_mac.c\<close>. \<open>Sync_Test\<close>: \<open>sync_test.c\<close>. \<open>Queue_Unittest\<close>:
      \<open>queue_buffer_unittest.c\<close>. \<open>Tellstick\<close>: \<open>src/GUI/Tellstick.c\<close>.
    \<^item> \<open>Example_Nodes\<close>, \<open>Example_Network\<close>: nodes that runs of the program reach, and a network of
      two of them; theorems are instantiated at them.

  What is shown.
    \<^item> \<open>Sending_Spec\<close>: every reachable state of a node is well formed; no timer that sends can fault in
      one; what lies in a lane has the type of the lane; a lane that holds packets has its timer running,
      except the mesh's, which waits for the mesh layer's answer.
    \<^item> \<open>Receiving_Spec\<close>: a frame is understood, with its data, by exactly the neighbors that have not
      acknowledged it; what an acknowledgement removes; packets are delivered once, remembered for 24
      packets, and not delivered at all without room to forward them.
    \<^item> \<open>Liveness_Spec\<close>: broadcasts drain in order; packets that nobody acknowledges are given up.
      \<open>Round_Spec\<close>: one round of the protocol over two nodes, from the data in the queue of one to the
      acknowledgement of the other; and how acknowledgements that cross are mistaken for each other.
    \<^item> \<open>Path_Spec\<close>: the loop over the neighbors computes a shortest usable path; the blinking.
      \<open>Learning_Spec\<close>: what a node learns from an announcement, and when it changes and announces its
      own path. \<open>Routes_Spec\<close>: networks of nodes; when all tables are up to date (\<open>settled\<close>), the best
      neighbors form routes to the exits, of the length that is announced. \<open>Shortest_Spec\<close>: these are
      shortest ways out. \<open>Network_Spec\<close>: these tables come about. Whatever order nodes start in and
      announcements are heard in, every announcement can be heard, there is no endless exchange of them, and
      when none is left the network is settled and every node's best neighbor is the first step of a
      shortest way to a started exit. No hypothesis on the states in between is left for networks of
      at most seven nodes.
    \<^item> \<open>Emergency_Spec\<close>: what sensing a fire does. \<open>Alarm_Spec\<close>: an alarm that arrives is
      passed on, once, and reaches the end of every chain of nodes. \<open>Leader_Spec\<close>: in a run of the
      events of the clock, a node follows the lowest leader that it hears of, as long as the sending
      queue has room and it does not lose its leader. \<open>Node_Spec\<close>: the fires known. \<open>Keepalive_Spec\<close>: the check for silent
      neighbors ends. \<open>Start_Spec\<close>: an exit node announces itself. \<open>Report_Spec\<close>: a report travels
      through the mesh and is printed as it was made.
    \<^item> \<open>Setup_Spec\<close>: printing and parsing a setup command, sending it, applying it, burning it and
      restoring it lose nothing.
    \<^item> \<open>Queue_Refinement\<close>: a queue buffer is a bounded double-ended queue under any sequence of
      operations. \<open>Table_Spec\<close>: the neighbor table is a list, the packet buffer a family of queues.
    \<^item> The same theories state where the code does less than its authors meant, each time on concrete
      reachable or well-formed states: a full sending queue follows the null pointer; after a packet is
      given up, its memory is sent again; reliable data is repeated without end; 16-bit sums of metrics
      wrap around, so a dead end announces a path; a path that has become longer is kept in silence; an own acknowledgement is taken for the
      one that arrives; the removal of neighbors steps over entries and can leave a blinking
      node without a path; some packets stop a node at an assertion.

  Bounds and fuel. A walk along a linked list has as much fuel as the block has cells, which the
  invariants show to be enough: the lists have no cycle. \<open>drop_neighbor_loop\<close> and \<open>drop_mesh_loop\<close>
  free a packet in every turn, so the twelve cells of the queue bound them. \<open>keepalive_fuel\<close> is
  9 * 8 + 9: between two of at most eight removals the loop makes at most nine turns. A parsed
  command has the fuel of its length, since every token consumes a character. Each of these loops is
  shown not to run out (\<open>Diverge\<close> is excluded where a theorem says \<open>returns\<close>). The theorems on networks
  of announcing nodes bound every path by 6 hops and every distance by 9000, so that the 16-bit
  metrics cannot wrap around; what happens beyond is shown in \<open>Path_Spec\<close>.

  Parameters. Contiki and Rime (the radio, the medium access, the mesh, the timers, random numbers)
  and the telldus library are not modelled as code. Whether the radio accepts a frame is an argument
  of every sending step; random numbers are a stream in the state; frames handed to the network are
  appended to \<open>ec_sent\<close>; received and overheard frames, expired timers, the light reading and the
  clock are arguments of events; the flash is a function from addresses to bytes with the erase and
  write functions of \<open>xmem\<close> on it. Any frame may be received, also one that no node sent. In a network
  of announcing nodes (\<open>Network_Model\<close>), the layer below is a queue from each node to each neighbor that
  loses and reorders nothing: a lane sends a packet until all neighbors have acknowledged it, before
  it turns to the next one, and runs in which a packet is given up are left aside. There, being
  neighbors is mutual, and the nodes do not burn.

  Not modelled. Log output, except the lines that the graphical interface reads. The interrupt of the
  blinking timer in the middle of a turn of the process: it is an event between two turns. The
  order in which timers fire: any timer may fire at any time, which includes every real order.
  \<open>atoi\<close> returns the mathematical value, where the 16-bit \<open>int\<close> of the processor is left undefined
  by C, so the round trip of setup commands is stated for coordinates below 32768.
  \<open>packet_buffer_unittest.c\<close> is written against an interface that no longer exists, and
  \<open>cooja_simulation1.impl\<close> is used by a build that the repository does not configure. The Java
  interface, the vendored Contiki tree and the processor's headers are not part of the firmware's
  own logic.
\<close>

end
